(* ===== verification/Ledger_Prelude.thy ===== *)
theory Ledger_Prelude
  imports Main "HOL-Library.Word"
begin

section \<open>Prelude: machine integers, results, lists and maps\<close>

text \<open>
  What the components share.
  \<^item> Rust's fixed-width integers are words: \<open>i64\<close> is a \<open>64 word\<close> read by \<open>sint\<close>, \<open>u64\<close>
    and \<open>u32\<close> are words read by \<open>unat\<close>. The wrap-around of the release profile (and of
    the atomics' \<open>fetch_add\<close> and \<open>fetch_sub\<close>) is the words' own arithmetic; the checked
    and saturating operations of the standard library are defined here.
  \<^item> \<open>Result<T, E>\<close> is \<open>'e + 'a\<close>, with \<open>Ok\<close> and \<open>Err\<close> as abbreviations of the
    injections.
  \<^item> Identifiers drawn from the \<open>uuid\<close> package and instants read from the \<open>chrono\<close>
    package are arguments of the operations that draw them.
  \<^item> \<open>update_first\<close> is the standard library's \<open>iter_mut().find(p)\<close> followed by an
    assignment through the reference it returns.
  The collections \<open>i64_simps\<close> (ranges and exact signed arithmetic) and \<open>map_total_simps\<close>
  (sums over the values of a map) carry the arithmetic of the component proofs.
\<close>

type_synonym i64 = "64 word"
type_synonym u64 = "64 word"
type_synonym u32 = "32 word"
type_synonym u8 = "8 word"
type_synonym uuid = "128 word"
type_synonym timestamp = int
type_synonym ('a, 'e) result = "'e + 'a"

text \<open>The decimal numbers of the \<open>rust_decimal\<close> package, where they are only carried along.\<close>

typedecl decimal

abbreviation Ok :: "'a \<Rightarrow> ('a, 'e) result" where "Ok \<equiv> Inr"
abbreviation Err :: "'e \<Rightarrow> ('a, 'e) result" where "Err \<equiv> Inl"

definition is_ok :: "('a, 'e) result \<Rightarrow> bool" where
  "is_ok r = (case r of Ok _ \<Rightarrow> True | Err _ \<Rightarrow> False)"

lemma is_ok_simps [simp]: "is_ok (Ok x)" "\<not> is_ok (Err e)"
  by (simp_all add: is_ok_def)

lemma is_ok_iff: "is_ok r \<longleftrightarrow> (\<exists>x. r = Ok x)"
  by (cases r) simp_all

lemma not_is_ok_iff: "\<not> is_ok r \<longleftrightarrow> (\<exists>e. r = Err e)"
  by (cases r) simp_all

named_theorems i64_simps
named_theorems map_total_simps

subsection \<open>Signed 64-bit integers\<close>

definition i64_min :: int where "i64_min = - 9223372036854775808"
definition i64_max :: int where "i64_max = 9223372036854775807"

definition i64_in_range :: "int \<Rightarrow> bool" where
  "i64_in_range n \<longleftrightarrow> i64_min \<le> n \<and> n \<le> i64_max"

definition checked_add_i64 :: "i64 \<Rightarrow> i64 \<Rightarrow> i64 option" where
  "checked_add_i64 a b = (if i64_in_range (sint a + sint b) then Some (a + b) else None)"

definition clamp_i64 :: "int \<Rightarrow> int" where
  "clamp_i64 n = (if n < i64_min then i64_min else if n > i64_max then i64_max else n)"

definition saturating_add_i64 :: "i64 \<Rightarrow> i64 \<Rightarrow> i64" where
  "saturating_add_i64 a b = word_of_int (clamp_i64 (sint a + sint b))"

lemma i64_bounds [i64_simps]: "i64_min = - 9223372036854775808" "i64_max = 9223372036854775807"
  by (simp_all add: i64_min_def i64_max_def)

lemma i64_in_range_iff [i64_simps]:
  "i64_in_range n \<longleftrightarrow> - 9223372036854775808 \<le> n \<and> n \<le> 9223372036854775807"
  by (simp add: i64_in_range_def i64_min_def i64_max_def)

lemma sint_i64_lower: "- 9223372036854775808 \<le> sint (x :: i64)"
  using sint_greater_eq [of x] by simp

lemma sint_i64_upper: "sint (x :: i64) \<le> 9223372036854775807"
  using sint_less [of x] by simp

lemma sint_of_int_i64: "i64_in_range n \<Longrightarrow> sint (word_of_int n :: i64) = n"
  by (simp add: sint_sbintrunc' i64_in_range_iff signed_take_bit_int_eq_self)

lemma sint_add_i64: "i64_in_range (sint a + sint b) \<Longrightarrow> sint (a + b :: i64) = sint a + sint b"
  using sint_of_int_i64 [of "sint a + sint b"] by simp

lemma sint_sub_i64: "i64_in_range (sint a - sint b) \<Longrightarrow> sint (a - b :: i64) = sint a - sint b"
  using sint_of_int_i64 [of "sint a - sint b"] by simp

lemma checked_add_i64_Some:
  "checked_add_i64 a b = Some c \<longleftrightarrow> i64_in_range (sint a + sint b) \<and> c = a + b"
  by (auto simp: checked_add_i64_def)

lemma checked_add_i64_None: "checked_add_i64 a b = None \<longleftrightarrow> \<not> i64_in_range (sint a + sint b)"
  by (auto simp: checked_add_i64_def)

lemma sint_saturating_add_i64: "sint (saturating_add_i64 a b) = clamp_i64 (sint a + sint b)"
  unfolding saturating_add_i64_def
  by (rule sint_of_int_i64) (auto simp: clamp_i64_def i64_simps)

subsection \<open>Lists\<close>

fun update_first :: "('a \<Rightarrow> bool) \<Rightarrow> ('a \<Rightarrow> 'a) \<Rightarrow> 'a list \<Rightarrow> 'a list" where
  "update_first p f [] = []"
| "update_first p f (x # xs) = (if p x then f x # xs else x # update_first p f xs)"

lemma length_update_first [simp]: "length (update_first p f xs) = length xs"
  by (induction xs) simp_all

lemma update_first_none: "(\<And>x. x \<in> set xs \<Longrightarrow> \<not> p x) \<Longrightarrow> update_first p f xs = xs"
  by (induction xs) auto

lemma map_update_first: "(\<And>x. g (f x) = g x) \<Longrightarrow> map g (update_first p f xs) = map g xs"
  by (induction xs) auto

lemma find_update_first:
  "(\<And>x. p x \<Longrightarrow> p (f x)) \<Longrightarrow> List.find p (update_first p f xs) = map_option f (List.find p xs)"
  by (induction xs) auto

lemma set_update_first: "set (update_first p f xs) \<subseteq> set xs \<union> f ` {x \<in> set xs. p x}"
  by (induction xs) auto

lemma sum_list_map_update:
  fixes f :: "'a \<Rightarrow> 'b :: ab_group_add"
  assumes "i < length xs"
  shows "sum_list (map f (xs[i := x])) = sum_list (map f xs) - f (xs ! i) + f x"
  using assms
proof (induction xs arbitrary: i)
  case Nil
  then show ?case by simp
next
  case (Cons y ys)
  then show ?case by (cases i) (simp_all add: algebra_simps)
qed

lemma length_filter_update:
  assumes "i < length xs"
  shows "length (filter P (xs[i := x])) + (if P (xs ! i) then 1 else 0) =
    length (filter P xs) + (if P x then 1 else 0)"
  using assms
proof (induction xs arbitrary: i)
  case Nil
  then show ?case by simp
next
  case (Cons y ys)
  then show ?case by (cases i) auto
qed

lemma sum_list_map_nth_le_int:
  fixes f :: "'a \<Rightarrow> int"
  assumes "i < length xs" and "\<And>x. x \<in> set xs \<Longrightarrow> 0 \<le> f x"
  shows "f (xs ! i) \<le> sum_list (map f xs)"
  using assms
proof (induction xs arbitrary: i)
  case Nil
  then show ?case by simp
next
  case (Cons y ys)
  have "0 \<le> sum_list (map f ys)"
    using Cons.prems(2) by (intro sum_list_nonneg) auto
  with Cons show ?case by (cases i) (auto intro: add_increasing)
qed

subsection \<open>Decimal text\<close>

text \<open>What \<open>{}\<close> prints for an unsigned integer.\<close>

fun show_nat :: "nat \<Rightarrow> string" where
  "show_nat n = (if n < 10 then [char_of (48 + n)] else show_nat (n div 10) @ [char_of (48 + n mod 10)])"

declare show_nat.simps [simp del]

lemma show_nat_nonempty [simp]: "show_nat n \<noteq> []"
  by (subst show_nat.simps) simp

definition read_digit :: "string \<Rightarrow> nat" where
  "read_digit s = foldl (\<lambda>a c. 10 * a + (of_char c - 48)) 0 s"

lemma read_show_nat: "read_digit (show_nat n) = n"
proof (induction n rule: show_nat.induct)
  case (1 n)
  show ?case
  proof (cases "n < 10")
    case True
    then show ?thesis by (subst show_nat.simps) (simp add: read_digit_def take_bit_nat_eq_self)
  next
    case False
    have "(of_char (char_of (48 + n mod 10)) :: nat) - 48 = n mod 10"
      by (simp add: take_bit_nat_eq_self)
    with False 1 [OF False] show ?thesis
      by (subst show_nat.simps) (simp add: read_digit_def)
  qed
qed

lemma show_nat_inject [simp]: "show_nat m = show_nat n \<longleftrightarrow> m = n"
  by (metis read_show_nat)

lemma show_nat_chars: "c \<in> set (show_nat n) \<Longrightarrow> 48 \<le> (of_char c :: nat) \<and> (of_char c :: nat) \<le> 57"
proof (induction n rule: show_nat.induct)
  case (1 n)
  show ?case
  proof (cases "n < 10")
    case True
    with "1.prems" show ?thesis by (subst (asm) show_nat.simps) (auto simp: take_bit_nat_eq_self)
  next
    case False
    with 1 show ?thesis by (subst (asm) show_nat.simps) (auto simp: take_bit_nat_eq_self)
  qed
qed

text \<open>Two texts that are cut at the first occurrence of a character.\<close>

lemma cut_at:
  "c \<notin> set xs \<Longrightarrow> c \<notin> set xs' \<Longrightarrow> xs @ c # ys = xs' @ c # ys' \<longleftrightarrow> xs = xs' \<and> ys = ys'"
proof (induction xs arbitrary: xs')
  case Nil
  then show ?case by (cases xs') auto
next
  case (Cons x xs)
  then show ?case by (cases xs') auto
qed

subsection \<open>Sums over the values of a map\<close>

definition map_total :: "('v \<Rightarrow> int) \<Rightarrow> ('k \<rightharpoonup> 'v) \<Rightarrow> int" where
  "map_total f m = (\<Sum>k \<in> dom m. f (the (m k)))"

lemma map_total_empty [map_total_simps]: "map_total f Map.empty = 0"
  by (simp add: map_total_def)

lemma map_total_insert [map_total_simps]:
  assumes "finite (dom m)" and "m k = None"
  shows "map_total f (m(k \<mapsto> v)) = map_total f m + f v"
proof -
  have "k \<notin> dom m" using assms(2) by auto
  then have "(\<Sum>j \<in> dom m. f (the ((m(k \<mapsto> v)) j))) = (\<Sum>j \<in> dom m. f (the (m j)))"
    by (intro sum.cong) auto
  with assms(1) \<open>k \<notin> dom m\<close> show ?thesis by (simp add: map_total_def)
qed

lemma map_total_update [map_total_simps]:
  assumes "finite (dom m)" and "m k = Some u"
  shows "map_total f (m(k \<mapsto> v)) = map_total f m - f u + f v"
proof -
  have "m = (m(k := None))(k \<mapsto> u)" using assms(2) by (simp add: map_upd_triv)
  moreover have "map_total f ((m(k := None))(k \<mapsto> u)) = map_total f (m(k := None)) + f u"
    using assms(1) by (intro map_total_insert) simp_all
  moreover have "map_total f ((m(k := None))(k \<mapsto> v)) = map_total f (m(k := None)) + f v"
    using assms(1) by (intro map_total_insert) simp_all
  ultimately show ?thesis by simp
qed

end
