(* ===== verification/Account.thy ===== *)
theory Account
  imports Ledger_Prelude
begin

section \<open>Ledger accounts\<close>

text \<open>
  \<open>src/domain/account.rs\<close>, run by one thread at a time: the record of an account, its
  lifecycle, and the four balance operations with every early return. The interleaved
  execution of the same code, one atomic access at a time, is theory \<open>Account_CAS\<close>.
  \<open>Mutex\<close> fields are plain fields (no critical section of the file can panic, so no lock is
  ever poisoned). \<open>now\<close> is what \<open>chrono::Utc::now()\<close> returns.
\<close>

datatype account_type = Asset | Liability | Equity | Revenue | Expense

datatype account_status = Open | Frozen | Closed

datatype account_status_error =
    ClosedAccount
  | InvalidTransition account_status account_status

record account =
  acc_id :: uuid
  acc_type :: account_type
  acc_currency :: string
  balance :: i64
  available_balance :: i64
  acc_status :: account_status
  owner_party_id :: "uuid option"
  acc_created_at :: timestamp
  last_updated :: timestamp

datatype debit_error =
    DebitAccountNotFound uuid
  | DebitInvalidAmount
  | DebitAccountNotOpen account_status
  | DebitInsufficientFunds i64 i64

datatype credit_error =
    CreditAccountNotFound uuid
  | CreditInvalidAmount
  | CreditAccountNotOpen account_status
  | CreditOverflow

datatype hold_error =
    HoldAccountNotFound uuid
  | HoldAccountNotOpen account_status
  | HoldInvalidAmount
  | HoldInsufficientFunds i64 i64
  | ReleaseExceedsHeld i64 i64 i64

definition account_new ::
  "uuid \<Rightarrow> timestamp \<Rightarrow> timestamp \<Rightarrow> account_type \<Rightarrow> string \<Rightarrow> i64 \<Rightarrow> uuid option \<Rightarrow> account"
where
  "account_new uid now1 now2 ty cur initial owner =
     \<lparr>acc_id = uid, acc_type = ty, acc_currency = cur, balance = initial,
      available_balance = initial, acc_status = Open, owner_party_id = owner,
      acc_created_at = now1, last_updated = now2\<rparr>"

definition account_clone :: "account \<Rightarrow> account" where
  "account_clone a =
     \<lparr>acc_id = acc_id a, acc_type = acc_type a, acc_currency = acc_currency a,
      balance = balance a, available_balance = available_balance a,
      acc_status = acc_status a, owner_party_id = owner_party_id a,
      acc_created_at = acc_created_at a, last_updated = last_updated a\<rparr>"

definition balance_cents :: "account \<Rightarrow> i64" where
  "balance_cents a = balance a"

definition available_balance_cents :: "account \<Rightarrow> i64" where
  "available_balance_cents a = available_balance a"

fun check_transition :: "account_status \<Rightarrow> account_status \<Rightarrow> (unit, account_status_error) result"
where
  "check_transition Closed _ = Err ClosedAccount"
| "check_transition Open Closed = Ok ()"
| "check_transition Frozen Closed = Ok ()"
| "check_transition Open Frozen = Ok ()"
| "check_transition Frozen Open = Ok ()"
| "check_transition from to = Err (InvalidTransition from to)"

definition set_status ::
  "account \<Rightarrow> account_status \<Rightarrow> timestamp \<Rightarrow> (unit, account_status_error) result \<times> account"
where
  "set_status a new now =
     (case check_transition (acc_status a) new of
        Err e \<Rightarrow> (Err e, a)
      | Ok _ \<Rightarrow> (Ok (), a\<lparr>acc_status := new, last_updated := now\<rparr>))"

definition set_status_unchecked :: "account \<Rightarrow> account_status \<Rightarrow> timestamp \<Rightarrow> account" where
  "set_status_unchecked a new now = a\<lparr>acc_status := new, last_updated := now\<rparr>"

text \<open>
  With no other thread, the first \<open>compare_exchange\<close> of each loop succeeds. \<open>fetch_sub\<close>
  wraps, and so does the subtraction after it.
\<close>

definition debit :: "account \<Rightarrow> i64 \<Rightarrow> timestamp \<Rightarrow> (i64, debit_error) result \<times> account" where
  "debit a amount now =
     (if sint amount \<le> 0 then (Err DebitInvalidAmount, a)
      else if acc_status a \<noteq> Open then (Err (DebitAccountNotOpen (acc_status a)), a)
      else let available = available_balance a in
        if sint available < sint amount
        then (Err (DebitInsufficientFunds available amount), a)
        else let new_available = available - amount; new_balance = balance a - amount in
          (Ok new_balance,
           a\<lparr>available_balance := new_available, balance := new_balance, last_updated := now\<rparr>))"

text \<open>
  The second \<open>checked_add\<close> of \<open>credit\<close> returns \<open>Overflow\<close> after \<open>balance\<close> has already been
  written, and the model keeps that.
\<close>

definition credit :: "account \<Rightarrow> i64 \<Rightarrow> timestamp \<Rightarrow> (i64, credit_error) result \<times> account" where
  "credit a amount now =
     (if sint amount \<le> 0 then (Err CreditInvalidAmount, a)
      else if acc_status a \<noteq> Open then (Err (CreditAccountNotOpen (acc_status a)), a)
      else case checked_add_i64 (balance a) amount of
        None \<Rightarrow> (Err CreditOverflow, a)
      | Some new_balance \<Rightarrow>
          let a1 = a\<lparr>balance := new_balance\<rparr> in
          (case checked_add_i64 (available_balance a1) amount of
             None \<Rightarrow> (Err CreditOverflow, a1)
           | Some new_avail \<Rightarrow>
               (Ok new_balance, a1\<lparr>available_balance := new_avail, last_updated := now\<rparr>)))"

definition place_hold :: "account \<Rightarrow> i64 \<Rightarrow> (unit, hold_error) result \<times> account" where
  "place_hold a amount =
     (if sint amount \<le> 0 then (Err HoldInvalidAmount, a)
      else if acc_status a \<noteq> Open then (Err (HoldAccountNotOpen (acc_status a)), a)
      else let available = available_balance a in
        if sint available < sint amount
        then (Err (HoldInsufficientFunds available amount), a)
        else (Ok (), a\<lparr>available_balance := available - amount\<rparr>))"

definition release_hold :: "account \<Rightarrow> i64 \<Rightarrow> (unit, hold_error) result \<times> account" where
  "release_hold a amount =
     (if sint amount \<le> 0 then (Err HoldInvalidAmount, a)
      else if acc_status a \<noteq> Open then (Err (HoldAccountNotOpen (acc_status a)), a)
      else let current = available_balance a; bal = balance a in
        case checked_add_i64 current amount of
          None \<Rightarrow> (Err HoldInvalidAmount, a)
        | Some new_val \<Rightarrow>
            if sint new_val > sint bal then (Err (ReleaseExceedsHeld current bal amount), a)
            else (Ok (), a\<lparr>available_balance := new_val\<rparr>))"

lemmas account_defs = debit_def credit_def place_hold_def release_hold_def set_status_def

subsection \<open>The invariant\<close>

text \<open>The held amount \<open>balance - available_balance\<close> is never negative.\<close>

definition account_inv :: "account \<Rightarrow> bool" where
  "account_inv a \<longleftrightarrow> sint (available_balance a) \<le> sint (balance a)"

datatype account_op =
    OpDebit i64 | OpCredit i64 | OpHold i64 | OpRelease i64 | OpStatus account_status

text \<open>One call on an account: whether it returned \<open>Ok\<close>, and the account after it.\<close>

fun account_call :: "account_op \<Rightarrow> timestamp \<Rightarrow> account \<Rightarrow> bool \<times> account" where
  "account_call (OpDebit n) now a = map_prod is_ok id (debit a n now)"
| "account_call (OpCredit n) now a = map_prod is_ok id (credit a n now)"
| "account_call (OpHold n) now a = map_prod is_ok id (place_hold a n)"
| "account_call (OpRelease n) now a = map_prod is_ok id (release_hold a n)"
| "account_call (OpStatus s) now a = map_prod is_ok id (set_status a s now)"

fun account_calls :: "(account_op \<times> timestamp) list \<Rightarrow> account \<Rightarrow> account" where
  "account_calls [] a = a"
| "account_calls ((op, now) # ops) a = account_calls ops (snd (account_call op now a))"

subsection \<open>The contract: a purse\<close>

text \<open>
  What an account promises, over unbounded integers: the funds, the part of them on hold and
  the lifecycle state. Each operation either does exactly its effect or is refused and changes
  nothing.
\<close>

record purse =
  funds :: int
  held :: int
  pstate :: account_status

definition purse_of :: "account \<Rightarrow> purse" where
  "purse_of a =
     \<lparr>funds = sint (balance a), held = sint (balance a) - sint (available_balance a),
      pstate = acc_status a\<rparr>"

fun purse_call :: "account_op \<Rightarrow> purse \<Rightarrow> bool \<times> purse" where
  "purse_call (OpDebit n) p =
     (if 0 < sint n \<and> pstate p = Open \<and> sint n \<le> funds p - held p
      then (True, p\<lparr>funds := funds p - sint n\<rparr>) else (False, p))"
| "purse_call (OpCredit n) p =
     (if 0 < sint n \<and> pstate p = Open \<and> funds p + sint n \<le> i64_max
      then (True, p\<lparr>funds := funds p + sint n\<rparr>) else (False, p))"
| "purse_call (OpHold n) p =
     (if 0 < sint n \<and> pstate p = Open \<and> sint n \<le> funds p - held p
      then (True, p\<lparr>held := held p + sint n\<rparr>) else (False, p))"
| "purse_call (OpRelease n) p =
     (if 0 < sint n \<and> pstate p = Open \<and> sint n \<le> held p
      then (True, p\<lparr>held := held p - sint n\<rparr>) else (False, p))"
| "purse_call (OpStatus s) p =
     (if pstate p \<noteq> Closed \<and> s \<noteq> pstate p then (True, p\<lparr>pstate := s\<rparr>) else (False, p))"

fun purse_calls :: "account_op list \<Rightarrow> purse \<Rightarrow> purse" where
  "purse_calls [] p = p"
| "purse_calls (op # ops) p = purse_calls ops (snd (purse_call op p))"

subsection \<open>Behaviour of the operations\<close>

lemma debit_OkD:
  assumes "account_inv a" and "debit a n now = (Ok v, a')"
  shows "0 < sint n" and "acc_status a = Open" and "sint n \<le> sint (available_balance a)"
    and "sint (balance a') = sint (balance a) - sint n"
    and "sint (available_balance a') = sint (available_balance a) - sint n"
    and "v = balance a'" and "acc_status a' = Open" and "acc_id a' = acc_id a"
proof -
  have "sint (balance a - n) = sint (balance a) - sint n"
    and "sint (available_balance a - n) = sint (available_balance a) - sint n"
    if "0 < sint n" "sint n \<le> sint (available_balance a)"
    using that assms(1) sint_i64_upper [of "balance a"] sint_i64_upper [of "available_balance a"]
    by (auto intro!: sint_sub_i64 simp: account_inv_def i64_simps)
  with assms(2) show "0 < sint n" "acc_status a = Open" "sint n \<le> sint (available_balance a)"
    "sint (balance a') = sint (balance a) - sint n"
    "sint (available_balance a') = sint (available_balance a) - sint n"
    "v = balance a'" "acc_status a' = Open" "acc_id a' = acc_id a"
    by (auto simp: debit_def Let_def split: if_splits)
qed

lemma debit_ErrD: "debit a n now = (Err e, a') \<Longrightarrow> a' = a"
  by (auto simp: debit_def Let_def split: if_splits)

lemma credit_OkD:
  assumes "account_inv a" and "credit a n now = (Ok v, a')"
  shows "0 < sint n" and "acc_status a = Open"
    and "sint (balance a') = sint (balance a) + sint n"
    and "sint (available_balance a') = sint (available_balance a) + sint n"
    and "v = balance a'" and "acc_status a' = Open" and "acc_id a' = acc_id a"
  using assms(2)
  by (auto simp: credit_def Let_def checked_add_i64_Some sint_add_i64
      split: if_splits option.splits)

text \<open>Under the invariant the second addition cannot overflow, so an error changes nothing.\<close>

lemma available_no_overflow:
  assumes "account_inv a" and "0 < sint n" and "i64_in_range (sint (balance a) + sint n)"
  shows "i64_in_range (sint (available_balance a) + sint n)"
  using assms sint_i64_lower [of "available_balance a"]
  by (auto simp: account_inv_def i64_simps)

lemma credit_ErrD: "account_inv a \<Longrightarrow> credit a n now = (Err e, a') \<Longrightarrow> a' = a"
  by (auto simp: credit_def Let_def checked_add_i64_Some checked_add_i64_None
      available_no_overflow split: if_splits option.splits)

lemma hold_refines:
  assumes "account_inv a" and "place_hold a n = (r, a')"
  shows "purse_call (OpHold n) (purse_of a) = (is_ok r, purse_of a')"
proof -
  have "sint (available_balance a - n) = sint (available_balance a) - sint n"
    if "0 < sint n" "sint n \<le> sint (available_balance a)"
    using that sint_i64_upper [of "available_balance a"]
    by (auto intro!: sint_sub_i64 simp: i64_simps)
  with assms(2) show ?thesis
    by (auto simp: place_hold_def purse_of_def Let_def split: if_splits)
qed

lemma release_refines:
  assumes "account_inv a" and "release_hold a n = (r, a')"
  shows "purse_call (OpRelease n) (purse_of a) = (is_ok r, purse_of a')"
proof -
  have "i64_in_range (sint (available_balance a) + sint n)"
    if "0 < sint n" "sint n \<le> sint (balance a) - sint (available_balance a)"
    using that sint_i64_lower [of "available_balance a"] sint_i64_upper [of "balance a"]
    by (auto simp: i64_simps)
  with assms(2) show ?thesis
    by (auto simp: release_hold_def purse_of_def Let_def checked_add_i64_Some
        checked_add_i64_None sint_add_i64 split: if_splits option.splits)
qed

lemma debit_refines:
  assumes "account_inv a" and "debit a n now = (r, a')"
  shows "purse_call (OpDebit n) (purse_of a) = (is_ok r, purse_of a')"
proof (cases r)
  case (Inl e)
  with assms show ?thesis
    by (auto simp: debit_def purse_of_def Let_def split: if_splits)
next
  case (Inr v)
  with assms debit_OkD [of a n now v a'] show ?thesis by (simp add: purse_of_def)
qed

lemma credit_range:
  "0 < sint n \<Longrightarrow> sint (b :: i64) + sint (n :: i64) \<le> i64_max \<Longrightarrow> i64_in_range (sint b + sint n)"
  using sint_i64_lower [of b] by (simp add: i64_simps)

lemma credit_refines:
  assumes "account_inv a" and "credit a n now = (r, a')"
  shows "purse_call (OpCredit n) (purse_of a) = (is_ok r, purse_of a')"
proof (cases r)
  case (Inl e)
  with assms credit_ErrD [of a n now e a'] have "a' = a" by simp
  with assms Inl show ?thesis
    by (auto simp: credit_def purse_of_def Let_def checked_add_i64_Some checked_add_i64_None
        available_no_overflow credit_range split: if_splits option.splits)
next
  case (Inr v)
  with assms credit_OkD [of a n now v a'] sint_i64_upper [of "balance a'"] show ?thesis
    by (simp add: purse_of_def i64_simps)
qed

lemma status_refines:
  "set_status a s now = (r, a') \<Longrightarrow>
   purse_call (OpStatus s) (purse_of a) = (is_ok r, purse_of a')"
  by (cases "acc_status a"; cases s) (auto simp: set_status_def purse_of_def)

lemma account_inv_purse: "account_inv a \<longleftrightarrow> 0 \<le> held (purse_of a)"
  by (simp add: account_inv_def purse_of_def)

lemma purse_call_held: "0 \<le> held p \<Longrightarrow> 0 \<le> held (snd (purse_call op p))"
  by (cases op) auto

lemma account_call_refines:
  assumes "account_inv a"
  shows "purse_call op (purse_of a) = map_prod id purse_of (account_call op now a)"
  using assms
  by (cases op)
    (auto simp: map_prod_def simp del: purse_call.simps split: prod.split
      intro: debit_refines credit_refines hold_refines release_refines status_refines)

lemma account_call_inv: "account_inv a \<Longrightarrow> account_inv (snd (account_call op now a))"
  using purse_call_held [of "purse_of a" op] account_call_refines [of a op now]
  by (simp add: account_inv_purse)

lemma account_calls_inv: "account_inv a \<Longrightarrow> account_inv (account_calls ops a)"
  by (induction ops a rule: account_calls.induct) (auto intro: account_call_inv)


subsection \<open>The interface the services rely on\<close>

text \<open>
  The account registry and the ledger call only \<open>debit\<close> and \<open>credit\<close>, and rely on this much
  of them: a call that returns \<open>Ok\<close> moves exactly the amount and keeps the invariant, a call
  that returns \<open>Err\<close> changes nothing.
\<close>

locale funds_cell =
  fixes cell_inv :: "'c \<Rightarrow> bool"
    and cell_funds :: "'c \<Rightarrow> int"
    and cell_debit :: "'c \<Rightarrow> i64 \<Rightarrow> timestamp \<Rightarrow> (i64, 'de) result \<times> 'c"
    and cell_credit :: "'c \<Rightarrow> i64 \<Rightarrow> timestamp \<Rightarrow> (i64, 'ce) result \<times> 'c"
  assumes debit_ok: "cell_inv c \<Longrightarrow> cell_debit c n t = (Ok v, c') \<Longrightarrow>
      cell_inv c' \<and> cell_funds c' = cell_funds c - sint n"
    and debit_err: "cell_inv c \<Longrightarrow> cell_debit c n t = (Err e, c') \<Longrightarrow> c' = c"
    and credit_ok: "cell_inv c \<Longrightarrow> cell_credit c n t = (Ok v, c') \<Longrightarrow>
      cell_inv c' \<and> cell_funds c' = cell_funds c + sint n"
    and credit_err: "cell_inv c \<Longrightarrow> cell_credit c n t = (Err f, c') \<Longrightarrow> c' = c"
begin

definition cells_inv :: "('k \<rightharpoonup> 'c) \<Rightarrow> bool" where
  "cells_inv m \<longleftrightarrow> finite (dom m) \<and> (\<forall>c \<in> ran m. cell_inv c)"

lemma cells_inv_finite: "cells_inv m \<Longrightarrow> finite (dom m)"
  by (simp add: cells_inv_def)

lemma cells_invD: "cells_inv m \<Longrightarrow> m k = Some c \<Longrightarrow> cell_inv c"
  by (auto simp: cells_inv_def ran_def)

lemma cells_inv_upd: "cells_inv m \<Longrightarrow> cell_inv c \<Longrightarrow> cells_inv (m(k \<mapsto> c))"
  by (auto simp: cells_inv_def ran_def)

lemma cells_debit_ok:
  assumes "cells_inv m" "m k = Some c" "cell_debit c n t = (Ok v, c')"
  shows "cells_inv (m(k \<mapsto> c'))"
    and "map_total cell_funds (m(k \<mapsto> c')) = map_total cell_funds m - sint n"
  using assms debit_ok [OF cells_invD [OF assms(1,2)] assms(3)]
  by (simp_all add: map_total_update cells_inv_finite cells_inv_upd)

lemma cells_credit_ok:
  assumes "cells_inv m" "m k = Some c" "cell_credit c n t = (Ok v, c')"
  shows "cells_inv (m(k \<mapsto> c'))"
    and "map_total cell_funds (m(k \<mapsto> c')) = map_total cell_funds m + sint n"
  using assms credit_ok [OF cells_invD [OF assms(1,2)] assms(3)]
  by (simp_all add: map_total_update cells_inv_finite cells_inv_upd)

lemma cells_debit_err:
  "cells_inv m \<Longrightarrow> m k = Some c \<Longrightarrow> cell_debit c n t = (Err e, c') \<Longrightarrow> m(k \<mapsto> c') = m"
  by (metis cells_invD debit_err fun_upd_triv)

lemma cells_credit_err:
  "cells_inv m \<Longrightarrow> m k = Some c \<Longrightarrow> cell_credit c n t = (Err e, c') \<Longrightarrow> m(k \<mapsto> c') = m"
  by (metis cells_invD credit_err fun_upd_triv)

end

interpretation acct: funds_cell account_inv "\<lambda>a. sint (balance a)" debit credit
proof (unfold_locales, goal_cases)
  case (1 c n t v c')
  from debit_OkD [OF this] \<open>account_inv c\<close> show ?case by (simp add: account_inv_def)
next
  case (2 c n t e c')
  then show ?case by (auto dest: debit_ErrD)
next
  case (3 c n t v c')
  from credit_OkD [OF this] \<open>account_inv c\<close> show ?case by (simp add: account_inv_def)
next
  case (4 c n t e c')
  then show ?case by (rule credit_ErrD)
qed

subsection \<open>Properties\<close>

lemma account_new_inv: "account_inv (account_new uid t1 t2 ty cur initial owner)"
  by (simp add: account_inv_def account_new_def)

lemma account_clone_id: "account_clone a = a"
  by (simp add: account_clone_def)

lemma account_calls_refine:
  "account_inv a \<Longrightarrow> purse_of (account_calls ops a) = purse_calls (map fst ops) (purse_of a)"
proof (induction ops a rule: account_calls.induct)
  case (1 a)
  then show ?case by simp
next
  case (2 op now ops a)
  then have "account_inv (snd (account_call op now a))" by (auto intro: account_call_inv)
  with 2 show ?case by (simp add: account_call_refines [of a op now])
qed

lemma account_call_closed: "acc_status a = Closed \<Longrightarrow> account_call op now a = (False, a)"
  by (cases op) (auto simp: account_defs)

text \<open>
  C1. Refinement. Whatever sequence of debits, credits, holds, releases and status changes is
  called on an account whose held amount is not negative, its balances and its lifecycle
  state evolve exactly as those of the purse over unbounded integers: no operation is ever
  half done, no arithmetic wraps, and the held amount stays non-negative.
\<close>

theorem account_refines_purse:
  assumes "account_inv a"
  shows "purse_of (account_calls ops a) = purse_calls (map fst ops) (purse_of a) \<and>
         0 \<le> held (purse_of (account_calls ops a))"
  using account_calls_refine [OF assms] account_calls_inv [OF assms]
  by (simp add: account_inv_purse)

theorem account_refines_purse_witness:
  "account_inv (account_new 7 0 0 Asset ''USD'' 1000 None) \<and>
   purse_of (account_calls [(OpHold 300, 1), (OpDebit 800, 2), (OpDebit 700, 3)]
     (account_new 7 0 0 Asset ''USD'' 1000 None)) =
   \<lparr>funds = 300, held = 300, pstate = Open\<rparr>"
proof -
  let ?a = "account_new 7 0 0 Asset ''USD'' 1000 None"
  let ?ops = "[(OpHold 300, 1), (OpDebit 800, 2), (OpDebit 700, 3)]"
  have "purse_calls (map fst ?ops) (purse_of ?a) = \<lparr>funds = 300, held = 300, pstate = Open\<rparr>"
    by (simp add: purse_of_def account_new_def)
  with account_refines_purse [OF account_new_inv, of ?ops] show ?thesis
    by (simp add: account_new_inv)
qed

text \<open>
  Safety. \<open>Closed\<close> is terminal: on a closed account every operation is refused and, after
  any sequence of calls, not a single field of the account has changed.
\<close>

theorem closed_account_is_final:
  assumes "acc_status a = Closed"
  shows "account_calls ops a = a \<and> (\<forall>op now. \<not> fst (account_call op now a))"
proof -
  have "account_calls ops a = a"
    using assms by (induction ops) (auto simp: account_call_closed)
  with assms show ?thesis by (simp add: account_call_closed)
qed

theorem closed_account_is_final_witness:
  "account_calls [(OpStatus Open, 5), (OpCredit 1, 6)]
     (set_status_unchecked (account_new 7 0 0 Asset ''USD'' 1000 None) Closed 4) =
   set_status_unchecked (account_new 7 0 0 Asset ''USD'' 1000 None) Closed 4"
  using closed_account_is_final
    [of "set_status_unchecked (account_new 7 0 0 Asset ''USD'' 1000 None) Closed 4"]
  by (simp add: set_status_unchecked_def)

text \<open>
  Round trip. A hold that was placed can be released again in full, and releasing it gives
  back the very account the hold was placed on.
\<close>

theorem hold_release_roundtrip:
  assumes "account_inv a" and "place_hold a n = (Ok (), a')"
  shows "release_hold a' n = (Ok (), a)"
proof -
  have pre: "0 < sint n" "acc_status a = Open" "sint n \<le> sint (available_balance a)"
    and a': "a' = a\<lparr>available_balance := available_balance a - n\<rparr>"
    using assms(2) by (auto simp: place_hold_def Let_def split: if_splits)
  have "sint (available_balance a - n) = sint (available_balance a) - sint n"
    using pre sint_i64_upper [of "available_balance a"]
    by (intro sint_sub_i64) (simp add: i64_simps)
  with assms(1) pre a' sint_i64_lower [of "available_balance a"]
    sint_i64_upper [of "available_balance a"] show ?thesis
    by (simp add: release_hold_def checked_add_i64_def i64_simps account_inv_def)
qed

theorem hold_release_roundtrip_witness:
  "release_hold (snd (place_hold (account_new 7 0 0 Asset ''USD'' 1000 None) 250)) 250 =
   (Ok (), account_new 7 0 0 Asset ''USD'' 1000 None)"
  by (rule hold_release_roundtrip [OF account_new_inv])
    (simp add: place_hold_def account_new_def)

end
