(* ===== verification/Account_CAS.thy ===== *)
theory Account_CAS
  imports Account
begin

section \<open>Concurrent accounts: the compare-and-swap loops\<close>

text \<open>
  The balance operations of \<open>src/domain/account.rs\<close> as the threads run them: one access to a
  shared field per step (every access is \<open>SeqCst\<close>, so the executions are the interleavings of
  these steps), with the loop taken back to its load when a \<open>compare_exchange\<close> finds another
  value. A thread is one call of \<open>debit\<close>, \<open>credit\<close>, \<open>place_hold\<close>, \<open>release_hold\<close> or
  \<open>set_status\<close>; a system is a list of threads over the shared fields of one account.
  \<^item> run alone, a thread computes what theory \<open>Account\<close> says (\<open>solo_run_is_sequential\<close>);
  \<^item> no update is ever lost, and the available balance never goes below zero;
  \<^item> the loops are lock-free: no schedule runs forever;
  \<^item> without \<open>release_hold\<close> the available balance never exceeds the balance; with it, it can.
\<close>

record cas_mem =
  m_balance :: i64
  m_avail :: i64
  m_status :: account_status
  m_updated :: timestamp

datatype cas_op =
    CDebit i64 | CCredit i64 | CHold i64 | CRelease i64 | CSetStatus account_status

datatype outcome =
    ODebit "(i64, debit_error) result"
  | OCredit "(i64, credit_error) result"
  | OHold "(unit, hold_error) result"
  | OStatus "(unit, account_status_error) result"

text \<open>
  Where a call stands. The arguments are its local variables. \<open>CreditLost\<close> is the return of
  \<open>CreditError::Overflow\<close> from the inner loop, after \<open>balance\<close> was raised.
\<close>

datatype pc =
    PEntry
  | PLoop
  | DebitLoaded i64
  | DebitTaken
  | DebitTouch i64
  | CreditLoaded i64
  | CreditAvail i64
  | CreditAvailLoaded i64 i64
  | CreditTouch i64
  | CreditLost
  | HoldLoaded i64
  | ReleaseLoaded i64
  | ReleaseLoadedBoth i64 i64
  | Done outcome

fun debit_step :: "i64 \<Rightarrow> timestamp \<Rightarrow> pc \<Rightarrow> cas_mem \<Rightarrow> pc \<times> cas_mem" where
  "debit_step n t PEntry m =
     (if sint n \<le> 0 then (Done (ODebit (Err DebitInvalidAmount)), m)
      else if m_status m \<noteq> Open then (Done (ODebit (Err (DebitAccountNotOpen (m_status m)))), m)
      else (PLoop, m))"
| "debit_step n t PLoop m =
     (if sint (m_avail m) < sint n
      then (Done (ODebit (Err (DebitInsufficientFunds (m_avail m) n))), m)
      else (DebitLoaded (m_avail m), m))"
| "debit_step n t (DebitLoaded available) m =
     (if m_avail m = available then (DebitTaken, m\<lparr>m_avail := available - n\<rparr>) else (PLoop, m))"
| "debit_step n t DebitTaken m = (DebitTouch (m_balance m - n), m\<lparr>m_balance := m_balance m - n\<rparr>)"
| "debit_step n t (DebitTouch b) m = (Done (ODebit (Ok b)), m\<lparr>m_updated := t\<rparr>)"
| "debit_step n t p m = (p, m)"

fun credit_step :: "i64 \<Rightarrow> timestamp \<Rightarrow> pc \<Rightarrow> cas_mem \<Rightarrow> pc \<times> cas_mem" where
  "credit_step n t PEntry m =
     (if sint n \<le> 0 then (Done (OCredit (Err CreditInvalidAmount)), m)
      else if m_status m \<noteq> Open then (Done (OCredit (Err (CreditAccountNotOpen (m_status m)))), m)
      else (PLoop, m))"
| "credit_step n t PLoop m =
     (case checked_add_i64 (m_balance m) n of
        None \<Rightarrow> (Done (OCredit (Err CreditOverflow)), m)
      | Some _ \<Rightarrow> (CreditLoaded (m_balance m), m))"
| "credit_step n t (CreditLoaded current) m =
     (if m_balance m = current
      then (CreditAvail (current + n), m\<lparr>m_balance := current + n\<rparr>) else (PLoop, m))"
| "credit_step n t (CreditAvail b) m =
     (case checked_add_i64 (m_avail m) n of
        None \<Rightarrow> (CreditLost, m)
      | Some _ \<Rightarrow> (CreditAvailLoaded b (m_avail m), m))"
| "credit_step n t (CreditAvailLoaded b avail) m =
     (if m_avail m = avail
      then (CreditTouch b, m\<lparr>m_avail := avail + n\<rparr>) else (CreditAvail b, m))"
| "credit_step n t (CreditTouch b) m = (Done (OCredit (Ok b)), m\<lparr>m_updated := t\<rparr>)"
| "credit_step n t p m = (p, m)"

fun hold_step :: "i64 \<Rightarrow> pc \<Rightarrow> cas_mem \<Rightarrow> pc \<times> cas_mem" where
  "hold_step n PEntry m =
     (if sint n \<le> 0 then (Done (OHold (Err HoldInvalidAmount)), m)
      else if m_status m \<noteq> Open then (Done (OHold (Err (HoldAccountNotOpen (m_status m)))), m)
      else (PLoop, m))"
| "hold_step n PLoop m =
     (if sint (m_avail m) < sint n
      then (Done (OHold (Err (HoldInsufficientFunds (m_avail m) n))), m)
      else (HoldLoaded (m_avail m), m))"
| "hold_step n (HoldLoaded available) m =
     (if m_avail m = available
      then (Done (OHold (Ok ())), m\<lparr>m_avail := available - n\<rparr>) else (PLoop, m))"
| "hold_step n p m = (p, m)"

fun release_step :: "i64 \<Rightarrow> pc \<Rightarrow> cas_mem \<Rightarrow> pc \<times> cas_mem" where
  "release_step n PEntry m =
     (if sint n \<le> 0 then (Done (OHold (Err HoldInvalidAmount)), m)
      else if m_status m \<noteq> Open then (Done (OHold (Err (HoldAccountNotOpen (m_status m)))), m)
      else (PLoop, m))"
| "release_step n PLoop m = (ReleaseLoaded (m_avail m), m)"
| "release_step n (ReleaseLoaded current) m =
     (case checked_add_i64 current n of
        None \<Rightarrow> (Done (OHold (Err HoldInvalidAmount)), m)
      | Some new_val \<Rightarrow>
          if sint new_val > sint (m_balance m)
          then (Done (OHold (Err (ReleaseExceedsHeld current (m_balance m) n))), m)
          else (ReleaseLoadedBoth current (m_balance m), m))"
| "release_step n (ReleaseLoadedBoth current b) m =
     (if m_avail m = current
      then (Done (OHold (Ok ())), m\<lparr>m_avail := current + n\<rparr>) else (PLoop, m))"
| "release_step n p m = (p, m)"

fun status_step :: "account_status \<Rightarrow> timestamp \<Rightarrow> pc \<Rightarrow> cas_mem \<Rightarrow> pc \<times> cas_mem" where
  "status_step s t PEntry m =
     (case check_transition (m_status m) s of
        Err e \<Rightarrow> (Done (OStatus (Err e)), m)
      | Ok _ \<Rightarrow> (Done (OStatus (Ok ())), m\<lparr>m_status := s, m_updated := t\<rparr>))"
| "status_step s t p m = (p, m)"

fun call_step :: "cas_op \<Rightarrow> timestamp \<Rightarrow> pc \<Rightarrow> cas_mem \<Rightarrow> pc \<times> cas_mem" where
  "call_step (CDebit n) t = debit_step n t"
| "call_step (CCredit n) t = credit_step n t"
| "call_step (CHold n) t = hold_step n"
| "call_step (CRelease n) t = release_step n"
| "call_step (CSetStatus s) t = status_step s t"

record cas_thread =
  th_op :: cas_op
  th_now :: timestamp
  th_pc :: pc

record cas_sys =
  mem :: cas_mem
  threads :: "cas_thread list"

fun finished_pc :: "pc \<Rightarrow> bool" where
  "finished_pc (Done _) = True"
| "finished_pc CreditLost = True"
| "finished_pc _ = False"

definition finished :: "cas_thread \<Rightarrow> bool" where
  "finished th \<longleftrightarrow> finished_pc (th_pc th)"

definition quiescent :: "cas_sys \<Rightarrow> bool" where
  "quiescent s \<longleftrightarrow> list_all finished (threads s)"

definition sys_step :: "nat \<Rightarrow> cas_sys \<Rightarrow> cas_sys" where
  "sys_step i s =
     (let th = threads s ! i;
          (p', m') = call_step (th_op th) (th_now th) (th_pc th) (mem s)
      in s\<lparr>mem := m', threads := (threads s)[i := th\<lparr>th_pc := p'\<rparr>]\<rparr>)"

inductive cas_step :: "cas_sys \<Rightarrow> cas_sys \<Rightarrow> bool" where
  thread_moves: "i < length (threads s) \<Longrightarrow> \<not> finished (threads s ! i) \<Longrightarrow>
     cas_step s (sys_step i s)"

inductive_cases cas_stepE: "cas_step s t"

fun schedule :: "nat list \<Rightarrow> cas_sys \<Rightarrow> cas_sys" where
  "schedule [] s = s"
| "schedule (i # is) s = schedule is (sys_step i s)"

definition start_sys :: "account \<Rightarrow> (cas_op \<times> timestamp) list \<Rightarrow> cas_sys" where
  "start_sys a calls =
     \<lparr>mem = \<lparr>m_balance = balance a, m_avail = available_balance a, m_status = acc_status a,
             m_updated = last_updated a\<rparr>,
      threads = map (\<lambda>(op, t). \<lparr>th_op = op, th_now = t, th_pc = PEntry\<rparr>) calls\<rparr>"

abbreviation cas_reach :: "cas_sys \<Rightarrow> cas_sys \<Rightarrow> bool" where
  "cas_reach \<equiv> cas_step\<^sup>*\<^sup>*"

subsection \<open>Accounting: what each thread has done to the shared fields so far\<close>

fun avail_effect :: "cas_op \<Rightarrow> pc \<Rightarrow> i64" where
  "avail_effect (CDebit n) DebitTaken = - n"
| "avail_effect (CDebit n) (DebitTouch _) = - n"
| "avail_effect (CDebit n) (Done (ODebit (Ok _))) = - n"
| "avail_effect (CCredit n) (CreditTouch _) = n"
| "avail_effect (CCredit n) (Done (OCredit (Ok _))) = n"
| "avail_effect (CHold n) (Done (OHold (Ok _))) = - n"
| "avail_effect (CRelease n) (Done (OHold (Ok _))) = n"
| "avail_effect _ _ = 0"

fun balance_effect :: "cas_op \<Rightarrow> pc \<Rightarrow> i64" where
  "balance_effect (CDebit n) (DebitTouch _) = - n"
| "balance_effect (CDebit n) (Done (ODebit (Ok _))) = - n"
| "balance_effect (CCredit n) (CreditAvail _) = n"
| "balance_effect (CCredit n) (CreditAvailLoaded _ _) = n"
| "balance_effect (CCredit n) (CreditTouch _) = n"
| "balance_effect (CCredit n) CreditLost = n"
| "balance_effect (CCredit n) (Done (OCredit (Ok _))) = n"
| "balance_effect _ _ = 0"

definition avail_effects :: "cas_sys \<Rightarrow> i64" where
  "avail_effects s = sum_list (map (\<lambda>th. avail_effect (th_op th) (th_pc th)) (threads s))"

definition balance_effects :: "cas_sys \<Rightarrow> i64" where
  "balance_effects s = sum_list (map (\<lambda>th. balance_effect (th_op th) (th_pc th)) (threads s))"

lemma call_step_avail:
  "call_step op t p m = (p', m') \<Longrightarrow>
   m_avail m' = m_avail m - avail_effect op p + avail_effect op p'"
  by (cases op; cases p) (auto split: if_splits option.splits sum.splits)

lemma call_step_balance:
  "call_step op t p m = (p', m') \<Longrightarrow>
   m_balance m' = m_balance m - balance_effect op p + balance_effect op p'"
  by (cases op; cases p) (auto split: if_splits option.splits sum.splits)

text \<open>
  A finished thread's effects are those its return value announces: a call that returned \<open>Ok\<close>
  has taken effect in full, a call that returned \<open>Err\<close> not at all, but for \<open>CreditLost\<close>.
\<close>

fun settled :: "cas_op \<Rightarrow> pc \<Rightarrow> i64 \<times> i64" where
  "settled (CDebit n) (Done (ODebit (Ok _))) = (- n, - n)"
| "settled (CCredit n) (Done (OCredit (Ok _))) = (n, n)"
| "settled (CCredit n) CreditLost = (n, 0)"
| "settled (CHold n) (Done (OHold (Ok _))) = (0, - n)"
| "settled (CRelease n) (Done (OHold (Ok _))) = (0, n)"
| "settled _ _ = (0, 0)"

lemma finished_settled:
  "finished_pc p \<Longrightarrow> settled op p = (balance_effect op p, avail_effect op p)"
  by (cases "(op, p)" rule: settled.cases) auto

subsection \<open>Facts of one step, lifted to the system\<close>

fun op_amount :: "cas_op \<Rightarrow> int" where
  "op_amount (CDebit n) = sint n"
| "op_amount (CCredit n) = sint n"
| "op_amount (CHold n) = sint n"
| "op_amount (CRelease n) = sint n"
| "op_amount (CSetStatus _) = 0"

text \<open>What the checks a call has passed tell about its local variables.\<close>

fun pc_ok :: "int \<Rightarrow> pc \<Rightarrow> bool" where
  "pc_ok n PEntry = True"
| "pc_ok n (Done _) = True"
| "pc_ok n CreditLost = True"
| "pc_ok n (DebitLoaded v) = (0 < n \<and> n \<le> sint v)"
| "pc_ok n (HoldLoaded v) = (0 < n \<and> n \<le> sint v)"
| "pc_ok n (CreditLoaded v) = (0 < n \<and> i64_in_range (sint v + n))"
| "pc_ok n (CreditAvailLoaded b v) = (0 < n \<and> i64_in_range (sint v + n))"
| "pc_ok n (ReleaseLoadedBoth v b) = (0 < n \<and> i64_in_range (sint v + n))"
| "pc_ok n _ = (0 < n)"

definition thread_ok :: "cas_thread \<Rightarrow> bool" where
  "thread_ok th \<longleftrightarrow> pc_ok (op_amount (th_op th)) (th_pc th)"

definition threads_ok :: "cas_sys \<Rightarrow> bool" where
  "threads_ok s \<longleftrightarrow> (\<forall>th \<in> set (threads s). thread_ok th)"

lemma call_step_pc_ok:
  "call_step op t p m = (p', m') \<Longrightarrow> pc_ok (op_amount op) p \<Longrightarrow> pc_ok (op_amount op) p'"
  by (cases op; cases p) (auto simp: checked_add_i64_Some split: if_splits option.splits sum.splits)

lemma sint_sub_within: "0 < sint n \<Longrightarrow> sint n \<le> sint v \<Longrightarrow> sint (v - n :: i64) = sint v - sint n"
  using sint_i64_upper [of v] by (intro sint_sub_i64) (simp add: i64_simps)

lemma call_step_avail_nonneg:
  "call_step op t p m = (p', m') \<Longrightarrow> pc_ok (op_amount op) p \<Longrightarrow> 0 \<le> sint (m_avail m) \<Longrightarrow>
   0 \<le> sint (m_avail m')"
  by (cases op; cases p)
    (auto simp: sint_sub_within sint_add_i64 split: if_splits option.splits sum.splits)

lemma sys_stepE:
  assumes "cas_step s s'"
  obtains i th p' m' where "i < length (threads s)" "th = threads s ! i" "\<not> finished_pc (th_pc th)"
    "call_step (th_op th) (th_now th) (th_pc th) (mem s) = (p', m')"
    "mem s' = m'" "threads s' = (threads s)[i := th\<lparr>th_pc := p'\<rparr>]"
  using assms
  by (elim cas_stepE) (auto simp: sys_step_def finished_def Let_def split: prod.splits)

lemma threads_ok_nth: "threads_ok s \<Longrightarrow> i < length (threads s) \<Longrightarrow>
  pc_ok (op_amount (th_op (threads s ! i))) (th_pc (threads s ! i))"
  by (simp add: threads_ok_def thread_ok_def)

lemma threads_ok_step:
  assumes "cas_step s s'" and "threads_ok s"
  shows "threads_ok s'"
proof -
  from assms(1) obtain i th p' m' where i: "i < length (threads s)" "th = threads s ! i"
    and step: "call_step (th_op th) (th_now th) (th_pc th) (mem s) = (p', m')"
    and s': "threads s' = (threads s)[i := th\<lparr>th_pc := p'\<rparr>]"
    by (rule sys_stepE)
  with assms(2) have "thread_ok (th\<lparr>th_pc := p'\<rparr>)"
    by (auto simp: thread_ok_def intro: call_step_pc_ok threads_ok_nth)
  with assms(2) s' show ?thesis
    by (auto simp: threads_ok_def dest!: set_update_subset_insert [THEN subsetD])
qed

lemma avail_nonneg_step:
  assumes "cas_step s s'" and "threads_ok s" and "0 \<le> sint (m_avail (mem s))"
  shows "0 \<le> sint (m_avail (mem s'))"
proof -
  from assms(1) obtain i th p' where i: "i < length (threads s)" "th = threads s ! i"
    and step: "call_step (th_op th) (th_now th) (th_pc th) (mem s) = (p', mem s')"
    by (rule sys_stepE) simp
  from threads_ok_nth [OF assms(2) i(1)] i(2)
  have "pc_ok (op_amount (th_op th)) (th_pc th)" by simp
  from call_step_avail_nonneg [OF step this assms(3)] show ?thesis .
qed

lemma accounting_step:
  assumes "cas_step s s'"
  shows "m_avail (mem s') - avail_effects s' = m_avail (mem s) - avail_effects s"
    and "m_balance (mem s') - balance_effects s' = m_balance (mem s) - balance_effects s"
proof -
  from assms obtain i th p' where i: "i < length (threads s)" "th = threads s ! i"
    and step: "call_step (th_op th) (th_now th) (th_pc th) (mem s) = (p', mem s')"
    and s': "threads s' = (threads s)[i := th\<lparr>th_pc := p'\<rparr>]"
    by (rule sys_stepE) simp
  have "avail_effects s' = avail_effects s - avail_effect (th_op th) (th_pc th)
      + avail_effect (th_op th) p'"
    and "balance_effects s' = balance_effects s - balance_effect (th_op th) (th_pc th)
      + balance_effect (th_op th) p'"
    using i by (simp_all add: avail_effects_def balance_effects_def s' sum_list_map_update)
  with call_step_avail [OF step] call_step_balance [OF step]
  show "m_avail (mem s') - avail_effects s' = m_avail (mem s) - avail_effects s"
    and "m_balance (mem s') - balance_effects s' = m_balance (mem s) - balance_effects s"
    by simp_all
qed

lemma threads_ok_start: "threads_ok (start_sys a calls)"
  by (auto simp: threads_ok_def thread_ok_def start_sys_def)

lemma effects_start: "avail_effects (start_sys a calls) = 0" "balance_effects (start_sys a calls) = 0"
proof -
  have "map f (threads (start_sys a calls)) = map (\<lambda>_. 0) calls"
    if "\<And>op t. f \<lparr>th_op = op, th_now = t, th_pc = PEntry\<rparr> = (0 :: i64)" for f
    using that by (simp add: start_sys_def split_beta)
  from this [of "\<lambda>th. avail_effect (th_op th) (th_pc th)"]
    this [of "\<lambda>th. balance_effect (th_op th) (th_pc th)"]
  show "avail_effects (start_sys a calls) = 0" "balance_effects (start_sys a calls) = 0"
    by (simp_all add: avail_effects_def balance_effects_def del: map_map)
qed

lemma reach_threads_ok: "cas_reach s s' \<Longrightarrow> threads_ok s \<Longrightarrow> threads_ok s'"
  by (induction rule: rtranclp_induct) (auto intro: threads_ok_step)

lemma reach_accounting:
  "cas_reach s s' \<Longrightarrow> m_avail (mem s') - avail_effects s' = m_avail (mem s) - avail_effects s \<and>
     m_balance (mem s') - balance_effects s' = m_balance (mem s) - balance_effects s"
  by (induction rule: rtranclp_induct) (simp_all add: accounting_step)

lemma reach_avail_nonneg:
  "cas_reach s s' \<Longrightarrow> threads_ok s \<Longrightarrow> 0 \<le> sint (m_avail (mem s)) \<Longrightarrow> 0 \<le> sint (m_avail (mem s'))"
  by (induction rule: rtranclp_induct) (auto intro: avail_nonneg_step reach_threads_ok)

lemma quiescent_effects:
  assumes "quiescent s"
  shows "avail_effects s = sum_list (map (\<lambda>th. snd (settled (th_op th) (th_pc th))) (threads s))"
    and "balance_effects s = sum_list (map (\<lambda>th. fst (settled (th_op th) (th_pc th))) (threads s))"
  using assms unfolding avail_effects_def balance_effects_def quiescent_def list_all_iff finished_def
  by (auto intro!: arg_cong [where f = sum_list] simp: finished_settled)

subsection \<open>Schedules\<close>

fun enabled_schedule :: "nat list \<Rightarrow> cas_sys \<Rightarrow> bool" where
  "enabled_schedule [] s = True"
| "enabled_schedule (i # is) s =
     (i < length (threads s) \<and> \<not> finished (threads s ! i) \<and> enabled_schedule is (sys_step i s))"

lemma schedule_reach: "enabled_schedule is s \<Longrightarrow> cas_reach s (schedule is s)"
  by (induction "is" s rule: enabled_schedule.induct)
    (auto intro: converse_rtranclp_into_rtranclp thread_moves)

subsection \<open>Without releases\<close>

text \<open>
  The amounts in flight: taken from the available balance and not yet from the balance, or
  added to the balance and not yet to the available balance.
\<close>

fun in_flight :: "cas_op \<Rightarrow> pc \<Rightarrow> int" where
  "in_flight (CDebit n) DebitTaken = sint n"
| "in_flight (CCredit n) (CreditAvail _) = sint n"
| "in_flight (CCredit n) (CreditAvailLoaded _ _) = sint n"
| "in_flight (CCredit n) CreditLost = 0"
| "in_flight _ _ = 0"

definition flights :: "cas_sys \<Rightarrow> int" where
  "flights s = sum_list (map (\<lambda>th. in_flight (th_op th) (th_pc th)) (threads s))"

fun is_release :: "cas_op \<Rightarrow> bool" where
  "is_release (CRelease _) = True"
| "is_release _ = False"

definition no_release :: "cas_sys \<Rightarrow> bool" where
  "no_release s \<longleftrightarrow> (\<forall>th \<in> set (threads s). \<not> is_release (th_op th) \<and> th_pc th \<noteq> CreditLost)"

lemma in_flight_nonneg: "pc_ok (op_amount op) p \<Longrightarrow> 0 \<le> in_flight op p"
  by (cases "(op, p)" rule: in_flight.cases) auto

lemma sint_sub_lower: "0 < sint n \<Longrightarrow> i64_min \<le> sint b - sint n \<Longrightarrow> sint (b - n :: i64) = sint b - sint n"
  using sint_i64_upper [of b] by (intro sint_sub_i64) (simp add: i64_simps)

text \<open>One step, with \<open>rest\<close> for what the other threads have in flight.\<close>

lemma call_step_gap:
  assumes "call_step op t p m = (p', m')" and "pc_ok (op_amount op) p" and "\<not> is_release op"
    and "p \<noteq> CreditLost" and "0 \<le> rest" and "0 \<le> sint (m_avail m)"
    and "sint (m_avail m) + in_flight op p + rest \<le> sint (m_balance m)"
  shows "sint (m_avail m') + in_flight op p' + rest \<le> sint (m_balance m') \<and> p' \<noteq> CreditLost"
proof -
  have "i64_in_range (sint (m_avail m) + sint n)"
    if "0 < sint n" "sint (m_avail m) + sint n + rest \<le> sint (m_balance m)" for n :: i64
    using that assms(5,6) sint_i64_upper [of "m_balance m"] by (simp add: i64_simps)
  moreover have "sint (m_balance m - n) = sint (m_balance m) - sint n"
    if "0 < sint n" "sint (m_avail m) + sint n + rest \<le> sint (m_balance m)" for n :: i64
    using that assms(5,6) by (intro sint_sub_lower) (simp_all add: i64_simps)
  ultimately show ?thesis
    using assms
    by (cases op; cases p)
      (auto simp: sint_sub_within sint_add_i64 checked_add_i64_None split: if_splits option.splits
        sum.splits)
qed

definition gap_inv :: "cas_sys \<Rightarrow> bool" where
  "gap_inv s \<longleftrightarrow> threads_ok s \<and> no_release s \<and> 0 \<le> sint (m_avail (mem s)) \<and>
     sint (m_avail (mem s)) + flights s \<le> sint (m_balance (mem s))"

lemma flights_nonneg: "threads_ok s \<Longrightarrow> 0 \<le> flights s"
  unfolding flights_def
  by (rule sum_list_nonneg) (auto simp: threads_ok_def thread_ok_def in_flight_nonneg)

lemma gap_inv_step:
  assumes "cas_step s s'" and "gap_inv s"
  shows "gap_inv s'"
proof -
  from assms(1) obtain i th p' where i: "i < length (threads s)" "th = threads s ! i"
    and step: "call_step (th_op th) (th_now th) (th_pc th) (mem s) = (p', mem s')"
    and s': "threads s' = (threads s)[i := th\<lparr>th_pc := p'\<rparr>]"
    by (rule sys_stepE) simp
  define rest where "rest = flights s - in_flight (th_op th) (th_pc th)"
  have ok: "threads_ok s" and nr: "\<not> is_release (th_op th)" "th_pc th \<noteq> CreditLost"
    using assms(2) i by (auto simp: gap_inv_def no_release_def)
  have "in_flight (th_op th) (th_pc th) \<le> flights s"
    unfolding flights_def i(2)
    by (rule sum_list_map_nth_le_int [OF i(1)])
      (use ok in \<open>auto simp: threads_ok_def thread_ok_def in_flight_nonneg\<close>)
  then have rest: "0 \<le> rest" by (simp add: rest_def)
  have gap: "sint (m_avail (mem s)) + in_flight (th_op th) (th_pc th) + rest
      \<le> sint (m_balance (mem s))" and nonneg: "0 \<le> sint (m_avail (mem s))"
    using assms(2) by (simp_all add: rest_def gap_inv_def)
  have "sint (m_avail (mem s')) + in_flight (th_op th) p' + rest \<le> sint (m_balance (mem s')) \<and>
      p' \<noteq> CreditLost"
    using call_step_gap [OF step _ nr rest nonneg gap] threads_ok_nth [OF ok i(1)] i(2) by simp
  moreover have "flights s' = in_flight (th_op th) p' + rest"
    using i by (simp add: flights_def s' sum_list_map_update rest_def)
  moreover have "no_release s'" if "p' \<noteq> CreditLost"
    using that assms(2) nr s'
    by (auto simp: gap_inv_def no_release_def dest!: set_update_subset_insert [THEN subsetD])
  ultimately show ?thesis
    using assms threads_ok_step avail_nonneg_step by (auto simp: gap_inv_def)
qed

lemma reach_gap_inv: "cas_reach s s' \<Longrightarrow> gap_inv s \<Longrightarrow> gap_inv s'"
  by (induction rule: rtranclp_induct) (auto intro: gap_inv_step)

lemma flights_start: "flights (start_sys a calls) = 0"
proof -
  have "in_flight op PEntry = 0" for op by (cases op) simp_all
  then show ?thesis by (induction calls) (auto simp: flights_def start_sys_def)
qed

lemma gap_inv_start:
  "account_inv a \<Longrightarrow> 0 \<le> sint (available_balance a) \<Longrightarrow> \<forall>(op, t) \<in> set calls. \<not> is_release op \<Longrightarrow>
   gap_inv (start_sys a calls)"
  by (auto simp: gap_inv_def threads_ok_start flights_start no_release_def account_inv_def)
    (auto simp: start_sys_def)

subsection \<open>Lock-freedom\<close>

text \<open>
  A thread advances through at most four stages; a step inside a stage leaves the shared
  fields alone and brings the thread nearer to a fresh load, where its next
  \<open>compare_exchange\<close> succeeds unless another thread advances in between.
\<close>

fun stage :: "pc \<Rightarrow> nat" where
  "stage PEntry = 4"
| "stage DebitTaken = 2"
| "stage (CreditAvail _) = 2"
| "stage (CreditAvailLoaded _ _) = 2"
| "stage (DebitTouch _) = 1"
| "stage (CreditTouch _) = 1"
| "stage (Done _) = 0"
| "stage CreditLost = 0"
| "stage _ = 3"

fun staleness :: "cas_mem \<Rightarrow> pc \<Rightarrow> nat" where
  "staleness m (DebitLoaded v) = (if m_avail m = v then 0 else 3)"
| "staleness m (HoldLoaded v) = (if m_avail m = v then 0 else 3)"
| "staleness m (CreditLoaded v) = (if m_balance m = v then 0 else 3)"
| "staleness m (CreditAvailLoaded _ v) = (if m_avail m = v then 0 else 3)"
| "staleness m (ReleaseLoaded v) = (if m_avail m = v then 1 else 4)"
| "staleness m (ReleaseLoadedBoth v _) = (if m_avail m = v then 0 else 3)"
| "staleness m (Done _) = 0"
| "staleness m _ = 2"

text \<open>The positions a call can be at.\<close>

fun fits :: "cas_op \<Rightarrow> pc \<Rightarrow> bool" where
  "fits _ PEntry = True"
| "fits _ (Done _) = True"
| "fits (CSetStatus _) _ = False"
| "fits _ PLoop = True"
| "fits (CDebit _) (DebitLoaded _) = True"
| "fits (CDebit _) DebitTaken = True"
| "fits (CDebit _) (DebitTouch _) = True"
| "fits (CCredit _) (CreditLoaded _) = True"
| "fits (CCredit _) (CreditAvail _) = True"
| "fits (CCredit _) (CreditAvailLoaded _ _) = True"
| "fits (CCredit _) (CreditTouch _) = True"
| "fits (CCredit _) CreditLost = True"
| "fits (CHold _) (HoldLoaded _) = True"
| "fits (CRelease _) (ReleaseLoaded _) = True"
| "fits (CRelease _) (ReleaseLoadedBoth _ _) = True"
| "fits _ _ = False"

lemma call_step_fits: "call_step op t p m = (p', m') \<Longrightarrow> fits op p \<Longrightarrow> fits op p'"
  by (cases op; cases p) (auto split: if_splits option.splits sum.splits)

lemma call_step_advances:
  "call_step op t p m = (p', m') \<Longrightarrow> fits op p \<Longrightarrow> \<not> finished_pc p \<Longrightarrow>
   stage p' < stage p \<or> (stage p' = stage p \<and> m' = m \<and> staleness m p' < staleness m p)"
  by (cases op; cases p) (auto split: if_splits option.splits sum.splits)

definition fits_sys :: "cas_sys \<Rightarrow> bool" where
  "fits_sys s \<longleftrightarrow> (\<forall>th \<in> set (threads s). fits (th_op th) (th_pc th))"

definition total_stage :: "cas_sys \<Rightarrow> nat" where
  "total_stage s = sum_list (map (\<lambda>th. stage (th_pc th)) (threads s))"

definition total_staleness :: "cas_sys \<Rightarrow> nat" where
  "total_staleness s = sum_list (map (\<lambda>th. staleness (mem s) (th_pc th)) (threads s))"

lemma sum_list_update_less:
  "i < length xs \<Longrightarrow> f x < f (xs ! i) \<Longrightarrow> sum_list (map f (xs[i := x])) < sum_list (map f xs :: nat list)"
proof (induction xs arbitrary: i)
  case (Cons y ys)
  then show ?case by (cases i) auto
qed simp

lemma sum_list_update_same:
  "i < length xs \<Longrightarrow> f x = f (xs ! i) \<Longrightarrow> map f (xs[i := x]) = map f xs"
  by (metis list_update_id map_update)

lemma cas_step_decreases:
  assumes "cas_step s s'" and "fits_sys s"
  shows "fits_sys s' \<and> (total_stage s' < total_stage s \<or>
    (total_stage s' = total_stage s \<and> total_staleness s' < total_staleness s))"
proof -
  from assms(1) obtain i th p' where i: "i < length (threads s)" "th = threads s ! i"
    and nf: "\<not> finished_pc (th_pc th)"
    and step: "call_step (th_op th) (th_now th) (th_pc th) (mem s) = (p', mem s')"
    and s': "threads s' = (threads s)[i := th\<lparr>th_pc := p'\<rparr>]"
    by (rule sys_stepE) simp
  have fit: "fits (th_op th) (th_pc th)" using assms(2) i by (simp add: fits_sys_def)
  have "fits_sys s'"
    using assms(2) call_step_fits [OF step fit] s'
    by (auto simp: fits_sys_def dest!: set_update_subset_insert [THEN subsetD])
  moreover from call_step_advances [OF step fit nf]
  have "total_stage s' < total_stage s \<or>
    (total_stage s' = total_stage s \<and> total_staleness s' < total_staleness s)"
    using i
    by (auto simp: total_stage_def total_staleness_def s' sum_list_update_less sum_list_update_same)
  ultimately show ?thesis ..
qed

lemma fits_sys_start: "fits_sys (start_sys a calls)"
  by (auto simp: fits_sys_def start_sys_def)

lemma cas_step_wf: "wf {(s', s). cas_step s s' \<and> fits_sys s}"
  by (rule wf_subset [of "inv_image (less_than <*lex*> less_than)
        (\<lambda>s. (total_stage s, total_staleness s))"])
    (auto dest: cas_step_decreases)

subsection \<open>A thread alone\<close>

fun outcome_of :: "pc \<Rightarrow> outcome option" where
  "outcome_of (Done r) = Some r"
| "outcome_of CreditLost = Some (OCredit (Err CreditOverflow))"
| "outcome_of _ = None"

fun sequential :: "cas_op \<Rightarrow> timestamp \<Rightarrow> account \<Rightarrow> outcome \<times> account" where
  "sequential (CDebit n) t a = map_prod ODebit id (debit a n t)"
| "sequential (CCredit n) t a = map_prod OCredit id (credit a n t)"
| "sequential (CHold n) t a = map_prod OHold id (place_hold a n)"
| "sequential (CRelease n) t a = map_prod OHold id (release_hold a n)"
| "sequential (CSetStatus s) t a = map_prod OStatus id (set_status a s t)"

definition solo_run :: "cas_op \<Rightarrow> timestamp \<Rightarrow> account \<Rightarrow> cas_sys" where
  "solo_run op t a = schedule (replicate 6 0) (start_sys a [(op, t)])"

fun call_iter :: "nat \<Rightarrow> cas_op \<Rightarrow> timestamp \<Rightarrow> pc \<Rightarrow> cas_mem \<Rightarrow> pc \<times> cas_mem" where
  "call_iter 0 op t p m = (p, m)"
| "call_iter (Suc k) op t p m = (case call_step op t p m of (p', m') \<Rightarrow> call_iter k op t p' m')"

lemma schedule_solo:
  "schedule (replicate k 0) \<lparr>mem = m, threads = [\<lparr>th_op = op, th_now = t, th_pc = p\<rparr>]\<rparr> =
   (case call_iter k op t p m of
      (p', m') \<Rightarrow> \<lparr>mem = m', threads = [\<lparr>th_op = op, th_now = t, th_pc = p'\<rparr>]\<rparr>)"
  by (induction k arbitrary: p m) (simp_all add: sys_step_def split: prod.split)

lemma six: "(6 :: nat) = Suc (Suc (Suc (Suc (Suc (Suc 0)))))"
  by simp

definition mem_of :: "account \<Rightarrow> cas_mem" where
  "mem_of a = \<lparr>m_balance = balance a, m_avail = available_balance a, m_status = acc_status a,
              m_updated = last_updated a\<rparr>"

lemma solo_debit:
  "map_prod outcome_of id (call_iter 6 (CDebit n) t PEntry (mem_of a)) =
   map_prod Some mem_of (sequential (CDebit n) t a)"
  unfolding six
  by (cases "sint n \<le> 0"; cases "acc_status a = Open"; cases "sint (available_balance a) < sint n")
    (simp_all add: mem_of_def debit_def Let_def)

lemma solo_credit:
  "map_prod outcome_of id (call_iter 6 (CCredit n) t PEntry (mem_of a)) =
   map_prod Some mem_of (sequential (CCredit n) t a)"
  unfolding six
  by (cases "sint n \<le> 0"; cases "acc_status a = Open";
      cases "i64_in_range (sint (balance a) + sint n)";
      cases "i64_in_range (sint (available_balance a) + sint n)")
    (simp_all add: mem_of_def credit_def checked_add_i64_def Let_def)

lemma solo_hold:
  "map_prod outcome_of id (call_iter 6 (CHold n) t PEntry (mem_of a)) =
   map_prod Some mem_of (sequential (CHold n) t a)"
  unfolding six
  by (cases "sint n \<le> 0"; cases "acc_status a = Open"; cases "sint (available_balance a) < sint n")
    (simp_all add: mem_of_def place_hold_def)

lemma solo_release:
  "map_prod outcome_of id (call_iter 6 (CRelease n) t PEntry (mem_of a)) =
   map_prod Some mem_of (sequential (CRelease n) t a)"
  unfolding six
  by (cases "sint n \<le> 0"; cases "acc_status a = Open";
      cases "i64_in_range (sint (available_balance a) + sint n)";
      cases "sint (available_balance a + n) > sint (balance a)")
    (simp_all add: mem_of_def release_hold_def checked_add_i64_def Let_def)

lemma solo_status:
  "map_prod outcome_of id (call_iter 6 (CSetStatus s) t PEntry (mem_of a)) =
   map_prod Some mem_of (sequential (CSetStatus s) t a)"
  unfolding six
  by (cases "check_transition (acc_status a) s") (simp_all add: mem_of_def set_status_def)

lemma solo_call:
  "map_prod outcome_of id (call_iter 6 op t PEntry (mem_of a)) =
   map_prod Some mem_of (sequential op t a)"
  by (cases op) (simp_all only: solo_debit solo_credit solo_hold solo_release solo_status)

subsection \<open>Properties\<close>

text \<open>The run of two debits and a credit that the witnesses below evaluate.\<close>

definition demo_account :: account where
  "demo_account = account_new 7 0 0 Asset ''USD'' 1000 None"

definition demo_calls :: "(cas_op \<times> timestamp) list" where
  "demo_calls = [(CDebit 600, 1), (CDebit 600, 2), (CCredit 50, 3)]"

definition demo_schedule :: "nat list" where
  "demo_schedule = [0, 1, 0, 1, 2, 0, 2, 1, 1, 2, 0, 2, 2, 0, 2]"

lemmas demo_defs = demo_account_def demo_calls_def demo_schedule_def start_sys_def account_new_def
  sys_step_def finished_def checked_add_i64_def i64_simps

lemma demo_run:
  "cas_reach (start_sys demo_account demo_calls)
     (schedule demo_schedule (start_sys demo_account demo_calls))"
  by (rule schedule_reach) (simp add: demo_defs)

lemma demo_result:
  "schedule demo_schedule (start_sys demo_account demo_calls) =
   \<lparr>mem = \<lparr>m_balance = 450, m_avail = 450, m_status = Open, m_updated = 3\<rparr>,
    threads =
      [\<lparr>th_op = CDebit 600, th_now = 1, th_pc = Done (ODebit (Ok 450))\<rparr>,
       \<lparr>th_op = CDebit 600, th_now = 2, th_pc = Done (ODebit (Err (DebitInsufficientFunds 400 600)))\<rparr>,
       \<lparr>th_op = CCredit 50, th_now = 3, th_pc = Done (OCredit (Ok 1050))\<rparr>]\<rparr>"
  by (simp add: demo_defs)

lemma demo_account_inv: "account_inv demo_account" "0 \<le> sint (available_balance demo_account)"
  by (simp_all add: demo_defs account_inv_def)

text \<open>
  C2. Functional. No update is lost. However the calls on an account interleave, once all of
  them have returned, the balance and the available balance differ from the initial ones by
  exactly the sum of what the calls that returned \<open>Ok\<close> announced (a credit that overflowed in
  its inner loop counts its raise of the balance).
\<close>

theorem no_lost_update:
  assumes "cas_reach (start_sys a calls) s" and "quiescent s"
  shows "m_balance (mem s) =
           balance a + sum_list (map (\<lambda>th. fst (settled (th_op th) (th_pc th))) (threads s)) \<and>
         m_avail (mem s) = available_balance a +
           sum_list (map (\<lambda>th. snd (settled (th_op th) (th_pc th))) (threads s))"
  using reach_accounting [OF assms(1)] quiescent_effects [OF assms(2)]
  by (simp add: effects_start algebra_simps) (simp add: start_sys_def)

theorem no_lost_update_witness:
  "cas_reach (start_sys demo_account demo_calls)
     (schedule demo_schedule (start_sys demo_account demo_calls)) \<and>
   m_balance (mem (schedule demo_schedule (start_sys demo_account demo_calls))) =
     1000 + (- 600 + (0 + 50))"
  using no_lost_update [OF demo_run] demo_run
  by (simp add: demo_result quiescent_def finished_def)

text \<open>
  C9. Safety. No interleaving of debits, credits, holds and releases makes the available
  balance negative: what the check of a debit saw is what its \<open>compare_exchange\<close> takes from.
\<close>

theorem available_never_negative:
  assumes "cas_reach (start_sys a calls) s" and "0 \<le> sint (available_balance a)"
  shows "0 \<le> sint (m_avail (mem s))"
  using reach_avail_nonneg [OF assms(1) threads_ok_start] assms(2) by (simp add: start_sys_def)

theorem available_never_negative_witness:
  "0 \<le> sint (m_avail (mem (schedule demo_schedule (start_sys demo_account demo_calls))))"
  by (rule available_never_negative [OF demo_run demo_account_inv(2)])

text \<open>
  Invariant. Without releases among the calls, the available balance never exceeds the
  balance, at any moment of any interleaving, and no credit ever returns \<open>Overflow\<close> after it
  has raised the balance.
\<close>

theorem held_never_negative_without_release:
  assumes "account_inv a" and "0 \<le> sint (available_balance a)"
    and "\<forall>(op, t) \<in> set calls. \<not> is_release op" and "cas_reach (start_sys a calls) s"
  shows "sint (m_avail (mem s)) \<le> sint (m_balance (mem s)) \<and>
         (\<forall>th \<in> set (threads s). th_pc th \<noteq> CreditLost)"
proof -
  have "gap_inv s" using reach_gap_inv [OF assms(4) gap_inv_start [OF assms(1-3)]] .
  with flights_nonneg [of s] show ?thesis by (auto simp: gap_inv_def no_release_def)
qed

theorem held_never_negative_without_release_witness:
  "sint (m_avail (mem (schedule demo_schedule (start_sys demo_account demo_calls)))) \<le>
   sint (m_balance (mem (schedule demo_schedule (start_sys demo_account demo_calls))))"
  using held_never_negative_without_release [OF demo_account_inv _ demo_run]
  by (simp add: demo_calls_def)

text \<open>
  C10. Termination. The loops are lock-free: from the start of any finite set of calls on an
  account, no schedule takes steps forever, however the scheduler chooses.
\<close>

theorem cas_loops_terminate:
  "\<not> (\<exists>run. run 0 = start_sys a calls \<and> (\<forall>k. cas_step (run k) (run (Suc k))))"
proof
  assume "\<exists>run. run 0 = start_sys a calls \<and> (\<forall>k. cas_step (run k) (run (Suc k)))"
  then obtain run where run: "run 0 = start_sys a calls" "\<And>k. cas_step (run k) (run (Suc k))"
    by blast
  have "fits_sys (run k)" for k
    by (induction k) (auto simp: run(1) fits_sys_start dest: cas_step_decreases [OF run(2)])
  with run cas_step_wf show False by (auto simp: wf_iff_no_infinite_down_chain)
qed

text \<open>
  Equivalence. A call that runs with no other thread returns after at most six accesses to
  the shared fields, with the result and the final fields of the sequential operation.
\<close>

theorem solo_run_is_sequential:
  "outcome_of (th_pc (threads (solo_run op t a) ! 0)) = Some (fst (sequential op t a)) \<and>
   mem (solo_run op t a) = mem_of (snd (sequential op t a))"
proof -
  obtain p m where iter: "call_iter 6 op t PEntry (mem_of a) = (p, m)" by fastforce
  have "solo_run op t a = \<lparr>mem = m, threads = [\<lparr>th_op = op, th_now = t, th_pc = p\<rparr>]\<rparr>"
    using schedule_solo [of 6 "mem_of a" op t PEntry] iter
    by (simp add: solo_run_def start_sys_def mem_of_def)
  with solo_call [of op t a] iter show ?thesis by (simp add: prod_eq_iff)
qed

text \<open>
  The race of a release with a debit. The debit has lowered the available balance and not yet the
  balance, so that the release sees its amount as held.
\<close>

definition race_calls :: "account \<Rightarrow> i64 \<Rightarrow> i64 \<Rightarrow> (cas_op \<times> timestamp) list" where
  "race_calls a d r = [(CDebit d, 1), (CRelease r, 2), (CDebit (available_balance a - d + r), 3)]"

definition race_schedule :: "nat list" where
  "race_schedule = [0, 0, 0, 1, 1, 1, 1, 0, 0, 2, 2, 2, 2, 2]"

lemma race_amounts:
  assumes "account_inv a" and "0 < sint d" and "sint d \<le> sint (available_balance a)"
    and "sint (balance a) - sint (available_balance a) < sint r"
    and "sint r \<le> sint (balance a) - sint (available_balance a) + sint d"
  shows "sint (available_balance a - d) = sint (available_balance a) - sint d"
    and "sint (available_balance a - d + r) = sint (available_balance a) - sint d + sint r"
    and "sint (balance a - d) = sint (balance a) - sint d"
    and "sint (balance a - d - (available_balance a - d + r)) = sint (balance a) - sint (available_balance a) - sint r"
proof -
  note bounds = sint_i64_lower [of "balance a"] sint_i64_upper [of "balance a"]
    sint_i64_lower [of "available_balance a"] sint_i64_upper [of "available_balance a"]
    sint_i64_lower [of d] sint_i64_upper [of d] sint_i64_lower [of r] sint_i64_upper [of r]
  show *: "sint (available_balance a - d) = sint (available_balance a) - sint d"
    "sint (balance a - d) = sint (balance a) - sint d"
    using assms bounds by (simp_all add: sint_sub_i64 account_inv_def i64_simps)
  show **: "sint (available_balance a - d + r) = sint (available_balance a) - sint d + sint r"
    using assms bounds * sint_add_i64 [of "available_balance a - d" r] by (simp add: account_inv_def i64_simps)
  show "sint (balance a - d - (available_balance a - d + r)) = sint (balance a) - sint (available_balance a) - sint r"
    using assms bounds * ** sint_sub_i64 [of "balance a - d" "available_balance a - d + r"]
    by (simp add: account_inv_def i64_simps)
qed

lemma race_run:
  assumes "acc_status a = Open" and "account_inv a" and "0 < sint d" and "sint d \<le> sint (available_balance a)"
    and "sint (balance a) - sint (available_balance a) < sint r"
    and "sint r \<le> sint (balance a) - sint (available_balance a) + sint d"
  shows "schedule race_schedule (start_sys a (race_calls a d r)) =
      \<lparr>mem = \<lparr>m_balance = balance a - d - (available_balance a - d + r), m_avail = 0, m_status = Open, m_updated = 3\<rparr>,
       threads = [\<lparr>th_op = CDebit d, th_now = 1, th_pc = Done (ODebit (Ok (balance a - d)))\<rparr>,
         \<lparr>th_op = CRelease r, th_now = 2, th_pc = Done (OHold (Ok ()))\<rparr>,
         \<lparr>th_op = CDebit (available_balance a - d + r), th_now = 3,
          th_pc = Done (ODebit (Ok (balance a - d - (available_balance a - d + r))))\<rparr>]\<rparr>"
    and "enabled_schedule race_schedule (start_sys a (race_calls a d r))"
proof -
  have pos: "0 < sint r" using assms(2,5) by (simp add: account_inv_def)
  have range: "i64_in_range (sint (available_balance a) - sint d + sint r)"
    using assms pos sint_i64_upper [of "balance a"] sint_i64_lower [of "available_balance a"]
    by (simp add: account_inv_def i64_simps)
  note eval = race_schedule_def race_calls_def start_sys_def sys_step_def finished_def checked_add_i64_def
    race_amounts [OF assms(2-6)]
  show "schedule race_schedule (start_sys a (race_calls a d r)) =
      \<lparr>mem = \<lparr>m_balance = balance a - d - (available_balance a - d + r), m_avail = 0, m_status = Open, m_updated = 3\<rparr>,
       threads = [\<lparr>th_op = CDebit d, th_now = 1, th_pc = Done (ODebit (Ok (balance a - d)))\<rparr>,
         \<lparr>th_op = CRelease r, th_now = 2, th_pc = Done (OHold (Ok ()))\<rparr>,
         \<lparr>th_op = CDebit (available_balance a - d + r), th_now = 3,
          th_pc = Done (ODebit (Ok (balance a - d - (available_balance a - d + r))))\<rparr>]\<rparr>"
    using assms pos range by (simp add: eval)
  show "enabled_schedule race_schedule (start_sys a (race_calls a d r))"
    using assms pos range by (simp add: eval)
qed

text \<open>
  C16. Safety (a race). On an open account, take a debit that its available balance covers and a
  release of more than is held, but of no more than is held and the debit together. Run alone,
  before the debit or after it, the release is refused: it exceeds what is held. Run between the
  two writes of the debit it succeeds, and so does a debit of all that is then available: every
  call has returned \<open>Ok\<close>, nothing is available, and the balance is below zero by exactly the
  amount that was released and not held.
\<close>

theorem release_race_overdraws:
  assumes "acc_status a = Open" and "account_inv a" and "0 < sint d" and "sint d \<le> sint (available_balance a)"
    and "sint (balance a) - sint (available_balance a) < sint r"
    and "sint r \<le> sint (balance a) - sint (available_balance a) + sint d"
  shows "(\<forall>b \<in> {a, snd (debit a d 1)}.
      \<exists>e. outcome_of (th_pc (threads (solo_run (CRelease r) 2 b) ! 0)) = Some (OHold (Err e)) \<and>
          mem (solo_run (CRelease r) 2 b) = mem_of b) \<and>
    (\<exists>s. cas_reach (start_sys a (race_calls a d r)) s \<and> quiescent s \<and>
      map th_pc (threads s) = [Done (ODebit (Ok (balance a - d))), Done (OHold (Ok ())), Done (ODebit (Ok (m_balance (mem s))))] \<and>
      m_avail (mem s) = 0 \<and>
      sint (m_balance (mem s)) = sint (balance a) - sint (available_balance a) - sint r \<and>
      sint (m_balance (mem s)) < 0)"
proof -
  have "\<exists>e. release_hold b r = (Err e, b)" if "b \<in> {a, snd (debit a d 1)}" for b
  proof -
    have "sint (balance b) - sint (available_balance b) < sint r" "account_inv b"
      using that assms race_amounts(1,3) [OF assms(2-6)] by (auto simp: debit_def Let_def account_inv_def)
    then have "sint (balance b) < sint (available_balance b) + sint r" by simp
    then show ?thesis
      by (auto simp: release_hold_def Let_def checked_add_i64_def sint_add_i64)
  qed
  then have "\<exists>e. outcome_of (th_pc (threads (solo_run (CRelease r) 2 b) ! 0)) = Some (OHold (Err e)) \<and>
      mem (solo_run (CRelease r) 2 b) = mem_of b" if "b \<in> {a, snd (debit a d 1)}" for b
    using solo_run_is_sequential [of "CRelease r" 2 b] that by fastforce
  moreover have "cas_reach (start_sys a (race_calls a d r)) (schedule race_schedule (start_sys a (race_calls a d r)))"
    by (rule schedule_reach [OF race_run(2) [OF assms]])
  ultimately show ?thesis
    using race_run(1) [OF assms] race_amounts(4) [OF assms(2-6)] assms(5)
    by (intro conjI ballI exI [of _ "schedule race_schedule (start_sys a (race_calls a d r))"])
      (simp_all add: quiescent_def finished_def)
qed

text \<open>With 1000 cents and nothing on hold, a release of 100 overdraws the account by 100.\<close>

theorem release_race_overdraws_witness:
  "\<exists>s. cas_reach (start_sys demo_account (race_calls demo_account 100 100)) s \<and> quiescent s \<and>
     sint (m_balance (mem s)) = - 100"
  using release_race_overdraws [of demo_account 100 100]
  by (auto simp: demo_account_def account_new_def account_inv_def)

end
