(* ===== verification/Journal.thy ===== *)
theory Journal
  imports Ledger_Prelude
begin

section \<open>The double-entry journal\<close>

text \<open>
  \<open>src/domain/journal.rs\<close>: entry legs, the validation of a journal entry, reversal, tamper
  check, net position, and the lifecycle of a transaction; and the journal queries of
  \<open>src/extensions.rs\<close> (\<open>JournalExt\<close>). Sums that the code takes in \<open>i128\<close> are integers
  (\<open>side_total_fits_i128\<close> shows that they fit). Identifiers and instants drawn by the code are
  arguments; \<open>show_uuid\<close> is the \<open>Display\<close> of the \<open>uuid\<close> package. The debug assertions of the
  leg constructors are off, as in the release profile.
\<close>

datatype entry_side = Debit | Credit

fun counterpart :: "entry_side \<Rightarrow> entry_side" where
  "counterpart Debit = Credit"
| "counterpart Credit = Debit"

record entry_leg =
  leg_account :: uuid
  leg_side :: entry_side
  leg_amount :: i64
  leg_decimal :: "decimal option"

definition leg_debit :: "uuid \<Rightarrow> i64 \<Rightarrow> entry_leg" where
  "leg_debit acct amount =
     \<lparr>leg_account = acct, leg_side = Debit,
      leg_amount = (if sint amount > 0 then amount else 0), leg_decimal = None\<rparr>"

definition leg_credit :: "uuid \<Rightarrow> i64 \<Rightarrow> entry_leg" where
  "leg_credit acct amount =
     \<lparr>leg_account = acct, leg_side = Credit,
      leg_amount = (if sint amount > 0 then amount else 0), leg_decimal = None\<rparr>"

record journal_entry =
  entry_id :: uuid
  entry_transaction :: uuid
  sequence_number :: u64
  legs :: "entry_leg list"
  description :: string
  recorded_at :: timestamp
  reverses :: "uuid option"

datatype journal_error =
    NotEnoughLegs
  | MissingSide
  | Unbalanced i64 i64

definition side_total :: "entry_side \<Rightarrow> entry_leg list \<Rightarrow> int" where
  "side_total side ls = sum_list (map (\<lambda>l. sint (leg_amount l)) (filter (\<lambda>l. leg_side l = side) ls))"

text \<open>\<open>i128::try_into().unwrap_or(i64::MAX)\<close>.\<close>

definition to_i64_or_max :: "int \<Rightarrow> i64" where
  "to_i64_or_max n = (if i64_in_range n then word_of_int n else word_of_int i64_max)"

definition entry_new ::
  "uuid \<Rightarrow> timestamp \<Rightarrow> uuid \<Rightarrow> u64 \<Rightarrow> entry_leg list \<Rightarrow> string \<Rightarrow> (journal_entry, journal_error) result"
where
  "entry_new eid now txn seq ls desc =
     (if length ls < 2 then Err NotEnoughLegs
      else let total_debits = side_total Debit ls; total_credits = side_total Credit ls in
        if total_debits = 0 \<or> total_credits = 0 then Err MissingSide
        else if total_debits \<noteq> total_credits
        then Err (Unbalanced (to_i64_or_max total_debits) (to_i64_or_max total_credits))
        else Ok \<lparr>entry_id = eid, entry_transaction = txn, sequence_number = seq, legs = ls,
                 description = desc, recorded_at = now, reverses = None\<rparr>)"

definition reverse_leg :: "entry_leg \<Rightarrow> entry_leg" where
  "reverse_leg l =
     \<lparr>leg_account = leg_account l,
      leg_side = (case leg_side l of Debit \<Rightarrow> Credit | Credit \<Rightarrow> Debit),
      leg_amount = leg_amount l, leg_decimal = leg_decimal l\<rparr>"

definition entry_reverse ::
  "(uuid \<Rightarrow> string) \<Rightarrow> uuid \<Rightarrow> timestamp \<Rightarrow> journal_entry \<Rightarrow> uuid \<Rightarrow> u64 \<Rightarrow>
   (journal_entry, journal_error) result"
where
  "entry_reverse show_uuid eid now e txn seq =
     (case entry_new eid now txn seq (map reverse_leg (legs e))
             (''REVERSAL of '' @ show_uuid (entry_id e)) of
        Err err \<Rightarrow> Err err
      | Ok reversal \<Rightarrow> Ok (reversal\<lparr>reverses := Some (entry_id e)\<rparr>))"

definition verify_balance :: "journal_entry \<Rightarrow> bool" where
  "verify_balance e =
     (let debits = side_total Debit (legs e); credits = side_total Credit (legs e)
      in debits = credits \<and> debits > 0)"

definition net_position :: "entry_leg list \<Rightarrow> uuid \<Rightarrow> int \<times> int \<times> int" where
  "net_position ls acct =
     (let credits = side_total Credit (filter (\<lambda>l. leg_account l = acct) ls);
          debits = side_total Debit (filter (\<lambda>l. leg_account l = acct) ls)
      in (credits, debits, credits - debits))"

subsection \<open>Transactions\<close>

datatype transaction_status = TxnPending | TxnCommitted | TxnRejected | TxnReversed

record transaction =
  txn_id :: uuid
  txn_reference :: string
  txn_status :: transaction_status
  txn_created_at :: timestamp
  txn_completed_at :: "timestamp option"

definition transaction_new :: "uuid \<Rightarrow> timestamp \<Rightarrow> string \<Rightarrow> transaction" where
  "transaction_new tid now reference =
     \<lparr>txn_id = tid, txn_reference = reference, txn_status = TxnPending,
      txn_created_at = now, txn_completed_at = None\<rparr>"

definition transaction_commit :: "timestamp \<Rightarrow> transaction \<Rightarrow> bool \<times> transaction" where
  "transaction_commit now t =
     (if txn_status t \<noteq> TxnPending then (False, t)
      else (True, t\<lparr>txn_status := TxnCommitted, txn_completed_at := Some now\<rparr>))"

definition transaction_reject :: "timestamp \<Rightarrow> transaction \<Rightarrow> bool \<times> transaction" where
  "transaction_reject now t =
     (if txn_status t \<noteq> TxnPending then (False, t)
      else (True, t\<lparr>txn_status := TxnRejected, txn_completed_at := Some now\<rparr>))"

subsection \<open>Journal queries\<close>

definition ext_net_position :: "journal_entry list \<Rightarrow> uuid \<Rightarrow> i64" where
  "ext_net_position es acct =
     sum_list (map (\<lambda>l. case leg_side l of Debit \<Rightarrow> leg_amount l | Credit \<Rightarrow> - leg_amount l)
       (filter (\<lambda>l. leg_account l = acct) (concat (map legs es))))"

definition for_account :: "journal_entry list \<Rightarrow> uuid \<Rightarrow> journal_entry list" where
  "for_account es acct = filter (\<lambda>e. \<exists>l \<in> set (legs e). leg_account l = acct) es"

definition validate_all :: "journal_entry list \<Rightarrow> bool \<times> uuid list" where
  "validate_all es =
     (let invalid = map entry_id (filter (\<lambda>e. \<not> verify_balance e) es) in (invalid = [], invalid))"

definition add_to_trial :: "(uuid \<rightharpoonup> i64 \<times> i64) \<Rightarrow> entry_leg \<Rightarrow> (uuid \<rightharpoonup> i64 \<times> i64)" where
  "add_to_trial m l =
     (let (debits, credits) = (case m (leg_account l) of None \<Rightarrow> (0, 0) | Some p \<Rightarrow> p)
      in case leg_side l of
           Debit \<Rightarrow> m(leg_account l \<mapsto> (saturating_add_i64 debits (leg_amount l), credits))
         | Credit \<Rightarrow> m(leg_account l \<mapsto> (debits, saturating_add_i64 credits (leg_amount l))))"

definition trial_balance :: "journal_entry list \<Rightarrow> (uuid \<rightharpoonup> i64 \<times> i64)" where
  "trial_balance es = foldl (foldl add_to_trial) Map.empty (map legs es)"

subsection \<open>Totals\<close>

lemma side_total_simps [simp]:
  "side_total s [] = 0"
  "side_total s (l # ls) = (if leg_side l = s then sint (leg_amount l) else 0) + side_total s ls"
  by (simp_all add: side_total_def)

lemma side_total_append [simp]: "side_total s (xs @ ys) = side_total s xs + side_total s ys"
  by (simp add: side_total_def)

lemma reverse_leg_simps [simp]:
  "leg_account (reverse_leg l) = leg_account l" "leg_amount (reverse_leg l) = leg_amount l"
  "leg_side (reverse_leg l) = counterpart (leg_side l)"
  by (cases "leg_side l"; simp add: reverse_leg_def)+

lemma counterpart_involutive [simp]: "counterpart (counterpart s) = s"
  by (cases s) simp_all

lemma reverse_leg_involutive [simp]: "reverse_leg (reverse_leg l) = l"
  by (rule entry_leg.equality) (simp_all, simp add: reverse_leg_def)

lemma reverse_leg_comp [simp]: "reverse_leg \<circ> reverse_leg = id"
  by (simp add: fun_eq_iff)

lemma counterpart_eq: "counterpart a = b \<longleftrightarrow> a = counterpart b"
  by (cases a; cases b) simp_all

lemma side_total_reverse [simp]:
  "side_total s (map reverse_leg ls) = side_total (counterpart s) ls"
  by (induction ls) (auto simp: counterpart_eq)

lemma side_total_nonneg: "\<forall>l \<in> set ls. 0 \<le> sint (leg_amount l) \<Longrightarrow> 0 \<le> side_total s ls"
  by (induction ls) auto

lemma side_total_filter_account_reverse:
  "side_total s (filter (\<lambda>l. leg_account l = a) (map reverse_leg ls)) =
   side_total (counterpart s) (filter (\<lambda>l. leg_account l = a) ls)"
  by (induction ls) (auto simp: counterpart_eq)

text \<open>Each leg contributes at most \<open>2 ^ 63\<close> in absolute value.\<close>

lemma side_total_bound: "\<bar>side_total s ls\<bar> \<le> int (length ls) * 9223372036854775808"
proof (induction ls)
  case Nil
  then show ?case by simp
next
  case (Cons l ls)
  have "\<bar>sint (leg_amount l)\<bar> \<le> 9223372036854775808"
    using sint_i64_lower [of "leg_amount l"] sint_i64_upper [of "leg_amount l"] by simp
  with Cons show ?case by (auto simp: algebra_simps)
qed

lemma entry_new_Ok_iff:
  "(\<exists>e. entry_new eid now txn seq ls desc = Ok e) \<longleftrightarrow>
   2 \<le> length ls \<and> side_total Debit ls \<noteq> 0 \<and> side_total Credit ls = side_total Debit ls"
  by (auto simp: entry_new_def Let_def)

lemma entry_new_OkD:
  assumes "entry_new eid now txn seq ls desc = Ok e"
  shows "legs e = ls" "entry_id e = eid" "sequence_number e = seq" "entry_transaction e = txn"
    "reverses e = None" "2 \<le> length ls" "side_total Debit ls = side_total Credit ls"
    "side_total Debit ls \<noteq> 0"
  using assms by (auto simp: entry_new_def Let_def split: if_splits)

lemma entry_reverse_OkD:
  assumes "entry_reverse show_uuid eid now e txn seq = Ok r"
  shows "legs r = map reverse_leg (legs e)" "entry_id r = eid" "sequence_number r = seq"
    "reverses r = Some (entry_id e)" "side_total Debit (legs e) = side_total Credit (legs e)"
  using assms by (auto simp: entry_reverse_def split: sum.splits dest: entry_new_OkD)

subsection \<open>Properties\<close>

text \<open>
  Bounds. The \<open>i128\<close> sums of an entry cannot overflow: with fewer than \<open>2 ^ 64\<close> legs (more
  than a vector can hold) both totals lie strictly within the range of \<open>i128\<close>.
\<close>

theorem side_total_fits_i128:
  assumes "length ls < 2 ^ 64"
  shows "- (2 ^ 127) \<le> side_total s ls \<and> side_total s ls < 2 ^ 127"
proof -
  have "int (length ls) \<le> 18446744073709551615" using assms by simp
  with side_total_bound [of s ls]
  have "\<bar>side_total s ls\<bar> \<le> 18446744073709551615 * 9223372036854775808" by linarith
  then show ?thesis by (auto simp: abs_le_iff)
qed

theorem side_total_fits_i128_witness:
  "- (2 ^ 127) \<le> side_total Debit [leg_debit 1 9223372036854775807, leg_debit 2 9223372036854775807] \<and>
   side_total Debit [leg_debit 1 9223372036854775807, leg_debit 2 9223372036854775807] < 2 ^ 127"
  by (rule side_total_fits_i128) simp

text \<open>
  Functional. What \<open>JournalEntry::new\<close> accepts: exactly the entries with at least two legs
  whose debits and credits have the same non-zero total; and an accepted entry whose legs have
  no negative amount passes the tamper check \<open>verify_balance\<close>.
\<close>

theorem entry_new_accepts_balanced:
  "((\<exists>e. entry_new eid now txn seq ls desc = Ok e) \<longleftrightarrow>
      2 \<le> length ls \<and> side_total Debit ls \<noteq> 0 \<and> side_total Credit ls = side_total Debit ls) \<and>
   (\<forall>e. entry_new eid now txn seq ls desc = Ok e \<and> (\<forall>l \<in> set ls. 0 \<le> sint (leg_amount l)) \<longrightarrow>
      legs e = ls \<and> verify_balance e)"
proof (intro conjI allI impI entry_new_Ok_iff)
  fix e
  assume "entry_new eid now txn seq ls desc = Ok e \<and> (\<forall>l \<in> set ls. 0 \<le> sint (leg_amount l))"
  then have new: "entry_new eid now txn seq ls desc = Ok e"
    and nonneg: "\<forall>l \<in> set ls. 0 \<le> sint (leg_amount l)" by simp_all
  from entry_new_OkD [OF new] side_total_nonneg [OF nonneg, of Debit]
  show "legs e = ls" "verify_balance e" by (simp_all add: verify_balance_def)
qed

theorem entry_new_accepts_balanced_witness:
  "\<exists>e. entry_new 9 0 5 1 [leg_debit 1 250, leg_credit 2 250] ''rent'' = Ok e \<and> verify_balance e"
proof -
  have "\<exists>e. entry_new 9 0 5 1 [leg_debit 1 250, leg_credit 2 250] ''rent'' = Ok e"
    using entry_new_accepts_balanced [of 9 0 5 1 "[leg_debit 1 250, leg_credit 2 250]" "''rent''"]
    by (simp add: leg_debit_def leg_credit_def)
  then obtain e where "entry_new 9 0 5 1 [leg_debit 1 250, leg_credit 2 250] ''rent'' = Ok e" by blast
  moreover from this have "verify_balance e"
    using entry_new_accepts_balanced [of 9 0 5 1 "[leg_debit 1 250, leg_credit 2 250]" "''rent''"]
    by (simp add: leg_debit_def leg_credit_def)
  ultimately show ?thesis by blast
qed

text \<open>
  C14. Round trip. An entry the journal accepted can always be reversed; the reversal negates
  the net position of every account, records which entry it reverses, is balanced itself, and
  reversing it again gives back the original legs.
\<close>

theorem reversal_negates_and_roundtrips:
  assumes "entry_new eid now txn seq ls desc = Ok e"
  shows "\<exists>r r2. entry_reverse sh eid2 now2 e txn2 seq2 = Ok r \<and> reverses r = Some eid \<and>
     side_total Debit (legs r) = side_total Credit (legs r) \<and>
     (\<forall>a. snd (snd (net_position (legs r) a)) = - snd (snd (net_position ls a))) \<and>
     entry_reverse sh eid3 now3 r txn3 seq3 = Ok r2 \<and> legs r2 = ls"
proof -
  note e = entry_new_OkD [OF assms]
  have "\<exists>r. entry_new eid2 now2 txn2 seq2 (map reverse_leg (legs e))
      (''REVERSAL of '' @ sh (entry_id e)) = Ok r"
    using e by (simp add: entry_new_Ok_iff)
  then obtain r where r: "entry_reverse sh eid2 now2 e txn2 seq2 = Ok r"
    by (auto simp: entry_reverse_def)
  note rD = entry_reverse_OkD [OF r]
  have "\<exists>q. entry_new eid3 now3 txn3 seq3 (map reverse_leg (legs r))
      (''REVERSAL of '' @ sh (entry_id r)) = Ok q"
    using e rD by (simp add: entry_new_Ok_iff)
  then obtain r2 where r2: "entry_reverse sh eid3 now3 r txn3 seq3 = Ok r2"
    by (auto simp: entry_reverse_def)
  have "legs r2 = ls" using entry_reverse_OkD(1) [OF r2] rD(1) e(1) by (simp add: comp_def)
  moreover have "snd (snd (net_position (legs r) a)) = - snd (snd (net_position ls a))" for a
    using rD(1) e(1) by (simp add: net_position_def Let_def side_total_filter_account_reverse)
  ultimately show ?thesis using r r2 rD e by auto
qed

theorem reversal_negates_and_roundtrips_witness:
  "\<exists>e r r2. entry_new 9 0 5 1 [leg_debit 1 250, leg_credit 2 250] ''rent'' = Ok e \<and>
     entry_reverse (\<lambda>_. ''id'') 10 1 e 6 2 = Ok r \<and> reverses r = Some 9 \<and>
     entry_reverse (\<lambda>_. ''id'') 11 2 r 7 3 = Ok r2 \<and>
     legs r2 = [leg_debit 1 250, leg_credit 2 250]"
proof -
  have "\<exists>e. entry_new 9 0 5 1 [leg_debit 1 250, leg_credit 2 250] ''rent'' = Ok e"
    by (simp add: entry_new_Ok_iff leg_debit_def leg_credit_def)
  then obtain e where e: "entry_new 9 0 5 1 [leg_debit 1 250, leg_credit 2 250] ''rent'' = Ok e" by blast
  from reversal_negates_and_roundtrips [OF e, of "\<lambda>_. ''id''" 10 1 6 2 11 2 7 3] e show ?thesis
    by blast
qed

end
