(* ===== verification/Account_Service.thy ===== *)
theory Account_Service
  imports Account Journal
begin

section \<open>The account registry and the posting of legs\<close>

text \<open>
  \<open>src/service/account_service.rs\<close>: the registry of accounts (a \<open>DashMap\<close>, here a map) and
  its operations. The second half is the loop that the ledger service and the REST API share:
  posting the legs of an entry one after the other, stopping at the first error. The interface
  of a store that legs can be posted to is the locale \<open>leg_store\<close>; what it gives (the funds
  move by exactly the net position of each account) is proved there once.
\<close>

type_synonym registry = "uuid \<rightharpoonup> account"

definition service_new :: registry where
  "service_new = Map.empty"

definition create_account ::
  "uuid \<Rightarrow> timestamp \<Rightarrow> timestamp \<Rightarrow> account_type \<Rightarrow> string \<Rightarrow> i64 \<Rightarrow> uuid option \<Rightarrow> registry \<Rightarrow>
   account \<times> registry"
where
  "create_account uid now1 now2 ty cur initial owner svc =
     (let account = account_new uid now1 now2 ty cur initial owner
      in (account, svc(acc_id account \<mapsto> account_clone account)))"

definition perform_debit ::
  "uuid \<Rightarrow> i64 \<Rightarrow> timestamp \<Rightarrow> registry \<Rightarrow> (i64, debit_error) result \<times> registry"
where
  "perform_debit k n now svc =
     (case svc k of
        None \<Rightarrow> (Err (DebitAccountNotFound k), svc)
      | Some a \<Rightarrow> (case debit a n now of (r, a') \<Rightarrow> (r, svc(k \<mapsto> a'))))"

definition perform_credit ::
  "uuid \<Rightarrow> i64 \<Rightarrow> timestamp \<Rightarrow> registry \<Rightarrow> (i64, credit_error) result \<times> registry"
where
  "perform_credit k n now svc =
     (case svc k of
        None \<Rightarrow> (Err (CreditAccountNotFound k), svc)
      | Some a \<Rightarrow> (case credit a n now of (r, a') \<Rightarrow> (r, svc(k \<mapsto> a'))))"

definition service_place_hold ::
  "uuid \<Rightarrow> i64 \<Rightarrow> registry \<Rightarrow> (unit, hold_error) result \<times> registry"
where
  "service_place_hold k n svc =
     (case svc k of
        None \<Rightarrow> (Err (HoldAccountNotFound k), svc)
      | Some a \<Rightarrow> (case place_hold a n of (r, a') \<Rightarrow> (r, svc(k \<mapsto> a'))))"

definition service_release_hold ::
  "uuid \<Rightarrow> i64 \<Rightarrow> registry \<Rightarrow> (unit, hold_error) result \<times> registry"
where
  "service_release_hold k n svc =
     (case svc k of
        None \<Rightarrow> (Err (HoldAccountNotFound k), svc)
      | Some a \<Rightarrow> (case release_hold a n of (r, a') \<Rightarrow> (r, svc(k \<mapsto> a'))))"

definition get_account :: "uuid \<Rightarrow> registry \<Rightarrow> account option" where
  "get_account k svc = map_option account_clone (svc k)"

definition service_set_status ::
  "uuid \<Rightarrow> account_status \<Rightarrow> timestamp \<Rightarrow> registry \<Rightarrow> (bool, account_status_error) result \<times> registry"
where
  "service_set_status k new now svc =
     (case svc k of
        None \<Rightarrow> (Ok False, svc)
      | Some a \<Rightarrow>
          (case set_status a new now of
             (Err e, a') \<Rightarrow> (Err e, svc(k \<mapsto> a'))
           | (Ok _, a') \<Rightarrow> (Ok True, svc(k \<mapsto> a'))))"

definition get_balance_cents :: "uuid \<Rightarrow> registry \<Rightarrow> i64 option" where
  "get_balance_cents k svc = map_option balance_cents (svc k)"

definition service_count :: "registry \<Rightarrow> nat" where
  "service_count svc = card (dom svc)"

definition insert_raw :: "uuid \<Rightarrow> account \<Rightarrow> registry \<Rightarrow> registry" where
  "insert_raw k a svc = svc(k \<mapsto> a)"

text \<open>
  The registry's invariant (every account keeps the account invariant, finitely many accounts)
  and the funds it holds in all.
\<close>

definition registry_inv :: "registry \<Rightarrow> bool" where
  "registry_inv svc \<longleftrightarrow> finite (dom svc) \<and> (\<forall>a \<in> ran svc. account_inv a)"

definition registry_funds :: "registry \<Rightarrow> int" where
  "registry_funds svc = map_total (\<lambda>a. sint (balance a)) svc"

definition funds_of :: "registry \<Rightarrow> uuid \<Rightarrow> int" where
  "funds_of svc k = (case svc k of None \<Rightarrow> 0 | Some a \<Rightarrow> sint (balance a))"

lemma registry_inv_cells: "registry_inv svc = acct.cells_inv svc"
  by (simp add: registry_inv_def acct.cells_inv_def)

lemma perform_debit_ok:
  assumes "registry_inv svc" and "perform_debit k n t svc = (Ok v, svc')"
  shows "registry_inv svc' \<and> registry_funds svc' = registry_funds svc - sint n \<and>
    funds_of svc' = (funds_of svc)(k := funds_of svc k - sint n) \<and> dom svc' = dom svc"
proof -
  from assms(2) obtain a a' where a: "svc k = Some a" "debit a n t = (Ok v, a')"
      "svc' = svc(k \<mapsto> a')"
    by (auto simp: perform_debit_def split: option.splits prod.splits)
  moreover have "account_inv a"
    using assms(1) a(1) by (auto simp: registry_inv_cells intro: acct.cells_invD)
  ultimately show ?thesis
    using acct.cells_debit_ok [of svc k a n t v a'] debit_OkD(4) [of a n t v a'] assms(1)
    by (auto simp: registry_inv_cells registry_funds_def funds_of_def)
qed

lemma perform_credit_ok:
  assumes "registry_inv svc" and "perform_credit k n t svc = (Ok v, svc')"
  shows "registry_inv svc' \<and> registry_funds svc' = registry_funds svc + sint n \<and>
    funds_of svc' = (funds_of svc)(k := funds_of svc k + sint n) \<and> dom svc' = dom svc"
proof -
  from assms(2) obtain a a' where a: "svc k = Some a" "credit a n t = (Ok v, a')"
      "svc' = svc(k \<mapsto> a')"
    by (auto simp: perform_credit_def split: option.splits prod.splits)
  moreover have "account_inv a"
    using assms(1) a(1) by (auto simp: registry_inv_cells intro: acct.cells_invD)
  ultimately show ?thesis
    using acct.cells_credit_ok [of svc k a n t v a'] credit_OkD(3) [of a n t v a'] assms(1)
    by (auto simp: registry_inv_cells registry_funds_def funds_of_def)
qed

lemma perform_debit_err:
  "registry_inv svc \<Longrightarrow> perform_debit k n t svc = (Err e, svc') \<Longrightarrow> svc' = svc"
  by (auto simp: perform_debit_def registry_inv_cells split: option.splits prod.splits
      dest: acct.cells_debit_err)

lemma perform_credit_err:
  "registry_inv svc \<Longrightarrow> perform_credit k n t svc = (Err e, svc') \<Longrightarrow> svc' = svc"
  by (auto simp: perform_credit_def registry_inv_cells split: option.splits prod.splits
      dest: acct.cells_credit_err)

subsection \<open>Posting the legs of an entry\<close>

text \<open>
  The loop \<open>for leg in &legs { ... ?; }\<close> over a store: \<open>post\<close> is its body, \<open>clk k\<close> the instant
  the \<open>k\<close>-th leg is posted. It returns at the first error, leaving the legs before it posted.
\<close>

fun post_legs ::
  "(entry_leg \<Rightarrow> timestamp \<Rightarrow> 's \<Rightarrow> (unit, 'e) result \<times> 's) \<Rightarrow> (nat \<Rightarrow> timestamp) \<Rightarrow>
   entry_leg list \<Rightarrow> 's \<Rightarrow> (unit, 'e) result \<times> 's"
where
  "post_legs post clk [] s = (Ok (), s)"
| "post_legs post clk (l # ls) s =
     (case post l (clk 0) s of
        (Err e, s') \<Rightarrow> (Err e, s')
      | (Ok _, s') \<Rightarrow> post_legs post (\<lambda>k. clk (Suc k)) ls s')"

definition leg_effect :: "entry_leg \<Rightarrow> int" where
  "leg_effect l = (case leg_side l of Debit \<Rightarrow> - sint (leg_amount l) | Credit \<Rightarrow> sint (leg_amount l))"

text \<open>What the poster relies on: a leg posted moves its account by its effect and nothing else;
  a leg refused changes nothing.\<close>

locale leg_store =
  fixes post :: "entry_leg \<Rightarrow> timestamp \<Rightarrow> 's \<Rightarrow> (unit, 'e) result \<times> 's"
    and store_inv :: "'s \<Rightarrow> bool"
    and worth :: "'s \<Rightarrow> int"
    and funds_at :: "'s \<Rightarrow> uuid \<Rightarrow> int"
  assumes post_ok: "store_inv s \<Longrightarrow> post l t s = (Ok u, s') \<Longrightarrow>
      store_inv s' \<and> worth s' = worth s + leg_effect l \<and>
      funds_at s' = (funds_at s)(leg_account l := funds_at s (leg_account l) + leg_effect l)"
    and post_err: "store_inv s \<Longrightarrow> post l t s = (Err e, s') \<Longrightarrow> s' = s"
begin

lemma post_legs_ok:
  assumes "store_inv s" and "post_legs post clk ls s = (Ok u, s')"
  shows "store_inv s' \<and> worth s' = worth s + (side_total Credit ls - side_total Debit ls) \<and>
    (\<forall>a. funds_at s' a = funds_at s a + snd (snd (net_position ls a)))"
  using assms
proof (induction ls arbitrary: s clk)
  case Nil
  then show ?case by (simp add: net_position_def)
next
  case (Cons l ls)
  from Cons.prems(2) obtain u1 s1 where s1: "post l (clk 0) s = (Ok u1, s1)"
    and rest: "post_legs post (\<lambda>k. clk (Suc k)) ls s1 = (Ok u, s')"
    by (auto split: prod.splits sum.splits)
  note head = post_ok [OF Cons.prems(1) s1]
  have eff: "leg_effect l = (if leg_side l = Credit then sint (leg_amount l) else 0)
      - (if leg_side l = Debit then sint (leg_amount l) else 0)"
    by (cases "leg_side l") (simp_all add: leg_effect_def)
  from Cons.IH [OF _ rest] head eff show ?case
    by (auto simp: net_position_def Let_def)
qed

lemma post_legs_inv:
  "store_inv s \<Longrightarrow> post_legs post clk ls s = (r, s') \<Longrightarrow> store_inv s'"
proof (induction ls arbitrary: s clk)
  case Nil
  then show ?case by simp
next
  case (Cons l ls)
  then show ?case
    by (auto split: prod.splits sum.splits dest: post_err) (use post_ok in blast)
qed

text \<open>
  On an error, the store is as after posting the legs before the one refused, and the error is the
  one with which that leg is refused.
\<close>

lemma post_legs_refused:
  assumes "store_inv s" and "post_legs post clk ls s = (Err e, s')"
  shows "\<exists>k < length ls. post_legs post clk (take k ls) s = (Ok (), s') \<and> fst (post (ls ! k) (clk k) s') = Err e"
  using assms
proof (induction ls arbitrary: s clk)
  case Nil
  then show ?case by simp
next
  case (Cons l ls)
  show ?case
  proof (cases "post l (clk 0) s")
    case (Pair r s1)
    show ?thesis
    proof (cases r)
      case (Inl e1)
      with Pair Cons.prems post_err [of s l "clk 0" e1 s1] show ?thesis
        by (intro exI [of _ 0]) auto
    next
      case (Inr u1)
      with Pair Cons.prems have "store_inv s1" "post_legs post (\<lambda>k. clk (Suc k)) ls s1 = (Err e, s')"
        using post_ok [of s l "clk 0" u1 s1] by auto
      from Cons.IH [OF this] obtain k where "k < length ls"
        "post_legs post (\<lambda>k. clk (Suc k)) (take k ls) s1 = (Ok (), s')" "fst (post (ls ! k) (clk (Suc k)) s') = Err e"
        by blast
      with Pair Inr show ?thesis by (intro exI [of _ "Suc k"]) simp
    qed
  qed
qed

end

text \<open>Posting through the registry, as the API does: the body of its reversal loop.\<close>

datatype post_error = PostDebit debit_error | PostCredit credit_error

definition registry_post :: "entry_leg \<Rightarrow> timestamp \<Rightarrow> registry \<Rightarrow> (unit, post_error) result \<times> registry"
where
  "registry_post l now svc =
     (case leg_side l of
        Debit \<Rightarrow>
          (case perform_debit (leg_account l) (leg_amount l) now svc of
             (Err e, svc') \<Rightarrow> (Err (PostDebit e), svc')
           | (Ok _, svc') \<Rightarrow> (Ok (), svc'))
      | Credit \<Rightarrow>
          (case perform_credit (leg_account l) (leg_amount l) now svc of
             (Err e, svc') \<Rightarrow> (Err (PostCredit e), svc')
           | (Ok _, svc') \<Rightarrow> (Ok (), svc')))"

interpretation reg: leg_store registry_post registry_inv registry_funds funds_of
proof (unfold_locales, goal_cases)
  case (1 s l t u s')
  show ?case
  proof (cases "leg_side l")
    case Debit
    with 1(2) obtain v where "perform_debit (leg_account l) (leg_amount l) t s = (Ok v, s')"
      by (auto simp: registry_post_def split: prod.splits sum.splits)
    from perform_debit_ok [OF 1(1) this] Debit show ?thesis by (simp add: leg_effect_def)
  next
    case Credit
    with 1(2) obtain v where "perform_credit (leg_account l) (leg_amount l) t s = (Ok v, s')"
      by (auto simp: registry_post_def split: prod.splits sum.splits)
    from perform_credit_ok [OF 1(1) this] Credit show ?thesis by (simp add: leg_effect_def)
  qed
next
  case (2 s l t e s')
  then show ?case
    by (auto simp: registry_post_def split: entry_side.splits prod.splits sum.splits
        dest: perform_debit_err perform_credit_err)
qed

end
