(* ===== verification/Ledger_Service.thy ===== *)
theory Ledger_Service
  imports Account_Service
begin

section \<open>The ledger service\<close>

text \<open>
  \<open>src/service/ledger_service.rs\<close>: the append-only journal with its sequence counter, the
  accounts and the open transactions, and the operations that write them. The locks are
  released between the phases of a call; a call is modelled as run without another call in
  between. \<open>clk k\<close> is the \<open>k\<close>-th instant the call reads.
\<close>

record ledger =
  journal_entries :: "journal_entry list"
  sequence_counter :: u64
  ledger_accounts :: registry
  transactions :: "uuid \<rightharpoonup> transaction"

datatype ledger_error =
    LedgerJournalError journal_error
  | LedgerAccountNotFound uuid
  | LedgerDebitError uuid debit_error
  | LedgerCreditError uuid credit_error
  | LedgerEntryNotFound uuid

definition ledger_new :: "registry \<Rightarrow> ledger" where
  "ledger_new accounts =
     \<lparr>journal_entries = [], sequence_counter = 0, ledger_accounts = accounts,
      transactions = Map.empty\<rparr>"

definition next_sequence :: "ledger \<Rightarrow> u64 \<times> ledger" where
  "next_sequence g = (let c = sequence_counter g + 1 in (c, g\<lparr>sequence_counter := c\<rparr>))"

definition journal_append :: "journal_entry \<Rightarrow> ledger \<Rightarrow> ledger" where
  "journal_append e g = g\<lparr>journal_entries := journal_entries g @ [e]\<rparr>"

definition begin_transaction :: "uuid \<Rightarrow> timestamp \<Rightarrow> string \<Rightarrow> ledger \<Rightarrow> uuid \<times> ledger" where
  "begin_transaction tid now reference g =
     (let txn = transaction_new tid now reference
      in (txn_id txn, g\<lparr>transactions := (transactions g)(txn_id txn \<mapsto> txn)\<rparr>))"

text \<open>One iteration of the loop that applies an entry to the accounts.\<close>

definition ledger_post ::
  "entry_leg \<Rightarrow> timestamp \<Rightarrow> registry \<Rightarrow> (unit, ledger_error) result \<times> registry"
where
  "ledger_post l now accounts =
     (case accounts (leg_account l) of
        None \<Rightarrow> (Err (LedgerAccountNotFound (leg_account l)), accounts)
      | Some a \<Rightarrow>
          (case leg_side l of
             Debit \<Rightarrow>
               (case debit a (leg_amount l) now of
                  (Err e, a') \<Rightarrow>
                    (Err (LedgerDebitError (leg_account l) e), accounts(leg_account l \<mapsto> a'))
                | (Ok _, a') \<Rightarrow> (Ok (), accounts(leg_account l \<mapsto> a')))
           | Credit \<Rightarrow>
               (case credit a (leg_amount l) now of
                  (Err e, a') \<Rightarrow>
                    (Err (LedgerCreditError (leg_account l) e), accounts(leg_account l \<mapsto> a'))
                | (Ok _, a') \<Rightarrow> (Ok (), accounts(leg_account l \<mapsto> a')))))"

definition mark_committed :: "timestamp \<Rightarrow> uuid \<Rightarrow> ledger \<Rightarrow> ledger" where
  "mark_committed now txn g =
     (case transactions g txn of
        None \<Rightarrow> g
      | Some t \<Rightarrow> g\<lparr>transactions := (transactions g)(txn \<mapsto> snd (transaction_commit now t))\<rparr>)"

definition record_entry ::
  "uuid \<Rightarrow> (nat \<Rightarrow> timestamp) \<Rightarrow> uuid \<Rightarrow> entry_leg list \<Rightarrow> string \<Rightarrow> ledger \<Rightarrow>
   (journal_entry, ledger_error) result \<times> ledger"
where
  "record_entry eid clk txn ls desc g =
     (let (seq, g1) = next_sequence g in
      (case entry_new eid (clk 0) txn seq ls desc of
        Err e \<Rightarrow> (Err (LedgerJournalError e), g1)
      | Ok entry \<Rightarrow>
          let g2 = journal_append entry g1 in
          (case post_legs ledger_post (\<lambda>k. clk (Suc k)) ls (ledger_accounts g2) of
             (Err e, accounts) \<Rightarrow> (Err e, g2\<lparr>ledger_accounts := accounts\<rparr>)
           | (Ok _, accounts) \<Rightarrow>
               (Ok entry,
                mark_committed (clk (Suc (length ls))) txn (g2\<lparr>ledger_accounts := accounts\<rparr>)))))"

definition record_transfer ::
  "uuid \<Rightarrow> (nat \<Rightarrow> timestamp) \<Rightarrow> uuid \<Rightarrow> uuid \<Rightarrow> uuid \<Rightarrow> i64 \<Rightarrow> string \<Rightarrow> ledger \<Rightarrow>
   (journal_entry, ledger_error) result \<times> ledger"
where
  "record_transfer eid clk txn from to amount desc g =
     record_entry eid clk txn [leg_debit from amount, leg_credit to amount] desc g"

definition reverse_entry ::
  "(uuid \<Rightarrow> string) \<Rightarrow> uuid \<Rightarrow> uuid \<Rightarrow> (nat \<Rightarrow> timestamp) \<Rightarrow> uuid \<Rightarrow> ledger \<Rightarrow>
   (journal_entry, ledger_error) result \<times> ledger"
where
  "reverse_entry show_uuid new_txn eid clk original_id g =
     (case List.find (\<lambda>e. entry_id e = original_id) (journal_entries g) of
        None \<Rightarrow> (Err (LedgerEntryNotFound original_id), g)
      | Some original \<Rightarrow>
          let (txn, g1) = begin_transaction new_txn (clk 0) (''REV-'' @ show_uuid original_id) g;
              (seq, g2) = next_sequence g1
          in (case entry_reverse show_uuid eid (clk 1) original txn seq of
               Err e \<Rightarrow> (Err (LedgerJournalError e), g2)
             | Ok reversal \<Rightarrow>
                 let g3 = journal_append reversal g2 in
                 (case post_legs ledger_post (\<lambda>k. clk (k + 2)) (legs reversal) (ledger_accounts g3) of
                    (Err e, accounts) \<Rightarrow> (Err e, g3\<lparr>ledger_accounts := accounts\<rparr>)
                  | (Ok _, accounts) \<Rightarrow> (Ok reversal, g3\<lparr>ledger_accounts := accounts\<rparr>))))"

definition get_all_entries :: "ledger \<Rightarrow> journal_entry list" where
  "get_all_entries g = journal_entries g"

definition get_transaction :: "uuid \<Rightarrow> ledger \<Rightarrow> transaction option" where
  "get_transaction txn g = transactions g txn"

subsection \<open>The ledger is a store for legs\<close>

lemma ledger_post_registry:
  assumes "registry_inv m" and "ledger_post l t m = (r, m')"
  shows "\<exists>r'. registry_post l t m = (r', m') \<and> is_ok r' = is_ok r"
  using assms(2)
  by (cases "m (leg_account l)")
    (auto simp: ledger_post_def registry_post_def perform_debit_def perform_credit_def
      split: entry_side.splits prod.splits sum.splits)

interpretation led: leg_store ledger_post registry_inv registry_funds funds_of
proof (unfold_locales, goal_cases)
  case (1 s l t u s')
  from ledger_post_registry [OF this] obtain v where "registry_post l t s = (Ok v, s')"
    by (auto simp: is_ok_iff)
  from reg.post_ok [OF 1(1) this] show ?case .
next
  case (2 s l t e s')
  from ledger_post_registry [OF this] obtain v where "registry_post l t s = (Err v, s')"
    using not_is_ok_iff by fastforce
  from reg.post_err [OF 2(1) this] show ?case .
qed

subsection \<open>The invariant of the ledger\<close>

definition entry_balanced :: "journal_entry \<Rightarrow> bool" where
  "entry_balanced e \<longleftrightarrow> 2 \<le> length (legs e) \<and> side_total Debit (legs e) \<noteq> 0 \<and>
     side_total Credit (legs e) = side_total Debit (legs e)"

definition ledger_inv :: "ledger \<Rightarrow> bool" where
  "ledger_inv g \<longleftrightarrow> registry_inv (ledger_accounts g) \<and>
     (\<forall>e \<in> set (journal_entries g). entry_balanced e) \<and>
     sorted_wrt (<) (map (\<lambda>e. unat (sequence_number e)) (journal_entries g)) \<and>
     (\<forall>e \<in> set (journal_entries g). unat (sequence_number e) \<le> unat (sequence_counter g))"

datatype ledger_op =
    LBegin uuid timestamp string
  | LRecord uuid "nat \<Rightarrow> timestamp" uuid "entry_leg list" string
  | LTransfer uuid "nat \<Rightarrow> timestamp" uuid uuid uuid i64 string
  | LReverse uuid uuid "nat \<Rightarrow> timestamp" uuid

fun ledger_call :: "(uuid \<Rightarrow> string) \<Rightarrow> ledger_op \<Rightarrow> ledger \<Rightarrow> ledger" where
  "ledger_call sh (LBegin tid now reference) g = snd (begin_transaction tid now reference g)"
| "ledger_call sh (LRecord eid clk txn ls desc) g = snd (record_entry eid clk txn ls desc g)"
| "ledger_call sh (LTransfer eid clk txn from to n desc) g =
     snd (record_transfer eid clk txn from to n desc g)"
| "ledger_call sh (LReverse tid eid clk original) g = snd (reverse_entry sh tid eid clk original g)"

fun ledger_calls :: "(uuid \<Rightarrow> string) \<Rightarrow> ledger_op list \<Rightarrow> ledger \<Rightarrow> ledger" where
  "ledger_calls sh [] g = g"
| "ledger_calls sh (op # ops) g = ledger_calls sh ops (ledger_call sh op g)"

lemma mark_committed_simps [simp]:
  "journal_entries (mark_committed t x g) = journal_entries g"
  "sequence_counter (mark_committed t x g) = sequence_counter g"
  "ledger_accounts (mark_committed t x g) = ledger_accounts g"
  by (simp_all add: mark_committed_def split: option.split)

lemma entry_new_balanced: "entry_new eid now txn seq ls desc = Ok e \<Longrightarrow> entry_balanced e"
  using entry_new_OkD [of eid now txn seq ls desc e] by (simp add: entry_balanced_def)

lemma entry_reverse_balanced: "entry_reverse sh eid now e txn seq = Ok r \<Longrightarrow> entry_balanced r"
  by (auto simp: entry_reverse_def entry_balanced_def split: sum.splits dest!: entry_new_balanced)

lemma next_sequence_unat:
  "unat (sequence_counter g) + 1 < 2 ^ 64 \<Longrightarrow> unat (sequence_counter g + 1) = unat (sequence_counter g) + 1"
  by (simp add: unat_word_ariths)

text \<open>
  Either a call leaves the journal alone (whatever it does to the transactions), or it appends
  one balanced entry that carries the new value of the counter.
\<close>

definition extends :: "ledger \<Rightarrow> ledger \<Rightarrow> bool" where
  "extends g g' \<longleftrightarrow>
     (\<exists>new. journal_entries g' = journal_entries g @ new \<and> length new \<le> 1 \<and>
       (\<forall>e \<in> set new. entry_balanced e \<and> sequence_number e = sequence_counter g + 1 \<and>
          sequence_counter g' = sequence_counter g + 1)) \<and>
     (sequence_counter g' = sequence_counter g \<or> sequence_counter g' = sequence_counter g + 1) \<and>
     (registry_inv (ledger_accounts g) \<longrightarrow> registry_inv (ledger_accounts g'))"

lemma record_entry_extends: "extends g (snd (record_entry eid clk txn ls desc g))"
  by (auto simp: extends_def record_entry_def next_sequence_def journal_append_def Let_def
      split: sum.split prod.split dest: entry_new_balanced entry_new_OkD(3)
      intro: led.post_legs_inv)

lemma reverse_entry_extends: "extends g (snd (reverse_entry sh tid eid clk original g))"
  by (auto simp: extends_def reverse_entry_def begin_transaction_def next_sequence_def
      journal_append_def Let_def split: option.split sum.split prod.split
      dest: entry_reverse_balanced entry_reverse_OkD(3) intro: led.post_legs_inv)

lemma ledger_call_extends: "extends g (ledger_call sh op g)"
  by (cases op)
    (auto simp: record_transfer_def record_entry_extends reverse_entry_extends
      begin_transaction_def extends_def [of _ "_\<lparr>transactions := _\<rparr>"] Let_def)

lemma extends_inv:
  assumes "extends g g'" and "ledger_inv g" and "unat (sequence_counter g) + 1 < 2 ^ 64"
  shows "ledger_inv g' \<and> unat (sequence_counter g') \<le> unat (sequence_counter g) + 1"
proof -
  from assms(1) obtain new where new: "journal_entries g' = journal_entries g @ new" "length new \<le> 1"
    "\<forall>e \<in> set new. entry_balanced e \<and> sequence_number e = sequence_counter g + 1 \<and>
       sequence_counter g' = sequence_counter g + 1"
    by (auto simp: extends_def)
  have count: "unat (sequence_counter g) \<le> unat (sequence_counter g')"
    "unat (sequence_counter g') \<le> unat (sequence_counter g) + 1"
    using assms(1) next_sequence_unat [OF assms(3)] by (auto simp: extends_def)
  have "registry_inv (ledger_accounts g')" using assms(1,2) by (simp add: extends_def ledger_inv_def)
  moreover have "new = [] \<or> (\<exists>e. new = [e])" using new(2) by (cases new) auto
  ultimately show ?thesis
    using assms(2) new count next_sequence_unat [OF assms(3)]
    by (fastforce simp: ledger_inv_def sorted_wrt_append)
qed

lemma ledger_calls_inv:
  "ledger_inv g \<Longrightarrow> unat (sequence_counter g) + length ops < 2 ^ 64 \<Longrightarrow>
   ledger_inv (ledger_calls sh ops g) \<and>
   (\<exists>new. journal_entries (ledger_calls sh ops g) = journal_entries g @ new)"
proof (induction ops arbitrary: g)
  case Nil
  then show ?case by simp
next
  case (Cons op ops)
  let ?g = "ledger_call sh op g"
  have "unat (sequence_counter g) + 1 < 2 ^ 64" using Cons.prems(2) by simp
  from extends_inv [OF ledger_call_extends [of g sh op] Cons.prems(1) this]
  have "ledger_inv ?g" "unat (sequence_counter ?g) + length ops < 2 ^ 64"
    using Cons.prems(2) by auto
  from Cons.IH [OF this] ledger_call_extends [of g sh op] show ?case
    by (auto simp: extends_def)
qed

subsection \<open>What a successful call does\<close>

lemma record_entry_OkD:
  assumes "registry_inv (ledger_accounts g)" and "record_entry eid clk txn ls desc g = (Ok e, g')"
  shows "journal_entries g' = journal_entries g @ [e]" "legs e = ls" "entry_id e = eid"
    "registry_inv (ledger_accounts g')"
    "registry_funds (ledger_accounts g') = registry_funds (ledger_accounts g)"
    "\<forall>a. funds_of (ledger_accounts g') a =
       funds_of (ledger_accounts g) a + snd (snd (net_position ls a))"
proof -
  from assms(2) obtain seq accounts where
    new: "entry_new eid (clk 0) txn seq ls desc = Ok e"
    and post: "post_legs ledger_post (\<lambda>k. clk (Suc k)) ls (ledger_accounts g) = (Ok (), accounts)"
    and g': "journal_entries g' = journal_entries g @ [e]" "ledger_accounts g' = accounts"
    by (auto simp: record_entry_def next_sequence_def journal_append_def Let_def
        split: sum.splits prod.splits)
  from led.post_legs_ok [OF assms(1) post] entry_new_OkD [OF new] g'
  show "journal_entries g' = journal_entries g @ [e]" "legs e = ls" "entry_id e = eid"
    "registry_inv (ledger_accounts g')"
    "registry_funds (ledger_accounts g') = registry_funds (ledger_accounts g)"
    "\<forall>a. funds_of (ledger_accounts g') a =
       funds_of (ledger_accounts g) a + snd (snd (net_position ls a))"
    by simp_all
qed

lemma reverse_entry_OkD:
  assumes "registry_inv (ledger_accounts g)"
    and "reverse_entry sh tid eid clk original g = (Ok r, g')"
    and "List.find (\<lambda>e. entry_id e = original) (journal_entries g) = Some e"
  shows "journal_entries g' = journal_entries g @ [r]" "legs r = map reverse_leg (legs e)"
    "\<forall>a. funds_of (ledger_accounts g') a =
       funds_of (ledger_accounts g) a + snd (snd (net_position (map reverse_leg (legs e)) a))"
proof -
  from assms(2,3) obtain seq accounts where
    rev: "entry_reverse sh eid (clk 1) e tid seq = Ok r"
    and post: "post_legs ledger_post (\<lambda>k. clk (k + 2)) (legs r) (ledger_accounts g) = (Ok (), accounts)"
    and g': "journal_entries g' = journal_entries g @ [r]" "ledger_accounts g' = accounts"
    by (auto simp: reverse_entry_def begin_transaction_def transaction_new_def next_sequence_def
        journal_append_def Let_def split: sum.splits prod.splits)
  from led.post_legs_ok [OF assms(1) post] entry_reverse_OkD(1) [OF rev] g'
  show "journal_entries g' = journal_entries g @ [r]" "legs r = map reverse_leg (legs e)"
    "\<forall>a. funds_of (ledger_accounts g') a =
       funds_of (ledger_accounts g) a + snd (snd (net_position (map reverse_leg (legs e)) a))"
    by simp_all
qed

lemma net_position_reverse:
  "snd (snd (net_position (map reverse_leg ls) a)) = - snd (snd (net_position ls a))"
  by (simp add: net_position_def Let_def side_total_filter_account_reverse)

lemma find_append_new:
  "\<forall>x \<in> set xs. \<not> P x \<Longrightarrow> P y \<Longrightarrow> List.find P (xs @ [y]) = Some y"
  by (induction xs) auto

subsection \<open>Properties\<close>

text \<open>The ledger of two accounts that the witnesses use.\<close>

definition two_accounts :: registry where
  "two_accounts =
     [1 \<mapsto> account_new 1 0 0 Asset ''USD'' 1000 None, 2 \<mapsto> account_new 2 0 0 Asset ''USD'' 50 None]"

lemma two_accounts_inv: "registry_inv two_accounts"
  by (auto simp: registry_inv_def two_accounts_def account_new_inv ran_def split: if_splits)

lemma two_accounts_ledger_inv: "ledger_inv (ledger_new two_accounts)"
  by (simp add: ledger_inv_def ledger_new_def two_accounts_inv)

lemmas ledger_eval = record_transfer_def record_entry_def next_sequence_def journal_append_def
  entry_new_def leg_debit_def leg_credit_def ledger_post_def mark_committed_def ledger_new_def
  two_accounts_def account_new_def debit_def credit_def checked_add_i64_def i64_simps Let_def
  reverse_entry_def begin_transaction_def transaction_new_def entry_reverse_def reverse_leg_def

text \<open>
  C3. Invariant. Whatever calls are made on the ledger, successful or not, and as long as its
  64-bit counter does not wrap: the journal is only ever appended to, every entry in it is
  balanced, the sequence numbers increase strictly along it, and every account keeps a
  non-negative held amount.
\<close>

theorem ledger_calls_keep_invariant:
  assumes "ledger_inv g" and "unat (sequence_counter g) + length ops < 2 ^ 64"
  shows "ledger_inv (ledger_calls sh ops g) \<and>
         (\<exists>new. journal_entries (ledger_calls sh ops g) = journal_entries g @ new)"
  by (rule ledger_calls_inv [OF assms])

theorem ledger_calls_keep_invariant_witness:
  "ledger_inv (ledger_calls (\<lambda>_. ''id'')
     [LTransfer 9 (\<lambda>_. 0) 5 1 2 300 ''rent'', LTransfer 10 (\<lambda>_. 0) 6 2 3 1 ''lost'']
     (ledger_new two_accounts))"
  using ledger_calls_keep_invariant [OF two_accounts_ledger_inv,
      of "[LTransfer 9 (\<lambda>_. 0) 5 1 2 300 ''rent'', LTransfer 10 (\<lambda>_. 0) 6 2 3 1 ''lost'']"
         "\<lambda>_. ''id''"]
  by (simp add: ledger_new_def)

text \<open>
  C5. Functional. A recorded entry moves money and creates none: when \<open>record_entry\<close> returns
  \<open>Ok\<close>, the entry is the one new entry of the journal, every account's funds have changed by
  exactly its net position in the legs, and the funds of all accounts together are unchanged.
\<close>

theorem record_entry_conserves_funds:
  assumes "registry_inv (ledger_accounts g)" and "record_entry eid clk txn ls desc g = (Ok e, g')"
  shows "registry_funds (ledger_accounts g') = registry_funds (ledger_accounts g) \<and>
         (\<forall>a. funds_of (ledger_accounts g') a =
            funds_of (ledger_accounts g) a + snd (snd (net_position ls a))) \<and>
         journal_entries g' = journal_entries g @ [e] \<and> legs e = ls \<and> entry_balanced e"
  using record_entry_OkD [OF assms] record_entry_extends [of g eid clk txn ls desc] assms(2)
  by (auto simp: extends_def)

theorem record_entry_conserves_funds_witness:
  "\<exists>e g'. record_entry 9 (\<lambda>_. 0) 5 [leg_debit 1 300, leg_credit 2 300] ''rent''
      (ledger_new two_accounts) = (Ok e, g') \<and>
    registry_funds (ledger_accounts g') = registry_funds two_accounts \<and>
    funds_of (ledger_accounts g') 2 = 350"
proof -
  have "\<exists>e g'. record_entry 9 (\<lambda>_. 0) 5 [leg_debit 1 300, leg_credit 2 300] ''rent''
      (ledger_new two_accounts) = (Ok e, g')"
    by (simp add: ledger_eval)
  then obtain e g' where r: "record_entry 9 (\<lambda>_. 0) 5 [leg_debit 1 300, leg_credit 2 300] ''rent''
      (ledger_new two_accounts) = (Ok e, g')" by blast
  have inv: "registry_inv (ledger_accounts (ledger_new two_accounts))"
    by (simp add: ledger_new_def two_accounts_inv)
  have "snd (snd (net_position [leg_debit 1 300, leg_credit 2 300] 2)) = 300"
    by (simp add: net_position_def leg_debit_def leg_credit_def)
  moreover have "funds_of two_accounts 2 = 50"
    by (simp add: funds_of_def two_accounts_def account_new_def)
  ultimately show ?thesis
    using r record_entry_conserves_funds [OF inv r] by (auto simp: ledger_new_def)
qed

text \<open>
  C15. Error. What a failed \<open>record_entry\<close> leaves behind, by its cause. When the legs do not make
  an entry, the error is the journal's and the ledger is as before but for one sequence number,
  which is used up. When they do, the entry is in the journal under that number, some leg is
  refused, which is the error, and exactly the legs before it stay posted to the accounts;
  nothing else changes, and the transaction is not committed: the call is not atomic.
\<close>

theorem record_entry_failure_effect:
  assumes "registry_inv (ledger_accounts g)" and "record_entry eid clk txn ls desc g = (Err err, g')"
  shows "case entry_new eid (clk 0) txn (sequence_counter g + 1) ls desc of
    Err e \<Rightarrow> err = LedgerJournalError e \<and> g' = g\<lparr>sequence_counter := sequence_counter g + 1\<rparr>
  | Ok entry \<Rightarrow>
      (\<exists>k accounts. k < length ls \<and>
         post_legs ledger_post (\<lambda>i. clk (Suc i)) (take k ls) (ledger_accounts g) = (Ok (), accounts) \<and>
         fst (ledger_post (ls ! k) (clk (Suc k)) accounts) = Err err \<and>
         g' = g\<lparr>sequence_counter := sequence_counter g + 1, journal_entries := journal_entries g @ [entry],
                ledger_accounts := accounts\<rparr>)"
proof (cases "entry_new eid (clk 0) txn (sequence_counter g + 1) ls desc")
  case (Inl e)
  with assms(2) show ?thesis by (auto simp: record_entry_def next_sequence_def Let_def)
next
  case (Inr e)
  with assms(2) obtain accounts where
    "post_legs ledger_post (\<lambda>k. clk (Suc k)) ls (ledger_accounts g) = (Err err, accounts)"
    "g' = g\<lparr>sequence_counter := sequence_counter g + 1, journal_entries := journal_entries g @ [e],
       ledger_accounts := accounts\<rparr>"
    by (auto simp: record_entry_def next_sequence_def journal_append_def Let_def
        split: sum.splits prod.splits)
  with led.post_legs_refused [OF assms(1)] Inr show ?thesis by fastforce
qed

text \<open>The witness is the transfer of 300 cents from account 1 to an account that does not exist.\<close>

theorem record_entry_failure_effect_witness:
  "\<exists>g' e. record_entry 9 (\<lambda>_. 0) 5 [leg_debit 1 300, leg_credit 3 300] ''lost''
      (ledger_new two_accounts) = (Err (LedgerAccountNotFound 3), g') \<and> sequence_counter g' = 1 \<and>
    journal_entries g' = [e] \<and> funds_of (ledger_accounts g') 1 = 700 \<and>
    legs e = [leg_debit 1 300, leg_credit 3 300] \<and> transactions g' = Map.empty"
proof -
  let ?r = "record_entry 9 (\<lambda>_. 0) 5 [leg_debit 1 300, leg_credit 3 300] ''lost'' (ledger_new two_accounts)"
  have inv: "registry_inv (ledger_accounts (ledger_new two_accounts))"
    by (simp add: ledger_new_def two_accounts_inv)
  have err: "?r = (Err (LedgerAccountNotFound 3), snd ?r)" by (simp add: ledger_eval)
  have run: "funds_of (ledger_accounts (snd ?r)) 1 = 700" by (simp add: ledger_eval funds_of_def)
  obtain e where e: "entry_new 9 0 5 1 [leg_debit 1 300, leg_credit 3 300] ''lost'' = Ok e"
    "legs e = [leg_debit 1 300, leg_credit 3 300]"
    by (simp add: entry_new_def leg_debit_def leg_credit_def)
  from record_entry_failure_effect [OF inv err] run err e show ?thesis
    by (auto simp: ledger_new_def)
qed

text \<open>
  C13. Round trip. A transfer that succeeded and whose reversal succeeded leaves the funds of
  every account as they were before the transfer, and the journal two entries longer.
\<close>

theorem transfer_then_reverse_restores:
  assumes "registry_inv (ledger_accounts g)"
    and "\<forall>e \<in> set (journal_entries g). entry_id e \<noteq> eid"
    and "record_transfer eid clk txn from to n desc g = (Ok e, g1)"
    and "reverse_entry sh tid eid2 clk2 eid g1 = (Ok r, g2)"
  shows "funds_of (ledger_accounts g2) = funds_of (ledger_accounts g) \<and>
         journal_entries g2 = journal_entries g @ [e, r] \<and> reverses r = Some eid"
proof -
  note e = record_entry_OkD [OF assms(1) assms(3) [unfolded record_transfer_def]]
  have found: "List.find (\<lambda>e. entry_id e = eid) (journal_entries g1) = Some e"
    using e(1,3) assms(2) by (simp add: find_append_new)
  note r = reverse_entry_OkD [OF e(4) assms(4) found]
  have "reverses r = Some eid"
    using assms(4) found e(3)
    by (auto simp: reverse_entry_def Let_def split: sum.splits prod.splits dest: entry_reverse_OkD(4))
  with e r show ?thesis by (auto simp: fun_eq_iff net_position_reverse simp del: list.map)
qed

theorem transfer_then_reverse_restores_witness:
  "\<exists>e g1 r g2. record_transfer 9 (\<lambda>_. 0) 5 1 2 300 ''rent'' (ledger_new two_accounts) = (Ok e, g1) \<and>
     reverse_entry (\<lambda>_. ''id'') 6 10 (\<lambda>_. 0) 9 g1 = (Ok r, g2) \<and>
     funds_of (ledger_accounts g2) = funds_of two_accounts"
proof -
  let ?t = "record_transfer 9 (\<lambda>_. 0) 5 1 2 300 ''rent'' (ledger_new two_accounts)"
  have inv: "registry_inv (ledger_accounts (ledger_new two_accounts))"
    "\<forall>e \<in> set (journal_entries (ledger_new two_accounts)). entry_id e \<noteq> 9"
    by (simp_all add: ledger_new_def two_accounts_inv)
  have "\<exists>e. fst ?t = Ok e" "\<exists>r. fst (reverse_entry (\<lambda>_. ''id'') 6 10 (\<lambda>_. 0) 9 (snd ?t)) = Ok r"
    by (simp_all add: ledger_eval)
  then obtain e r g2 where er: "?t = (Ok e, snd ?t)"
    "reverse_entry (\<lambda>_. ''id'') 6 10 (\<lambda>_. 0) 9 (snd ?t) = (Ok r, g2)"
    by (metis prod.collapse)
  from transfer_then_reverse_restores [OF inv er] er show ?thesis
    by (auto simp: ledger_new_def)
qed

end
