(* ===== verification/Hash_Chain.thy ===== *)
theory Hash_Chain
  imports Ledger_Prelude
begin

section \<open>The hash chain\<close>

text \<open>
  \<open>src/log/hash_chain.rs\<close> and the \<open>HashChainExt\<close> part of \<open>src/extensions.rs\<close>: the
  blocks, their hashes, verification (sequential and in chunks), redaction, position proofs
  and signed transactions. A Rust string is the list of its UTF-8 bytes, so the byte indices
  of the source are list indices. The \<open>sha2\<close>, \<open>hex\<close>, \<open>chrono\<close> and \<open>uuid\<close> packages are the
  fields of the parameter \<open>crypto\<close>; an instant read from the clock is an argument. A panic
  (an index or a slice out of range) is the value \<open>None\<close>.
\<close>

record crypto =
  sha256 :: "u8 list \<Rightarrow> u8 list"
  hex_encode :: "u8 list \<Rightarrow> string"
  to_rfc3339 :: "timestamp \<Rightarrow> string"
  uuid_bytes :: "uuid \<Rightarrow> u8 list"

definition as_bytes :: "string \<Rightarrow> u8 list" where
  "as_bytes s = map (\<lambda>c. word_of_nat (of_char c)) s"

definition le_bytes_u64 :: "u64 \<Rightarrow> u8 list" where
  "le_bytes_u64 n = map (\<lambda>i. word_of_nat (unat n div 256 ^ i)) [0..<8]"

subsection \<open>Blocks\<close>

record hash_link =
  link_index :: u64
  link_hash :: string
  link_previous_hash :: string
  link_data :: string
  link_timestamp :: timestamp
  link_nonce :: u64

definition zero_hash :: string where
  "zero_hash = replicate 64 (CHR ''0'')"

text \<open>The bytes fed to the hasher, and their digest.\<close>

definition hash_preimage ::
  "crypto \<Rightarrow> u64 \<Rightarrow> string \<Rightarrow> string \<Rightarrow> timestamp \<Rightarrow> u64 \<Rightarrow> u8 list"
where
  "hash_preimage cr index previous_hash data timestamp nonce =
     as_bytes previous_hash @ le_bytes_u64 index @ as_bytes data @
     as_bytes (to_rfc3339 cr timestamp) @ le_bytes_u64 nonce"

definition compute_hash ::
  "crypto \<Rightarrow> u64 \<Rightarrow> string \<Rightarrow> string \<Rightarrow> timestamp \<Rightarrow> u64 \<Rightarrow> string"
where
  "compute_hash cr index previous_hash data timestamp nonce =
     hex_encode cr (sha256 cr (hash_preimage cr index previous_hash data timestamp nonce))"

definition genesis :: "crypto \<Rightarrow> timestamp \<Rightarrow> string \<Rightarrow> hash_link" where
  "genesis cr now data =
     \<lparr>link_index = 0, link_hash = compute_hash cr 0 zero_hash data now 0,
      link_previous_hash = zero_hash, link_data = data, link_timestamp = now, link_nonce = 0\<rparr>"

definition link_next :: "crypto \<Rightarrow> timestamp \<Rightarrow> hash_link \<Rightarrow> string \<Rightarrow> hash_link" where
  "link_next cr now previous data =
     (let index = link_index previous + 1; previous_hash = link_hash previous
      in \<lparr>link_index = index, link_hash = compute_hash cr index previous_hash data now 0,
          link_previous_hash = previous_hash, link_data = data, link_timestamp = now,
          link_nonce = 0\<rparr>)"

definition verify_self :: "crypto \<Rightarrow> hash_link \<Rightarrow> bool" where
  "verify_self cr b \<longleftrightarrow>
     compute_hash cr (link_index b) (link_previous_hash b) (link_data b) (link_timestamp b)
       (link_nonce b) = link_hash b"

subsection \<open>Keyed hashes\<close>

definition hmac_key :: "crypto \<Rightarrow> u8 list \<Rightarrow> u8 list" where
  "hmac_key cr key =
     (if length key > 64 then take 32 (sha256 cr key) @ replicate 32 0
      else key @ replicate (64 - length key) 0)"

definition hmac_sign :: "crypto \<Rightarrow> u8 list \<Rightarrow> u8 list \<Rightarrow> string" where
  "hmac_sign cr key message =
     (let effective_key = hmac_key cr key;
          inner_hash = sha256 cr (map (\<lambda>b. xor b 0x36) effective_key @ message)
      in hex_encode cr (sha256 cr (map (\<lambda>b. xor b 0x5c) effective_key @ inner_hash)))"

definition hmac_verify :: "crypto \<Rightarrow> u8 list \<Rightarrow> u8 list \<Rightarrow> string \<Rightarrow> bool" where
  "hmac_verify cr key message signature \<longleftrightarrow> hmac_sign cr key message = signature"

record signed_transaction =
  stx_transaction_id :: uuid
  stx_payload :: string
  stx_hmac :: string
  stx_timestamp :: timestamp

definition sign_transaction ::
  "crypto \<Rightarrow> timestamp \<Rightarrow> uuid \<Rightarrow> string \<Rightarrow> u8 list \<Rightarrow> signed_transaction"
where
  "sign_transaction cr now tid payload key =
     \<lparr>stx_transaction_id = tid, stx_payload = payload,
      stx_hmac = hmac_sign cr key (uuid_bytes cr tid @ as_bytes payload), stx_timestamp = now\<rparr>"

definition verify_signed :: "crypto \<Rightarrow> signed_transaction \<Rightarrow> u8 list \<Rightarrow> bool" where
  "verify_signed cr t key =
     hmac_verify cr key (uuid_bytes cr (stx_transaction_id t) @ as_bytes (stx_payload t))
       (stx_hmac t)"

subsection \<open>The chain\<close>

record hash_chain =
  blocks :: "hash_link list"
  signing_key :: "u8 list"

definition chain_new :: "crypto \<Rightarrow> timestamp \<Rightarrow> u8 list \<Rightarrow> hash_chain" where
  "chain_new cr now key =
     \<lparr>blocks = [genesis cr now ''GENESIS_BLOCK''], signing_key = key\<rparr>"

definition chain_append ::
  "crypto \<Rightarrow> timestamp \<Rightarrow> string \<Rightarrow> hash_chain \<Rightarrow> (hash_link \<times> hash_chain) option"
where
  "chain_append cr now data c =
     (if blocks c = [] then None
      else let block = link_next cr now (last (blocks c)) data
           in Some (block, c\<lparr>blocks := blocks c @ [block]\<rparr>))"

text \<open>The indices \<open>verify_chain\<close> collects: the genesis check, the self checks, the links.\<close>

definition self_failures :: "crypto \<Rightarrow> hash_link list \<Rightarrow> u64 list" where
  "self_failures cr bs = map link_index (filter (\<lambda>b. \<not> verify_self cr b) bs)"

definition link_check :: "hash_link list \<Rightarrow> nat \<Rightarrow> u64 list \<Rightarrow> u64 list" where
  "link_check bs i tampered =
     (if link_previous_hash (bs ! i) \<noteq> link_hash (bs ! (i - 1)) \<and>
         link_index (bs ! i) \<notin> set tampered
      then tampered @ [link_index (bs ! i)] else tampered)"

definition verify_chain :: "crypto \<Rightarrow> hash_chain \<Rightarrow> (bool \<times> u64 list) option" where
  "verify_chain cr c =
     (if blocks c = [] then None
      else let bs = blocks c;
               t0 = (if link_previous_hash (bs ! 0) \<noteq> zero_hash then [0] else []);
               t1 = t0 @ self_failures cr bs;
               t2 = fold (link_check bs) [1..<length bs] t1
           in Some (t2 = [], t2))"

definition query_by_time :: "timestamp \<Rightarrow> timestamp \<Rightarrow> hash_chain \<Rightarrow> hash_link list" where
  "query_by_time t_from t_to c =
     filter (\<lambda>b. link_timestamp b \<ge> t_from \<and> link_timestamp b \<le> t_to) (blocks c)"

definition get_block :: "u64 \<Rightarrow> hash_chain \<Rightarrow> hash_link option" where
  "get_block index c =
     (if unat index < length (blocks c) then Some (blocks c ! unat index) else None)"

definition latest :: "hash_chain \<Rightarrow> hash_link option" where
  "latest c = (if blocks c = [] then None else Some (last (blocks c)))"

definition chain_len :: "hash_chain \<Rightarrow> nat" where
  "chain_len c = length (blocks c)"

record chain_proof =
  proof_block :: hash_link
  previous_block_hash :: "string option"
  next_block_hash :: "string option"

definition proof_for_block :: "u64 \<Rightarrow> hash_chain \<Rightarrow> chain_proof option" where
  "proof_for_block index c =
     (let i = unat index; bs = blocks c
      in if i \<ge> length bs then None
         else Some \<lparr>proof_block = bs ! i,
                    previous_block_hash = (if i > 0 then Some (link_hash (bs ! (i - 1))) else None),
                    next_block_hash =
                      (if i + 1 < length bs then Some (link_hash (bs ! (i + 1))) else None)\<rparr>)"

definition verify_position :: "crypto \<Rightarrow> chain_proof \<Rightarrow> bool" where
  "verify_position cr p \<longleftrightarrow>
     (if \<not> verify_self cr (proof_block p) then False
      else (case previous_block_hash p of
              Some prev \<Rightarrow> link_previous_hash (proof_block p) = prev
            | None \<Rightarrow> True))"

subsection \<open>Redaction\<close>

datatype redact_error = IndexOutOfBounds | CannotRedactGenesis

text \<open>One iteration of the loop that recomputes the hashes.\<close>

definition rehash_at :: "crypto \<Rightarrow> nat \<Rightarrow> hash_link list \<Rightarrow> hash_link list" where
  "rehash_at cr j bs =
     (let prev_hash = (if j = 0 then zero_hash else link_hash (bs ! (j - 1)));
          b = bs ! j;
          new_hash = compute_hash cr (link_index b) prev_hash (link_data b) (link_timestamp b)
                       (link_nonce b);
          bs1 = bs[j := b\<lparr>link_hash := new_hash\<rparr>]
      in if j + 1 < length bs1
         then bs1[j + 1 := (bs1 ! (j + 1))\<lparr>link_previous_hash := link_hash (bs1 ! j)\<rparr>]
         else bs1)"

definition redacted :: string where "redacted = ''[REDACTED]''"

definition redact ::
  "crypto \<Rightarrow> u64 \<Rightarrow> hash_chain \<Rightarrow> (unit, redact_error) result \<times> hash_chain"
where
  "redact cr index c =
     (let i = unat index; bs = blocks c
      in if i \<ge> length bs then (Err IndexOutOfBounds, c)
         else if i = 0 then (Err CannotRedactGenesis, c)
         else (Ok (), c\<lparr>blocks := fold (rehash_at cr) [i..<length bs]
                                    (bs[i := (bs ! i)\<lparr>link_data := redacted\<rparr>])\<rparr>))"

subsection \<open>Verification in chunks\<close>

fun chunk_failures :: "crypto \<Rightarrow> string \<Rightarrow> hash_link list \<Rightarrow> u64 list" where
  "chunk_failures cr prev_hash [] = []"
| "chunk_failures cr prev_hash (b # bs) =
     (if compute_hash cr (link_index b) prev_hash (link_data b) (link_timestamp b) (link_nonce b)
           \<noteq> link_hash b
      then [link_index b] else []) @ chunk_failures cr (link_hash b) bs"

definition div_ceil :: "nat \<Rightarrow> nat \<Rightarrow> nat" where
  "div_ceil a b = (a + b - 1) div b"

definition verify_chunk :: "crypto \<Rightarrow> hash_link list \<Rightarrow> nat \<Rightarrow> nat \<Rightarrow> u64 list option" where
  "verify_chunk cr bs chunk_size k =
     (let start = k * chunk_size; stop = min (start + chunk_size) (length bs)
      in if start > stop then None
         else Some (chunk_failures cr (if start = 0 then zero_hash else link_hash (bs ! (start - 1)))
                      (drop start (take stop bs))))"

definition boundary_failure :: "hash_link list \<Rightarrow> nat \<Rightarrow> nat \<Rightarrow> u64 list" where
  "boundary_failure bs chunk_size i =
     (let chunk_end = min ((i + 1) * chunk_size) (length bs) - 1;
          next_start = (i + 1) * chunk_size
      in if next_start < length bs \<and>
            link_previous_hash (bs ! next_start) \<noteq> link_hash (bs ! chunk_end)
         then [link_index (bs ! next_start)] else [])"

definition batch_verify_parallel ::
  "crypto \<Rightarrow> hash_chain \<Rightarrow> nat \<Rightarrow> (bool \<times> u64 list) option"
where
  "batch_verify_parallel cr c num_chunks =
     (let bs = blocks c; total_blocks = length bs
      in if total_blocks = 0 then Some (True, [])
         else if num_chunks \<le> 1 \<or> total_blocks < num_chunks * 2 then verify_chain cr c
         else let chunk_size = div_ceil total_blocks num_chunks;
                  results = map (verify_chunk cr bs chunk_size) [0..<num_chunks]
              in if None \<in> set results then None
                 else let all_tampered = concat (map the results) @
                            concat (map (boundary_failure bs chunk_size) [0..<num_chunks - 1])
                      in Some (all_tampered = [], all_tampered))"

definition parallel_verify_chain :: "crypto \<Rightarrow> hash_chain \<Rightarrow> (bool \<times> u64 list) option" where
  "parallel_verify_chain cr c =
     batch_verify_parallel cr c (min (max (length (blocks c) div 256) 1) 16)"

subsection \<open>The extension trait\<close>

definition sign_and_append ::
  "crypto \<Rightarrow> uuid \<Rightarrow> timestamp \<Rightarrow> timestamp \<Rightarrow> string \<Rightarrow> hash_chain \<Rightarrow>
   (signed_transaction \<times> hash_chain) option"
where
  "sign_and_append cr tid now1 now2 data c =
     (case chain_append cr now1 data c of
        None \<Rightarrow> None
      | Some (block, c') \<Rightarrow>
          Some (sign_transaction cr now2 tid (link_hash block) (signing_key c), c'))"

definition debug_redact_error :: "redact_error \<Rightarrow> string" where
  "debug_redact_error e =
     (case e of IndexOutOfBounds \<Rightarrow> ''IndexOutOfBounds''
      | CannotRedactGenesis \<Rightarrow> ''CannotRedactGenesis'')"

definition redact_block ::
  "crypto \<Rightarrow> u64 \<Rightarrow> hash_chain \<Rightarrow> (string, string) result \<times> hash_chain"
where
  "redact_block cr index c =
     (case redact cr index c of
        (Err e, c') \<Rightarrow> (Err (''Redaction failed: '' @ debug_redact_error e), c')
      | (Ok _, c') \<Rightarrow> (Ok (link_hash (last (blocks c'))), c'))"

subsection \<open>What a verified chain is\<close>

text \<open>
  The first \<open>j\<close> blocks carry their own hash and the blocks up to \<open>j\<close> link to their
  predecessor: the invariant of the redaction loop, and, for \<open>j\<close> the length, the condition
  that \<open>verify_chain\<close> decides.
\<close>

definition linked_upto :: "crypto \<Rightarrow> nat \<Rightarrow> hash_link list \<Rightarrow> bool" where
  "linked_upto cr j bs \<longleftrightarrow>
     bs \<noteq> [] \<and> link_previous_hash (bs ! 0) = zero_hash \<and>
     (\<forall>k<length bs. (k < j \<longrightarrow> verify_self cr (bs ! k)) \<and>
        (0 < k \<and> k \<le> j \<longrightarrow> link_previous_hash (bs ! k) = link_hash (bs ! (k - 1))))"

definition chain_ok :: "crypto \<Rightarrow> hash_chain \<Rightarrow> bool" where
  "chain_ok cr c = linked_upto cr (length (blocks c)) (blocks c)"

lemma link_check_Nil:
  "link_check bs i ts = [] \<longleftrightarrow> ts = [] \<and> link_previous_hash (bs ! i) = link_hash (bs ! (i - 1))"
  by (auto simp: link_check_def)

lemma fold_link_check_Nil:
  "fold (link_check bs) is ts = [] \<longleftrightarrow>
     ts = [] \<and> (\<forall>i\<in>set is. link_previous_hash (bs ! i) = link_hash (bs ! (i - 1)))"
  by (induction "is" arbitrary: ts) (auto simp: link_check_Nil)

lemma self_failures_Nil: "self_failures cr bs = [] \<longleftrightarrow> (\<forall>k<length bs. verify_self cr (bs ! k))"
  by (simp add: self_failures_def filter_empty_conv all_set_conv_all_nth)

lemma verify_chain_decides: "verify_chain cr c = Some (True, []) \<longleftrightarrow> chain_ok cr c"
proof (cases "blocks c = []")
  case True
  then show ?thesis by (simp add: verify_chain_def chain_ok_def linked_upto_def)
next
  case False
  then have "verify_chain cr c = Some (True, []) \<longleftrightarrow>
      link_previous_hash (blocks c ! 0) = zero_hash \<and>
      (\<forall>k<length (blocks c). verify_self cr (blocks c ! k)) \<and>
      (\<forall>i\<in>{1..<length (blocks c)}.
         link_previous_hash (blocks c ! i) = link_hash (blocks c ! (i - 1)))"
    by (simp add: verify_chain_def Let_def fold_link_check_Nil self_failures_Nil del: set_upt)
      (auto simp: Suc_le_eq)
  with False show ?thesis by (auto simp: chain_ok_def linked_upto_def Suc_le_eq)
qed

lemma verify_chain_total: "blocks c \<noteq> [] \<Longrightarrow> \<exists>ts. verify_chain cr c = Some (ts = [], ts)"
  by (simp add: verify_chain_def Let_def)

subsection \<open>Every operation keeps the chain verified\<close>

lemma chain_new_ok: "chain_ok cr (chain_new cr now key)"
  by (simp add: chain_ok_def linked_upto_def chain_new_def genesis_def verify_self_def)

lemma linked_upto_append:
  assumes "linked_upto cr (length bs) bs"
  shows "linked_upto cr (Suc (length bs)) (bs @ [link_next cr now (last bs) data])"
  using assms
  by (auto simp: linked_upto_def nth_append link_next_def Let_def verify_self_def last_conv_nth less_Suc_eq)

lemma chain_append_ok:
  assumes "chain_ok cr c" and "chain_append cr now data c = Some (b, c')"
  shows "chain_ok cr c'"
  using assms linked_upto_append [of cr "blocks c" now data]
  by (auto simp: chain_ok_def chain_append_def Let_def split: if_splits)

lemma length_rehash_at [simp]: "length (rehash_at cr j bs) = length bs"
  by (simp add: rehash_at_def Let_def)

lemma rehash_at_nth:
  assumes "j < length bs" and "k < length bs"
  shows "rehash_at cr j bs ! k =
    (if k = j then
       (bs ! j)\<lparr>link_hash := compute_hash cr (link_index (bs ! j))
          (if j = 0 then zero_hash else link_hash (bs ! (j - 1))) (link_data (bs ! j))
          (link_timestamp (bs ! j)) (link_nonce (bs ! j))\<rparr>
     else if k = Suc j then
       (bs ! k)\<lparr>link_previous_hash := link_hash (rehash_at cr j bs ! j)\<rparr>
     else bs ! k)"
  using assms by (auto simp: rehash_at_def Let_def nth_list_update)

lemma rehash_at_linked:
  assumes "linked_upto cr j bs" and "0 < j" and "j < length bs"
  shows "linked_upto cr (Suc j) (rehash_at cr j bs)"
proof -
  let ?bs = "rehash_at cr j bs"
  have nth: "?bs ! k = bs ! k" if "k < j" for k
    using that assms(3) by (simp add: rehash_at_nth)
  have keep: "link_previous_hash (?bs ! k) = link_previous_hash (bs ! k)" if "k \<le> j" for k
    using that assms(3) by (simp add: rehash_at_nth)
  have "verify_self cr (?bs ! j)"
    using assms by (auto simp: rehash_at_nth verify_self_def linked_upto_def)
  moreover have "link_previous_hash (?bs ! Suc j) = link_hash (?bs ! j)" if "Suc j < length bs"
    using that assms(3) by (simp add: rehash_at_nth)
  ultimately show ?thesis
    using assms nth keep
    by (auto simp: linked_upto_def less_Suc_eq le_Suc_eq simp flip: length_greater_0_conv)
qed

lemma fold_rehash_linked:
  assumes "linked_upto cr i bs" and "0 < i" and "i \<le> length bs"
  shows "linked_upto cr (length bs) (fold (rehash_at cr) [i..<length bs] bs)"
  using assms
proof (induction "length bs - i" arbitrary: i bs)
  case 0
  then show ?case by simp
next
  case (Suc n)
  then have "linked_upto cr (Suc i) (rehash_at cr i bs)" by (intro rehash_at_linked) simp_all
  with Suc.hyps(1) [of "rehash_at cr i bs" "Suc i"] Suc.hyps(2) show ?case
    by (simp add: upt_conv_Cons)
qed

lemma redact_linked:
  assumes "linked_upto cr (length bs) bs" and "0 < i" and "i < length bs"
  shows "linked_upto cr (length bs)
           (fold (rehash_at cr) [i..<length bs] (bs[i := (bs ! i)\<lparr>link_data := d\<rparr>]))"
proof -
  have "linked_upto cr i (bs[i := (bs ! i)\<lparr>link_data := d\<rparr>])"
    using assms by (auto simp: linked_upto_def nth_list_update)
  from fold_rehash_linked [OF this assms(2)] assms(3) show ?thesis by simp
qed

lemma redact_ok: "chain_ok cr c \<Longrightarrow> chain_ok cr (snd (redact cr index c))"
proof -
  assume ok: "chain_ok cr c"
  have len: "length (fold (rehash_at cr) js bs) = length bs" for js bs
    by (induction js arbitrary: bs) simp_all
  show ?thesis
    using ok redact_linked [of cr "blocks c" "unat index" redacted]
    by (simp add: chain_ok_def redact_def Let_def len)
qed

lemma redact_unfold:
  assumes "0 < unat index" and "unat index < length (blocks c)"
  shows "redact cr index c =
    (Ok (), c\<lparr>blocks := fold (rehash_at cr) [unat index..<length (blocks c)]
        ((blocks c)[unat index := (blocks c ! unat index)\<lparr>link_data := redacted\<rparr>])\<rparr>)"
  using assms by (simp add: redact_def Let_def)

lemma rehash_at_keeps:
  assumes "j < length bs" and "k < length bs"
  shows "link_data (rehash_at cr j bs ! k) = link_data (bs ! k)"
    and "link_index (rehash_at cr j bs ! k) = link_index (bs ! k)"
    and "link_timestamp (rehash_at cr j bs ! k) = link_timestamp (bs ! k)"
    and "link_nonce (rehash_at cr j bs ! k) = link_nonce (bs ! k)"
    and "k < j \<Longrightarrow> rehash_at cr j bs ! k = bs ! k"
  using assms by (simp_all add: rehash_at_nth)

lemma length_fold_rehash [simp]: "length (fold (rehash_at cr) js bs) = length bs"
  by (induction js arbitrary: bs) simp_all

lemma fold_rehash_keeps:
  assumes "k < length bs"
  shows "(\<forall>j\<in>set js. j < length bs) \<Longrightarrow>
      link_data (fold (rehash_at cr) js bs ! k) = link_data (bs ! k) \<and>
      link_index (fold (rehash_at cr) js bs ! k) = link_index (bs ! k) \<and>
      link_timestamp (fold (rehash_at cr) js bs ! k) = link_timestamp (bs ! k) \<and>
      link_nonce (fold (rehash_at cr) js bs ! k) = link_nonce (bs ! k) \<and>
      ((\<forall>j\<in>set js. k < j) \<longrightarrow> fold (rehash_at cr) js bs ! k = bs ! k)"
  using assms by (induction js arbitrary: bs) (simp_all add: rehash_at_keeps)

subsection \<open>Runs of operations\<close>

datatype chain_op =
    OpAppend timestamp string
  | OpSignAppend uuid timestamp timestamp string
  | OpRedact u64

definition chain_apply :: "crypto \<Rightarrow> chain_op \<Rightarrow> hash_chain \<Rightarrow> hash_chain option" where
  "chain_apply cr op c =
     (case op of
        OpAppend now data \<Rightarrow> map_option snd (chain_append cr now data c)
      | OpSignAppend tid now1 now2 data \<Rightarrow> map_option snd (sign_and_append cr tid now1 now2 data c)
      | OpRedact index \<Rightarrow> Some (snd (redact_block cr index c)))"

fun chain_run :: "crypto \<Rightarrow> chain_op list \<Rightarrow> hash_chain \<Rightarrow> hash_chain option" where
  "chain_run cr [] c = Some c"
| "chain_run cr (op # ops) c = Option.bind (chain_apply cr op c) (chain_run cr ops)"

definition numbered :: "hash_link list \<Rightarrow> bool" where
  "numbered bs \<longleftrightarrow> (\<forall>k<length bs. link_index (bs ! k) = word_of_nat k)"

definition is_append :: "chain_op \<Rightarrow> bool" where
  "is_append op = (case op of OpRedact _ \<Rightarrow> False | _ \<Rightarrow> True)"

lemma chain_append_numbered:
  assumes "numbered (blocks c)" and "chain_append cr now data c = Some (b, c')"
  shows "numbered (blocks c')"
  using assms
  by (auto simp: numbered_def chain_append_def Let_def nth_append link_next_def last_conv_nth
      less_Suc_eq Suc_leI split: if_splits)

lemma redact_numbered: "numbered (blocks c) \<Longrightarrow> numbered (blocks (snd (redact cr index c)))"
  by (auto simp: numbered_def redact_def Let_def fold_rehash_keeps nth_list_update)

lemma snd_redact_block: "snd (redact_block cr index c) = snd (redact cr index c)"
  by (simp add: redact_block_def split: prod.splits sum.splits)

lemma chain_ok_nonempty: "chain_ok cr c \<Longrightarrow> blocks c \<noteq> []"
  by (simp add: chain_ok_def linked_upto_def)

lemma chain_apply_keeps:
  assumes "chain_ok cr c" and "numbered (blocks c)"
  shows "\<exists>c'. chain_apply cr op c = Some c' \<and> chain_ok cr c' \<and> numbered (blocks c') \<and>
           length (blocks c') = length (blocks c) + (if is_append op then 1 else 0)"
proof -
  have app: "\<exists>b c'. chain_append cr now data c = Some (b, c') \<and> chain_ok cr c' \<and>
      numbered (blocks c') \<and> length (blocks c') = Suc (length (blocks c))" for now data
  proof -
    obtain b c' where bc: "chain_append cr now data c = Some (b, c')"
      using chain_ok_nonempty [OF assms(1)] by (simp add: chain_append_def Let_def)
    then have "length (blocks c') = Suc (length (blocks c))"
      by (auto simp: chain_append_def Let_def split: if_splits)
    with bc chain_append_ok [OF assms(1) bc] chain_append_numbered [OF assms(2) bc]
    show ?thesis by blast
  qed
  show ?thesis
  proof (cases op)
    case (OpAppend now data)
    with app [of now data] show ?thesis by (auto simp: chain_apply_def is_append_def)
  next
    case (OpSignAppend tid now1 now2 data)
    with app [of now1 data] show ?thesis
      by (auto simp: chain_apply_def is_append_def sign_and_append_def)
  next
    case (OpRedact index)
    moreover have "length (blocks (snd (redact cr index c))) = length (blocks c)"
      by (simp add: redact_def Let_def)
    ultimately show ?thesis
      using redact_ok [OF assms(1)] redact_numbered [OF assms(2)]
      by (auto simp: chain_apply_def is_append_def snd_redact_block)
  qed
qed

lemma chain_run_keeps:
  assumes "chain_ok cr c" and "numbered (blocks c)"
  shows "\<exists>c'. chain_run cr ops c = Some c' \<and> chain_ok cr c' \<and> numbered (blocks c') \<and>
           length (blocks c') = length (blocks c) + length (filter is_append ops)"
  using assms
proof (induction ops arbitrary: c)
  case Nil
  then show ?case by simp
next
  case (Cons op ops)
  from chain_apply_keeps [OF Cons.prems, of op] obtain c1 where c1:
    "chain_apply cr op c = Some c1" "chain_ok cr c1" "numbered (blocks c1)"
    "length (blocks c1) = length (blocks c) + (if is_append op then 1 else 0)" by blast
  from Cons.IH [OF c1(2,3)] c1(1,4) show ?case by auto
qed

lemma chain_new_numbered: "numbered (blocks (chain_new cr now key))"
  by (simp add: numbered_def chain_new_def genesis_def)

lemma length_chain_new: "length (blocks (chain_new cr now key)) = 1"
  by (simp add: chain_new_def)

text \<open>
  C4. Start from a new chain and make any sequence of appends, signed appends and redactions,
  in any order, with any data, instants and (even out-of-range) indices: no call panics, the
  resulting chain passes \<open>verify_chain\<close> with no tampered index reported, block \<open>k\<close> has
  index \<open>k\<close>, and the length is one more than the number of appends.
\<close>

theorem chain_history_verifies:
  "\<exists>c. chain_run cr ops (chain_new cr now key) = Some c \<and>
       verify_chain cr c = Some (True, []) \<and>
       map link_index (blocks c) = map word_of_nat [0..<chain_len c] \<and>
       chain_len c = 1 + length (filter is_append ops)"
proof -
  obtain c where "chain_run cr ops (chain_new cr now key) = Some c" "chain_ok cr c"
    "numbered (blocks c)" "length (blocks c) = 1 + length (filter is_append ops)"
    using chain_run_keeps [OF chain_new_ok [of cr now key] chain_new_numbered, of ops]
    unfolding length_chain_new by blast
  moreover have "map link_index (blocks c) = map word_of_nat [0..<chain_len c]"
    using \<open>numbered (blocks c)\<close> by (intro nth_equalityI) (simp_all add: numbered_def chain_len_def)
  ultimately show ?thesis using verify_chain_decides [of cr c] chain_len_def [of c] by auto
qed

subsection \<open>Encodings are injective\<close>

lemma as_bytes_simps [simp]:
  "length (as_bytes s) = length s" "as_bytes (s @ u) = as_bytes s @ as_bytes u"
  by (simp_all add: as_bytes_def)

lemma unat_of_char [simp]: "unat (word_of_nat (of_char c) :: u8) = of_char c"
  by (simp add: unat_of_nat)

lemma as_bytes_inject [simp]: "as_bytes s = as_bytes u \<longleftrightarrow> s = u"
proof -
  have "inj (\<lambda>c. word_of_nat (of_char c) :: u8)"
    by (rule injI) (metis unat_of_char char_of_char)
  then show ?thesis unfolding as_bytes_def by (rule inj_map_eq_map)
qed

lemma length_le_bytes_u64 [simp]: "length (le_bytes_u64 n) = 8"
  by (simp add: le_bytes_u64_def)

lemma base_256_unique:
  fixes m n :: nat
  assumes "\<And>i. i < k \<Longrightarrow> m div 256 ^ i mod 256 = n div 256 ^ i mod 256"
  shows "m mod 256 ^ k = n mod 256 ^ k"
  using assms
proof (induction k)
  case 0
  then show ?case by simp
next
  case (Suc k)
  have "x mod 256 ^ Suc k = 256 ^ k * (x div 256 ^ k mod 256) + x mod 256 ^ k" for x :: nat
    by (metis mod_mult2_eq power_Suc2)
  with Suc show ?case by simp
qed

lemma le_bytes_u64_inject [simp]: "le_bytes_u64 m = le_bytes_u64 n \<longleftrightarrow> m = n"
proof
  assume eq: "le_bytes_u64 m = le_bytes_u64 n"
  have "unat m div 256 ^ i mod 256 = unat n div 256 ^ i mod 256" if "i < 8" for i
  proof -
    have "le_bytes_u64 m ! i = le_bytes_u64 n ! i" using eq by simp
    with that have "(word_of_nat (unat m div 256 ^ i) :: u8) = word_of_nat (unat n div 256 ^ i)"
      by (simp add: le_bytes_u64_def)
    then have "unat (word_of_nat (unat m div 256 ^ i) :: u8) =
        unat (word_of_nat (unat n div 256 ^ i) :: u8)" by simp
    then show ?thesis by (simp add: unat_of_nat)
  qed
  then have "unat m mod 256 ^ 8 = unat n mod 256 ^ 8" by (rule base_256_unique)
  moreover have "unat x < 256 ^ 8" for x :: u64 using unsigned_less [of x, where 'a = nat] by simp
  ultimately show "m = n" by (simp add: word_unat_eq_iff)
qed simp

lemma hash_preimage_inject:
  assumes "length p = length p'"
  shows "hash_preimage cr i p d t n = hash_preimage cr i' p' d' t' n' \<longleftrightarrow>
    p = p' \<and> i = i' \<and> d @ to_rfc3339 cr t = d' @ to_rfc3339 cr t' \<and> n = n'"
proof -
  have split: "as_bytes d @ as_bytes (to_rfc3339 cr t) @ le_bytes_u64 n =
      as_bytes (d @ to_rfc3339 cr t) @ le_bytes_u64 n" for d t n by simp
  show ?thesis
    using assms unfolding hash_preimage_def split
    by (auto simp del: as_bytes_simps(2))
qed

subsection \<open>Tamper evidence\<close>

definition block_preimage :: "crypto \<Rightarrow> hash_link \<Rightarrow> u8 list" where
  "block_preimage cr b =
     hash_preimage cr (link_index b) (link_previous_hash b) (link_data b) (link_timestamp b)
       (link_nonce b)"

lemma verify_self_preimage:
  "verify_self cr b \<longleftrightarrow> link_hash b = hex_encode cr (sha256 cr (block_preimage cr b))"
  by (auto simp: verify_self_def compute_hash_def block_preimage_def)

lemma chain_ok_nth:
  assumes "chain_ok cr c" and "i < length (blocks c)"
  shows "link_hash (blocks c ! i) = hex_encode cr (sha256 cr (block_preimage cr (blocks c ! i)))"
    and "0 < i \<Longrightarrow> link_previous_hash (blocks c ! i) = link_hash (blocks c ! (i - 1))"
    and "i = 0 \<Longrightarrow> link_previous_hash (blocks c ! i) = zero_hash"
  using assms by (auto simp: chain_ok_def linked_upto_def verify_self_preimage)

lemma chain_ok_previous_length:
  assumes "chain_ok cr c" and "i < length (blocks c)"
    and "\<And>m. length (hex_encode cr (sha256 cr m)) = 64"
  shows "length (link_previous_hash (blocks c ! i)) = 64"
proof (cases "i = 0")
  case True
  with chain_ok_nth(3) [OF assms(1,2)] show ?thesis by (simp add: zero_hash_def)
next
  case False
  with chain_ok_nth(2) [OF assms(1,2)] chain_ok_nth(1) [OF assms(1), of "i - 1"] assms(2,3)
  show ?thesis by simp
qed

definition same_hashed_fields :: "crypto \<Rightarrow> hash_link \<Rightarrow> hash_link \<Rightarrow> bool" where
  "same_hashed_fields cr b b' \<longleftrightarrow>
     link_index b = link_index b' \<and> link_hash b = link_hash b' \<and>
     link_previous_hash b = link_previous_hash b' \<and> link_nonce b = link_nonce b' \<and>
     link_data b @ to_rfc3339 cr (link_timestamp b) =
       link_data b' @ to_rfc3339 cr (link_timestamp b')"

definition collision_at :: "crypto \<Rightarrow> hash_chain \<Rightarrow> hash_chain \<Rightarrow> nat \<Rightarrow> bool" where
  "collision_at cr c d i \<longleftrightarrow>
     block_preimage cr (blocks c ! i) \<noteq> block_preimage cr (blocks d ! i) \<and>
     hex_encode cr (sha256 cr (block_preimage cr (blocks c ! i))) =
     hex_encode cr (sha256 cr (block_preimage cr (blocks d ! i)))"

lemma same_block_from_hash:
  assumes "chain_ok cr c" and "chain_ok cr d" and "length (blocks c) = length (blocks d)"
    and "i < length (blocks c)" and "\<And>m. length (hex_encode cr (sha256 cr m)) = 64"
    and "link_hash (blocks c ! i) = link_hash (blocks d ! i)" and "\<not> collision_at cr c d i"
  shows "same_hashed_fields cr (blocks c ! i) (blocks d ! i)"
proof -
  have "block_preimage cr (blocks c ! i) = block_preimage cr (blocks d ! i)"
    using assms(3,4,6,7) chain_ok_nth(1) [OF assms(1), of i] chain_ok_nth(1) [OF assms(2), of i]
    by (auto simp: collision_at_def)
  moreover have "length (link_previous_hash (blocks c ! i)) = length (link_previous_hash (blocks d ! i))"
    using chain_ok_previous_length [OF assms(1), of i] chain_ok_previous_length [OF assms(2), of i]
      assms(3-5) by simp
  ultimately show ?thesis
    using assms(6) by (simp add: block_preimage_def same_hashed_fields_def hash_preimage_inject)
qed

text \<open>
  The hasher is fed data and timestamp without a delimiter. Two instants can be told apart at the
  end of a text when neither text ends in the other, which the fixed layout of RFC 3339 gives for
  the years 0 to 9999.
\<close>

definition separable_stamps :: "crypto \<Rightarrow> timestamp set \<Rightarrow> bool" where
  "separable_stamps cr T \<longleftrightarrow>
     (\<forall>t \<in> T. \<forall>t' \<in> T. \<forall>x. to_rfc3339 cr t' = x @ to_rfc3339 cr t \<longrightarrow> t = t')"

definition chain_stamps :: "hash_chain \<Rightarrow> timestamp set" where
  "chain_stamps c = link_timestamp ` set (blocks c)"

lemma separable_stampsD:
  assumes "separable_stamps cr T" and "t \<in> T" and "t' \<in> T"
    and "d @ to_rfc3339 cr t = d' @ to_rfc3339 cr t'"
  shows "d = d' \<and> t = t'"
proof -
  obtain x where "d = d' @ x \<and> x @ to_rfc3339 cr t = to_rfc3339 cr t' \<or>
      d @ x = d' \<and> to_rfc3339 cr t = x @ to_rfc3339 cr t'"
    using assms(4) unfolding append_eq_append_conv2 by metis
  then have "t = t'"
    using assms(1-3) unfolding separable_stamps_def by metis
  with assms(4) show ?thesis by simp
qed

text \<open>
  Outside those years they are not: text that ends the data of one block can be the beginning of
  the timestamp of another, and the two have one hash although no two inputs of the digest collide.
\<close>

lemma data_runs_into_timestamp:
  assumes "to_rfc3339 cr t' = x @ to_rfc3339 cr t"
  shows "compute_hash cr i p (d @ x) t n = compute_hash cr i p d t' n"
  using assms by (simp add: compute_hash_def hash_preimage_def)

lemma head_hash_fixes_fields:
  assumes "verify_chain cr c = Some (True, [])" and "verify_chain cr d = Some (True, [])"
    and "chain_len c = chain_len d"
    and "link_hash (last (blocks c)) = link_hash (last (blocks d))"
    and "\<And>m. length (hex_encode cr (sha256 cr m)) = 64"
  shows "list_all2 (same_hashed_fields cr) (blocks c) (blocks d) \<or>
         (\<exists>i<chain_len c. collision_at cr c d i)"
proof (rule disjCI)
  assume "\<not> (\<exists>i<chain_len c. collision_at cr c d i)"
  then have nocol: "\<not> collision_at cr c d i" if "i < length (blocks c)" for i
    using that by (auto simp: chain_len_def)
  have ok: "chain_ok cr c" "chain_ok cr d" and len: "length (blocks c) = length (blocks d)"
    using assms(1-3) by (simp_all add: verify_chain_decides chain_len_def)
  note ne = chain_ok_nonempty [OF ok(1)] chain_ok_nonempty [OF ok(2)]
  note same = same_block_from_hash [OF ok len _ assms(5) _ nocol]
  have hash: "link_hash (blocks c ! i) = link_hash (blocks d ! i)" if "i < length (blocks c)" for i
    using that
  proof (induction "length (blocks c) - i" arbitrary: i)
    case 0
    then show ?case by simp
  next
    case (Suc n)
    show ?case
    proof (cases "Suc i = length (blocks c)")
      case True
      then have "i = length (blocks c) - 1" by simp
      with assms(4) last_conv_nth [OF ne(1)] last_conv_nth [OF ne(2)] len show ?thesis by metis
    next
      case False
      with Suc have "link_hash (blocks c ! Suc i) = link_hash (blocks d ! Suc i)" by simp
      with same [of "Suc i"] Suc.prems False have
        "link_previous_hash (blocks c ! Suc i) = link_previous_hash (blocks d ! Suc i)"
        by (simp add: same_hashed_fields_def)
      with chain_ok_nth(2) [OF ok(1), of "Suc i"] chain_ok_nth(2) [OF ok(2), of "Suc i"]
        Suc.prems False len show ?thesis by simp
    qed
  qed
  show "list_all2 (same_hashed_fields cr) (blocks c) (blocks d)"
    using same hash len by (simp add: list_all2_conv_all_nth)
qed

lemma same_fields_equal:
  assumes "same_hashed_fields cr b b'" and "separable_stamps cr T"
    and "link_timestamp b \<in> T" and "link_timestamp b' \<in> T"
  shows "b = b'"
  using assms(1) separable_stampsD [OF assms(2-4), of "link_data b" "link_data b'"]
  by (simp add: same_hashed_fields_def)

text \<open>
  C8. Tamper evidence, as a reduction to collisions. Let two chains of the same length both pass
  \<open>verify_chain\<close> and have the same head hash, and let no timestamp text of either chain end in
  another one (as is so for the years 0 to 9999). Then the two chains have the same blocks, in
  every field, or a colliding pair is in hand: at some position the two blocks' hasher inputs
  differ and have the same digest. The hypothesis on the digest (64 hexadecimal characters) is
  what the \<open>sha2\<close> and \<open>hex\<close> packages document.
\<close>

theorem head_hash_commits_to_history:
  assumes "verify_chain cr c = Some (True, [])" and "verify_chain cr d = Some (True, [])"
    and "chain_len c = chain_len d"
    and "link_hash (last (blocks c)) = link_hash (last (blocks d))"
    and "\<And>m. length (hex_encode cr (sha256 cr m)) = 64"
    and "separable_stamps cr (chain_stamps c \<union> chain_stamps d)"
  shows "blocks c = blocks d \<or> (\<exists>i<chain_len c. collision_at cr c d i)"
proof -
  have "b = b'" if "same_hashed_fields cr b b'" "b \<in> set (blocks c)" "b' \<in> set (blocks d)" for b b'
    using same_fields_equal [OF that(1) assms(6)] that(2,3) by (simp add: chain_stamps_def)
  then have "list_all2 (same_hashed_fields cr) (blocks c) (blocks d) \<Longrightarrow> list_all2 (=) (blocks c) (blocks d)"
    by (auto simp: list_all2_conv_all_nth)
  then show ?thesis
    using head_hash_fixes_fields [OF assms(1-5)] by (auto simp: list.rel_eq)
qed

text \<open>
  A concrete instance of the parameters, for evaluating the definitions: the digest is the
  input cut or padded to 32 bytes, encoded in hexadecimal.
\<close>

definition demo_hex :: "u8 list \<Rightarrow> string" where
  "demo_hex bs =
     concat (map (\<lambda>b. [''0123456789abcdef'' ! (unat b div 16), ''0123456789abcdef'' ! (unat b mod 16)]) bs)"

definition demo_crypto :: crypto where
  "demo_crypto =
     \<lparr>sha256 = (\<lambda>m. take 32 (m @ replicate 32 0)), hex_encode = demo_hex,
      to_rfc3339 = (\<lambda>t. CHR ''T'' # replicate (nat t) (CHR ''z'')),
      uuid_bytes = (\<lambda>u. map (\<lambda>i. word_of_nat (unat u div 256 ^ i)) [0..<16])\<rparr>"

lemma demo_digest_length: "length (hex_encode demo_crypto (sha256 demo_crypto m)) = 64"
proof -
  have "length (demo_hex bs) = 2 * length bs" for bs
    by (induction bs) (simp_all add: demo_hex_def)
  then show ?thesis by (simp add: demo_crypto_def)
qed

definition demo_chain :: "string \<Rightarrow> hash_chain" where
  "demo_chain data =
     snd (the (chain_append demo_crypto 1 data (chain_new demo_crypto 0 [])))"

lemma demo_chain_ok: "chain_ok demo_crypto (demo_chain data)"
proof -
  have "chain_append demo_crypto 1 data (chain_new demo_crypto 0 []) \<noteq> None"
    by (simp add: chain_append_def chain_new_def Let_def)
  then show ?thesis
    unfolding demo_chain_def using chain_append_ok [OF chain_new_ok] by fastforce
qed

lemma demo_blocks:
  "blocks (demo_chain data) =
     [genesis demo_crypto 0 ''GENESIS_BLOCK'',
      link_next demo_crypto 1 (genesis demo_crypto 0 ''GENESIS_BLOCK'') data]"
  by (simp add: demo_chain_def chain_append_def chain_new_def Let_def)

lemma demo_same_head:
  "link_hash (last (blocks (demo_chain data))) = link_hash (last (blocks (demo_chain data')))"
proof -
  have "length (link_hash (genesis demo_crypto 0 ''GENESIS_BLOCK'')) = 64"
    by (simp add: genesis_def compute_hash_def demo_digest_length)
  then show ?thesis
    by (simp add: demo_blocks link_next_def Let_def compute_hash_def hash_preimage_def
        demo_crypto_def [THEN arg_cong, of sha256])
qed

lemma demo_stamps: "separable_stamps demo_crypto {t. 0 \<le> t}"
proof -
  have "n = m" if "CHR ''T'' # replicate n (CHR ''z'') = x @ CHR ''T'' # replicate m (CHR ''z'')" for n m x
  proof (cases x)
    case (Cons c x')
    then have "CHR ''T'' \<in> set (replicate n (CHR ''z''))" using that by simp
    then show ?thesis by simp
  qed (use that in simp)
  then show ?thesis by (simp add: separable_stamps_def demo_crypto_def) (metis eq_nat_nat_iff)
qed

theorem head_hash_commits_to_history_witness:
  "verify_chain demo_crypto (demo_chain ''a'') = Some (True, []) \<and>
   verify_chain demo_crypto (demo_chain ''b'') = Some (True, []) \<and>
   (blocks (demo_chain ''a'') = blocks (demo_chain ''b'') \<or>
    (\<exists>i<chain_len (demo_chain ''a''). collision_at demo_crypto (demo_chain ''a'') (demo_chain ''b'') i))"
proof -
  have "chain_stamps (demo_chain ''a'') \<union> chain_stamps (demo_chain ''b'') \<subseteq> {t. 0 \<le> t}"
    by (simp add: chain_stamps_def demo_blocks genesis_def link_next_def Let_def)
  then have "separable_stamps demo_crypto (chain_stamps (demo_chain ''a'') \<union> chain_stamps (demo_chain ''b''))"
    using demo_stamps unfolding separable_stamps_def by blast
  from head_hash_commits_to_history [OF _ _ _ demo_same_head demo_digest_length this] show ?thesis
    by (simp add: verify_chain_decides demo_chain_ok chain_len_def demo_blocks)
qed

text \<open>
  A redacted block does not keep its hash: two verified chains with the same hash at the place of
  the redaction would be a collision of the digest, unless the data was the mark already.
\<close>

lemma redaction_changes_hash:
  assumes "chain_ok cr c" and "redact cr index c = (Ok u, c')"
    and "\<And>m. length (hex_encode cr (sha256 cr m)) = 64"
    and "link_data (blocks c ! unat index) \<noteq> redacted" and "\<not> collision_at cr c c' (unat index)"
  shows "link_hash (blocks c' ! unat index) \<noteq> link_hash (blocks c ! unat index)"
proof
  assume same: "link_hash (blocks c' ! unat index) = link_hash (blocks c ! unat index)"
  have i: "0 < unat index" "unat index < length (blocks c)"
    using assms(2) by (auto simp: redact_def Let_def split: if_splits)
  let ?bs = "(blocks c)[unat index := (blocks c ! unat index)\<lparr>link_data := redacted\<rparr>]"
  have c': "blocks c' = fold (rehash_at cr) [unat index..<length (blocks c)] ?bs"
    using assms(2) unfolding redact_unfold [OF i] by auto
  have "chain_ok cr c'" using redact_ok [OF assms(1), of index] assms(2) by simp
  from same_block_from_hash [OF assms(1) this _ i(2) assms(3) same [symmetric] assms(5)]
  have "same_hashed_fields cr (blocks c ! unat index) (blocks c' ! unat index)" by (simp add: c')
  moreover have "link_data (blocks c' ! unat index) = redacted"
    "link_timestamp (blocks c' ! unat index) = link_timestamp (blocks c ! unat index)"
    using fold_rehash_keeps [of "unat index" ?bs "[unat index..<length (blocks c)]" cr] i by (simp_all add: c')
  ultimately show False using assms(4) by (simp add: same_hashed_fields_def)
qed

text \<open>
  C18. Redaction on every branch. Out of range and at the genesis block it fails and changes
  nothing. Elsewhere it succeeds; the blocks before the index are untouched, the block at the
  index has its data replaced by \<open>[REDACTED]\<close>, every block keeps its index, timestamp and
  nonce and every other block its data, and a chain that verified before verifies after: the
  chain itself carries no trace that the history was rewritten.
\<close>

theorem redact_rewrites_history:
  "case redact cr index c of
     (Err e, c') \<Rightarrow>
       c' = c \<and> (e = IndexOutOfBounds \<longleftrightarrow> chain_len c \<le> unat index) \<and>
       (e = CannotRedactGenesis \<longleftrightarrow> unat index = 0 \<and> 0 < chain_len c)
   | (Ok _, c') \<Rightarrow>
       0 < unat index \<and> unat index < chain_len c \<and> signing_key c' = signing_key c \<and>
       take (unat index) (blocks c') = take (unat index) (blocks c) \<and>
       map link_data (blocks c') = (map link_data (blocks c))[unat index := redacted] \<and>
       map (\<lambda>b. (link_index b, link_timestamp b, link_nonce b)) (blocks c') =
       map (\<lambda>b. (link_index b, link_timestamp b, link_nonce b)) (blocks c) \<and>
       (verify_chain cr c \<noteq> Some (True, []) \<or> verify_chain cr c' = Some (True, []))"
proof (cases "0 < unat index \<and> unat index < length (blocks c)")
  case True
  let ?i = "unat index" and ?bs = "(blocks c)[unat index := (blocks c ! unat index)\<lparr>link_data := redacted\<rparr>]"
  let ?new = "fold (rehash_at cr) [unat index..<length (blocks c)] ?bs"
  have keeps: "link_data (?new ! k) = link_data (?bs ! k)" "link_index (?new ! k) = link_index (?bs ! k)"
    "link_timestamp (?new ! k) = link_timestamp (?bs ! k)" "link_nonce (?new ! k) = link_nonce (?bs ! k)"
    "k < ?i \<Longrightarrow> ?new ! k = ?bs ! k" if "k < length (blocks c)" for k
    using that fold_rehash_keeps [of k ?bs "[unat index..<length (blocks c)]" cr] by simp_all
  have "take ?i ?new = take ?i (blocks c)"
    using keeps True by (intro nth_equalityI) (simp_all add: nth_list_update)
  moreover have "map link_data ?new = (map link_data (blocks c))[?i := redacted]"
    using keeps True by (intro nth_equalityI) (simp_all add: nth_list_update)
  moreover have "map (\<lambda>b. (link_index b, link_timestamp b, link_nonce b)) ?new =
      map (\<lambda>b. (link_index b, link_timestamp b, link_nonce b)) (blocks c)"
    using keeps True by (intro nth_equalityI) (simp_all add: nth_list_update)
  moreover have "verify_chain cr c \<noteq> Some (True, []) \<or>
      verify_chain cr (c\<lparr>blocks := ?new\<rparr>) = Some (True, [])"
    using redact_ok [of cr c index] True redact_unfold [of index c cr]
    by (auto simp: verify_chain_decides)
  ultimately show ?thesis using True redact_unfold [of index c cr] by (simp add: chain_len_def)
next
  case False
  then show ?thesis by (auto simp: redact_def Let_def chain_len_def)
qed

theorem redact_rewrites_history_witness:
  "verify_chain demo_crypto (demo_chain ''a'') = Some (True, []) \<and>
   fst (redact demo_crypto 1 (demo_chain ''a'')) = Ok () \<and>
   verify_chain demo_crypto (snd (redact demo_crypto 1 (demo_chain ''a''))) = Some (True, [])"
proof -
  have ok: "verify_chain demo_crypto (demo_chain ''a'') = Some (True, [])"
    by (simp add: verify_chain_decides demo_chain_ok)
  obtain c' where "redact demo_crypto 1 (demo_chain ''a'') = (Ok (), c')"
    using redact_unfold [of 1 "demo_chain ''a''" demo_crypto] by (simp add: demo_blocks)
  with redact_rewrites_history [where cr = demo_crypto and index = 1 and c = "demo_chain ''a''"] ok
  show ?thesis by simp
qed

subsection \<open>Position proofs and signatures\<close>

text \<open>
  Position proofs. A proof exists exactly for the indices in range; in a verified chain
  every proof passes \<open>verify_position\<close>, names the block at that index, and its neighbour
  hashes are those of the adjacent blocks, the later of which links back to it.
\<close>

theorem position_proofs_verify:
  assumes "verify_chain cr c = Some (True, [])"
  shows "case proof_for_block index c of
           None \<Rightarrow> chain_len c \<le> unat index \<and> get_block index c = None
         | Some p \<Rightarrow>
             unat index < chain_len c \<and> verify_position cr p \<and> get_block index c = Some (proof_block p) \<and>
             previous_block_hash p =
               (if unat index = 0 then None else Some (link_previous_hash (proof_block p))) \<and>
             (case next_block_hash p of
                None \<Rightarrow> latest c = Some (proof_block p)
              | Some h \<Rightarrow> link_hash (blocks c ! Suc (unat index)) = h \<and>
                  link_previous_hash (blocks c ! Suc (unat index)) = link_hash (proof_block p))"
proof (cases "unat index < length (blocks c)")
  case True
  have ok: "chain_ok cr c" using assms by (simp add: verify_chain_decides)
  let ?b = "blocks c ! unat index"
  have "verify_self cr ?b"
    using chain_ok_nth(1) [OF ok True] by (simp add: verify_self_preimage)
  moreover have "0 < unat index \<Longrightarrow> link_previous_hash ?b = link_hash (blocks c ! (unat index - 1))"
    by (rule chain_ok_nth(2) [OF ok True])
  moreover have "Suc (unat index) < length (blocks c) \<Longrightarrow>
      link_previous_hash (blocks c ! Suc (unat index)) = link_hash ?b"
    using chain_ok_nth(2) [OF ok, of "Suc (unat index)"] by simp
  moreover have "last (blocks c) = ?b" if "\<not> Suc (unat index) < length (blocks c)"
  proof -
    have "unat index = length (blocks c) - 1" using that True by simp
    then show ?thesis using chain_ok_nonempty [OF ok] by (simp add: last_conv_nth)
  qed
  ultimately show ?thesis
    using True chain_ok_nonempty [OF ok]
    by (auto simp: proof_for_block_def verify_position_def get_block_def latest_def chain_len_def Let_def)
next
  case False
  then show ?thesis by (simp add: proof_for_block_def get_block_def chain_len_def Let_def)
qed

theorem position_proofs_verify_witness:
  "verify_chain demo_crypto (demo_chain ''a'') = Some (True, []) \<and>
   (case proof_for_block 1 (demo_chain ''a'') of None \<Rightarrow> False | Some p \<Rightarrow> verify_position demo_crypto p)"
proof -
  have "verify_chain demo_crypto (demo_chain ''a'') = Some (True, [])"
    by (simp add: verify_chain_decides demo_chain_ok)
  with position_proofs_verify [of demo_crypto "demo_chain ''a''" 1] show ?thesis
    by (auto simp: chain_len_def demo_blocks split: option.splits)
qed

definition hmac_collision :: "crypto \<Rightarrow> u8 list \<Rightarrow> u8 list \<Rightarrow> u8 list \<Rightarrow> bool" where
  "hmac_collision cr key m m' \<longleftrightarrow>
     (let k = hmac_key cr key; pad = (\<lambda>x. map (\<lambda>b. xor b x) k);
          h = sha256 cr (pad 0x36 @ m); h' = sha256 cr (pad 0x36 @ m')
      in m \<noteq> m' \<and> (h = h' \<or> h \<noteq> h' \<and> sha256 cr (pad 0x5c @ h) = sha256 cr (pad 0x5c @ h')))"

lemma hmac_sign_collision:
  assumes "hmac_sign cr key m = hmac_sign cr key m'" and "m \<noteq> m'" and "inj (hex_encode cr)"
  shows "hmac_collision cr key m m'"
  using assms by (auto simp: hmac_sign_def hmac_collision_def Let_def inj_eq)

definition signed_message :: "crypto \<Rightarrow> signed_transaction \<Rightarrow> u8 list" where
  "signed_message cr t = uuid_bytes cr (stx_transaction_id t) @ as_bytes (stx_payload t)"

text \<open>
  C20. Signatures. What \<open>sign\<close> produces verifies under the same key; and a transaction that
  verifies under that key with the same signature has the same identifier and payload, or the
  two messages are an explicit collision of the digest inside the keyed hash. The hypotheses
  are what the \<open>hex\<close> and \<open>uuid\<close> packages document: the encoding is injective, and an
  identifier is its sixteen bytes.
\<close>

theorem signature_binds_transaction:
  assumes "inj (hex_encode cr)" and "inj (uuid_bytes cr)" and "\<And>u. length (uuid_bytes cr u) = 16"
    and "t = sign_transaction cr now tid payload key"
    and "verify_signed cr t' key" and "stx_hmac t' = stx_hmac t"
  shows "verify_signed cr t key \<and>
    ((stx_transaction_id t', stx_payload t') = (tid, payload) \<or>
     hmac_collision cr key (signed_message cr t') (signed_message cr t))"
proof -
  have signs: "hmac_sign cr key (signed_message cr t) = stx_hmac t"
    "hmac_sign cr key (signed_message cr t') = stx_hmac t"
    using assms(4-6)
    by (simp_all add: sign_transaction_def verify_signed_def hmac_verify_def signed_message_def)
  have "verify_signed cr t key"
    using signs(1) by (simp add: verify_signed_def hmac_verify_def signed_message_def)
  moreover have "(stx_transaction_id t', stx_payload t') = (tid, payload)"
    if "signed_message cr t' = signed_message cr t"
    using that assms(2-4) by (simp add: signed_message_def sign_transaction_def inj_eq)
  moreover have "hmac_collision cr key (signed_message cr t') (signed_message cr t)"
    if "signed_message cr t' \<noteq> signed_message cr t"
    using hmac_sign_collision [OF _ that assms(1)] signs by simp
  ultimately show ?thesis by blast
qed

lemma demo_hex_digit_inj:
  assumes "a < 16" "b < 16" "''0123456789abcdef'' ! a = ''0123456789abcdef'' ! b"
  shows "a = b"
proof -
  have "distinct ''0123456789abcdef''" by simp
  then show ?thesis using assms nth_eq_iff_index_eq [of "''0123456789abcdef''" a b] by simp
qed

lemma demo_hex_inj: "inj demo_hex"
proof (rule injI)
  fix xs ys :: "u8 list"
  assume "demo_hex xs = demo_hex ys"
  then show "xs = ys"
  proof (induction xs arbitrary: ys)
    case Nil
    then show ?case by (cases ys) (simp_all add: demo_hex_def)
  next
    case (Cons x xs)
    then obtain y zs where ys: "ys = y # zs" by (cases ys) (simp_all add: demo_hex_def)
    have lt: "unat b div 16 < 16" for b :: u8
      using unsigned_less [of b, where 'a = nat] by simp
    have dig: "''0123456789abcdef'' ! (unat x div 16) = ''0123456789abcdef'' ! (unat y div 16)"
      "''0123456789abcdef'' ! (unat x mod 16) = ''0123456789abcdef'' ! (unat y mod 16)"
      and rest: "demo_hex xs = demo_hex zs"
      using Cons.prems by (simp_all add: ys demo_hex_def)
    have "unat x div 16 = unat y div 16" by (rule demo_hex_digit_inj [OF lt lt dig(1)])
    moreover have "unat x mod 16 = unat y mod 16" by (rule demo_hex_digit_inj [OF _ _ dig(2)]) simp_all
    ultimately have "x = y" by (metis div_mult_mod_eq word_unat_eq_iff)
    with Cons.IH [OF rest] ys show ?case by simp
  qed
qed

lemma demo_uuid_inj: "inj (uuid_bytes demo_crypto)"
proof (rule injI)
  fix u v :: uuid
  assume eq: "uuid_bytes demo_crypto u = uuid_bytes demo_crypto v"
  have "unat u div 256 ^ i mod 256 = unat v div 256 ^ i mod 256" if "i < 16" for i
  proof -
    have "uuid_bytes demo_crypto u ! i = uuid_bytes demo_crypto v ! i" using eq by simp
    with that have "(word_of_nat (unat u div 256 ^ i) :: u8) = word_of_nat (unat v div 256 ^ i)"
      by (simp add: demo_crypto_def)
    then have "unat (word_of_nat (unat u div 256 ^ i) :: u8) =
        unat (word_of_nat (unat v div 256 ^ i) :: u8)" by simp
    then show ?thesis by (simp add: unat_of_nat)
  qed
  then have "unat u mod 256 ^ 16 = unat v mod 256 ^ 16" by (rule base_256_unique)
  moreover have "unat x < 256 ^ 16" for x :: uuid using unsigned_less [of x, where 'a = nat] by simp
  ultimately show "u = v" by (simp add: word_unat_eq_iff)
qed

theorem signature_binds_transaction_witness:
  "verify_signed demo_crypto (sign_transaction demo_crypto 0 7 ''pay'' [1, 2, 3]) [1, 2, 3]"
proof -
  let ?t = "sign_transaction demo_crypto 0 7 ''pay'' [1, 2, 3]"
  have "verify_signed demo_crypto ?t [1, 2, 3]"
    by (simp add: verify_signed_def hmac_verify_def sign_transaction_def)
  moreover have "inj (hex_encode demo_crypto)" "\<And>u. length (uuid_bytes demo_crypto u) = 16"
    using demo_hex_inj by (simp_all add: demo_crypto_def)
  ultimately show ?thesis
    using signature_binds_transaction [of demo_crypto ?t 0 7 "''pay''" "[1, 2, 3]" ?t] demo_uuid_inj
    by blast
qed

subsection \<open>What verification in chunks decides\<close>

definition recomputes :: "crypto \<Rightarrow> string \<Rightarrow> hash_link \<Rightarrow> bool" where
  "recomputes cr prev_hash b \<longleftrightarrow>
     compute_hash cr (link_index b) prev_hash (link_data b) (link_timestamp b) (link_nonce b) =
     link_hash b"

definition pred_hash :: "hash_link list \<Rightarrow> nat \<Rightarrow> string" where
  "pred_hash bs k = (if k = 0 then zero_hash else link_hash (bs ! (k - 1)))"

lemma chunk_failures_Nil:
  "chunk_failures cr prev xs = [] \<longleftrightarrow>
     (\<forall>k<length xs. recomputes cr (if k = 0 then prev else link_hash (xs ! (k - 1))) (xs ! k))"
proof (induction xs arbitrary: prev)
  case Nil
  then show ?case by simp
next
  case (Cons x xs)
  have split: "(\<forall>k<length (x # xs). P k) \<longleftrightarrow> P 0 \<and> (\<forall>k<length xs. P (Suc k))" for P :: "nat \<Rightarrow> bool"
    by (auto simp: less_Suc_eq_0_disj)
  have "(if k = 0 then link_hash x else link_hash (xs ! (k - 1))) = link_hash ((x # xs) ! k)" for k
    by (cases k) simp_all
  with Cons show ?case unfolding split by (simp add: recomputes_def)
qed

lemma verify_chunk_decides:
  assumes "i * cs \<le> length bs"
  shows "\<exists>ts. verify_chunk cr bs cs i = Some ts \<and>
    (ts = [] \<longleftrightarrow> (\<forall>k. i * cs \<le> k \<and> k < i * cs + cs \<and> k < length bs \<longrightarrow>
                      recomputes cr (pred_hash bs k) (bs ! k)))"
proof -
  let ?s = "i * cs" and ?e = "min (i * cs + cs) (length bs)"
  let ?xs = "drop ?s (take ?e bs)"
  have nth: "?xs ! k = bs ! (?s + k)" if "k < length ?xs" for k
    using that assms by (auto simp: less_diff_conv add.commute)
  have pred: "(if k = 0 then pred_hash bs ?s else link_hash (?xs ! (k - 1))) = pred_hash bs (?s + k)"
    if "k < length ?xs" for k
    using that nth [of "k - 1"] by (cases k) (simp_all add: pred_hash_def)
  have "chunk_failures cr (pred_hash bs ?s) ?xs = [] \<longleftrightarrow>
      (\<forall>k<length ?xs. recomputes cr (pred_hash bs (?s + k)) (bs ! (?s + k)))"
    unfolding chunk_failures_Nil using nth pred by auto
  also have "\<dots> \<longleftrightarrow> (\<forall>k. ?s \<le> k \<and> k < ?s + cs \<and> k < length bs \<longrightarrow>
      recomputes cr (pred_hash bs k) (bs ! k))"
  proof (intro iffI allI impI)
    fix k
    assume all: "\<forall>k<length ?xs. recomputes cr (pred_hash bs (?s + k)) (bs ! (?s + k))"
      and k: "?s \<le> k \<and> k < ?s + cs \<and> k < length bs"
    then have "k - ?s < length ?xs" by simp linarith
    with all k show "recomputes cr (pred_hash bs k) (bs ! k)" by fastforce
  qed (simp add: less_diff_conv add.commute)
  finally show ?thesis using assms by (simp add: verify_chunk_def Let_def pred_hash_def)
qed

definition in_parallel :: "nat \<Rightarrow> nat \<Rightarrow> bool" where
  "in_parallel n num_chunks \<longleftrightarrow> 0 < n \<and> 1 < num_chunks \<and> num_chunks * 2 \<le> n"

lemma div_ceil_covers: "0 < b \<Longrightarrow> a \<le> b * div_ceil a b"
proof -
  assume b: "0 < b"
  have "a + b - 1 = b * div_ceil a b + (a + b - 1) mod b" by (simp add: div_ceil_def)
  moreover have "(a + b - 1) mod b < b" using b by simp
  ultimately show ?thesis by linarith
qed

lemma verify_chunk_None: "verify_chunk cr bs cs i = None \<longleftrightarrow> length bs < i * cs"
  by (auto simp: verify_chunk_def Let_def min_def)

lemma batch_verify_panics:
  assumes "in_parallel (length (blocks c)) n"
  shows "batch_verify_parallel cr c n = None \<longleftrightarrow>
     length (blocks c) < (n - 1) * div_ceil (length (blocks c)) n"
proof -
  let ?cs = "div_ceil (length (blocks c)) n" and ?bs = "blocks c"
  have "batch_verify_parallel cr c n = None \<longleftrightarrow> (\<exists>i<n. length ?bs < i * ?cs)"
    using assms
    by (auto simp: batch_verify_parallel_def in_parallel_def Let_def image_iff
        eq_commute [of None] verify_chunk_None)
  also have "\<dots> \<longleftrightarrow> length ?bs < (n - 1) * ?cs"
  proof
    assume "\<exists>i<n. length ?bs < i * ?cs"
    then obtain i where "i < n" "length ?bs < i * ?cs" by blast
    then show "length ?bs < (n - 1) * ?cs"
      using mult_le_mono1 [of i "n - 1" ?cs] by linarith
  qed (use assms in \<open>auto simp: in_parallel_def intro!: exI [of _ "n - 1"]\<close>)
  finally show ?thesis .
qed

lemma batch_verify_decides:
  assumes "in_parallel (length (blocks c)) n"
    and "(n - 1) * div_ceil (length (blocks c)) n \<le> length (blocks c)"
  shows "\<exists>ts. batch_verify_parallel cr c n = Some (ts = [], ts) \<and>
    (ts = [] \<longleftrightarrow>
       (\<forall>k<length (blocks c). recomputes cr (pred_hash (blocks c) k) (blocks c ! k)) \<and>
       (\<forall>i<n - 1. boundary_failure (blocks c) (div_ceil (length (blocks c)) n) i = []))"
proof -
  let ?cs = "div_ceil (length (blocks c)) n" and ?bs = "blocks c"
  let ?res = "map (verify_chunk cr ?bs ?cs) [0..<n]"
  have le: "i * ?cs \<le> length ?bs" if "i < n" for i
    using that assms(2) mult_le_mono1 [of i "n - 1" ?cs] by linarith
  have noNone: "None \<notin> set ?res" using le by (auto simp: eq_commute [of None] verify_chunk_None not_less dest!: le)
  have "concat (map the ?res) = [] \<longleftrightarrow> (\<forall>i<n. the (verify_chunk cr ?bs ?cs i) = [])"
    by auto
  also have "\<dots> \<longleftrightarrow> (\<forall>i<n. \<forall>k. i * ?cs \<le> k \<and> k < i * ?cs + ?cs \<and> k < length ?bs \<longrightarrow>
      recomputes cr (pred_hash ?bs k) (?bs ! k))"
    using verify_chunk_decides [OF le, of _ cr] by fastforce
  also have "\<dots> \<longleftrightarrow> (\<forall>k<length ?bs. recomputes cr (pred_hash ?bs k) (?bs ! k))"
  proof (intro iffI allI impI)
    fix k assume all: "\<forall>i<n. \<forall>k. i * ?cs \<le> k \<and> k < i * ?cs + ?cs \<and> k < length ?bs \<longrightarrow>
      recomputes cr (pred_hash ?bs k) (?bs ! k)" and k: "k < length ?bs"
    have "k < ?cs * n" using k div_ceil_covers [of n "length ?bs"] assms(1)
      by (simp add: in_parallel_def mult.commute)
    moreover from this have "0 < ?cs" by (cases ?cs) simp_all
    ultimately have "k div ?cs < n" "k div ?cs * ?cs \<le> k" "k < k div ?cs * ?cs + ?cs"
      using div_less_iff_less_mult [of ?cs k n] dividend_less_div_times [of ?cs k]
      by (auto simp: mult.commute add.commute)
    with all k show "recomputes cr (pred_hash ?bs k) (?bs ! k)" by blast
  qed auto
  finally have chunks: "concat (map the ?res) = [] \<longleftrightarrow>
      (\<forall>k<length ?bs. recomputes cr (pred_hash ?bs k) (?bs ! k))" .
  have "batch_verify_parallel cr c n =
      (let ts = concat (map the ?res) @ concat (map (boundary_failure ?bs ?cs) [0..<n - 1])
       in Some (ts = [], ts))"
    using assms(1) noNone by (simp add: batch_verify_parallel_def in_parallel_def Let_def)
  then show ?thesis
    using chunks by (auto simp: Let_def)
qed

lemma chain_ok_recomputes:
  assumes "chain_ok cr c" and "k < length (blocks c)"
  shows "recomputes cr (pred_hash (blocks c) k) (blocks c ! k)"
  using assms by (auto simp: chain_ok_def linked_upto_def recomputes_def verify_self_def pred_hash_def)

lemma chain_ok_boundary:
  assumes ok: "chain_ok cr c" and "0 < cs"
  shows "boundary_failure (blocks c) cs i = []"
proof -
  have "link_previous_hash (blocks c ! ((i + 1) * cs)) =
      link_hash (blocks c ! (min ((i + 1) * cs) (length (blocks c)) - 1))"
    if "(i + 1) * cs < length (blocks c)"
    using that chain_ok_nth(2) [OF ok that(1)] assms(2) by (simp add: min_def)
  then show ?thesis by (auto simp: boundary_failure_def Let_def)
qed

lemma div_ceil_pos: "0 < a \<Longrightarrow> 0 < b \<Longrightarrow> 0 < div_ceil a b"
  by (simp add: div_ceil_def div_greater_zero_iff)

lemma batch_verify_accepts:
  assumes "verify_chain cr c = Some (True, [])" and "batch_verify_parallel cr c n \<noteq> None"
  shows "batch_verify_parallel cr c n = Some (True, [])"
proof (cases "in_parallel (length (blocks c)) n")
  case True
  have ok: "chain_ok cr c" using assms(1) by (simp add: verify_chain_decides)
  have "(n - 1) * div_ceil (length (blocks c)) n \<le> length (blocks c)"
    using assms(2) batch_verify_panics [OF True, of cr] by linarith
  moreover have "0 < div_ceil (length (blocks c)) n"
    using True by (simp add: in_parallel_def div_ceil_pos)
  ultimately show ?thesis
    using batch_verify_decides [OF True, of cr] chain_ok_recomputes [OF ok] chain_ok_boundary [OF ok]
    by auto
next
  case False
  then show ?thesis using assms(1) by (auto simp: batch_verify_parallel_def in_parallel_def Let_def)
qed

lemma few_chunks_fit:
  assumes "0 < n" and "(n - 1) * (n - 1) \<le> m"
  shows "(n - 1) * div_ceil m n \<le> m"
proof -
  obtain p where n: "n = Suc p" using assms(1) by (cases n) auto
  have "n * div_ceil m n \<le> m + p"
    using times_div_less_eq_dividend [of n "m + n - 1"] by (simp add: div_ceil_def n del: mult_Suc)
  then have "p * (n * div_ceil m n) \<le> p * (m + p)" by (rule mult_le_mono2)
  also have "p * (m + p) \<le> n * m" using assms(2) by (simp add: n algebra_simps)
  finally have "n * (p * div_ceil m n) \<le> n * m" by (simp add: mult.left_commute)
  then have "p * div_ceil m n \<le> m" using assms(1) mult_le_cancel1 by blast
  then show ?thesis using n by simp
qed

text \<open>
  \<open>parallel_verify_chain\<close> picks its own number of chunks, and with that number never
  panics: on every chain it returns a verdict, which says valid exactly when it lists no index,
  and it accepts every chain that \<open>verify_chain\<close> accepts. Below 512 blocks the verdict is that
  of \<open>verify_chain\<close>; from there on it is: every block's hash recomputes over its predecessor's
  hash, and the stored links agree at the chunk boundaries.
\<close>

theorem parallel_verify_total:
  "\<exists>ts. parallel_verify_chain cr c = Some (ts = [], ts) \<and>
     (ts = [] \<or> verify_chain cr c \<noteq> Some (True, [])) \<and>
     (chain_len c = 0 \<or> chain_len c \<ge> 512 \<or> verify_chain cr c = Some (ts = [], ts)) \<and>
     (chain_len c < 512 \<or>
        (ts = [] \<longleftrightarrow>
          list_all (\<lambda>k. recomputes cr (pred_hash (blocks c) k) (blocks c ! k)) [0..<chain_len c] \<and>
          (let n = min (chain_len c div 256) 16
           in list_all (\<lambda>i. boundary_failure (blocks c) (div_ceil (chain_len c) n) i = []) [0..<n - 1])))"
proof -
  let ?n = "min (max (length (blocks c) div 256) 1) 16" and ?m = "length (blocks c)"
  consider "?m = 0" | "0 < ?m" "?m < 512" | "512 \<le> ?m" by linarith
  then show ?thesis
  proof cases
    case 1
    then show ?thesis
      by (simp add: parallel_verify_chain_def batch_verify_parallel_def chain_len_def)
  next
    case 2
    then have "?n = 1" by simp
    with 2 have "parallel_verify_chain cr c = verify_chain cr c"
      by (simp add: parallel_verify_chain_def batch_verify_parallel_def)
    with 2 verify_chain_total [of c cr] show ?thesis by (auto simp: chain_len_def)
  next
    case 3
    then have n: "?n = min (?m div 256) 16" "1 < ?n" by simp_all
    have par: "in_parallel ?m ?n"
      using 3 n(2) mult_le_mono1 [of ?n 16 2] by (auto simp: in_parallel_def)
    have "(?n - 1) * (?n - 1) \<le> 15 * 15" by (rule mult_le_mono) simp_all
    then have fits: "(?n - 1) * div_ceil ?m ?n \<le> ?m"
      using 3 by (intro few_chunks_fit) simp_all
    obtain ts where ts: "batch_verify_parallel cr c ?n = Some (ts = [], ts)"
      "ts = [] \<longleftrightarrow> (\<forall>k<?m. recomputes cr (pred_hash (blocks c) k) (blocks c ! k)) \<and>
        (\<forall>i<?n - 1. boundary_failure (blocks c) (div_ceil ?m ?n) i = [])"
      using batch_verify_decides [OF par fits, of cr] by blast
    have "ts = [] \<or> verify_chain cr c \<noteq> Some (True, [])"
      using batch_verify_accepts [of cr c ?n] ts(1) by auto
    then show ?thesis
      using ts 3 n(1) by (auto simp: parallel_verify_chain_def chain_len_def list_all_iff Let_def)
  qed
qed

theorem parallel_verify_total_witness:
  "verify_chain demo_crypto (demo_chain ''a'') = Some (True, []) \<and>
   parallel_verify_chain demo_crypto (demo_chain ''a'') = Some (True, [])"
proof -
  have "verify_chain demo_crypto (demo_chain ''a'') = Some (True, [])"
    by (simp add: verify_chain_decides demo_chain_ok)
  with parallel_verify_total [of demo_crypto "demo_chain ''a''"] show ?thesis by auto
qed

definition set_previous_hash :: "nat \<Rightarrow> string \<Rightarrow> hash_chain \<Rightarrow> hash_chain" where
  "set_previous_hash k s c =
     c\<lparr>blocks := (blocks c)[k := (blocks c ! k)\<lparr>link_previous_hash := s\<rparr>]\<rparr>"

text \<open>
  Two gaps of \<open>batch_verify_parallel\<close> with a caller's number of chunks. In every verified
  chain of four blocks, overwriting the stored previous hash of block 1 is found by
  \<open>verify_chain\<close> and missed by the verification in two chunks, which recomputes hashes over
  the predecessor's hash and reads the stored link at chunk boundaries only. And on every chain
  of 21 blocks, ten chunks of three run past the end and the slice panics.
\<close>

theorem batch_verify_gaps:
  "(length (blocks c) = 4 \<and> verify_chain cr c = Some (True, []) \<and>
      s \<noteq> link_previous_hash (blocks c ! 1) \<longrightarrow>
      verify_chain cr (set_previous_hash 1 s c) \<noteq> Some (True, []) \<and>
      batch_verify_parallel cr (set_previous_hash 1 s c) 2 = Some (True, [])) \<and>
   (length (blocks c) = 21 \<longrightarrow> batch_verify_parallel cr c 10 = None)"
proof (intro conjI impI)
  let ?d = "set_previous_hash 1 s c"
  assume asm: "length (blocks c) = 4 \<and> verify_chain cr c = Some (True, []) \<and>
    s \<noteq> link_previous_hash (blocks c ! 1)"
  then have ok: "chain_ok cr c" and len: "length (blocks c) = 4" "length (blocks ?d) = 4"
    by (simp_all add: verify_chain_decides set_previous_hash_def)
  have nth: "blocks ?d ! k = (if k = 1 then (blocks c ! 1)\<lparr>link_previous_hash := s\<rparr> else blocks c ! k)"
    if "k < 4" for k
    using that len by (simp add: set_previous_hash_def nth_list_update)
  have "link_previous_hash (blocks ?d ! 1) \<noteq> link_hash (blocks ?d ! 0)"
    using asm chain_ok_nth(2) [OF ok, of 1] len nth by simp
  then show "verify_chain cr ?d \<noteq> Some (True, [])"
    using chain_ok_nth(2) [of cr ?d 1] len by (auto simp: verify_chain_decides)
  have par: "in_parallel (length (blocks ?d)) 2"
    "(2 - 1) * div_ceil (length (blocks ?d)) 2 \<le> length (blocks ?d)" "div_ceil 4 2 = 2"
    using len by (simp_all add: in_parallel_def div_ceil_def)
  have "recomputes cr (pred_hash (blocks ?d) k) (blocks ?d ! k)" if "k < 4" for k
  proof -
    have "pred_hash (blocks ?d) k = pred_hash (blocks c) k" using that nth by (simp add: pred_hash_def)
    then show ?thesis
      using that nth chain_ok_recomputes [OF ok, of k] len by (auto simp: recomputes_def)
  qed
  moreover have "boundary_failure (blocks ?d) 2 0 = []"
    using chain_ok_boundary [OF ok, of 2 0] len nth by (simp add: boundary_failure_def Let_def split: if_splits)
  ultimately show "batch_verify_parallel cr ?d 2 = Some (True, [])"
    using batch_verify_decides [OF par(1,2), of cr] par(3) len by (auto simp: less_Suc_eq)
next
  assume "length (blocks c) = 21"
  then show "batch_verify_parallel cr c 10 = None"
    using batch_verify_panics [of c 10 cr] by (simp add: in_parallel_def div_ceil_def)
qed

definition demo_chain4 :: hash_chain where
  "demo_chain4 =
     the (chain_run demo_crypto [OpAppend 1 ''a'', OpAppend 2 ''b'', OpAppend 3 ''c'']
       (chain_new demo_crypto 0 []))"

theorem batch_verify_gaps_witness:
  "verify_chain demo_crypto (set_previous_hash 1 ''forged'' demo_chain4) \<noteq> Some (True, []) \<and>
   batch_verify_parallel demo_crypto (set_previous_hash 1 ''forged'' demo_chain4) 2 = Some (True, [])"
proof -
  have "chain_ok demo_crypto demo_chain4" "length (blocks demo_chain4) = 4"
    using chain_run_keeps [OF chain_new_ok [of demo_crypto 0 "[]"] chain_new_numbered,
        of "[OpAppend 1 ''a'', OpAppend 2 ''b'', OpAppend 3 ''c'']"]
    by (auto simp: demo_chain4_def length_chain_new is_append_def)
  moreover from this have "length (link_previous_hash (blocks demo_chain4 ! 1)) = 64"
    using chain_ok_previous_length [OF _ _ demo_digest_length, of demo_chain4 1] by simp
  moreover from this have "''forged'' \<noteq> link_previous_hash (blocks demo_chain4 ! 1)"
    by (auto dest: arg_cong [where f = length])
  ultimately show ?thesis
    using batch_verify_gaps [of demo_chain4 demo_crypto "''forged''"] by (simp add: verify_chain_decides)
qed

end
