(* ===== verification/Saga.thy ===== *)
theory Saga
  imports Ledger_Prelude
begin

section \<open>Sagas, the outbox and timeouts\<close>

text \<open>
  \<open>src/service/saga.rs\<close>: the orchestrator that hands out the steps of a saga and, after a
  failure, the compensations of the completed steps in reverse; the outbox of messages; the
  timeout table; the graph of a saga. \<open>None\<close> is a panic (\<open>expect\<close>, an index out of range,
  or the overflow panic of \<open>chrono\<close>, whose addition of seconds is the parameter
  \<open>add_seconds\<close>).
\<close>

datatype saga_status =
  SagaPending | SagaInProgress | SagaCompleted | SagaCompensating | SagaFailed | SagaTimedOut

datatype saga_action =
    ActDebit uuid i64
  | ActCredit uuid i64
  | ActHold uuid i64
  | ActReleaseHold uuid i64
  | ActExternalCall string string string
  | ActNoOp

record saga_step =
  step_name :: string
  step_action :: saga_action
  step_compensation :: saga_action
  step_max_retries :: u32
  step_timeout_seconds :: u64

record saga_definition =
  def_name :: string
  def_steps :: "saga_step list"

record saga_instance =
  saga_id :: uuid
  saga_definition_name :: string
  saga_status_of :: saga_status
  saga_current_step :: nat
  saga_created_at :: timestamp
  saga_completed_at :: "timestamp option"
  saga_completed_steps :: "nat list"
  saga_error_text :: "string option"

datatype saga_error =
    UnknownDefinition string
  | NoSteps
  | SagaNotFound uuid
  | SagaNotActive saga_status
  | AllStepsCompleted

definition instance_new :: "uuid \<Rightarrow> timestamp \<Rightarrow> string \<Rightarrow> saga_instance" where
  "instance_new i now definition_name =
     \<lparr>saga_id = i, saga_definition_name = definition_name, saga_status_of = SagaPending,
      saga_current_step = 0, saga_created_at = now, saga_completed_at = None,
      saga_completed_steps = [], saga_error_text = None\<rparr>"

definition step_completed :: "nat \<Rightarrow> saga_instance \<Rightarrow> saga_instance" where
  "step_completed step_index s =
     s\<lparr>saga_completed_steps := saga_completed_steps s @ [step_index],
       saga_current_step := step_index + 1\<rparr>"

definition saga_complete :: "timestamp \<Rightarrow> saga_instance \<Rightarrow> saga_instance" where
  "saga_complete now s = s\<lparr>saga_status_of := SagaCompleted, saga_completed_at := Some now\<rparr>"

definition start_compensating :: "string \<Rightarrow> saga_instance \<Rightarrow> saga_instance" where
  "start_compensating e s = s\<lparr>saga_status_of := SagaCompensating, saga_error_text := Some e\<rparr>"

definition saga_fail :: "timestamp \<Rightarrow> saga_instance \<Rightarrow> saga_instance" where
  "saga_fail now s = s\<lparr>saga_status_of := SagaFailed, saga_completed_at := Some now\<rparr>"

subsection \<open>The orchestrator\<close>

record orchestrator =
  definitions :: "string \<rightharpoonup> saga_definition"
  active_sagas :: "uuid \<rightharpoonup> saga_instance"
  completed_sagas :: "saga_instance list"

definition orchestrator_new :: orchestrator where
  "orchestrator_new = \<lparr>definitions = Map.empty, active_sagas = Map.empty, completed_sagas = []\<rparr>"

definition saga_register :: "saga_definition \<Rightarrow> orchestrator \<Rightarrow> orchestrator" where
  "saga_register d o1 = o1\<lparr>definitions := (definitions o1)(def_name d \<mapsto> d)\<rparr>"

definition saga_start ::
  "uuid \<Rightarrow> timestamp \<Rightarrow> string \<Rightarrow> orchestrator \<Rightarrow> (uuid, saga_error) result \<times> orchestrator"
where
  "saga_start i now definition_name o1 =
     (case definitions o1 definition_name of
        None \<Rightarrow> (Err (UnknownDefinition definition_name), o1)
      | Some d \<Rightarrow>
          if def_steps d = [] then (Err NoSteps, o1)
          else let s = instance_new i now definition_name
               in (Ok (saga_id s), o1\<lparr>active_sagas := (active_sagas o1)(saga_id s \<mapsto> s)\<rparr>))"

definition next_action ::
  "uuid \<Rightarrow> orchestrator \<Rightarrow> (nat \<times> saga_action, saga_error) result option"
where
  "next_action i o1 =
     (case active_sagas o1 i of
        None \<Rightarrow> Some (Err (SagaNotFound i))
      | Some s \<Rightarrow>
          if saga_status_of s \<noteq> SagaPending \<and> saga_status_of s \<noteq> SagaInProgress
          then Some (Err (SagaNotActive (saga_status_of s)))
          else (case definitions o1 (saga_definition_name s) of
                  None \<Rightarrow> None
                | Some d \<Rightarrow>
                    if saga_current_step s \<ge> length (def_steps d) then Some (Err AllStepsCompleted)
                    else Some (Ok (saga_current_step s,
                                   step_action (def_steps d ! saga_current_step s)))))"

definition step_succeeded ::
  "timestamp \<Rightarrow> uuid \<Rightarrow> orchestrator \<Rightarrow> ((bool, saga_error) result \<times> orchestrator) option"
where
  "step_succeeded now i o1 =
     (case active_sagas o1 i of
        None \<Rightarrow> Some (Err (SagaNotFound i), o1)
      | Some s \<Rightarrow>
          (case definitions o1 (saga_definition_name s) of
             None \<Rightarrow> None
           | Some d \<Rightarrow>
               let s1 = (step_completed (saga_current_step s) s)\<lparr>saga_status_of := SagaInProgress\<rparr>
               in if saga_current_step s1 \<ge> length (def_steps d)
                  then Some (Ok True,
                        o1\<lparr>active_sagas := (active_sagas o1)(i := None),
                           completed_sagas := completed_sagas o1 @ [saga_complete now s1]\<rparr>)
                  else Some (Ok False, o1\<lparr>active_sagas := (active_sagas o1)(i \<mapsto> s1)\<rparr>)))"

definition step_failed ::
  "uuid \<Rightarrow> string \<Rightarrow> orchestrator \<Rightarrow> ((saga_action list, saga_error) result \<times> orchestrator) option"
where
  "step_failed i e o1 =
     (case active_sagas o1 i of
        None \<Rightarrow> Some (Err (SagaNotFound i), o1)
      | Some s \<Rightarrow>
          (case definitions o1 (saga_definition_name s) of
             None \<Rightarrow> None
           | Some d \<Rightarrow>
               if \<exists>k \<in> set (saga_completed_steps s). k \<ge> length (def_steps d) then None
               else Some (Ok (map (\<lambda>k. step_compensation (def_steps d ! k))
                                (rev (saga_completed_steps s))),
                          o1\<lparr>active_sagas := (active_sagas o1)(i \<mapsto> start_compensating e s)\<rparr>)))"

definition compensation_complete :: "timestamp \<Rightarrow> uuid \<Rightarrow> orchestrator \<Rightarrow> orchestrator" where
  "compensation_complete now i o1 =
     (case active_sagas o1 i of
        None \<Rightarrow> o1
      | Some s \<Rightarrow> o1\<lparr>active_sagas := (active_sagas o1)(i \<mapsto> saga_fail now s)\<rparr>)"

definition get_status :: "uuid \<Rightarrow> orchestrator \<Rightarrow> saga_status option" where
  "get_status i o1 = map_option saga_status_of (active_sagas o1 i)"

subsection \<open>The outbox\<close>

datatype outbox_status = OutboxPending | OutboxPublished | OutboxFailed

record outbox_message =
  msg_id :: uuid
  msg_aggregate_id :: uuid
  msg_event_type :: string
  msg_payload :: string
  msg_created_at :: timestamp
  msg_status :: outbox_status
  msg_retry_count :: u32

definition outbox_enqueue ::
  "uuid \<Rightarrow> timestamp \<Rightarrow> uuid \<Rightarrow> string \<Rightarrow> string \<Rightarrow> outbox_message list \<Rightarrow> outbox_message list"
where
  "outbox_enqueue i now aggregate event_type payload ms =
     ms @ [\<lparr>msg_id = i, msg_aggregate_id = aggregate, msg_event_type = event_type,
            msg_payload = payload, msg_created_at = now, msg_status = OutboxPending,
            msg_retry_count = 0\<rparr>]"

definition pending_messages :: "outbox_message list \<Rightarrow> outbox_message list" where
  "pending_messages ms = filter (\<lambda>m. msg_status m = OutboxPending) ms"

definition mark_published :: "uuid \<Rightarrow> outbox_message list \<Rightarrow> outbox_message list" where
  "mark_published i ms =
     update_first (\<lambda>m. msg_id m = i) (\<lambda>m. m\<lparr>msg_status := OutboxPublished\<rparr>) ms"

definition mark_failed :: "uuid \<Rightarrow> outbox_message list \<Rightarrow> outbox_message list" where
  "mark_failed i ms =
     update_first (\<lambda>m. msg_id m = i)
       (\<lambda>m. m\<lparr>msg_status := OutboxFailed, msg_retry_count := msg_retry_count m + 1\<rparr>) ms"

definition retryable :: "u32 \<Rightarrow> outbox_message list \<Rightarrow> outbox_message list" where
  "retryable max_retries ms =
     filter (\<lambda>m. msg_status m = OutboxFailed \<and> msg_retry_count m < max_retries) ms"

subsection \<open>Timeouts\<close>

datatype timeout_action = TimeoutExpire | TimeoutCompensate | TimeoutRetry | TimeoutAlert

record timeout_entry =
  timeout_saga_id :: uuid
  timeout_deadline :: timestamp
  timeout_callback :: timeout_action

definition timeout_register ::
  "(timestamp \<Rightarrow> int \<Rightarrow> timestamp option) \<Rightarrow> timestamp \<Rightarrow> uuid \<Rightarrow> u64 \<Rightarrow> timeout_action \<Rightarrow>
   timeout_entry list \<Rightarrow> timeout_entry list option"
where
  "timeout_register add_seconds now i timeout_seconds action ts =
     (let secs = min (int (unat timeout_seconds)) i64_max
      in map_option (\<lambda>deadline. ts @ [\<lparr>timeout_saga_id = i, timeout_deadline = deadline,
                                       timeout_callback = action\<rparr>])
           (add_seconds now secs))"

definition check_expired :: "timestamp \<Rightarrow> timeout_entry list \<Rightarrow> (uuid \<times> timeout_action) list" where
  "check_expired now ts =
     map (\<lambda>t. (timeout_saga_id t, timeout_callback t)) (filter (\<lambda>t. timeout_deadline t \<le> now) ts)"

definition timeout_clear :: "uuid \<Rightarrow> timeout_entry list \<Rightarrow> timeout_entry list" where
  "timeout_clear i ts = filter (\<lambda>t. timeout_saga_id t \<noteq> i) ts"

subsection \<open>The graph of a saga\<close>

definition newline :: string where "newline = [CHR 0x0A]"
definition quote :: string where "quote = [CHR 0x22]"

definition step_color :: "nat \<Rightarrow> nat \<Rightarrow> string" where
  "step_color current i =
     (if i < current then ''green'' else if i = current then ''orange'' else ''gray'')"

definition dot_step :: "nat \<Rightarrow> nat \<times> saga_step \<Rightarrow> string" where
  "dot_step current p =
     (case p of (i, step) \<Rightarrow>
        ''  step'' @ show_nat i @ '' [label='' @ quote @ step_name step @ quote @
        '', style=filled, fillcolor='' @ step_color current i @ ''];'' @ newline @
        (if i > 0 then ''  step'' @ show_nat (i - 1) @ '' -> step'' @ show_nat i @ '';'' @ newline
         else []))"

definition visualize_saga_dot :: "saga_instance \<Rightarrow> saga_step list \<Rightarrow> string" where
  "visualize_saga_dot s steps =
     ''digraph Saga {'' @ newline @ ''  rankdir=LR;'' @ newline @
     ''  label='' @ quote @ saga_definition_name s @ quote @ '';'' @ newline @
     concat (map (dot_step (saga_current_step s)) (enumerate 0 steps)) @ ''}'' @ newline"

subsection \<open>The invariant of the orchestrator\<close>




lemmas saga_defs = instance_new_def step_completed_def saga_complete_def start_compensating_def
  saga_fail_def

datatype saga_call =
    CallRegister saga_definition
  | CallStart uuid timestamp string
  | CallSucceeded timestamp uuid
  | CallFailed uuid string
  | CallCompensated timestamp uuid

definition saga_apply :: "saga_call \<Rightarrow> orchestrator \<Rightarrow> orchestrator option" where
  "saga_apply c o1 =
     (case c of
        CallRegister d \<Rightarrow> Some (saga_register d o1)
      | CallStart i now nm \<Rightarrow> Some (snd (saga_start i now nm o1))
      | CallSucceeded now i \<Rightarrow> map_option snd (step_succeeded now i o1)
      | CallFailed i e \<Rightarrow> map_option snd (step_failed i e o1)
      | CallCompensated now i \<Rightarrow> Some (compensation_complete now i o1))"

fun saga_run :: "saga_call list \<Rightarrow> orchestrator \<Rightarrow> orchestrator option" where
  "saga_run [] o1 = Some o1"
| "saga_run (c # cs) o1 = Option.bind (saga_apply c o1) (saga_run cs)"













definition demo_step :: "string \<Rightarrow> saga_action \<Rightarrow> saga_action \<Rightarrow> saga_step" where
  "demo_step nm act undo =
     \<lparr>step_name = nm, step_action = act, step_compensation = undo, step_max_retries = 3,
      step_timeout_seconds = 30\<rparr>"

definition demo_saga :: saga_definition where
  "demo_saga =
     \<lparr>def_name = ''BankTransfer'',
      def_steps = [demo_step ''DebitSource'' (ActDebit 1 1000) (ActCredit 1 1000),
                   demo_step ''CreditDest'' (ActCredit 2 1000) (ActDebit 2 1000),
                   demo_step ''Notify'' (ActExternalCall ''n'' ''/e'' ''{}'') ActNoOp]\<rparr>"


text \<open>
  The condition on the definitions is needed. A definition that replaces one with more steps leaves
  the sagas that have completed a step beyond its end: reporting a failure of such a saga looks up
  that step and panics, and the run of calls below, which registers twice, does not return.
\<close>

lemma shorter_definition_panics:
  assumes "active_sagas o1 i = Some s" and "saga_definition_name s = def_name d"
    and "k \<in> set (saga_completed_steps s)" and "length (def_steps d) \<le> k"
  shows "step_failed i e (saga_register d o1) = None"
  using assms by (auto simp: step_failed_def saga_register_def)

lemma shrunk_run_panics:
  "saga_run [CallRegister demo_saga, CallStart 7 0 ''BankTransfer'', CallSucceeded 1 7,
     CallRegister (demo_saga\<lparr>def_steps := []\<rparr>), CallFailed 7 ''down''] orchestrator_new = None"
  by (simp add: saga_apply_def orchestrator_new_def saga_register_def saga_start_def
      demo_saga_def step_succeeded_def step_failed_def saga_defs Let_def)

subsection \<open>Running a saga\<close>

fun succeed_times :: "nat \<Rightarrow> timestamp \<Rightarrow> uuid \<Rightarrow> orchestrator \<Rightarrow> (bool list \<times> orchestrator) option" where
  "succeed_times 0 now i o1 = Some ([], o1)"
| "succeed_times (Suc n) now i o1 =
     (case step_succeeded now i o1 of
        Some (Ok b, o2) \<Rightarrow> map_option (\<lambda>(bs, o3). (b # bs, o3)) (succeed_times n now i o2)
      | _ \<Rightarrow> None)"

text \<open>The saga \<open>i\<close> runs definition \<open>d\<close> and has just completed its first \<open>k\<close> steps.\<close>

definition running_at :: "uuid \<Rightarrow> saga_definition \<Rightarrow> nat \<Rightarrow> orchestrator \<Rightarrow> bool" where
  "running_at i d k o1 \<longleftrightarrow>
     (case active_sagas o1 i of
        None \<Rightarrow> False
      | Some s \<Rightarrow> definitions o1 (saga_definition_name s) = Some d \<and> saga_current_step s = k \<and>
                  saga_completed_steps s = [0..<k] \<and>
                  saga_status_of s \<in> {SagaPending, SagaInProgress})"

lemma running_atE:
  assumes "running_at i d k o1"
  obtains s where "active_sagas o1 i = Some s" "definitions o1 (saga_definition_name s) = Some d"
    "saga_current_step s = k" "saga_completed_steps s = [0..<k]"
    "saga_status_of s = SagaPending \<or> saga_status_of s = SagaInProgress"
  using assms by (auto simp: running_at_def split: option.splits)

lemma start_running:
  assumes "definitions o1 nm = Some d" and "def_steps d \<noteq> []"
  shows "\<exists>o2. saga_start i now nm o1 = (Ok i, o2) \<and> running_at i d 0 o2 \<and>
    completed_sagas o2 = completed_sagas o1"
  using assms by (simp add: saga_start_def running_at_def instance_new_def Let_def)

lemma succeed_running:
  assumes "running_at i d k o1" and "Suc k < length (def_steps d)"
  shows "\<exists>o2. step_succeeded now i o1 = Some (Ok False, o2) \<and> running_at i d (Suc k) o2 \<and>
    completed_sagas o2 = completed_sagas o1"
proof -
  obtain s where "active_sagas o1 i = Some s" "definitions o1 (saga_definition_name s) = Some d"
    "saga_current_step s = k" "saga_completed_steps s = [0..<k]"
    by (rule running_atE [OF assms(1)])
  then show ?thesis
    using assms(2) by (simp add: step_succeeded_def Let_def step_completed_def running_at_def)
qed

lemma succeed_times_running:
  assumes "running_at i d j o1" and "j + k < length (def_steps d)"
  shows "\<exists>o2. succeed_times k now i o1 = Some (replicate k False, o2) \<and> running_at i d (j + k) o2 \<and>
    completed_sagas o2 = completed_sagas o1"
  using assms
proof (induction k arbitrary: j o1)
  case 0
  then show ?case by simp
next
  case (Suc k)
  from succeed_running [OF Suc.prems(1), of now] Suc.prems(2) obtain o2 where o2:
    "step_succeeded now i o1 = Some (Ok False, o2)" "running_at i d (Suc j) o2"
    "completed_sagas o2 = completed_sagas o1" by auto
  from Suc.IH [OF o2(2)] Suc.prems(2) o2 show ?case by auto
qed

lemma next_action_running:
  assumes "running_at i d k o1" and "k < length (def_steps d)"
  shows "next_action i o1 = Some (Ok (k, step_action (def_steps d ! k)))"
  using assms by (auto elim!: running_atE simp: next_action_def)

lemma fail_running:
  assumes "running_at i d k o1" and "k \<le> length (def_steps d)"
  shows "\<exists>o2. step_failed i e o1 =
      Some (Ok (rev (map step_compensation (take k (def_steps d)))), o2) \<and>
    get_status i o2 = Some SagaCompensating \<and>
    next_action i o2 = Some (Err (SagaNotActive SagaCompensating))"
proof -
  have "map (\<lambda>k. step_compensation (def_steps d ! k)) (rev [0..<k]) =
      rev (map step_compensation (take k (def_steps d)))"
    using assms(2) by (simp add: rev_map [symmetric]) (simp add: list_eq_iff_nth_eq)
  then show ?thesis
    using assms by (auto elim!: running_atE
        simp: step_failed_def start_compensating_def get_status_def next_action_def)
qed

lemma last_succeeds:
  assumes "running_at i d k o1" and "Suc k = length (def_steps d)"
  shows "\<exists>o2 s. step_succeeded now i o1 = Some (Ok True, o2) \<and> active_sagas o2 i = None \<and>
    completed_sagas o2 = completed_sagas o1 @ [s] \<and> saga_status_of s = SagaCompleted \<and>
    saga_completed_steps s = [0..<Suc k]"
  using assms by (auto elim!: running_atE
      simp: step_succeeded_def Let_def step_completed_def saga_complete_def simp flip: upt_Suc_append)

lemma succeed_times_snoc:
  "succeed_times (Suc n) now i o1 =
     Option.bind (succeed_times n now i o1) (\<lambda>(bs, o2).
       (case step_succeeded now i o2 of Some (Ok b, o3) \<Rightarrow> Some (bs @ [b], o3) | _ \<Rightarrow> None))"
proof (induction n arbitrary: o1)
  case 0
  then show ?case by (simp split: option.splits prod.splits sum.splits)
next
  case (Suc n)
  show ?case
    by (subst succeed_times.simps(2), subst Suc)
      (auto split: option.splits prod.splits sum.splits simp: bind_eq_None_conv split: bind_splits)
qed

lemma start_then_succeed:
  assumes "definitions o1 nm = Some d" and "k < length (def_steps d)"
  shows "\<exists>o2 o3. saga_start i now nm o1 = (Ok i, o2) \<and>
    succeed_times k now i o2 = Some (replicate k False, o3) \<and> running_at i d k o3 \<and>
    completed_sagas o3 = completed_sagas o1"
proof -
  have "def_steps d \<noteq> []" using assms(2) by auto
  then obtain o2 where o2: "saga_start i now nm o1 = (Ok i, o2)" "running_at i d 0 o2"
    "completed_sagas o2 = completed_sagas o1"
    using start_running [OF assms(1)] by blast
  from succeed_times_running [OF o2(2), of k now] assms(2) o2 show ?thesis by auto
qed

lemma saga_script:
  assumes "definitions o1 nm = Some d" and "k < length (def_steps d)"
  shows "\<exists>o2 o3 o4. saga_start i now nm o1 = (Ok i, o2) \<and>
      succeed_times k now i o2 = Some (replicate k False, o3) \<and>
      next_action i o3 = Some (Ok (k, step_action (def_steps d ! k))) \<and>
      step_failed i e o3 = Some (Ok (rev (map step_compensation (take k (def_steps d)))), o4) \<and>
      get_status i o4 = Some SagaCompensating \<and>
      next_action i o4 = Some (Err (SagaNotActive SagaCompensating))"
    and "\<exists>o2 o3 s. saga_start i now nm o1 = (Ok i, o2) \<and>
      succeed_times (length (def_steps d)) now i o2 =
        Some (replicate (length (def_steps d) - 1) False @ [True], o3) \<and>
      active_sagas o3 i = None \<and> completed_sagas o3 = completed_sagas o1 @ [s] \<and>
      saga_status_of s = SagaCompleted \<and> saga_completed_steps s = [0..<length (def_steps d)]"
proof -
  obtain o2 o3 where run: "saga_start i now nm o1 = (Ok i, o2)"
    "succeed_times k now i o2 = Some (replicate k False, o3)" "running_at i d k o3"
    using start_then_succeed [OF assms] by blast
  with next_action_running [OF run(3) assms(2)] fail_running [OF run(3) less_imp_le [OF assms(2)], of e]
  show "\<exists>o2 o3 o4. saga_start i now nm o1 = (Ok i, o2) \<and>
      succeed_times k now i o2 = Some (replicate k False, o3) \<and>
      next_action i o3 = Some (Ok (k, step_action (def_steps d ! k))) \<and>
      step_failed i e o3 = Some (Ok (rev (map step_compensation (take k (def_steps d)))), o4) \<and>
      get_status i o4 = Some SagaCompensating \<and>
      next_action i o4 = Some (Err (SagaNotActive SagaCompensating))" by blast
next
  let ?n = "length (def_steps d)"
  have n: "?n - 1 < ?n" "Suc (?n - 1) = ?n" using assms(2) by simp_all
  obtain o2 o3 where run: "saga_start i now nm o1 = (Ok i, o2)"
    "succeed_times (?n - 1) now i o2 = Some (replicate (?n - 1) False, o3)"
    "running_at i d (?n - 1) o3" "completed_sagas o3 = completed_sagas o1"
    using start_then_succeed [OF assms(1) n(1)] by blast
  from last_succeeds [OF run(3) n(2), of now] obtain o4 s where
    "step_succeeded now i o3 = Some (Ok True, o4)" "active_sagas o4 i = None"
    "completed_sagas o4 = completed_sagas o3 @ [s]" "saga_status_of s = SagaCompleted"
    "saga_completed_steps s = [0..<?n]" unfolding n(2) by blast
  with run succeed_times_snoc [of "?n - 1" now i o2]
  show "\<exists>o2 o3 s. saga_start i now nm o1 = (Ok i, o2) \<and>
      succeed_times ?n now i o2 = Some (replicate (?n - 1) False @ [True], o3) \<and>
      active_sagas o3 i = None \<and> completed_sagas o3 = completed_sagas o1 @ [s] \<and>
      saga_status_of s = SagaCompleted \<and> saga_completed_steps s = [0..<?n]"
    unfolding n(2) by simp
qed

text \<open>
  C12. A saga runs its steps in order and undoes them in reverse. After the start and \<open>k\<close>
  successes, \<open>k\<close> less than the number of steps, each success has said that there is more to
  do, the next action is that of step \<open>k\<close>, and a failure then returns exactly the
  compensations of the \<open>k\<close> completed steps, last step first, puts the saga in the compensating
  status and stops the handing out of actions. When all steps succeed, only the last success
  says that the saga is done; the saga leaves the active table and joins the completed queue.
\<close>

theorem saga_runs_forward_compensates_backward:
  assumes "definitions o1 nm = Some d" and "k < length (def_steps d)"
  shows "(\<exists>o2 o3 o4. saga_start i now nm o1 = (Ok i, o2) \<and>
      succeed_times k now i o2 = Some (replicate k False, o3) \<and>
      next_action i o3 = Some (Ok (k, step_action (def_steps d ! k))) \<and>
      step_failed i e o3 = Some (Ok (rev (map step_compensation (take k (def_steps d)))), o4) \<and>
      get_status i o4 = Some SagaCompensating \<and>
      next_action i o4 = Some (Err (SagaNotActive SagaCompensating))) \<and>
    (\<exists>o2 o3 s. saga_start i now nm o1 = (Ok i, o2) \<and>
      succeed_times (length (def_steps d)) now i o2 =
        Some (replicate (length (def_steps d) - 1) False @ [True], o3) \<and>
      active_sagas o3 i = None \<and> completed_sagas o3 = completed_sagas o1 @ [s] \<and>
      saga_status_of s = SagaCompleted \<and> saga_completed_steps s = [0..<length (def_steps d)])"
  by (intro conjI saga_script [OF assms])

theorem saga_runs_forward_compensates_backward_witness:
  "\<exists>o2 o3 o4. saga_start 7 0 ''BankTransfer'' (saga_register demo_saga orchestrator_new) = (Ok 7, o2) \<and>
      succeed_times 2 0 7 o2 = Some (replicate 2 False, o3) \<and>
      step_failed 7 ''down'' o3 = Some (Ok [ActDebit 2 1000, ActCredit 1 1000], o4)"
  using saga_runs_forward_compensates_backward
    [of "saga_register demo_saga orchestrator_new" "''BankTransfer''" demo_saga 2 7 0 "''down''"]
  by (auto simp: saga_register_def demo_saga_def demo_step_def)

text \<open>
  Reporting a success does not look at the saga's status. A saga whose step \<open>k\<close> failed,
  even after its compensations have run and it was marked failed, is put back in progress by a
  late success report and goes on to step \<open>k + 1\<close>; and a second failure report returns the same
  compensations a second time.
\<close>

theorem saga_resumes_after_compensation:
  assumes "definitions o1 nm = Some d" and "Suc k < length (def_steps d)"
  shows "\<exists>o2 o3 o4 o5 o6. saga_start i now nm o1 = (Ok i, o2) \<and>
      succeed_times k now i o2 = Some (replicate k False, o3) \<and>
      step_failed i e o3 = Some (Ok (rev (map step_compensation (take k (def_steps d)))), o4) \<and>
      get_status i (compensation_complete now i o4) = Some SagaFailed \<and>
      step_succeeded now i (compensation_complete now i o4) = Some (Ok False, o5) \<and>
      get_status i o5 = Some SagaInProgress \<and>
      next_action i o5 = Some (Ok (Suc k, step_action (def_steps d ! Suc k))) \<and>
      step_failed i e o4 = Some (Ok (rev (map step_compensation (take k (def_steps d)))), o6)"
proof -
  have k: "k < length (def_steps d)" using assms(2) by simp
  obtain o2 o3 where run: "saga_start i now nm o1 = (Ok i, o2)"
    "succeed_times k now i o2 = Some (replicate k False, o3)" "running_at i d k o3"
    using start_then_succeed [OF assms(1) k] by blast
  obtain s where s: "active_sagas o3 i = Some s" "definitions o3 (saga_definition_name s) = Some d"
    "saga_current_step s = k" "saga_completed_steps s = [0..<k]"
    by (rule running_atE [OF run(3)])
  let ?o4 = "o3\<lparr>active_sagas := (active_sagas o3)(i \<mapsto> start_compensating e s)\<rparr>"
  have fail: "step_failed i e o3 = Some (Ok (rev (map step_compensation (take k (def_steps d)))), ?o4)"
    using fail_running [OF run(3) less_imp_le [OF k], of e] s by (auto simp: step_failed_def split: if_splits)
  have again: "step_failed i e ?o4 = Some (Ok (rev (map step_compensation (take k (def_steps d)))), ?o4)"
    using fail s k by (auto simp: step_failed_def start_compensating_def)
  let ?s5 = "(step_completed k (saga_fail now (start_compensating e s)))\<lparr>saga_status_of := SagaInProgress\<rparr>"
  let ?o5 = "?o4\<lparr>active_sagas := (active_sagas ?o4)(i \<mapsto> ?s5)\<rparr>"
  have "step_succeeded now i (compensation_complete now i ?o4) = Some (Ok False, ?o5)"
    using s assms(2)
    by (simp add: step_succeeded_def compensation_complete_def Let_def saga_defs)
  moreover have "get_status i ?o5 = Some SagaInProgress"
    "next_action i ?o5 = Some (Ok (Suc k, step_action (def_steps d ! Suc k)))"
    "get_status i (compensation_complete now i ?o4) = Some SagaFailed"
    using s assms(2)
    by (simp_all add: get_status_def next_action_def compensation_complete_def saga_defs)
  ultimately show ?thesis using run fail again by blast
qed

theorem saga_resumes_after_compensation_witness:
  "\<exists>o4 o5. get_status 7 (compensation_complete 0 7 o4) = Some SagaFailed \<and>
      step_succeeded 0 7 (compensation_complete 0 7 o4) = Some (Ok False, o5) \<and>
      next_action 7 o5 = Some (Ok (2, ActExternalCall ''n'' ''/e'' ''{}''))"
  using saga_resumes_after_compensation
    [of "saga_register demo_saga orchestrator_new" "''BankTransfer''" demo_saga 1 7 0 "''down''"]
  by (auto simp: saga_register_def demo_saga_def demo_step_def numeral_2_eq_2)

subsection \<open>Delivery from the outbox\<close>

text \<open>A report on a message: published, or failed.\<close>

datatype delivery = Published uuid | DeliveryFailed uuid

fun reported_id :: "delivery \<Rightarrow> uuid" where
  "reported_id (Published i) = i"
| "reported_id (DeliveryFailed i) = i"

fun is_failure :: "delivery \<Rightarrow> bool" where
  "is_failure (Published i) = False"
| "is_failure (DeliveryFailed i) = True"

definition outbox_report :: "delivery \<Rightarrow> outbox_message list \<Rightarrow> outbox_message list" where
  "outbox_report r ms =
     (case r of Published i \<Rightarrow> mark_published i ms | DeliveryFailed i \<Rightarrow> mark_failed i ms)"

definition report_message :: "delivery \<Rightarrow> outbox_message \<Rightarrow> outbox_message" where
  "report_message r m =
     (case r of
        Published _ \<Rightarrow> m\<lparr>msg_status := OutboxPublished\<rparr>
      | DeliveryFailed _ \<Rightarrow> m\<lparr>msg_status := OutboxFailed, msg_retry_count := msg_retry_count m + 1\<rparr>)"

lemma outbox_report_update_first:
  "outbox_report r ms = update_first (\<lambda>m. msg_id m = reported_id r) (report_message r) ms"
  by (cases r) (simp_all add: outbox_report_def report_message_def [abs_def] mark_published_def
      mark_failed_def)

lemma update_first_as_map:
  "distinct (map msg_id ms) \<Longrightarrow>
   update_first (\<lambda>m. msg_id m = i) f ms = map (\<lambda>m. if msg_id m = i then f m else m) ms"
  by (induction ms) (auto simp: image_iff intro!: map_idI [symmetric])

lemma msg_id_report_message [simp]: "msg_id (report_message r m) = msg_id m"
  by (simp add: report_message_def split: delivery.splits)

lemma outbox_reports_as_map:
  assumes "distinct (map msg_id ms)"
  shows "fold outbox_report rs ms =
    map (\<lambda>m. fold report_message (filter (\<lambda>r. reported_id r = msg_id m) rs) m) ms"
  using assms
proof (induction rs arbitrary: ms)
  case Nil
  then show ?case by simp
next
  case (Cons r rs)
  have ids: "map msg_id (outbox_report r ms) = map msg_id ms"
    by (simp add: outbox_report_update_first map_update_first)
  have "fold outbox_report (r # rs) ms = fold outbox_report rs (outbox_report r ms)" by simp
  also have "\<dots> = map (\<lambda>m. fold report_message (filter (\<lambda>r. reported_id r = msg_id m) rs) m) (outbox_report r ms)"
    using Cons.prems by (intro Cons.IH) (simp add: ids)
  also have "\<dots> = map (\<lambda>m. fold report_message (filter (\<lambda>r. reported_id r = msg_id m) (r # rs)) m) ms"
    using Cons.prems by (auto simp: outbox_report_update_first update_first_as_map)
  finally show ?case .
qed

lemma fold_report_message:
  "msg_status (fold report_message rs m) =
     (if rs = [] then msg_status m else if is_failure (last rs) then OutboxFailed else OutboxPublished) \<and>
   msg_retry_count (fold report_message rs m) =
     msg_retry_count m + word_of_nat (length (filter is_failure rs)) \<and>
   msg_id (fold report_message rs m) = msg_id m \<and> msg_payload (fold report_message rs m) = msg_payload m"
proof (induction rs arbitrary: m)
  case Nil
  then show ?case by simp
next
  case (Cons r rs)
  then show ?case by (cases r) (auto simp: report_message_def)
qed

text \<open>
  Delivery from the outbox. Enqueue a message under a fresh identifier and let any reports
  follow, in any order and interleaved with reports on other messages. The message is still
  there with its payload; it is offered for publishing exactly while nothing was reported on it,
  and offered for a retry exactly when the last report on it was a failure and the failures
  reported, counted modulo \<open>2 ^ 32\<close>, are fewer than the limit. A message that failed is
  therefore never offered by \<open>pending_messages\<close> again.
\<close>

theorem outbox_offers_until_published:
  assumes "distinct (map msg_id ms)" and "i \<notin> set (map msg_id ms)"
  shows "let reports = filter (\<lambda>r. reported_id r = i) rs;
             ms' = fold outbox_report rs (outbox_enqueue i now agg ty pay ms)
         in map msg_id ms' = map msg_id ms @ [i] \<and> msg_payload (last ms') = pay \<and>
            (i \<in> set (map msg_id (pending_messages ms')) \<longleftrightarrow> reports = []) \<and>
            (i \<in> set (map msg_id (retryable limit ms')) \<longleftrightarrow>
               reports \<noteq> [] \<and> is_failure (last reports) \<and>
               word_of_nat (length (filter is_failure reports)) < limit)"
proof -
  let ?m = "\<lparr>msg_id = i, msg_aggregate_id = agg, msg_event_type = ty, msg_payload = pay,
    msg_created_at = now, msg_status = OutboxPending, msg_retry_count = 0\<rparr>"
  let ?rep = "\<lambda>m. fold report_message (filter (\<lambda>r. reported_id r = msg_id m) rs) m"
  have new: "fold outbox_report rs (outbox_enqueue i now agg ty pay ms) = map ?rep ms @ [?rep ?m]"
    using assms by (simp add: outbox_enqueue_def outbox_reports_as_map)
  have old: "i \<notin> msg_id ` set (filter P (map ?rep ms))" for P
    using assms(2) by (auto simp: fold_report_message)
  have ids: "map msg_id (map ?rep ms) = map msg_id ms" by (simp add: fold_report_message)
  show ?thesis
    unfolding Let_def new pending_messages_def retryable_def
    using ids old by (auto simp: fold_report_message)
qed

theorem outbox_offers_until_published_witness:
  "7 \<notin> set (map msg_id ([] :: outbox_message list)) \<and>
   (7 \<in> set (map msg_id (retryable 3 (fold outbox_report [DeliveryFailed 7, Published 8, DeliveryFailed 7]
      (outbox_enqueue 7 0 1 ''Debited'' ''{}'' [])))))"
  using outbox_offers_until_published [of "[]" 7 "[DeliveryFailed 7, Published 8, DeliveryFailed 7]" 0 1
      "''Debited''" "''{}''" 3]
  by (simp add: Let_def)

end
