(* ===== verification/Ring_Buffer.thy ===== *)
theory Ring_Buffer
  imports Ledger_Prelude
begin

section \<open>The ring buffer\<close>

text \<open>
  \<open>src/log/ring_buffer.rs\<close>: the single-producer single-consumer ring buffer with its
  sequence counters of type \<open>usize\<close> (64 bits), the batching consumer, the waiting loops, the
  dependency graph and the latency histogram. A slot is \<open>None\<close> while it holds no
  initialised value: after \<open>new\<close>, and after \<open>assume_init_read\<close> has moved the value out.
  Reading such a slot is undefined behaviour, the value \<open>None\<close> of \<open>try_pop\<close>.
\<close>

unbundle bit_operations_syntax

type_synonym usize = "64 word"

subsection \<open>Sequence barrier\<close>

record sequence_barrier =
  barrier_cursor :: usize
  barrier_dependents :: "usize list"

definition barrier_new :: "usize \<Rightarrow> sequence_barrier" where
  "barrier_new initial = \<lparr>barrier_cursor = initial, barrier_dependents = []\<rparr>"

definition minimum_dependent_sequence :: "sequence_barrier \<Rightarrow> usize" where
  "minimum_dependent_sequence b =
     (case barrier_dependents b of [] \<Rightarrow> - 1 | d # ds \<Rightarrow> foldl min d ds)"

text \<open>
  How a thread waits. \<open>woken\<close> says whether another thread unparks this one (or it wakes up
  spuriously): only a thread that parks without a timeout depends on it.
\<close>

datatype wait_strategy = Spin | Yield | Park nat | Blocking

definition wait_apply :: "wait_strategy \<Rightarrow> bool \<Rightarrow> bool" where
  "wait_apply strategy woken = (case strategy of Spin \<Rightarrow> True | Yield \<Rightarrow> True | Park _ \<Rightarrow> True | Blocking \<Rightarrow> woken)"

text \<open>
  \<open>loads k\<close> is the value of the cursor that the \<open>k\<close>-th iteration loads, \<open>woken k\<close> whether the wait
  after it is ended by another thread. A wait that does not end has no result.
\<close>

partial_function (option) wait_for ::
  "wait_strategy \<Rightarrow> (nat \<Rightarrow> bool) \<Rightarrow> usize \<Rightarrow> (nat \<Rightarrow> usize) \<Rightarrow> nat \<Rightarrow> usize option"
where
  "wait_for strategy woken sequence loads k =
     (let available = loads k
      in if available \<ge> sequence then Some available
         else if wait_apply strategy (woken k) then wait_for strategy woken sequence loads (Suc k)
         else None)"

subsection \<open>The buffer\<close>

record 'a ring =
  slots :: "'a option list"
  ring_mask :: usize
  producer_sequence :: usize
  consumer_sequence :: usize
  capacity :: usize

datatype ring_error = RingFull | RingEmpty

fun pow2_from :: "nat \<Rightarrow> nat \<Rightarrow> nat \<Rightarrow> nat" where
  "pow2_from 0 p n = p"
| "pow2_from (Suc f) p n = (if n \<le> p then p else pow2_from f (2 * p) n)"

definition next_power_of_two :: "nat \<Rightarrow> nat" where
  "next_power_of_two n = pow2_from n 1 n"

definition ring_new :: "nat \<Rightarrow> 'a ring" where
  "ring_new min_capacity =
     (let cap = next_power_of_two min_capacity
      in \<lparr>slots = replicate cap None, ring_mask = word_of_nat cap - 1, producer_sequence = 0,
          consumer_sequence = 0, capacity = word_of_nat cap\<rparr>)"

definition slot_index :: "usize \<Rightarrow> 'a ring \<Rightarrow> nat" where
  "slot_index sequence r = unat (sequence AND ring_mask r)"

definition claim :: "'a ring \<Rightarrow> (usize, ring_error) result \<times> 'a ring" where
  "claim r =
     (let sq = producer_sequence r; next_seq = sq + 1
      in if next_seq - consumer_sequence r > capacity r then (Err RingFull, r)
         else (Ok sq, r\<lparr>producer_sequence := next_seq\<rparr>))"

definition publish :: "usize \<Rightarrow> 'a \<Rightarrow> 'a ring \<Rightarrow> 'a ring" where
  "publish sequence data r = r\<lparr>slots := (slots r)[slot_index sequence r := Some data]\<rparr>"

definition try_push :: "'a \<Rightarrow> 'a ring \<Rightarrow> (usize, ring_error) result \<times> 'a ring" where
  "try_push data r =
     (case claim r of
        (Err e, r1) \<Rightarrow> (Err e, r1)
      | (Ok sq, r1) \<Rightarrow> (Ok sq, publish sq data r1))"

definition try_pop :: "'a ring \<Rightarrow> ('a option \<times> 'a ring) option" where
  "try_pop r =
     (if consumer_sequence r \<ge> producer_sequence r then Some (None, r)
      else let sq = consumer_sequence r
           in (case slots r ! slot_index sq r of
                 None \<Rightarrow> None
               | Some data \<Rightarrow>
                   Some (Some data, r\<lparr>slots := (slots r)[slot_index sq r := None],
                                       consumer_sequence := sq + 1\<rparr>)))"

text \<open>
  \<open>env k\<close> is what the producer does to the buffer before the \<open>k\<close>-th iteration, \<open>clk k\<close> the
  instant that iteration reads, \<open>woken k\<close> whether the wait after it is ended by another thread.
\<close>

partial_function (option) pop_wait_loop ::
  "wait_strategy \<Rightarrow> (nat \<Rightarrow> bool) \<Rightarrow> (nat \<Rightarrow> 'a ring \<Rightarrow> 'a ring) \<Rightarrow> (nat \<Rightarrow> timestamp) \<Rightarrow> timestamp \<Rightarrow> nat \<Rightarrow>
   'a ring \<Rightarrow> ('a option \<times> 'a ring) option"
where
  "pop_wait_loop strategy woken env clk deadline k r =
     (case try_pop (env k r) of
        None \<Rightarrow> None
      | Some (Some data, r1) \<Rightarrow> Some (Some data, r1)
      | Some (None, r1) \<Rightarrow>
          if clk k > deadline then Some (None, r1)
          else if wait_apply strategy (woken k) then pop_wait_loop strategy woken env clk deadline (Suc k) r1
          else None)"

definition pop_wait ::
  "wait_strategy \<Rightarrow> nat \<Rightarrow> (nat \<Rightarrow> bool) \<Rightarrow> (nat \<Rightarrow> 'a ring \<Rightarrow> 'a ring) \<Rightarrow> timestamp \<Rightarrow> (nat \<Rightarrow> timestamp) \<Rightarrow>
   'a ring \<Rightarrow> ('a option \<times> 'a ring) option"
where
  "pop_wait strategy timeout woken env now clk r =
     (let deadline = now + int timeout in pop_wait_loop strategy woken env clk deadline 0 r)"

definition ring_len :: "'a ring \<Rightarrow> nat" where
  "ring_len r = unat (producer_sequence r) - unat (consumer_sequence r)"

definition ring_is_empty :: "'a ring \<Rightarrow> bool" where "ring_is_empty r \<longleftrightarrow> ring_len r = 0"

definition ring_is_full :: "'a ring \<Rightarrow> bool" where
  "ring_is_full r \<longleftrightarrow> ring_len r \<ge> unat (capacity r)"

fun batch_consume :: "nat \<Rightarrow> 'a ring \<Rightarrow> ('a list \<times> 'a ring) option" where
  "batch_consume 0 r = Some ([], r)"
| "batch_consume (Suc n) r =
     (case try_pop r of
        None \<Rightarrow> None
      | Some (None, r1) \<Rightarrow> Some ([], r1)
      | Some (Some item, r1) \<Rightarrow> map_option (\<lambda>(batch, r2). (item # batch, r2)) (batch_consume n r1))"

subsection \<open>Dependency graph\<close>

record dependency_graph =
  dependencies :: "nat list list"
  node_completed :: "bool list"

definition graph_new :: "nat \<Rightarrow> dependency_graph" where
  "graph_new num_nodes =
     \<lparr>dependencies = replicate num_nodes [], node_completed = replicate num_nodes False\<rparr>"

definition add_dependency :: "nat \<Rightarrow> nat \<Rightarrow> dependency_graph \<Rightarrow> dependency_graph option" where
  "add_dependency dependent dependency g =
     (if dependent < length (dependencies g)
      then Some (g\<lparr>dependencies :=
             (dependencies g)[dependent := dependencies g ! dependent @ [dependency]]\<rparr>)
      else None)"

definition node_complete :: "nat \<Rightarrow> dependency_graph \<Rightarrow> dependency_graph option" where
  "node_complete node g =
     (if node < length (node_completed g)
      then Some (g\<lparr>node_completed := (node_completed g)[node := True]\<rparr>) else None)"

text \<open>The iterator stops at the first dependency that is not complete.\<close>

fun all_completed :: "bool list \<Rightarrow> nat list \<Rightarrow> bool option" where
  "all_completed done [] = Some True"
| "all_completed done (d # ds) =
     (if d < length done then (if done ! d then all_completed done ds else Some False) else None)"

definition all_dependencies_done :: "nat \<Rightarrow> dependency_graph \<Rightarrow> bool option" where
  "all_dependencies_done node g =
     (if node < length (dependencies g)
      then all_completed (node_completed g) (dependencies g ! node) else None)"

subsection \<open>Latency histogram\<close>

record histogram =
  hist_buckets :: "usize list"
  hist_total_count :: usize
  hist_total_ns :: usize
  hist_min_ns :: usize
  hist_max_ns :: usize
  hist_num_buckets :: usize

definition histogram_new :: "nat \<Rightarrow> histogram" where
  "histogram_new num_buckets =
     \<lparr>hist_buckets = replicate num_buckets 0, hist_total_count = 0, hist_total_ns = 0,
      hist_min_ns = - 1, hist_max_ns = 0, hist_num_buckets = word_of_nat num_buckets\<rparr>"

text \<open>The number of significant bits: the width less the leading zeros.\<close>

fun bit_len :: "nat \<Rightarrow> nat" where
  "bit_len n = (if n = 0 then 0 else Suc (bit_len (n div 2)))"

declare bit_len.simps [simp del]

definition bucket_for :: "usize \<Rightarrow> histogram \<Rightarrow> nat" where
  "bucket_for latency_ns h =
     (let micros = unat latency_ns div 1000
      in if micros = 0 then 0 else min (bit_len micros) (unat (hist_num_buckets h - 1)))"

definition hist_record :: "u64 \<Rightarrow> histogram \<Rightarrow> histogram option" where
  "hist_record ns h =
     (let b = bucket_for ns h
      in if b < length (hist_buckets h)
         then Some (h\<lparr>hist_buckets := (hist_buckets h)[b := hist_buckets h ! b + 1],
                      hist_total_count := hist_total_count h + 1,
                      hist_total_ns := hist_total_ns h + ns,
                      hist_min_ns := (if ns < hist_min_ns h then ns else hist_min_ns h),
                      hist_max_ns := (if ns > hist_max_ns h then ns else hist_max_ns h)\<rparr>)
         else None)"

definition hist_mean_ns :: "histogram \<Rightarrow> u64 option" where
  "hist_mean_ns h =
     (if hist_total_count h = 0 then None else Some (hist_total_ns h div hist_total_count h))"

definition hist_min :: "histogram \<Rightarrow> u64 option" where
  "hist_min h = (if hist_min_ns h = - 1 then None else Some (hist_min_ns h))"

definition hist_max :: "histogram \<Rightarrow> u64 option" where
  "hist_max h = (if hist_max_ns h = 0 then None else Some (hist_max_ns h))"

definition hist_reset :: "histogram \<Rightarrow> histogram" where
  "hist_reset h =
     h\<lparr>hist_buckets := map (\<lambda>_. 0) (hist_buckets h), hist_total_count := 0, hist_total_ns := 0,
       hist_min_ns := - 1, hist_max_ns := 0\<rparr>"

subsection \<open>Bounded queues\<close>

text \<open>
  The contract of a bounded first-in first-out queue. \<open>inv n s\<close> says that \<open>s\<close> is well formed
  and stays so for \<open>n\<close> more operations (the sequence numbers of the implementation are finite).
\<close>

datatype 'a queue_op = Push 'a | Pop
datatype 'a queue_out = Pushed bool | Popped "'a option"

fun queue_run ::
  "('a \<Rightarrow> 's \<Rightarrow> bool \<times> 's) \<Rightarrow> ('s \<Rightarrow> ('a option \<times> 's) option) \<Rightarrow> 'a queue_op list \<Rightarrow> 's \<Rightarrow>
   'a queue_out list option"
where
  "queue_run push pop [] s = Some []"
| "queue_run push pop (Push x # ops) s =
     (case push x s of (b, s1) \<Rightarrow> map_option ((#) (Pushed b)) (queue_run push pop ops s1))"
| "queue_run push pop (Pop # ops) s =
     (case pop s of
        None \<Rightarrow> None
      | Some (v, s1) \<Rightarrow> map_option ((#) (Popped v)) (queue_run push pop ops s1))"

fun spec_run :: "nat \<Rightarrow> 'a queue_op list \<Rightarrow> 'a list \<Rightarrow> 'a queue_out list" where
  "spec_run cap [] q = []"
| "spec_run cap (Push x # ops) q =
     (if length q < cap then Pushed True # spec_run cap ops (q @ [x])
      else Pushed False # spec_run cap ops q)"
| "spec_run cap (Pop # ops) q =
     (case q of [] \<Rightarrow> Popped None # spec_run cap ops []
      | x # q' \<Rightarrow> Popped (Some x) # spec_run cap ops q')"

locale bounded_fifo =
  fixes inv :: "nat \<Rightarrow> 's \<Rightarrow> bool" and cap :: "'s \<Rightarrow> nat" and contents :: "'s \<Rightarrow> 'a list"
    and push :: "'a \<Rightarrow> 's \<Rightarrow> bool \<times> 's" and pop :: "'s \<Rightarrow> ('a option \<times> 's) option"
  assumes push_accepts: "inv (Suc n) s \<Longrightarrow> length (contents s) < cap s \<Longrightarrow>
      \<exists>s'. push x s = (True, s') \<and> inv n s' \<and> cap s' = cap s \<and> contents s' = contents s @ [x]"
    and push_full: "inv (Suc n) s \<Longrightarrow> \<not> length (contents s) < cap s \<Longrightarrow> push x s = (False, s)"
    and pop_empty: "inv (Suc n) s \<Longrightarrow> contents s = [] \<Longrightarrow> pop s = Some (None, s)"
    and pop_item: "inv (Suc n) s \<Longrightarrow> contents s = x # q \<Longrightarrow>
      \<exists>s'. pop s = Some (Some x, s') \<and> inv n s' \<and> cap s' = cap s \<and> contents s' = q"
    and inv_weaken: "inv (Suc n) s \<Longrightarrow> inv n s"
begin

lemma run_refines:
  "inv (length ops) s \<Longrightarrow> queue_run push pop ops s = Some (spec_run (cap s) ops (contents s))"
proof (induction ops arbitrary: s)
  case Nil
  then show ?case by simp
next
  case (Cons op ops)
  then have inv: "inv (Suc (length ops)) s" by simp
  show ?case
  proof (cases op)
    case (Push x)
    show ?thesis
    proof (cases "length (contents s) < cap s")
      case True
      then obtain s' where "push x s = (True, s')" "inv (length ops) s'" "cap s' = cap s"
        "contents s' = contents s @ [x]" using push_accepts [OF inv] by blast
      with Cons.IH [of s'] Push True show ?thesis by simp
    next
      case False
      with Cons.IH [OF inv_weaken [OF inv]] push_full [OF inv] Push show ?thesis by simp
    qed
  next
    case Pop
    show ?thesis
    proof (cases "contents s")
      case Nil
      with Cons.IH [OF inv_weaken [OF inv]] pop_empty [OF inv] Pop show ?thesis by simp
    next
      case (Cons x q)
      then obtain s' where "pop s = Some (Some x, s')" "inv (length ops) s'" "cap s' = cap s"
        "contents s' = q" using pop_item [OF inv] by blast
      with Cons.IH [of s'] Cons Pop \<open>contents s = x # q\<close> show ?thesis by simp
    qed
  qed
qed

end

subsection \<open>The ring is a bounded queue\<close>

definition ring_ok :: "nat \<Rightarrow> 'a ring \<Rightarrow> bool" where
  "ring_ok n r \<longleftrightarrow>
     (let c = unat (consumer_sequence r); p = unat (producer_sequence r); cap = unat (capacity r)
      in (\<exists>e<64. cap = 2 ^ e \<and> ring_mask r = mask e) \<and> length (slots r) = cap \<and>
         c \<le> p \<and> p - c \<le> cap \<and> p + n < 2 ^ 64 \<and> (\<forall>s\<in>{c..<p}. slots r ! (s mod cap) \<noteq> None))"

definition ring_contents :: "'a ring \<Rightarrow> 'a list" where
  "ring_contents r =
     map (\<lambda>s. the (slots r ! (s mod unat (capacity r))))
       [unat (consumer_sequence r)..<unat (producer_sequence r)]"

definition ring_push :: "'a \<Rightarrow> 'a ring \<Rightarrow> bool \<times> 'a ring" where
  "ring_push x r = (case try_push x r of (res, r') \<Rightarrow> (is_ok res, r'))"

lemma slot_index_mod:
  assumes "ring_ok n r"
  shows "slot_index s r = unat s mod unat (capacity r)"
proof -
  obtain e where e: "unat (capacity r) = 2 ^ e" "ring_mask r = mask e" "e < 64"
    using assms by (auto simp: ring_ok_def Let_def)
  then have "slot_index s r = take_bit e (unat s)"
    by (simp add: slot_index_def take_bit_eq_mask [symmetric] unsigned_take_bit_eq)
  with e(1) show ?thesis by (simp add: take_bit_eq_mod)
qed

lemma mod_neq_within:
  fixes s p cap :: nat
  assumes "s < p" and "p - s < cap"
  shows "s mod cap \<noteq> p mod cap"
proof
  assume "s mod cap = p mod cap"
  then have "cap dvd p - s" using assms(1) by (metis less_imp_le mod_eq_dvd_iff_nat)
  with assms show False by (auto dest: dvd_imp_le)
qed

lemma unat_succ_u64: "unat (x :: 64 word) + 1 < 2 ^ 64 \<Longrightarrow> unat (x + 1) = unat x + 1"
  by (simp add: unat_word_ariths)

lemma claim_full_iff:
  assumes "ring_ok (Suc n) r"
  shows "producer_sequence r + 1 - consumer_sequence r > capacity r \<longleftrightarrow>
    \<not> length (ring_contents r) < unat (capacity r)"
proof -
  have le: "unat (consumer_sequence r) \<le> unat (producer_sequence r)"
    and lt: "unat (producer_sequence r) + 1 < 2 ^ 64"
    using assms by (auto simp: ring_ok_def Let_def)
  have succ: "unat (producer_sequence r + 1) = unat (producer_sequence r) + 1"
    by (rule unat_succ_u64 [OF lt])
  then have "unat (producer_sequence r + 1 - consumer_sequence r) =
      unat (producer_sequence r) + 1 - unat (consumer_sequence r)"
    using le by (subst unat_sub) (simp_all add: word_le_nat_alt)
  then show ?thesis using le by (auto simp: word_less_nat_alt ring_contents_def)
qed

lemma ring_okD:
  assumes "ring_ok n r"
  shows "length (slots r) = unat (capacity r)" "0 < unat (capacity r)"
    "unat (consumer_sequence r) \<le> unat (producer_sequence r)"
    "unat (producer_sequence r) - unat (consumer_sequence r) \<le> unat (capacity r)"
    "unat (producer_sequence r) + n < 2 ^ 64"
    "\<And>s. unat (consumer_sequence r) \<le> s \<Longrightarrow> s < unat (producer_sequence r) \<Longrightarrow>
      slots r ! (s mod unat (capacity r)) \<noteq> None"
  using assms by (auto simp: ring_ok_def Let_def)

lemma ring_push_accepts:
  assumes ok: "ring_ok (Suc n) r" and room: "length (ring_contents r) < unat (capacity r)"
  shows "\<exists>r'. ring_push x r = (True, r') \<and> ring_ok n r' \<and> unat (capacity r') = unat (capacity r) \<and>
    ring_contents r' = ring_contents r @ [x]"
proof -
  let ?c = "unat (consumer_sequence r)" and ?p = "unat (producer_sequence r)"
  let ?cap = "unat (capacity r)"
  let ?r = "publish (producer_sequence r) x (r\<lparr>producer_sequence := producer_sequence r + 1\<rparr>)"
  note okD = ring_okD [OF ok]
  have push: "ring_push x r = (True, ?r)"
    using claim_full_iff [OF ok] room by (simp add: ring_push_def try_push_def claim_def Let_def)
  have p: "unat (producer_sequence r + 1) = Suc ?p"
    using okD(5) by (subst unat_succ_u64) simp_all
  have idx: "slot_index (producer_sequence r) (r\<lparr>producer_sequence := producer_sequence r + 1\<rparr>) = ?p mod ?cap"
    using slot_index_mod [OF ok] by (simp add: slot_index_def)
  have slots': "slots ?r = (slots r)[?p mod ?cap := Some x]" by (simp add: publish_def idx)
  have lt: "?p - ?c < ?cap" using room by (simp add: ring_contents_def)
  have old: "slots ?r ! (s mod ?cap) = slots r ! (s mod ?cap)" if "?c \<le> s" "s < ?p" for s
  proof -
    have "s mod ?cap \<noteq> ?p mod ?cap" using that lt by (intro mod_neq_within) linarith+
    then show ?thesis by (simp add: slots')
  qed
  have new: "slots ?r ! (?p mod ?cap) = Some x" using okD(1,2) by (simp add: slots')
  have "ring_ok n ?r"
  proof -
    have "slots ?r ! (s mod ?cap) \<noteq> None" if "?c \<le> s" "s < Suc ?p" for s
    proof (cases "s = ?p")
      case False
      then have "s < ?p" using that by simp
      with old [OF that(1) this] okD(6) [OF that(1) this] show ?thesis by simp
    qed (simp add: new)
    moreover have "?c \<le> Suc ?p" "Suc ?p - ?c \<le> ?cap" "Suc ?p + n < 2 ^ 64"
      using okD(3,5) lt by linarith+
    moreover have "\<exists>e<64. ?cap = 2 ^ e \<and> ring_mask ?r = mask e"
      using ok by (simp add: ring_ok_def publish_def Let_def)
    ultimately show ?thesis
      using okD(1) p by (auto simp: ring_ok_def Let_def publish_def idx slots')
  qed
  moreover have "ring_contents ?r = ring_contents r @ [x]"
    using old new okD(3) p by (simp add: ring_contents_def publish_def idx slots')
  moreover have "capacity ?r = capacity r" by (simp add: publish_def)
  ultimately show ?thesis using push by simp
qed

lemma ring_pop_item:
  assumes ok: "ring_ok (Suc n) r" and head: "ring_contents r = x # q"
  shows "\<exists>r'. try_pop r = Some (Some x, r') \<and> ring_ok n r' \<and> unat (capacity r') = unat (capacity r) \<and>
    ring_contents r' = q"
proof -
  let ?c = "unat (consumer_sequence r)" and ?p = "unat (producer_sequence r)"
  let ?cap = "unat (capacity r)"
  let ?r = "r\<lparr>slots := (slots r)[?c mod ?cap := None], consumer_sequence := consumer_sequence r + 1\<rparr>"
  note okD = ring_okD [OF ok]
  have lt: "?c < ?p"
  proof (rule ccontr)
    assume "\<not> ?c < ?p"
    then show False using head by (simp add: ring_contents_def)
  qed
  have c: "unat (consumer_sequence r + 1) = Suc ?c"
    using okD(5) lt by (subst unat_succ_u64) simp_all
  have cs: "ring_contents r =
      the (slots r ! (?c mod ?cap)) # map (\<lambda>s. the (slots r ! (s mod ?cap))) [Suc ?c..<?p]"
    using lt by (simp add: ring_contents_def upt_conv_Cons)
  obtain y where y: "slots r ! (?c mod ?cap) = Some y" using okD(6) [of ?c] lt by auto
  have pop: "try_pop r = Some (Some x, ?r)"
    using lt y cs head slot_index_mod [OF ok] by (simp add: try_pop_def word_le_nat_alt Let_def)
  have old: "slots ?r ! (s mod ?cap) = slots r ! (s mod ?cap)" if "Suc ?c \<le> s" "s < ?p" for s
    using that okD(4) mod_neq_within [of ?c s ?cap] by simp
  have "slots ?r ! (s mod ?cap) \<noteq> None" if "Suc ?c \<le> s" "s < ?p" for s
    using old [OF that] okD(6) [of s] that by simp
  moreover have "\<exists>e<64. ?cap = 2 ^ e \<and> ring_mask r = mask e" using ok by (simp add: ring_ok_def Let_def)
  ultimately have "ring_ok n ?r"
    using lt okD c by (auto simp: ring_ok_def Let_def)
  moreover have "ring_contents ?r = q"
  proof -
    have "ring_contents ?r = map (\<lambda>s. the (slots r ! (s mod ?cap))) [Suc ?c..<?p]"
      using old c by (auto simp: ring_contents_def)
    with cs head show ?thesis by simp
  qed
  ultimately show ?thesis using pop by simp
qed

interpretation ring: bounded_fifo ring_ok "\<lambda>r. unat (capacity r)" ring_contents ring_push try_pop
proof
  fix n and r :: "'a ring" and x
  show "ring_ok (Suc n) r \<Longrightarrow> \<not> length (ring_contents r) < unat (capacity r) \<Longrightarrow> ring_push x r = (False, r)"
    using claim_full_iff [of n r] by (simp add: ring_push_def try_push_def claim_def Let_def)
  show "ring_ok (Suc n) r \<Longrightarrow> ring_contents r = [] \<Longrightarrow> try_pop r = Some (None, r)"
    by (auto simp: ring_contents_def try_pop_def word_le_nat_alt dest!: ring_okD(3))
  show "ring_ok (Suc n) r \<Longrightarrow> ring_ok n r" by (auto simp: ring_ok_def Let_def)
qed (auto intro: ring_push_accepts ring_pop_item)

lemma pow2_from_spec:
  assumes "n \<le> 2 ^ f * p"
  shows "\<exists>k. pow2_from f p n = 2 ^ k * p \<and> n \<le> 2 ^ k * p \<and> (k = 0 \<or> 2 ^ k * p < 2 * n)"
  using assms
proof (induction f arbitrary: p)
  case 0
  then show ?case by (intro exI [of _ 0]) simp
next
  case (Suc f)
  show ?case
  proof (cases "n \<le> p")
    case True
    then show ?thesis by (intro exI [of _ 0]) simp
  next
    case False
    have "n \<le> 2 ^ f * (2 * p)" using Suc.prems by (simp add: mult.assoc mult.left_commute)
    from Suc.IH [OF this] obtain k where
      "pow2_from f (2 * p) n = 2 ^ k * (2 * p)" "n \<le> 2 ^ k * (2 * p)"
      "k = 0 \<or> 2 ^ k * (2 * p) < 2 * n" by blast
    with False show ?thesis by (intro exI [of _ "Suc k"]) (auto simp: mult.assoc mult.left_commute)
  qed
qed

lemma next_power_of_two_spec:
  "\<exists>k. next_power_of_two n = 2 ^ k \<and> n \<le> 2 ^ k \<and> (k = 0 \<or> 2 ^ k < 2 * n)"
  using pow2_from_spec [of n n 1] less_imp_le [OF less_exp [of n]]
  by (simp add: next_power_of_two_def)

lemma ring_new_ok:
  assumes "n \<le> 2 ^ 63" and "k < 2 ^ 64"
  shows "ring_ok k (ring_new n)" "unat (capacity (ring_new n)) = next_power_of_two n"
    "ring_contents (ring_new n) = []"
proof -
  obtain e where e: "next_power_of_two n = 2 ^ e" "e = 0 \<or> 2 ^ e < 2 * n"
    using next_power_of_two_spec by blast
  have "(2 :: nat) ^ e < 2 ^ 64" using e(2) assms(1) by auto
  then have e64: "e < 64" by (rule power_less_imp_less_exp [rotated]) simp
  then have cap: "unat (word_of_nat (2 ^ e) :: usize) = 2 ^ e"
    using power_strict_increasing [OF e64, of "2 :: nat"] by (subst unat_of_nat) simp
  have "(word_of_nat (2 ^ e) :: usize) - 1 = mask e" by (simp add: mask_eq_exp_minus_1)
  then show "ring_ok k (ring_new n)"
    using e64 e(1) assms(2) cap by (auto simp: ring_ok_def ring_new_def Let_def)
  show "unat (capacity (ring_new n)) = next_power_of_two n"
    using cap by (simp add: ring_new_def Let_def e(1))
  show "ring_contents (ring_new n) = []" by (simp add: ring_contents_def ring_new_def Let_def)
qed

text \<open>
  C11. Used by whole calls, the ring buffer is a bounded first-in first-out queue: any sequence
  of fewer than \<open>2 ^ 64\<close> pushes and pops on a new buffer answers exactly as the list
  specification whose bound is the requested capacity rounded up to a power of two; in
  particular no pop reads a slot that was not written, nothing is lost, duplicated or reordered,
  and a push fails exactly when the buffer is full. The sequence numbers wrap only beyond.
\<close>

theorem ring_buffer_refines_queue:
  assumes "length ops < 2 ^ 64" and "min_capacity \<le> 2 ^ 63"
  shows "queue_run ring_push try_pop ops (ring_new min_capacity) =
    Some (spec_run (next_power_of_two min_capacity) ops [])"
  using ring.run_refines [OF ring_new_ok(1) [OF assms(2,1)]]
  by (simp add: ring_new_ok(2,3) [OF assms(2,1)])

theorem ring_buffer_refines_queue_witness:
  "queue_run ring_push try_pop [Push (7 :: nat), Push 8, Push 9, Pop, Pop, Pop] (ring_new 2) =
     Some [Pushed True, Pushed True, Pushed False, Popped (Some 7), Popped (Some 8), Popped None]"
proof -
  have "next_power_of_two 2 = 2" by code_simp
  with ring_buffer_refines_queue [of "[Push (7 :: nat), Push 8, Push 9, Pop, Pop, Pop]" 2]
  show ?thesis by (simp del: queue_run.simps)
qed

subsection \<open>Producer and consumer interleaved\<close>

text \<open>
  Interleaved with the producer, the buffer reads uninitialised memory. \<open>claim\<close> already
  advances the producer sequence that the consumer compares with, and \<open>publish\<close> writes the slot
  only afterwards: on every new buffer, a consumer that polls between the two halves of the
  first push reads a slot that was never written (\<open>None\<close>), while after \<open>publish\<close> the same poll
  returns the pushed value.
\<close>

theorem claim_publish_race:
  assumes "min_capacity \<le> 2 ^ 63"
  shows "\<exists>sq r. claim (ring_new min_capacity :: 'a ring) = (Ok sq, r) \<and> try_pop r = None \<and>
    map_option fst (try_pop (publish sq (x :: 'a) r)) = Some (Some x)"
proof -
  let ?r = "ring_new min_capacity :: 'a ring"
  have ok: "ring_ok (Suc 0) ?r" using ring_new_ok(1) [OF assms, of "Suc 0"] by simp
  have "0 < unat (capacity ?r)" by (rule ring_okD(2) [OF ok])
  then have claim: "claim ?r = (Ok 0, ?r\<lparr>producer_sequence := 1\<rparr>)"
    using claim_full_iff [OF ok]
    by (simp add: claim_def Let_def ring_new_ok(3) [OF assms, of "Suc 0"])
      (simp add: ring_new_def Let_def)
  have slots: "slots ?r ! 0 = None" "0 < length (slots ?r)"
    using ring_okD(1,2) [OF ok] by (simp_all add: ring_new_def Let_def)
  have "try_pop (?r\<lparr>producer_sequence := 1\<rparr>) = None"
    using slots by (simp add: try_pop_def Let_def slot_index_def) (simp add: ring_new_def Let_def)
  moreover have "map_option fst (try_pop (publish 0 x (?r\<lparr>producer_sequence := 1\<rparr>))) = Some (Some x)"
    using slots by (simp add: try_pop_def publish_def Let_def slot_index_def) (simp add: ring_new_def Let_def)
  ultimately show ?thesis using claim by blast
qed

theorem claim_publish_race_witness:
  "\<exists>sq r. claim (ring_new 8 :: nat ring) = (Ok sq, r) \<and> try_pop r = None"
  using claim_publish_race [of 8 "5 :: nat"] by auto

subsection \<open>Waiting, batches\<close>

text \<open>
  The waiting loops end, with every strategy but the one that parks without a timeout.
  \<open>pop_wait\<close> returns whenever some later iteration reads a clock past the deadline, whatever the
  producer does meanwhile through the public operations keeping the buffer well formed; it
  returns an item or the empty answer, never undefined behaviour. And \<open>wait_for\<close> returns as soon
  as a load of the cursor reaches the awaited sequence.
\<close>

lemma wait_apply_returns: "strategy \<noteq> Blocking \<Longrightarrow> wait_apply strategy w"
  by (simp add: wait_apply_def split: wait_strategy.split)

lemma pop_ready_or_empty:
  assumes "ring_ok 1 r"
  shows "(\<exists>x r'. try_pop r = Some (Some x, r')) \<or> try_pop r = Some (None, r)"
  using assms ring.pop_empty [of 0 r] ring.pop_item [of 0 r] by (cases "ring_contents r") auto

theorem waiting_loops_return:
  assumes "\<And>k r. ring_ok 1 r \<Longrightarrow> ring_ok 1 (env k r)" and "ring_ok 1 r" and "clk n > now + int timeout"
    and "sequence \<le> loads m" and "strategy \<noteq> Blocking"
  shows "(\<exists>v r'. pop_wait strategy timeout woken env now clk r = Some (v, r')) \<and>
    (\<exists>s. wait_for strategy woken sequence loads 0 = Some s \<and> sequence \<le> s)"
proof
  note wait = wait_apply_returns [OF assms(5)]
  have "\<exists>v r'. pop_wait_loop strategy woken env clk (now + int timeout) k r = Some (v, r')" if "k + i = n" "ring_ok 1 r" for i k r
    using that
  proof (induction i arbitrary: k r)
    case 0
    from pop_ready_or_empty [OF assms(1) [OF 0(2)], of k] 0(1) assms(3) show ?case
      by (subst pop_wait_loop.simps) auto
  next
    case (Suc i)
    note ok = assms(1) [OF Suc.prems(2), of k]
    from Suc.IH [of "Suc k", OF _ ok] Suc.prems(1) pop_ready_or_empty [OF ok] show ?case
      by (subst pop_wait_loop.simps) (auto simp: wait)
  qed
  from this [of 0 n r] assms(2) show "\<exists>v r'. pop_wait strategy timeout woken env now clk r = Some (v, r')"
    by (simp add: pop_wait_def Let_def)
  have "\<exists>s. wait_for strategy woken sequence loads j = Some s \<and> sequence \<le> s" if "j + i = m" for i j
    using that
  proof (induction i arbitrary: j)
    case 0
    then show ?case using assms(4) by (subst wait_for.simps) simp
  next
    case (Suc i)
    then show ?case using Suc.IH [of "Suc j"] by (subst wait_for.simps) (simp add: Let_def wait)
  qed
  then show "\<exists>s. wait_for strategy woken sequence loads 0 = Some s \<and> sequence \<le> s" by simp
qed

theorem waiting_loops_return_witness:
  "(\<exists>v r'. pop_wait Spin 5 (\<lambda>_. False) (\<lambda>k r. r) 0 (\<lambda>k. int k) (ring_new 4 :: nat ring) = Some (v, r')) \<and>
   (\<exists>s. wait_for Spin (\<lambda>_. False) 3 (\<lambda>k. word_of_nat k) 0 = Some s \<and> 3 \<le> s)"
  using waiting_loops_return [of "\<lambda>k r. r" "ring_new 4 :: nat ring" 0 5 "\<lambda>k. int k" 6 3 "\<lambda>k. word_of_nat k" 3 Spin "\<lambda>_. False"]
    ring_new_ok(1) [of 4 1]
  by simp

text \<open>
  Nothing in the program unparks a thread: one that has to wait at all and parks without a timeout
  never returns, even when the cursor is published or the deadline passes in the meantime.
\<close>

lemma blocking_pop_hangs:
  assumes "try_pop (env 0 r) = Some (None, r')" and "clk 0 \<le> now + int timeout"
  shows "pop_wait Blocking timeout (\<lambda>_. False) env now clk r = None"
  using assms unfolding pop_wait_def Let_def by (subst pop_wait_loop.simps) (simp add: wait_apply_def)

lemma blocking_wait_hangs:
  "wait_for Blocking (\<lambda>_. False) sequence loads k = (if sequence \<le> loads k then Some (loads k) else None)"
  by (subst wait_for.simps) (simp add: Let_def wait_apply_def)

lemma batch_consume_takes:
  "ring_ok n r \<Longrightarrow> k \<le> n \<Longrightarrow>
   \<exists>r'. batch_consume k r = Some (take k (ring_contents r), r') \<and> ring_ok (n - k) r' \<and>
        ring_contents r' = drop k (ring_contents r)"
proof (induction k arbitrary: n r)
  case 0
  then show ?case by simp
next
  case (Suc k)
  then obtain m where n: "n = Suc m" by (cases n) auto
  show ?case
  proof (cases "ring_contents r")
    case Nil
    have "ring_ok (n - Suc k) r" using Suc.prems by (auto simp: ring_ok_def Let_def)
    with Nil ring.pop_empty [of m r] Suc.prems n show ?thesis by simp
  next
    case (Cons x q)
    then obtain r1 where r1: "try_pop r = Some (Some x, r1)" "ring_ok m r1" "ring_contents r1 = q"
      using ring.pop_item [of m r x q] Suc.prems n by auto
    with Suc.IH [OF r1(2)] Suc.prems n Cons show ?thesis by auto
  qed
qed

subsection \<open>The histogram\<close>

lemma bit_len_bounds: "0 < n \<Longrightarrow> 2 ^ (bit_len n - 1) \<le> n \<and> n < 2 ^ bit_len n \<and> 0 < bit_len n"
proof (induction n rule: bit_len.induct)
  case (1 n)
  have step: "bit_len n = Suc (bit_len (n div 2))" using "1.prems" by (subst bit_len.simps) simp
  show ?case
  proof (cases "n div 2 = 0")
    case True
    then show ?thesis using step "1.prems" by (simp add: bit_len.simps [of 0])
  next
    case False
    with 1 have ih: "2 ^ (bit_len (n div 2) - 1) \<le> n div 2" "n div 2 < 2 ^ bit_len (n div 2)"
      "0 < bit_len (n div 2)" by auto
    then obtain b where "bit_len (n div 2) = Suc b" by (cases "bit_len (n div 2)") auto
    with ih step show ?thesis by auto
  qed
qed

definition samples_total :: "u64 list \<Rightarrow> nat" where
  "samples_total ns = sum_list (map unat ns)"

fun hist_records :: "u64 list \<Rightarrow> histogram \<Rightarrow> histogram option" where
  "hist_records [] h = Some h"
| "hist_records (ns # rest) h = Option.bind (hist_record ns h) (hist_records rest)"

text \<open>What the histogram holds after the samples \<open>xs\<close>.\<close>

definition hist_holds :: "u64 list \<Rightarrow> histogram \<Rightarrow> bool" where
  "hist_holds xs h \<longleftrightarrow>
     0 < length (hist_buckets h) \<and> length (hist_buckets h) < 2 ^ 64 \<and>
     hist_num_buckets h = word_of_nat (length (hist_buckets h)) \<and>
     hist_total_count h = word_of_nat (length xs) \<and>
     hist_total_ns h = word_of_nat (samples_total xs) \<and>
     hist_min_ns h = foldl min (- 1) xs \<and> hist_max_ns h = foldl max 0 xs \<and>
     (\<forall>b<length (hist_buckets h).
        hist_buckets h ! b = word_of_nat (length (filter (\<lambda>x. bucket_for x h = b) xs)))"

lemma hist_last_bucket:
  assumes "hist_holds xs h"
  shows "unat (hist_num_buckets h - 1) = length (hist_buckets h) - 1"
proof -
  let ?n = "length (hist_buckets h)"
  have n: "0 < ?n" "?n - 1 < 2 ^ 64" and eq: "hist_num_buckets h = word_of_nat ?n"
    using assms unfolding hist_holds_def by linarith+
  have "hist_num_buckets h - 1 = word_of_nat (?n - 1)" using n(1) eq by (simp add: Suc_leI)
  moreover have "unat (word_of_nat (?n - 1) :: usize) = ?n - 1"
    using n(2) by (subst unat_of_nat) simp
  ultimately show ?thesis by simp
qed

lemma bucket_for_in_range:
  assumes "hist_holds xs h"
  shows "bucket_for ns h < length (hist_buckets h)"
proof -
  have "0 < length (hist_buckets h)" using assms by (simp add: hist_holds_def)
  then show ?thesis using hist_last_bucket [OF assms] by (simp add: bucket_for_def Let_def min_less_iff_disj)
qed

lemma bucket_for_cong: "hist_num_buckets h' = hist_num_buckets h \<Longrightarrow> bucket_for x h' = bucket_for x h"
  by (simp add: bucket_for_def Let_def)

lemma hist_record_holds:
  assumes "hist_holds xs h"
  shows "\<exists>h'. hist_record ns h = Some h' \<and> hist_holds (xs @ [ns]) h' \<and>
    length (hist_buckets h') = length (hist_buckets h)"
proof -
  let ?b = "bucket_for ns h"
  let ?h = "h\<lparr>hist_buckets := (hist_buckets h)[?b := hist_buckets h ! ?b + 1],
    hist_total_count := hist_total_count h + 1, hist_total_ns := hist_total_ns h + ns,
    hist_min_ns := (if ns < hist_min_ns h then ns else hist_min_ns h),
    hist_max_ns := (if ns > hist_max_ns h then ns else hist_max_ns h)\<rparr>"
  have b: "?b < length (hist_buckets h)" by (rule bucket_for_in_range [OF assms])
  then have rec: "hist_record ns h = Some ?h" by (simp add: hist_record_def Let_def)
  have same: "bucket_for x ?h = bucket_for x h" for x by (rule bucket_for_cong) simp
  have "hist_holds (xs @ [ns]) ?h"
    using assms b unfolding hist_holds_def same
    by (auto simp: nth_list_update samples_total_def min_def max_def add.commute)
  with rec show ?thesis by simp
qed

lemma hist_records_holds:
  assumes "hist_holds xs h"
  shows "\<exists>h'. hist_records ys h = Some h' \<and> hist_holds (xs @ ys) h' \<and>
    length (hist_buckets h') = length (hist_buckets h)"
  using assms
proof (induction ys arbitrary: xs h)
  case Nil
  then show ?case by simp
next
  case (Cons y ys)
  from hist_record_holds [OF Cons.prems, of y] obtain h1 where
    "hist_record y h = Some h1" "hist_holds (xs @ [y]) h1"
    "length (hist_buckets h1) = length (hist_buckets h)" by blast
  with Cons.IH [of "xs @ [y]" h1] show ?case by simp
qed

lemma histogram_new_holds:
  assumes "0 < n" and "n < 2 ^ 64"
  shows "hist_holds [] (histogram_new n)"
  using assms by (simp add: hist_holds_def histogram_new_def samples_total_def)

lemma foldl_min_le:
  fixes a :: "'a :: linorder"
  shows "foldl min a xs \<le> a \<and> list_all (\<lambda>x. foldl min a xs \<le> x) xs"
proof (induction xs arbitrary: a)
  case (Cons y ys)
  have "foldl min (min a y) ys \<le> min a y" using Cons by blast
  with Cons [of "min a y"] show ?case by simp
qed simp

lemma foldl_max_ge:
  fixes a :: "'a :: linorder"
  shows "a \<le> foldl max a xs \<and> list_all (\<lambda>x. x \<le> foldl max a xs) xs"
proof (induction xs arbitrary: a)
  case (Cons y ys)
  have "max a y \<le> foldl max (max a y) ys" using Cons by blast
  with Cons [of "max a y"] show ?case by simp
qed simp

definition in_bucket :: "nat \<Rightarrow> nat \<Rightarrow> u64 \<Rightarrow> bool" where
  "in_bucket n b ns \<longleftrightarrow>
     (let micros = unat ns div 1000
      in (b = 0 \<or> 2 ^ (b - 1) \<le> micros) \<and> (b = n - 1 \<or> micros < 2 ^ b))"

lemma bucket_for_iff:
  assumes "hist_holds xs h" and "b < length (hist_buckets h)"
  shows "bucket_for ns h = b \<longleftrightarrow> in_bucket (length (hist_buckets h)) b ns"
proof -
  let ?n = "length (hist_buckets h)" and ?m = "unat ns div 1000"
  have n: "unat (hist_num_buckets h - 1) = ?n - 1" by (rule hist_last_bucket [OF assms(1)])
  show ?thesis
  proof (cases "?m = 0")
    case True
    then show ?thesis by (auto simp: bucket_for_def in_bucket_def)
  next
    case False
    then have bl: "2 ^ (bit_len ?m - 1) \<le> ?m" "?m < 2 ^ bit_len ?m" "0 < bit_len ?m"
      using bit_len_bounds [of ?m] by auto
    have lo: "2 ^ (b - 1) \<le> ?m \<longleftrightarrow> b \<le> bit_len ?m" if "0 < b"
    proof
      assume "2 ^ (b - 1) \<le> ?m"
      then have "(2 :: nat) ^ (b - 1) < 2 ^ bit_len ?m" using bl(2) by linarith
      then show "b \<le> bit_len ?m" using that by simp
    next
      assume "b \<le> bit_len ?m"
      then have "(2 :: nat) ^ (b - 1) \<le> 2 ^ (bit_len ?m - 1)" by simp
      then show "2 ^ (b - 1) \<le> ?m" using bl(1) by linarith
    qed
    have hi: "?m < 2 ^ b \<longleftrightarrow> bit_len ?m \<le> b"
    proof
      assume "?m < 2 ^ b"
      then have "(2 :: nat) ^ (bit_len ?m - 1) < 2 ^ b" using bl(1) by linarith
      then show "bit_len ?m \<le> b" using bl(3) by simp
    next
      assume "bit_len ?m \<le> b"
      then have "(2 :: nat) ^ bit_len ?m \<le> 2 ^ b" by simp
      then show "?m < 2 ^ b" using bl(2) by linarith
    qed
    have "bucket_for ns h = min (bit_len ?m) (?n - 1)" using False n by (simp add: bucket_for_def)
    then show ?thesis
      using lo hi bl(3) assms(2) by (cases "b = 0") (auto simp: in_bucket_def Let_def min_def)
  qed
qed

text \<open>
  The latency histogram. Recording any samples into a new histogram with at least one bucket
  never runs past the buckets; afterwards the counters are the number of samples and their sum
  (both modulo \<open>2 ^ 64\<close>), every sample lies between the recorded minimum and maximum, and bucket
  \<open>b\<close> counts the samples of \<open>2 ^ (b - 1)\<close> up to \<open>2 ^ b\<close> microseconds, the first bucket everything
  below one microsecond and the last everything above.
\<close>

theorem histogram_counts_samples:
  assumes "0 < n" and "n < 2 ^ 64"
  shows "\<exists>h. hist_records xs (histogram_new n) = Some h \<and>
    hist_total_count h = word_of_nat (length xs) \<and>
    hist_total_ns h = word_of_nat (samples_total xs) \<and>
    list_all (\<lambda>x. hist_min_ns h \<le> x \<and> x \<le> hist_max_ns h) xs \<and>
    hist_buckets h = map (\<lambda>b. word_of_nat (length (filter (in_bucket n b) xs))) [0..<n]"
proof -
  from hist_records_holds [OF histogram_new_holds [OF assms], of xs] obtain h where
    h: "hist_records xs (histogram_new n) = Some h" "hist_holds xs h" "length (hist_buckets h) = n"
    by (auto simp: histogram_new_def)
  have "list_all (\<lambda>x. hist_min_ns h \<le> x \<and> x \<le> hist_max_ns h) xs"
    using h(2) foldl_min_le [of "- 1" xs] foldl_max_ge [of 0 xs] by (simp add: hist_holds_def list_all_iff)
  moreover have "hist_buckets h = map (\<lambda>b. word_of_nat (length (filter (in_bucket n b) xs))) [0..<n]"
  proof (rule nth_equalityI)
    fix b assume "b < length (hist_buckets h)"
    then show "hist_buckets h ! b = map (\<lambda>b. word_of_nat (length (filter (in_bucket n b) xs))) [0..<n] ! b"
      using h(2,3) bucket_for_iff [OF h(2)] by (simp add: hist_holds_def)
  qed (simp add: h(3))
  ultimately show ?thesis using h by (auto simp: hist_holds_def)
qed

theorem histogram_counts_samples_witness:
  "\<exists>h. hist_records [500, 1500, 2500, 9000000] (histogram_new 4) = Some h \<and> hist_total_count h = 4 \<and>
    hist_buckets h = [1, 1, 1, 1]"
proof -
  have "[0..<4 :: nat] = [0, 1, 2, 3]" by code_simp
  with histogram_counts_samples [of 4 "[500, 1500, 2500, 9000000]"] show ?thesis
    by (simp add: in_bucket_def) blast
qed

end
