(* ===== verification/Resilience.thy ===== *)
theory Resilience
  imports Ledger_Prelude
begin

section \<open>Resilience: circuit breaker, retries, bulkhead, golden signals\<close>

text \<open>
  \<open>src/service/resilience.rs\<close>. Instants and durations are integers of one unit; the clock of a
  call is an argument. Counters are words and wrap as the atomics do. The random jitter of the
  backoff is an argument, and so are the outcomes of the two floating-point comparisons of the
  incident detector; the token bucket, the rates and the fault injection, floating point
  throughout, are in theory Rate_Limiter.
\<close>

subsection \<open>Circuit breaker\<close>

datatype circuit_state = CircuitClosed | CircuitOpen | CircuitHalfOpen

record breaker =
  cb_state :: circuit_state
  failure_count :: u32
  success_count :: u32
  failure_threshold :: u32
  cooldown :: int
  last_failure_time :: "timestamp option"
  total_calls :: u64
  total_failures :: u64
  total_successes :: u64

definition breaker_new :: "u32 \<Rightarrow> int \<Rightarrow> breaker" where
  "breaker_new threshold cool =
     \<lparr>cb_state = CircuitClosed, failure_count = 0, success_count = 0, failure_threshold = threshold,
      cooldown = cool, last_failure_time = None, total_calls = 0, total_failures = 0,
      total_successes = 0\<rparr>"

definition allow_request :: "timestamp \<Rightarrow> breaker \<Rightarrow> bool \<times> breaker" where
  "allow_request now b =
     (let b1 = b\<lparr>total_calls := total_calls b + 1\<rparr>
      in case cb_state b of
           CircuitClosed \<Rightarrow> (True, b1)
         | CircuitOpen \<Rightarrow>
             let should_half_open =
                   (case last_failure_time b of None \<Rightarrow> False | Some t \<Rightarrow> max 0 (now - t) \<ge> cooldown b)
             in if should_half_open
                then (True, b1\<lparr>cb_state := CircuitHalfOpen, success_count := 0\<rparr>)
                else (False, b1)
         | CircuitHalfOpen \<Rightarrow> (success_count b < 3, b1))"

definition record_success :: "breaker \<Rightarrow> breaker" where
  "record_success b =
     (let b1 = b\<lparr>total_successes := total_successes b + 1, failure_count := 0\<rparr>
      in if cb_state b = CircuitHalfOpen
         then let count = success_count b + 1; b2 = b1\<lparr>success_count := count\<rparr>
              in if count \<ge> 2 then b2\<lparr>cb_state := CircuitClosed, success_count := 0\<rparr> else b2
         else b1)"

definition record_failure :: "timestamp \<Rightarrow> breaker \<Rightarrow> breaker" where
  "record_failure now b =
     (let count = failure_count b + 1;
          b1 = b\<lparr>total_failures := total_failures b + 1, failure_count := count,
                 last_failure_time := Some now\<rparr>
      in if count \<ge> failure_threshold b then b1\<lparr>cb_state := CircuitOpen\<rparr> else b1)"

subsection \<open>Retries\<close>

definition saturating_sub_u64 :: "u64 \<Rightarrow> u64 \<Rightarrow> u64" where
  "saturating_sub_u64 a b = (if b \<le> a then a - b else 0)"

definition saturating_add_u64 :: "u64 \<Rightarrow> u64 \<Rightarrow> u64" where
  "saturating_add_u64 a b = (if unat a + unat b < 2 ^ 64 then a + b else - 1)"

definition unsigned_abs :: "i64 \<Rightarrow> u64" where
  "unsigned_abs j = word_of_int \<bar>sint j\<bar>"

text \<open>\<open>jit c\<close> is the jitter drawn for the capped delay \<open>c\<close>; the result is in milliseconds.\<close>

definition exponential_backoff :: "(u64 \<Rightarrow> i64) \<Rightarrow> nat \<Rightarrow> u64 \<Rightarrow> u64 \<Rightarrow> u64" where
  "exponential_backoff jit attempt base_ms max_ms =
     (let capped = min (base_ms * 2 ^ attempt) max_ms; j = jit capped
      in if sint j < 0 then saturating_sub_u64 capped (unsigned_abs j)
         else saturating_add_u64 capped (unsigned_abs j))"

text \<open>
  The retry loop from attempt \<open>k\<close> with \<open>n\<close> attempts left; \<open>operation k\<close> is what the \<open>k\<close>-th
  call returns. The second component lists the delays slept.
\<close>

fun retry_from ::
  "(nat \<Rightarrow> ('t, 'e) result) \<Rightarrow> (nat \<Rightarrow> u64) \<Rightarrow> nat \<Rightarrow> nat \<Rightarrow> 'e option \<Rightarrow>
   ('t, 'e) result option \<times> u64 list"
where
  "retry_from operation delay k 0 last_error = (map_option Err last_error, [])"
| "retry_from operation delay k (Suc n) last_error =
     (case operation k of
        Ok value \<Rightarrow> (Some (Ok value), [])
      | Err e \<Rightarrow>
          (case retry_from operation delay (Suc k) n (Some e) of
             (r, ds) \<Rightarrow> (r, if n > 0 then delay k # ds else ds)))"

definition retry_with_backoff ::
  "(nat \<Rightarrow> u64 \<Rightarrow> i64) \<Rightarrow> (nat \<Rightarrow> ('t, 'e) result) \<Rightarrow> u32 \<Rightarrow> u64 \<Rightarrow> u64 \<Rightarrow>
   ('t, 'e) result option \<times> u64 list"
where
  "retry_with_backoff jit operation max_attempts base_ms max_ms =
     retry_from operation (\<lambda>k. exponential_backoff (jit k) k base_ms max_ms) 0 (unat max_attempts) None"

subsection \<open>Bulkhead\<close>

record bulkhead =
  max_concurrent :: u32
  active :: u32
  rejected :: u64

definition bulkhead_new :: "u32 \<Rightarrow> bulkhead" where
  "bulkhead_new n = \<lparr>max_concurrent = n, active = 0, rejected = 0\<rparr>"

datatype bulkhead_error = BulkheadFull

text \<open>The call run alone, where the first compare-exchange succeeds.\<close>

definition try_acquire :: "bulkhead \<Rightarrow> (unit, bulkhead_error) result \<times> bulkhead" where
  "try_acquire b =
     (if active b \<ge> max_concurrent b
      then (Err BulkheadFull, b\<lparr>rejected := rejected b + 1\<rparr>)
      else (Ok (), b\<lparr>active := active b + 1\<rparr>))"

definition bulkhead_release :: "bulkhead \<Rightarrow> bulkhead" where
  "bulkhead_release b = b\<lparr>active := active b - 1\<rparr>"

definition active_count :: "bulkhead \<Rightarrow> u32" where
  "active_count b = active b"

text \<open>
  Threads interleaved, one atomic access per step: the load of \<open>active\<close> (and the test), the
  compare-exchange, and the decrement when a guard is dropped.
\<close>

datatype guard_phase = NoGuard | Loaded u32 | Holding

inductive bulkhead_step ::
  "bulkhead \<times> guard_phase list \<Rightarrow> bulkhead \<times> guard_phase list \<Rightarrow> bool"
where
  load_full: "i < length ps \<Longrightarrow> ps ! i = NoGuard \<Longrightarrow> active b \<ge> max_concurrent b \<Longrightarrow>
    bulkhead_step (b, ps) (b\<lparr>rejected := rejected b + 1\<rparr>, ps)"
| load_room: "i < length ps \<Longrightarrow> ps ! i = NoGuard \<Longrightarrow> active b < max_concurrent b \<Longrightarrow>
    bulkhead_step (b, ps) (b, ps[i := Loaded (active b)])"
| cas_success: "i < length ps \<Longrightarrow> ps ! i = Loaded current \<Longrightarrow> active b = current \<Longrightarrow>
    bulkhead_step (b, ps) (b\<lparr>active := current + 1\<rparr>, ps[i := Holding])"
| cas_failure: "i < length ps \<Longrightarrow> ps ! i = Loaded current \<Longrightarrow> active b \<noteq> current \<Longrightarrow>
    bulkhead_step (b, ps) (b, ps[i := NoGuard])"
| drop_guard: "i < length ps \<Longrightarrow> ps ! i = Holding \<Longrightarrow>
    bulkhead_step (b, ps) (bulkhead_release b, ps[i := NoGuard])"

subsection \<open>Golden signals\<close>

record signals =
  latency_samples :: "int list"
  request_count :: u64
  error_count :: u64
  error_categories :: "string \<rightharpoonup> u64"
  latency_buckets :: "string \<rightharpoonup> u64"
  saturation :: u64
  max_samples :: nat

definition signals_new :: "nat \<Rightarrow> signals" where
  "signals_new n =
     \<lparr>latency_samples = [], request_count = 0, error_count = 0, error_categories = Map.empty,
      latency_buckets = [''<10ms'' \<mapsto> 0, ''10-50ms'' \<mapsto> 0, ''50-100ms'' \<mapsto> 0, ''>100ms'' \<mapsto> 0],
      saturation = 0, max_samples = n\<rparr>"

text \<open>Latencies in nanoseconds.\<close>

definition latency_bucket :: "int \<Rightarrow> string" where
  "latency_bucket latency =
     (if latency < 10 * 1000000 then ''<10ms'' else if latency < 50 * 1000000 then ''10-50ms''
      else if latency < 100 * 1000000 then ''50-100ms'' else ''>100ms'')"

definition push_sample :: "nat \<Rightarrow> int \<Rightarrow> int list \<Rightarrow> int list" where
  "push_sample limit latency samples =
     (if length samples \<ge> limit then tl samples else samples) @ [latency]"

definition record_request :: "int \<Rightarrow> bool \<Rightarrow> signals \<Rightarrow> signals" where
  "record_request latency is_error s =
     (let bucket = latency_bucket latency
      in s\<lparr>request_count := request_count s + 1,
           error_count := (if is_error then error_count s + 1 else error_count s),
           latency_buckets :=
             (case latency_buckets s bucket of
                None \<Rightarrow> latency_buckets s | Some n \<Rightarrow> (latency_buckets s)(bucket \<mapsto> n + 1)),
           latency_samples := push_sample (max_samples s) latency (latency_samples s)\<rparr>)"

definition record_error :: "string \<Rightarrow> signals \<Rightarrow> signals" where
  "record_error error_type s =
     s\<lparr>error_count := error_count s + 1,
       error_categories := (error_categories s)(error_type \<mapsto>
         (case error_categories s error_type of None \<Rightarrow> 0 | Some n \<Rightarrow> n) + 1)\<rparr>"

definition signals_reset :: "signals \<Rightarrow> signals" where
  "signals_reset s =
     s\<lparr>request_count := 0, error_count := 0, latency_samples := [],
       error_categories := map_option (\<lambda>_. 0) \<circ> error_categories s,
       latency_buckets := map_option (\<lambda>_. 0) \<circ> latency_buckets s\<rparr>"

definition set_saturation :: "u64 \<Rightarrow> u64 \<Rightarrow> signals \<Rightarrow> signals" where
  "set_saturation active_now max_now s =
     (if max_now > 0 then s\<lparr>saturation := (active_now * 100) div max_now\<rparr> else s)"

definition total_requests :: "signals \<Rightarrow> u64" where
  "total_requests s = request_count s"

subsection \<open>Incident detection\<close>

datatype incident_status = IncidentHealthy | IncidentWarning | IncidentDeclared

definition incident_check :: "u32 \<Rightarrow> bool \<Rightarrow> bool \<Rightarrow> u32 \<Rightarrow> incident_status \<times> u32" where
  "incident_check threshold error_rate_high latency_high failures =
     (let healthy = (\<not> error_rate_high \<and> \<not> latency_high);
          f = (if healthy then 0 else failures + 1)
      in (if f \<ge> threshold then IncidentDeclared
          else if f > 0 then IncidentWarning else IncidentHealthy, f))"

subsection \<open>What the circuit breaker guarantees\<close>

datatype breaker_call = CallAllow timestamp | CallSuccess | CallFailure timestamp

definition breaker_apply :: "breaker_call \<Rightarrow> breaker \<Rightarrow> breaker" where
  "breaker_apply c b =
     (case c of
        CallAllow now \<Rightarrow> snd (allow_request now b)
      | CallSuccess \<Rightarrow> record_success b
      | CallFailure now \<Rightarrow> record_failure now b)"

lemmas breaker_defs = allow_request_def record_success_def record_failure_def Let_def

definition breaker_ok :: "breaker \<Rightarrow> bool" where
  "breaker_ok b \<longleftrightarrow>
     (cb_state b = CircuitHalfOpen \<longrightarrow> success_count b < 2) \<and>
     (cb_state b = CircuitOpen \<longrightarrow> last_failure_time b \<noteq> None)"

lemma breaker_apply_ok: "breaker_ok b \<Longrightarrow> breaker_ok (breaker_apply c b)"
  by (cases c; cases "cb_state b")
    (auto simp: breaker_ok_def breaker_apply_def breaker_defs not_le)

lemma breaker_apply_params:
  "failure_threshold (breaker_apply c b) = failure_threshold b"
  "cooldown (breaker_apply c b) = cooldown b"
  by (cases c; cases "cb_state b"; simp add: breaker_apply_def breaker_defs split: option.splits)+

lemma breaker_run_ok: "breaker_ok b \<Longrightarrow> breaker_ok (fold breaker_apply cs b)"
  by (induction cs arbitrary: b) (simp_all add: breaker_apply_ok)

lemma breaker_run_params:
  "failure_threshold (fold breaker_apply cs b) = failure_threshold b"
  "cooldown (fold breaker_apply cs b) = cooldown b"
  by (induction cs arbitrary: b) (simp_all add: breaker_apply_params)

definition recent_failure :: "timestamp \<Rightarrow> breaker \<Rightarrow> bool" where
  "recent_failure now b =
     (case last_failure_time b of None \<Rightarrow> False | Some t \<Rightarrow> max 0 (now - t) < cooldown b)"

lemma allow_request_iff:
  assumes "breaker_ok b"
  shows "fst (allow_request now b) \<longleftrightarrow> \<not> (cb_state b = CircuitOpen \<and> recent_failure now b)"
proof (cases "cb_state b")
  case CircuitHalfOpen
  then have "success_count b < 2" using assms by (simp add: breaker_ok_def)
  then have "success_count b < 3" by (rule less_trans) simp
  with CircuitHalfOpen show ?thesis by (simp add: breaker_defs)
qed (use assms in \<open>auto simp: breaker_defs breaker_ok_def recent_failure_def\<close>)

text \<open>
  C23. After any sequence of requests, successes and failures, with any clock readings, the
  breaker refuses a request exactly when it is open and its last failure is younger than the
  cooldown. In the half-open state it therefore never refuses: the success count that is meant
  to limit the probes is below two there, since the second success closes the breaker.
\<close>

theorem breaker_refuses_only_when_open:
  "let b = fold breaker_apply cs (breaker_new threshold cool)
   in (fst (allow_request now b) \<longleftrightarrow> \<not> (cb_state b = CircuitOpen \<and> recent_failure now b)) \<and>
      (cb_state b = CircuitHalfOpen \<longrightarrow> fst (allow_request now b) \<and> success_count b < 2)"
proof -
  let ?b = "fold breaker_apply cs (breaker_new threshold cool)"
  have ok: "breaker_ok ?b" by (rule breaker_run_ok) (simp add: breaker_ok_def breaker_new_def)
  then have "cb_state ?b = CircuitHalfOpen \<longrightarrow> success_count ?b < 2" by (simp add: breaker_ok_def)
  with allow_request_iff [OF ok, of now] show ?thesis by (auto simp: Let_def)
qed

definition demo_half_open :: breaker where
  "demo_half_open = fold breaker_apply [CallFailure 0, CallAllow 100] (breaker_new 1 10)"

theorem breaker_refuses_only_when_open_witness:
  "cb_state demo_half_open = CircuitHalfOpen \<and> fst (allow_request 100 demo_half_open)"
proof -
  have "cb_state demo_half_open = CircuitHalfOpen"
    by (simp add: demo_half_open_def breaker_apply_def breaker_new_def breaker_defs)
  with breaker_refuses_only_when_open [of "[CallFailure 0, CallAllow 100]" 1 10 100] show ?thesis
    by (simp add: Let_def demo_half_open_def)
qed

lemma failures_counted:
  assumes "cb_state b = CircuitClosed" and "unat (failure_count b) + length ts < 2 ^ 32"
  shows "let b' = fold record_failure ts b
         in failure_count b' = failure_count b + word_of_nat (length ts) \<and>
            failure_threshold b' = failure_threshold b \<and> cooldown b' = cooldown b \<and>
            (ts = [] \<or> last_failure_time b' = Some (last ts)) \<and>
            (cb_state b' = CircuitOpen \<longleftrightarrow>
               ts \<noteq> [] \<and> unat (failure_threshold b) \<le> unat (failure_count b) + length ts) \<and>
            cb_state b' \<noteq> CircuitHalfOpen"
  using assms(2)
proof (induction ts rule: rev_induct)
  case Nil
  then show ?case using assms(1) by simp
next
  case (snoc t ts)
  let ?b = "fold record_failure ts b"
  have ih: "failure_count ?b = failure_count b + word_of_nat (length ts)"
    "failure_threshold ?b = failure_threshold b" "cooldown ?b = cooldown b"
    "cb_state ?b = CircuitOpen \<longleftrightarrow> ts \<noteq> [] \<and>
       unat (failure_threshold b) \<le> unat (failure_count b) + length ts"
    "cb_state ?b \<noteq> CircuitHalfOpen"
    using snoc by (simp_all add: Let_def)
  have "unat (failure_count b + word_of_nat (length ts) + 1) = unat (failure_count b) + Suc (length ts)"
    using snoc.prems by (simp add: unat_word_ariths unat_of_nat)
  with ih record_failure_def [of t ?b] show ?case
    by (auto simp: Let_def word_le_nat_alt add.assoc add.commute [of 1])
qed

text \<open>
  The breaker trips and recovers. On a new breaker with threshold \<open>n > 0\<close>, fewer than \<open>n\<close>
  consecutive failures leave it closed; the \<open>n\<close>-th opens it. It then refuses requests younger
  than the cooldown, lets the first later request through as half open, and two successes close
  it with its counters at zero; a failure reported in the half-open state before any success
  opens it again.
\<close>

theorem breaker_trips_and_recovers:
  assumes "length ts < 2 ^ 32" and "ts \<noteq> []" and "0 < threshold"
    and "cool \<le> later - last ts" and "max 0 (soon - last ts) < cool"
  shows "let b = fold record_failure ts (breaker_new threshold cool);
             h = snd (allow_request later b);
             r = record_success (record_success h)
         in (cb_state b = CircuitOpen \<longleftrightarrow> unat threshold \<le> length ts) \<and>
            (cb_state b = CircuitOpen \<longrightarrow>
               \<not> fst (allow_request soon b) \<and>
               fst (allow_request later b) \<and> cb_state h = CircuitHalfOpen \<and>
               cb_state r = CircuitClosed \<and> failure_count r = 0 \<and> success_count r = 0 \<and>
               (length ts + 1 < 2 ^ 32 \<longrightarrow> cb_state (record_failure later h) = CircuitOpen))"
proof -
  let ?b = "fold record_failure ts (breaker_new threshold cool)"
  have facts: "failure_count ?b = word_of_nat (length ts)" "failure_threshold ?b = threshold"
    "cooldown ?b = cool" "last_failure_time ?b = Some (last ts)"
    "cb_state ?b = CircuitOpen \<longleftrightarrow> unat threshold \<le> length ts"
    using failures_counted [of "breaker_new threshold cool" ts] assms(1,2)
    by (simp_all add: breaker_new_def Let_def)
  have again: "unat threshold \<le> length ts \<Longrightarrow> length ts + 1 < 2 ^ 32 \<Longrightarrow>
      threshold \<le> word_of_nat (length ts) + 1"
    by (simp add: word_le_nat_alt unat_word_ariths unat_of_nat)
  have late: "cool \<le> max 0 (later - last ts)" and early: "\<not> cool \<le> max 0 (soon - last ts)"
    using assms(4,5) by linarith+
  show ?thesis
    using facts again by (auto simp: Let_def allow_request_def record_success_def record_failure_def late early)
qed

theorem breaker_trips_and_recovers_witness:
  "let b = fold record_failure [1, 2, 3] (breaker_new 3 10); h = snd (allow_request 13 b)
   in cb_state b = CircuitOpen \<and> \<not> fst (allow_request 12 b) \<and> cb_state h = CircuitHalfOpen \<and>
      cb_state (record_success (record_success h)) = CircuitClosed"
  using breaker_trips_and_recovers [of "[1, 2, 3]" 3 10 13 12] by (simp add: Let_def)

subsection \<open>Retries\<close>

lemma retry_from_spec:
  "retry_from operation delay k n err =
     (case List.find (\<lambda>j. is_ok (operation j)) [k..<k + n] of
        Some j \<Rightarrow> (Some (operation j), map delay [k..<j])
      | None \<Rightarrow> (if n = 0 then map_option Err err else Some (operation (k + n - 1)),
                 map delay [k..<k + n - 1]))"
proof (induction n arbitrary: k err)
  case 0
  then show ?case by simp
next
  case (Suc n)
  have upt: "[k..<k + Suc n] = k # [Suc k..<Suc k + n]" by (simp add: upt_conv_Cons)
  show ?case
  proof (cases "operation k")
    case (Inr v)
    then show ?thesis unfolding upt by simp
  next
    case (Inl e)
    let ?find = "List.find (\<lambda>j. is_ok (operation j)) [Suc k..<Suc k + n]"
    have ih: "retry_from operation delay (Suc k) n (Some e) =
        (case ?find of Some j \<Rightarrow> (Some (operation j), map delay [Suc k..<j])
         | None \<Rightarrow> (if n = 0 then Some (Err e) else Some (operation (k + n)), map delay [Suc k..<k + n]))"
      using Suc [of "Suc k" "Some e"] by (simp del: upt_Suc split: option.split)
    have lhs: "retry_from operation delay k (Suc n) err =
        (case retry_from operation delay (Suc k) n (Some e) of
           (r, ds) \<Rightarrow> (r, if n > 0 then delay k # ds else ds))" by (simp add: Inl)
    have rhs: "List.find (\<lambda>j. is_ok (operation j)) [k..<k + Suc n] = ?find"
      unfolding upt by (simp add: Inl del: upt_Suc)
    show ?thesis
    proof (cases ?find)
      case None
      then show ?thesis
        unfolding lhs rhs ih using Inl by (auto simp: upt_conv_Cons simp del: upt_Suc)
    next
      case (Some j)
      then have "j \<in> set [Suc k..<Suc k + n]" by (metis find_Some_iff nth_mem)
      then have "Suc k \<le> j" "0 < n" by (auto simp del: upt_Suc)
      then show ?thesis
        unfolding lhs rhs ih Some by (simp add: upt_conv_Cons del: upt_Suc)
    qed
  qed
qed

lemma unat_abs_i64: "4 * \<bar>sint (j :: i64)\<bar> \<le> int (unat (c :: u64)) \<Longrightarrow> unat (unsigned_abs j) = nat \<bar>sint j\<bar>"
proof -
  have "\<bar>sint j\<bar> < 2 ^ 64" using sint_i64_lower [of j] sint_i64_upper [of j] by simp
  then show ?thesis
    by (simp add: unsigned_abs_def unat_eq_nat_uint uint_word_of_int)
qed

lemma backoff_within_quarter:
  assumes "\<And>c. 4 * \<bar>sint (jit c)\<bar> \<le> int (unat c)"
  shows "let c = unat (min (base_ms * 2 ^ attempt) max_ms)
         in 3 * c \<le> 4 * unat (exponential_backoff jit attempt base_ms max_ms) \<and>
            4 * unat (exponential_backoff jit attempt base_ms max_ms) \<le> 5 * c"
proof -
  let ?c = "min (base_ms * 2 ^ attempt) max_ms"
  let ?a = "nat \<bar>sint (jit ?c)\<bar>"
  have a1: "unat (unsigned_abs (jit ?c)) = ?a" by (rule unat_abs_i64 [OF assms])
  have a2: "4 * ?a \<le> unat ?c" using assms [of ?c] by linarith
  note a = a1 a2
  have "unat (saturating_sub_u64 ?c (unsigned_abs (jit ?c))) = unat ?c - ?a"
    using a by (auto simp: saturating_sub_u64_def word_le_nat_alt unat_sub)
  moreover have "unat ?c \<le> unat (saturating_add_u64 ?c (unsigned_abs (jit ?c)))"
    "unat (saturating_add_u64 ?c (unsigned_abs (jit ?c))) \<le> unat ?c + ?a"
  proof -
    have max: "unat (- 1 :: u64) = 2 ^ 64 - 1" by (simp add: unsigned_minus_1_eq_mask mask_eq_exp_minus_1)
    have "unat ?c < 2 ^ 64" using unsigned_less [of ?c, where 'a = nat] by simp
    then show "unat ?c \<le> unat (saturating_add_u64 ?c (unsigned_abs (jit ?c)))"
      using a(1) max by (auto simp: saturating_add_u64_def unat_word_ariths)
    show "unat (saturating_add_u64 ?c (unsigned_abs (jit ?c))) \<le> unat ?c + ?a"
      using a(1) max by (auto simp: saturating_add_u64_def unat_word_ariths)
  qed
  ultimately have bounds:
    "3 * unat ?c \<le> 4 * unat (saturating_sub_u64 ?c (unsigned_abs (jit ?c)))"
    "4 * unat (saturating_sub_u64 ?c (unsigned_abs (jit ?c))) \<le> 5 * unat ?c"
    "3 * unat ?c \<le> 4 * unat (saturating_add_u64 ?c (unsigned_abs (jit ?c)))"
    "4 * unat (saturating_add_u64 ?c (unsigned_abs (jit ?c))) \<le> 5 * unat ?c"
    using a(2) by linarith+
  show ?thesis
  proof (cases "sint (jit ?c) < 0")
    case True
    then show ?thesis unfolding exponential_backoff_def Let_def using bounds(1,2) by simp
  next
    case False
    then show ?thesis unfolding exponential_backoff_def Let_def using bounds(3,4) by simp
  qed
qed

lemma power_two_wraps: "64 \<le> n \<Longrightarrow> (2 :: u64) ^ n = 0"
  by simp

text \<open>
  Retrying. With at least one attempt the call returns the first success among its
  \<open>max_attempts\<close> calls, or the last error when there is none, having slept once after every
  failed call but the last; with zero attempts it panics. Under the documented jitter of at most
  a quarter, each delay is within a quarter of \<open>min (base * 2 ^ k) max\<close>, the product taken
  modulo \<open>2 ^ 64\<close> as the release build computes it: from the 65th attempt on the delay is zero,
  not the maximum.
\<close>

theorem retry_returns_first_success:
  assumes "\<And>k c. 4 * \<bar>sint (jit k c)\<bar> \<le> int (unat c)"
  shows "let n = unat max_attempts; ok = List.find (\<lambda>j. is_ok (operation j)) [0..<n];
             (r, delays) = retry_with_backoff jit operation max_attempts base_ms max_ms
         in r = (if n = 0 then None else
                 case ok of Some j \<Rightarrow> Some (operation j) | None \<Rightarrow> Some (operation (n - 1))) \<and>
            length delays = (case ok of Some j \<Rightarrow> j | None \<Rightarrow> n - 1) \<and>
            list_all (\<lambda>k. let c = unat (min (base_ms * 2 ^ k) max_ms)
               in 3 * c \<le> 4 * unat (delays ! k) \<and> 4 * unat (delays ! k) \<le> 5 * c \<and>
                  (k < 64 \<or> delays ! k = 0)) [0..<length delays]"
proof -
  let ?n = "unat max_attempts" and ?d = "\<lambda>k. exponential_backoff (jit k) k base_ms max_ms"
  let ?m = "case List.find (\<lambda>j. is_ok (operation j)) [0..<?n] of Some j \<Rightarrow> j | None \<Rightarrow> ?n - 1"
  have run: "retry_with_backoff jit operation max_attempts base_ms max_ms =
      (if ?n = 0 then None else
         case List.find (\<lambda>j. is_ok (operation j)) [0..<?n] of Some j \<Rightarrow> Some (operation j)
         | None \<Rightarrow> Some (operation (?n - 1)), map ?d [0..<?m])"
    unfolding retry_with_backoff_def retry_from_spec by (auto split: option.splits)
  have q: "let c = unat (min (base_ms * 2 ^ k) max_ms)
      in 3 * c \<le> 4 * unat (?d k) \<and> 4 * unat (?d k) \<le> 5 * c \<and> (k < 64 \<or> ?d k = 0)" for k
  proof -
    have "64 \<le> k \<Longrightarrow> unat (?d k) = 0"
      using backoff_within_quarter [of "jit k" base_ms k max_ms] assms
      by (simp add: Let_def power_two_wraps)
    then show ?thesis
      using backoff_within_quarter [of "jit k" base_ms k max_ms] assms
      by (cases "k < 64") (auto simp: Let_def unat_eq_zero)
  qed
  show ?thesis using q unfolding run by (simp add: list_all_iff Let_def)
qed

theorem retry_returns_first_success_witness:
  "fst (retry_with_backoff (\<lambda>k c. 0) (\<lambda>k. if k < 2 then Err ''busy'' else Ok k) 5 10 1000) =
     Some (Ok (2 :: nat))"
proof -
  have upt: "[0..<5 :: nat] = [0, 1, 2, 3, 4]" by code_simp
  show ?thesis
    using retry_returns_first_success [of "\<lambda>k c. 0" 5 "\<lambda>k. if k < 2 then Err ''busy'' else Ok k" 10 1000]
    by (auto simp: Let_def upt split: prod.splits)
qed

subsection \<open>The bulkhead under concurrency\<close>

definition bulkhead_ok :: "bulkhead \<times> guard_phase list \<Rightarrow> bool" where
  "bulkhead_ok s \<longleftrightarrow>
     (case s of (b, ps) \<Rightarrow>
        unat (active b) = length (filter (\<lambda>p. p = Holding) ps) \<and>
        active b \<le> max_concurrent b \<and>
        (\<forall>c. Loaded c \<in> set ps \<longrightarrow> c < max_concurrent b))"

inductive_cases bulkhead_stepE: "bulkhead_step s s'"

lemma bulkhead_step_ok:
  assumes "bulkhead_step s s'" and "bulkhead_ok s"
  shows "bulkhead_ok s' \<and> max_concurrent (fst s') = max_concurrent (fst s) \<and>
    length (snd s') = length (snd s)"
  using assms
proof (induction rule: bulkhead_step.induct)
  case (load_full i ps b)
  then show ?case by (auto simp: bulkhead_ok_def)
next
  case (load_room i ps b)
  then show ?case
    using length_filter_update [of i ps "\<lambda>p. p = Holding" "Loaded (active b)"]
      set_update_subset_insert [of ps i "Loaded (active b)"]
    by (auto simp: bulkhead_ok_def)
next
  case (cas_success i ps current b)
  then have lt: "current < max_concurrent b"
    using nth_mem [OF cas_success(1)] by (auto simp: bulkhead_ok_def)
  moreover have "unat (max_concurrent b) < 2 ^ 32"
    using unsigned_less [of "max_concurrent b", where 'a = nat] by simp
  ultimately have "unat (current + 1) = unat current + 1" "current + 1 \<le> max_concurrent b"
    by (simp_all add: unat_word_ariths word_le_nat_alt word_less_nat_alt)
  then show ?case
    using cas_success length_filter_update [of i ps "\<lambda>p. p = Holding" Holding]
      set_update_subset_insert [of ps i Holding]
    by (auto simp: bulkhead_ok_def)
next
  case (cas_failure i ps current b)
  then show ?case
    using length_filter_update [of i ps "\<lambda>p. p = Holding" NoGuard] set_update_subset_insert [of ps i NoGuard]
    by (auto simp: bulkhead_ok_def)
next
  case (drop_guard i ps b)
  have "0 < length (filter (\<lambda>p. p = Holding) ps)"
    using drop_guard nth_mem [of i ps] by (auto simp: filter_empty_conv)
  then have "active b \<noteq> 0" using drop_guard by (auto simp: bulkhead_ok_def)
  then have "unat (active b - 1) = unat (active b) - 1" "active b - 1 < active b"
    by (simp_all add: unat_minus_one word_less_nat_alt unat_gt_0)
  then show ?case
    using drop_guard length_filter_update [of i ps "\<lambda>p. p = Holding" NoGuard]
      set_update_subset_insert [of ps i NoGuard]
    by (auto simp: bulkhead_ok_def bulkhead_release_def)
qed

text \<open>
  C24. The bulkhead holds under every interleaving. Threads that load the counter, run the
  compare-exchange and drop their guards in any order reach only states in which the counter is
  the number of guards held, and that is at most the configured maximum.
\<close>

theorem bulkhead_never_exceeds:
  assumes "bulkhead_step\<^sup>*\<^sup>* (bulkhead_new n, replicate threads NoGuard) (b, ps)"
  shows "unat (active b) = length (filter (\<lambda>p. p = Holding) ps) \<and>
    length (filter (\<lambda>p. p = Holding) ps) \<le> unat n"
proof -
  have start: "bulkhead_ok (bulkhead_new n, replicate threads NoGuard)"
    by (simp add: bulkhead_ok_def bulkhead_new_def)
  have "bulkhead_ok (b, ps) \<and> max_concurrent b = n"
    using assms
  proof (induction "(b, ps)" arbitrary: b ps rule: rtranclp_induct)
    case base
    then show ?case using start by (simp add: bulkhead_new_def)
  next
    case (step y)
    then show ?case using bulkhead_step_ok [of y "(b, ps)" for b ps] by (cases y) fastforce
  qed
  then show ?thesis by (auto simp: bulkhead_ok_def word_le_nat_alt)
qed

theorem bulkhead_never_exceeds_witness:
  "bulkhead_step\<^sup>*\<^sup>* (bulkhead_new 1, replicate 2 NoGuard) ((bulkhead_new 1)\<lparr>active := 1\<rparr>, [Holding, NoGuard]) \<and>
   length (filter (\<lambda>p. p = Holding) [Holding, NoGuard]) \<le> unat (1 :: u32)"
proof -
  have "bulkhead_step (bulkhead_new 1, [NoGuard, NoGuard]) (bulkhead_new 1, [Loaded 0, NoGuard])"
    using load_room [of 0 "[NoGuard, NoGuard]" "bulkhead_new 1"] by (simp add: bulkhead_new_def)
  moreover have "bulkhead_step (bulkhead_new 1, [Loaded 0, NoGuard])
      ((bulkhead_new 1)\<lparr>active := 1\<rparr>, [Holding, NoGuard])"
    using cas_success [of 0 "[Loaded 0, NoGuard]" 0 "bulkhead_new 1"] by (simp add: bulkhead_new_def)
  ultimately have "bulkhead_step\<^sup>*\<^sup>* (bulkhead_new 1, replicate 2 NoGuard)
      ((bulkhead_new 1)\<lparr>active := 1\<rparr>, [Holding, NoGuard])"
    by (simp add: numeral_2_eq_2 converse_rtranclp_into_rtranclp)
  with bulkhead_never_exceeds [OF this] show ?thesis by simp
qed

end
