(* ===== verification/Event_Bus.thy ===== *)
theory Event_Bus
  imports Ledger_Prelude
begin

section \<open>The event bus\<close>

text \<open>
  \<open>src/log/event_bus.rs\<close> and \<open>src/service/event_bus_wiring.rs\<close>: the partitioned bus, the
  idempotent and the transactional producer, fencing tokens, consumer groups, and the bus that
  wires them together. Strings are their bytes; the bytes of an identifier are an argument. The
  producers share the bus, so their operations take it and return it.
\<close>

subsection \<open>Routing\<close>

definition hash31 :: "u8 list \<Rightarrow> u64" where
  "hash31 bytes = foldl (\<lambda>acc b. acc * 31 + ucast b) 0 bytes"

definition shard_for :: "u32 \<Rightarrow> u8 list \<Rightarrow> u32 option" where
  "shard_for num_shards account_bytes =
     (if num_shards = 0 then None
      else Some (ucast (hash31 account_bytes mod ucast num_shards)))"

definition key_bytes :: "string \<Rightarrow> u8 list" where
  "key_bytes s = map (\<lambda>c. word_of_nat (of_char c)) s"

subsection \<open>The partitioned bus\<close>

record bus_message =
  bm_offset :: u64
  bm_key :: string
  bm_payload :: string
  bm_timestamp :: timestamp
  bm_producer_id :: string
  bm_producer_seq :: u64

record event_bus =
  partitions :: "bus_message list list"
  next_offset :: u64

definition bus_new :: "nat \<Rightarrow> event_bus" where
  "bus_new num_partitions = \<lparr>partitions = replicate (max num_partitions 1) [], next_offset = 0\<rparr>"

definition partition_for :: "string \<Rightarrow> event_bus \<Rightarrow> nat" where
  "partition_for key bus = unat (hash31 (key_bytes key)) mod length (partitions bus)"

definition bus_produce ::
  "timestamp \<Rightarrow> string \<Rightarrow> string \<Rightarrow> string \<Rightarrow> u64 \<Rightarrow> event_bus \<Rightarrow> u64 \<times> event_bus"
where
  "bus_produce now key payload producer_id producer_seq bus =
     (let part = partition_for key bus; offset = next_offset bus;
          msg = \<lparr>bm_offset = offset, bm_key = key, bm_payload = payload, bm_timestamp = now,
                 bm_producer_id = producer_id, bm_producer_seq = producer_seq\<rparr>
      in (offset, bus\<lparr>partitions := (partitions bus)[part := partitions bus ! part @ [msg]],
                      next_offset := offset + 1\<rparr>))"

definition bus_consume :: "nat \<Rightarrow> u64 \<Rightarrow> event_bus \<Rightarrow> bus_message list option" where
  "bus_consume part from_offset bus =
     (if part < length (partitions bus)
      then Some (filter (\<lambda>m. bm_offset m \<ge> from_offset) (partitions bus ! part)) else None)"

subsection \<open>Idempotent producer\<close>

record idempotent_producer =
  ip_producer_id :: string
  ip_last_seq :: u64
  ip_acknowledged :: "(string \<times> u64) set"

definition ip_new :: "string \<Rightarrow> idempotent_producer" where
  "ip_new producer_id =
     \<lparr>ip_producer_id = producer_id, ip_last_seq = 0, ip_acknowledged = {}\<rparr>"

definition ip_next_sequence :: "idempotent_producer \<Rightarrow> u64 \<times> idempotent_producer" where
  "ip_next_sequence p = (ip_last_seq p + 1, p\<lparr>ip_last_seq := ip_last_seq p + 1\<rparr>)"

definition is_duplicate :: "string \<Rightarrow> u64 \<Rightarrow> idempotent_producer \<Rightarrow> bool" where
  "is_duplicate producer_id sq p \<longleftrightarrow> (producer_id, sq) \<in> ip_acknowledged p"

definition acknowledge :: "string \<Rightarrow> u64 \<Rightarrow> idempotent_producer \<Rightarrow> idempotent_producer" where
  "acknowledge producer_id sq p = p\<lparr>ip_acknowledged := insert (producer_id, sq) (ip_acknowledged p)\<rparr>"

definition ip_produce ::
  "timestamp \<Rightarrow> string \<Rightarrow> string \<Rightarrow> u64 \<Rightarrow> idempotent_producer \<times> event_bus \<Rightarrow>
   u64 option \<times> idempotent_producer \<times> event_bus"
where
  "ip_produce now key payload sq s =
     (case s of (p, bus) \<Rightarrow>
        if is_duplicate (ip_producer_id p) sq p then (None, p, bus)
        else (case bus_produce now key payload (ip_producer_id p) sq bus of
                (offset, bus') \<Rightarrow> (Some offset, acknowledge (ip_producer_id p) sq p, bus')))"

subsection \<open>Fencing tokens\<close>

record fencing_token =
  fence_epoch :: u64
  fence_registrations :: "string \<rightharpoonup> u64"

definition fencing_new :: fencing_token where
  "fencing_new = \<lparr>fence_epoch = 1, fence_registrations = Map.empty\<rparr>"

definition register_producer :: "string \<Rightarrow> fencing_token \<Rightarrow> u64 \<times> fencing_token" where
  "register_producer producer_id f =
     (fence_epoch f,
      f\<lparr>fence_epoch := fence_epoch f + 1,
        fence_registrations := (fence_registrations f)(producer_id \<mapsto> fence_epoch f)\<rparr>)"

definition fence_is_valid :: "string \<Rightarrow> u64 \<Rightarrow> fencing_token \<Rightarrow> bool" where
  "fence_is_valid producer_id epoch f =
     (case fence_registrations f producer_id of None \<Rightarrow> False | Some current \<Rightarrow> current = epoch)"

definition fence :: "string \<Rightarrow> fencing_token \<Rightarrow> u64 \<times> fencing_token" where
  "fence producer_id f = register_producer producer_id f"

subsection \<open>Consumer groups\<close>

record consumer_state =
  cs_consumer_id :: string
  cs_assigned_partitions :: "nat list"
  cs_last_heartbeat :: timestamp

record consumer_group =
  cg_group_id :: string
  cg_offsets :: "nat \<rightharpoonup> u64"
  cg_consumers :: "consumer_state list"

definition group_new :: "string \<Rightarrow> consumer_group" where
  "group_new g = \<lparr>cg_group_id = g, cg_offsets = Map.empty, cg_consumers = []\<rparr>"

definition register_consumer ::
  "timestamp \<Rightarrow> string \<Rightarrow> nat list \<Rightarrow> consumer_group \<Rightarrow> consumer_group"
where
  "register_consumer now consumer_id ps g =
     g\<lparr>cg_consumers := cg_consumers g @
         [\<lparr>cs_consumer_id = consumer_id, cs_assigned_partitions = ps, cs_last_heartbeat = now\<rparr>]\<rparr>"

definition commit_offset :: "nat \<Rightarrow> u64 \<Rightarrow> consumer_group \<Rightarrow> consumer_group" where
  "commit_offset part offset g = g\<lparr>cg_offsets := (cg_offsets g)(part \<mapsto> offset)\<rparr>"

definition committed_offset :: "nat \<Rightarrow> consumer_group \<Rightarrow> u64" where
  "committed_offset part g =
     (case cg_offsets g part of None \<Rightarrow> 0 | Some offset \<Rightarrow> offset)"

text \<open>\<open>num_seconds\<close> is the whole seconds of a span of time, which the \<open>chrono\<close> package rounds.\<close>

definition rebalance ::
  "(int \<Rightarrow> int) \<Rightarrow> timestamp \<Rightarrow> int \<Rightarrow> consumer_group \<Rightarrow> string list \<times> consumer_group"
where
  "rebalance num_seconds now timeout_secs g =
     (let alive = (\<lambda>c. num_seconds (now - cs_last_heartbeat c) < timeout_secs)
      in (map cs_consumer_id (filter (\<lambda>c. \<not> alive c) (cg_consumers g)),
          g\<lparr>cg_consumers := filter alive (cg_consumers g)\<rparr>))"

definition heartbeat :: "timestamp \<Rightarrow> string \<Rightarrow> consumer_group \<Rightarrow> consumer_group" where
  "heartbeat now consumer_id g =
     g\<lparr>cg_consumers := update_first (\<lambda>c. cs_consumer_id c = consumer_id)
         (\<lambda>c. c\<lparr>cs_last_heartbeat := now\<rparr>) (cg_consumers g)\<rparr>"

subsection \<open>Transactional producer\<close>

record transactional_producer =
  tp_producer_id :: string
  tp_pending :: "(string \<times> string) list"
  tp_in_transaction :: bool

definition tp_new :: "string \<Rightarrow> transactional_producer" where
  "tp_new producer_id =
     \<lparr>tp_producer_id = producer_id, tp_pending = [], tp_in_transaction = False\<rparr>"

definition tp_begin :: "transactional_producer \<Rightarrow> transactional_producer" where
  "tp_begin p = p\<lparr>tp_in_transaction := True, tp_pending := []\<rparr>"

definition tp_send :: "string \<Rightarrow> string \<Rightarrow> transactional_producer \<Rightarrow> transactional_producer" where
  "tp_send key payload p =
     (if tp_in_transaction p then p\<lparr>tp_pending := tp_pending p @ [(key, payload)]\<rparr> else p)"

fun produce_all ::
  "(nat \<Rightarrow> timestamp) \<Rightarrow> string \<Rightarrow> (string \<times> string) list \<Rightarrow> event_bus \<Rightarrow> u64 list \<times> event_bus"
where
  "produce_all clk producer_id [] bus = ([], bus)"
| "produce_all clk producer_id ((key, payload) # rest) bus =
     (case bus_produce (clk 0) key payload producer_id 0 bus of
        (offset, bus1) \<Rightarrow>
          (case produce_all (\<lambda>k. clk (Suc k)) producer_id rest bus1 of
             (offsets, bus2) \<Rightarrow> (offset # offsets, bus2)))"

definition tp_commit ::
  "(nat \<Rightarrow> timestamp) \<Rightarrow> transactional_producer \<times> event_bus \<Rightarrow>
   (u64 list, string) result \<times> transactional_producer \<times> event_bus"
where
  "tp_commit clk s =
     (case s of (p, bus) \<Rightarrow>
        if \<not> tp_in_transaction p then (Err ''No transaction in progress'', p, bus)
        else (case produce_all clk (tp_producer_id p) (tp_pending p) bus of
                (offsets, bus') \<Rightarrow>
                  (Ok offsets, p\<lparr>tp_in_transaction := False, tp_pending := []\<rparr>, bus')))"

definition tp_abort :: "transactional_producer \<Rightarrow> transactional_producer" where
  "tp_abort p = p\<lparr>tp_in_transaction := False, tp_pending := []\<rparr>"

subsection \<open>The wired bus\<close>

record wired_bus =
  wb_bus :: event_bus
  wb_fencing :: fencing_token
  wb_idempotent :: idempotent_producer
  wb_transactional :: transactional_producer

definition wired_new :: "string \<Rightarrow> nat \<Rightarrow> wired_bus" where
  "wired_new producer_id num_partitions =
     \<lparr>wb_bus = bus_new num_partitions,
      wb_fencing = snd (register_producer producer_id fencing_new),
      wb_idempotent = ip_new producer_id, wb_transactional = tp_new producer_id\<rparr>"

definition produce_idempotent ::
  "timestamp \<Rightarrow> string \<Rightarrow> string \<Rightarrow> wired_bus \<Rightarrow> (u64 \<times> u64, string) result \<times> wired_bus"
where
  "produce_idempotent now key payload w =
     (let (epoch, f) = register_producer ''default'' (wb_fencing w);
          (sq, p) = ip_next_sequence (wb_idempotent w);
          w1 = w\<lparr>wb_fencing := f, wb_idempotent := p\<rparr>
      in if \<not> fence_is_valid ''default'' epoch f
         then (Err (''fenced out '' @ [CHR 0xE2, CHR 0x80, CHR 0x94] @ '' another producer with higher epoch active''), w1)
         else (let (_, bus) = bus_produce now key payload ''default'' sq (wb_bus w)
               in (Ok (sq, epoch),
                   w1\<lparr>wb_bus := bus, wb_idempotent := acknowledge ''default'' sq p\<rparr>)))"

definition begin_produce :: "wired_bus \<Rightarrow> wired_bus" where
  "begin_produce w = w\<lparr>wb_transactional := tp_begin (wb_transactional w)\<rparr>"

definition send_in_transaction :: "string \<Rightarrow> string \<Rightarrow> wired_bus \<Rightarrow> wired_bus" where
  "send_in_transaction key payload w =
     w\<lparr>wb_transactional := tp_send key payload (wb_transactional w)\<rparr>"

definition commit_produce ::
  "(nat \<Rightarrow> timestamp) \<Rightarrow> wired_bus \<Rightarrow> (u64 list, string) result \<times> wired_bus"
where
  "commit_produce clk w =
     (case tp_commit clk (wb_transactional w, wb_bus w) of
        (r, p, bus) \<Rightarrow> (r, w\<lparr>wb_transactional := p, wb_bus := bus\<rparr>))"

definition abort_produce :: "wired_bus \<Rightarrow> wired_bus" where
  "abort_produce w = w\<lparr>wb_transactional := tp_abort (wb_transactional w)\<rparr>"

subsection \<open>Delivery order\<close>

record produce_request =
  pr_time :: timestamp
  pr_key :: string
  pr_payload :: string
  pr_producer :: string
  pr_seq :: u64

definition request_apply :: "produce_request \<Rightarrow> event_bus \<Rightarrow> event_bus" where
  "request_apply r bus =
     snd (bus_produce (pr_time r) (pr_key r) (pr_payload r) (pr_producer r) (pr_seq r) bus)"

definition message_of :: "u64 \<Rightarrow> produce_request \<Rightarrow> bus_message" where
  "message_of offset r =
     \<lparr>bm_offset = offset, bm_key = pr_key r, bm_payload = pr_payload r, bm_timestamp = pr_time r,
      bm_producer_id = pr_producer r, bm_producer_seq = pr_seq r\<rparr>"

definition bus_log :: "produce_request list \<Rightarrow> bus_message list" where
  "bus_log rs = map (\<lambda>i. message_of (word_of_nat i) (rs ! i)) [0..<length rs]"

definition key_partition :: "nat \<Rightarrow> string \<Rightarrow> nat" where
  "key_partition n key = unat (hash31 (key_bytes key)) mod n"

lemma bus_log_snoc: "bus_log (rs @ [r]) = bus_log rs @ [message_of (word_of_nat (length rs)) r]"
  by (simp add: bus_log_def nth_append)

text \<open>A bus with \<open>n\<close> partitions that has been given exactly the requests \<open>rs\<close>.\<close>

definition bus_holds :: "nat \<Rightarrow> produce_request list \<Rightarrow> event_bus \<Rightarrow> bool" where
  "bus_holds n rs bus \<longleftrightarrow>
     next_offset bus = word_of_nat (length rs) \<and>
     partitions bus = map (\<lambda>p. filter (\<lambda>m. key_partition n (bm_key m) = p) (bus_log rs)) [0..<n]"

lemma bus_produce_holds:
  assumes "bus_holds n rs bus" and "0 < n"
  shows "bus_produce now key payload pid sq bus = (word_of_nat (length rs), request_apply
      \<lparr>pr_time = now, pr_key = key, pr_payload = payload, pr_producer = pid, pr_seq = sq\<rparr> bus)"
    and "bus_holds n (rs @ [r]) (request_apply r bus)"
proof -
  show "bus_produce now key payload pid sq bus = (word_of_nat (length rs), request_apply
      \<lparr>pr_time = now, pr_key = key, pr_payload = payload, pr_producer = pid, pr_seq = sq\<rparr> bus)"
    using assms(1) by (simp add: request_apply_def bus_produce_def bus_holds_def Let_def)
  have part: "partition_for (pr_key r) bus = key_partition n (pr_key r)"
    using assms(1) by (simp add: partition_for_def key_partition_def bus_holds_def)
  have lt: "key_partition n (pr_key r) < n" using assms(2) by (simp add: key_partition_def)
  have "partitions (request_apply r bus) =
      (partitions bus)[key_partition n (pr_key r) :=
         partitions bus ! key_partition n (pr_key r) @ [message_of (next_offset bus) r]]"
    by (simp add: request_apply_def bus_produce_def Let_def part message_of_def)
  also have "\<dots> = map (\<lambda>p. filter (\<lambda>m. key_partition n (bm_key m) = p) (bus_log (rs @ [r]))) [0..<n]"
    using assms(1) lt
    by (intro nth_equalityI) (auto simp: bus_holds_def bus_log_snoc nth_list_update message_of_def)
  finally show "bus_holds n (rs @ [r]) (request_apply r bus)"
    using assms(1) by (simp add: bus_holds_def request_apply_def bus_produce_def Let_def)
qed

lemma bus_new_holds: "bus_holds (max n 1) [] (bus_new n)"
  by (simp add: bus_holds_def bus_new_def bus_log_def map_replicate_const)

lemma bus_requests_hold:
  assumes "bus_holds n rs bus" and "0 < n"
  shows "bus_holds n (rs @ rs') (fold request_apply rs' bus)"
  using assms(1)
proof (induction rs' arbitrary: rs bus)
  case Nil
  then show ?case by simp
next
  case (Cons r rs')
  from Cons.IH [OF bus_produce_holds(2) [OF Cons.prems assms(2), of r]] show ?case by simp
qed

lemma bus_consume_holds:
  assumes "bus_holds n rs bus"
  shows "bus_consume p from bus =
    (if p < n then Some (filter (\<lambda>m. key_partition n (bm_key m) = p \<and> bm_offset m \<ge> from) (bus_log rs))
     else None)"
  using assms by (auto simp: bus_consume_def bus_holds_def conj_commute)

text \<open>
  C25. The bus delivers in order. Give a new bus any \<open>produce\<close> calls. Consuming a partition from an
  offset returns exactly the messages of the calls whose key hashes to that partition, from that
  offset on, in call order: nothing is lost, duplicated or reordered, and messages with one key
  stay in one partition. The \<open>k\<close>-th call has offset \<open>k\<close>, so while fewer than \<open>2 ^ 64\<close> messages
  were produced the offsets of a partition strictly increase. Only a partition out of range
  panics.
\<close>

theorem bus_delivers_in_order:
  assumes "length rs \<le> 2 ^ 64"
  shows "let bus = fold request_apply rs (bus_new n); np = max n 1
         in bus_consume p from bus =
              (if p < np
               then Some (filter (\<lambda>m. key_partition np (bm_key m) = p \<and> bm_offset m \<ge> from) (bus_log rs))
               else None) \<and>
            sorted_wrt (\<lambda>m m'. bm_offset m < bm_offset m') (bus_log rs)"
proof -
  have "bus_holds (max n 1) rs (fold request_apply rs (bus_new n))"
    using bus_requests_hold [OF bus_new_holds, of n rs] by simp
  moreover have "sorted_wrt (\<lambda>m m'. bm_offset m < bm_offset m') (bus_log rs)"
  proof -
    have "(word_of_nat i :: u64) < word_of_nat j" if "i < j" "j < length rs" for i j
      using that assms by (simp add: word_less_nat_alt unat_of_nat)
    then show ?thesis
      by (auto simp: bus_log_def sorted_wrt_iff_nth_less message_of_def)
  qed
  ultimately show ?thesis by (simp add: Let_def bus_consume_holds)
qed

definition demo_request :: "string \<Rightarrow> produce_request" where
  "demo_request payload =
     \<lparr>pr_time = 0, pr_key = ''k'', pr_payload = payload, pr_producer = ''p'', pr_seq = 0\<rparr>"

theorem bus_delivers_in_order_witness:
  "map_option (map bm_payload) (bus_consume 0 1 (fold request_apply (map demo_request [''a'', ''b'', ''c'']) (bus_new 1))) =
     Some [''b'', ''c'']"
proof -
  have "length (map demo_request [''a'', ''b'', ''c'']) \<le> 2 ^ 64" by simp
  from bus_delivers_in_order [OF this, of 1 0 1] show ?thesis
    by (simp add: Let_def bus_log_def message_of_def key_partition_def demo_request_def numeral_2_eq_2)
qed

subsection \<open>Exactly once\<close>

record send_request =
  sr_time :: timestamp
  sr_key :: string
  sr_payload :: string
  sr_seq :: u64

definition ip_send ::
  "send_request \<Rightarrow> idempotent_producer \<times> event_bus \<Rightarrow> idempotent_producer \<times> event_bus"
where
  "ip_send r s = snd (ip_produce (sr_time r) (sr_key r) (sr_payload r) (sr_seq r) s)"

text \<open>The requests that carry a sequence number for the first time.\<close>

fun first_sends :: "u64 set \<Rightarrow> send_request list \<Rightarrow> send_request list" where
  "first_sends seen [] = []"
| "first_sends seen (r # rs) =
     (if sr_seq r \<in> seen then first_sends seen rs else r # first_sends (insert (sr_seq r) seen) rs)"

definition produced_as :: "string \<Rightarrow> send_request \<Rightarrow> produce_request" where
  "produced_as pid r =
     \<lparr>pr_time = sr_time r, pr_key = sr_key r, pr_payload = sr_payload r, pr_producer = pid,
      pr_seq = sr_seq r\<rparr>"

lemma first_sends_append:
  "first_sends seen (xs @ ys) = first_sends seen xs @ first_sends (seen \<union> sr_seq ` set xs) ys"
  by (induction xs arbitrary: seen) (auto simp: insert_absorb)

lemma first_sends_all_seen: "sr_seq ` set ys \<subseteq> seen \<Longrightarrow> first_sends seen ys = []"
  by (induction ys) auto

lemma first_sends_distinct:
  "distinct (map sr_seq (first_sends seen rs)) \<and> sr_seq ` set (first_sends seen rs) \<inter> seen = {} \<and>
   seen \<union> sr_seq ` set (first_sends seen rs) = seen \<union> sr_seq ` set rs"
  by (induction rs arbitrary: seen) (auto, blast+)

lemma ip_send_step:
  assumes "ip_acknowledged p = (\<lambda>sq. (ip_producer_id p, sq)) ` seen"
  shows "ip_send r (p, bus) =
    (if sr_seq r \<in> seen then (p, bus)
     else (acknowledge (ip_producer_id p) (sr_seq r) p, request_apply (produced_as (ip_producer_id p) r) bus))"
  using assms
  by (auto simp: ip_send_def ip_produce_def is_duplicate_def request_apply_def produced_as_def
      split: prod.splits)

lemma ip_sends:
  assumes "ip_acknowledged p = (\<lambda>sq. (ip_producer_id p, sq)) ` seen"
  shows "\<exists>p'. fold ip_send rs (p, bus) =
      (p', fold request_apply (map (produced_as (ip_producer_id p)) (first_sends seen rs)) bus) \<and>
    ip_producer_id p' = ip_producer_id p \<and>
    ip_acknowledged p' = (\<lambda>sq. (ip_producer_id p, sq)) ` (seen \<union> sr_seq ` set rs)"
  using assms
proof (induction rs arbitrary: p bus seen)
  case Nil
  then show ?case by simp
next
  case (Cons r rs)
  show ?case
  proof (cases "sr_seq r \<in> seen")
    case True
    with Cons.IH [OF Cons.prems, of bus] ip_send_step [OF Cons.prems, of r bus] show ?thesis
      by (auto simp: insert_absorb)
  next
    case False
    let ?p = "acknowledge (ip_producer_id p) (sr_seq r) p"
    have id: "ip_producer_id ?p = ip_producer_id p" by (simp add: acknowledge_def)
    have "ip_acknowledged ?p = (\<lambda>sq. (ip_producer_id ?p, sq)) ` insert (sr_seq r) seen"
      using Cons.prems by (simp add: acknowledge_def)
    from Cons.IH [OF this, of "request_apply (produced_as (ip_producer_id p) r) bus"]
    show ?thesis using False ip_send_step [OF Cons.prems, of r bus] id by auto
  qed
qed

text \<open>
  C26. The idempotent producer sends exactly once. However often requests are repeated, and in
  whatever order, the bus has received exactly the first request of each sequence number, in
  order; every sequence number sent is there once; and a further batch of retries of sequence
  numbers already sent leaves the bus as it is.
\<close>

theorem idempotent_producer_exactly_once:
  assumes "sr_seq ` set retries \<subseteq> sr_seq ` set rs"
  shows "let bus = snd (fold ip_send rs (ip_new pid, bus_new n))
         in snd (fold ip_send (rs @ retries) (ip_new pid, bus_new n)) = bus \<and>
            bus_holds (max n 1) (map (produced_as pid) (first_sends {} rs)) bus \<and>
            distinct (map sr_seq (first_sends {} rs)) \<and>
            sr_seq ` set (first_sends {} rs) = sr_seq ` set rs"
proof -
  have init: "ip_acknowledged (ip_new pid) = (\<lambda>sq. (ip_producer_id (ip_new pid), sq)) ` {}"
    by (simp add: ip_new_def)
  have run: "snd (fold ip_send xs (ip_new pid, bus_new n)) =
      fold request_apply (map (produced_as pid) (first_sends {} xs)) (bus_new n)" for xs
    using ip_sends [OF init, of xs "bus_new n"] by (auto simp: ip_new_def)
  have "first_sends {} (rs @ retries) = first_sends {} rs"
    using assms by (simp add: first_sends_append first_sends_all_seen)
  moreover have "bus_holds (max n 1) (map (produced_as pid) (first_sends {} rs))
      (fold request_apply (map (produced_as pid) (first_sends {} rs)) (bus_new n))"
    using bus_requests_hold [OF bus_new_holds] by fastforce
  ultimately show ?thesis
    unfolding Let_def run using first_sends_distinct [of "{}" rs] by simp
qed

theorem idempotent_producer_exactly_once_witness:
  "let r = \<lparr>sr_time = 0, sr_key = ''k'', sr_payload = ''x'', sr_seq = 1\<rparr>
   in snd (fold ip_send [r, r, r] (ip_new ''p'', bus_new 1)) = snd (fold ip_send [r] (ip_new ''p'', bus_new 1)) \<and>
      bus_holds 1 [produced_as ''p'' r] (snd (fold ip_send [r] (ip_new ''p'', bus_new 1)))"
  unfolding Let_def
  using idempotent_producer_exactly_once
    [of "[\<lparr>sr_time = 0, sr_key = ''k'', sr_payload = ''x'', sr_seq = 1\<rparr>, \<lparr>sr_time = 0, sr_key = ''k'', sr_payload = ''x'', sr_seq = 1\<rparr>]"
      "[\<lparr>sr_time = 0, sr_key = ''k'', sr_payload = ''x'', sr_seq = 1\<rparr>]" "''p''" 1]
  by (simp add: Let_def)

subsection \<open>Transactions and the wired bus\<close>

lemma produce_all_requests:
  "produce_all clk pid ms bus =
     (map (\<lambda>i. next_offset bus + word_of_nat i) [0..<length ms],
      fold request_apply (map (\<lambda>i. \<lparr>pr_time = clk i, pr_key = fst (ms ! i), pr_payload = snd (ms ! i),
        pr_producer = pid, pr_seq = 0\<rparr>) [0..<length ms]) bus)"
proof (induction ms arbitrary: clk bus)
  case Nil
  then show ?case by simp
next
  case (Cons m ms)
  obtain key payload where m: "m = (key, payload)" by (cases m)
  let ?r = "\<lparr>pr_time = clk 0, pr_key = key, pr_payload = payload, pr_producer = pid, pr_seq = 0\<rparr>"
  have one: "bus_produce (clk 0) key payload pid 0 bus = (next_offset bus, request_apply ?r bus)"
    by (simp add: request_apply_def bus_produce_def Let_def)
  have off: "next_offset (request_apply ?r bus) = next_offset bus + 1"
    by (simp add: request_apply_def bus_produce_def Let_def)
  show ?case
    using Cons [of "\<lambda>k. clk (Suc k)" "request_apply ?r bus"]
    by (simp add: m one off map_upt_Suc add.assoc del: upt_Suc)
qed

text \<open>
  Transactions of the wired bus. After \<open>begin\<close> and any sends, \<open>commit\<close> publishes exactly the
  sent messages, in order, under consecutive offsets, and ends the transaction; \<open>abort\<close> instead
  leaves the bus as it was, and a commit without a transaction in progress fails and publishes
  nothing. Sends outside a transaction are dropped.
\<close>

theorem transaction_all_or_nothing:
  "let sent = fold (\<lambda>(k, v). send_in_transaction k v) ms (begin_produce w)
   in (\<exists>w'. commit_produce clk sent =
            (Ok (map (\<lambda>i. next_offset (wb_bus w) + word_of_nat i) [0..<length ms]), w') \<and>
          wb_bus w' = fold request_apply
            (map (\<lambda>i. \<lparr>pr_time = clk i, pr_key = fst (ms ! i), pr_payload = snd (ms ! i),
               pr_producer = tp_producer_id (wb_transactional w), pr_seq = 0\<rparr>) [0..<length ms]) (wb_bus w) \<and>
          commit_produce clk w' = (Err ''No transaction in progress'', w')) \<and>
         wb_bus (abort_produce sent) = wb_bus w \<and>
         commit_produce clk (abort_produce sent) = (Err ''No transaction in progress'', abort_produce sent) \<and>
         send_in_transaction key payload (abort_produce sent) = abort_produce sent"
proof -
  have sends: "fold (\<lambda>(k, v). send_in_transaction k v) xs v =
      v\<lparr>wb_transactional := (wb_transactional v)\<lparr>tp_pending := tp_pending (wb_transactional v) @ xs\<rparr>\<rparr>"
    if "tp_in_transaction (wb_transactional v)" for xs v
    using that
  proof (induction xs arbitrary: v)
    case Nil
    then show ?case by simp
  next
    case (Cons x xs)
    then show ?case by (cases x) (simp add: send_in_transaction_def tp_send_def)
  qed
  have sent: "fold (\<lambda>(k, v). send_in_transaction k v) ms (begin_produce w) = (begin_produce w)\<lparr>wb_transactional :=
      (wb_transactional (begin_produce w))\<lparr>tp_pending := ms\<rparr>\<rparr>"
    by (subst sends) (simp_all add: begin_produce_def tp_begin_def)
  show ?thesis
    unfolding sent Let_def
    by (simp add: commit_produce_def tp_commit_def begin_produce_def tp_begin_def produce_all_requests
        abort_produce_def tp_abort_def send_in_transaction_def tp_send_def)
qed

text \<open>
  The wired bus does not deduplicate. \<open>produce_idempotent\<close> registers a new epoch and draws a
  new sequence number on every call, so on every state it succeeds, is never fenced out, and adds
  its message to the bus: a caller that retries a message publishes it again. Its messages carry
  the producer name \<open>default\<close>, not the name the bus was made for.
\<close>

theorem wired_retry_publishes_again:
  "\<exists>w'. produce_idempotent now key payload w =
      (Ok (ip_last_seq (wb_idempotent w) + 1, fence_epoch (wb_fencing w)), w') \<and>
    wb_bus w' = request_apply \<lparr>pr_time = now, pr_key = key, pr_payload = payload,
      pr_producer = ''default'', pr_seq = ip_last_seq (wb_idempotent w) + 1\<rparr> (wb_bus w) \<and>
    next_offset (wb_bus w') = next_offset (wb_bus w) + 1 \<and>
    fence_epoch (wb_fencing w') = fence_epoch (wb_fencing w) + 1 \<and>
    ip_last_seq (wb_idempotent w') = ip_last_seq (wb_idempotent w) + 1"
  by (simp add: produce_idempotent_def register_producer_def ip_next_sequence_def fence_is_valid_def
      bus_produce_def request_apply_def acknowledge_def Let_def)

end
