(* ===== verification/Event_Log.thy ===== *)
theory Event_Log
  imports Ledger_Prelude
begin

section \<open>Write-ahead log, event store and read model\<close>

text \<open>
  \<open>src/log/event_log.rs\<close>. The log file is the list of its lines. The \<open>serde_json\<close> package is a
  parameter: the text of a log entry and its parser (\<open>wal_codec\<close>), and the fields of a payload
  (\<open>payload_json\<close>, with the parser of the \<open>uuid\<close> package). Writing to the file is taken to
  succeed; the error paths of the file system are not modelled.
\<close>

record event =
  ev_id :: uuid
  ev_type :: string
  ev_aggregate_id :: uuid
  ev_payload :: string
  ev_aggregate_version :: u64
  ev_timestamp :: timestamp

definition event_new :: "uuid \<Rightarrow> timestamp \<Rightarrow> string \<Rightarrow> uuid \<Rightarrow> string \<Rightarrow> u64 \<Rightarrow> event" where
  "event_new i now event_type aggregate payload version =
     \<lparr>ev_id = i, ev_type = event_type, ev_aggregate_id = aggregate, ev_payload = payload,
      ev_aggregate_version = version, ev_timestamp = now\<rparr>"

subsection \<open>The write-ahead log\<close>

record wal_entry =
  wal_sequence :: u64
  wal_event :: event
  wal_checksum :: u64
  wal_timestamp :: timestamp

record wal_codec =
  entry_to_json :: "wal_entry \<Rightarrow> string"
  entry_from_json :: "string \<Rightarrow> wal_entry option"

definition crc64 :: "u8 list \<Rightarrow> u64" where
  "crc64 data = foldl (\<lambda>hash byte. hash * 31 + ucast byte) 0 data"

definition json_bytes :: "string \<Rightarrow> u8 list" where
  "json_bytes s = map (\<lambda>c. word_of_nat (of_char c)) s"

record wal =
  wal_lines :: "string list"
  wal_next :: u64

text \<open>Opening an existing file appends to it and starts the sequence at one again.\<close>

definition wal_create :: "string list \<Rightarrow> wal" where
  "wal_create existing = \<lparr>wal_lines = existing, wal_next = 1\<rparr>"

definition wal_append :: "wal_codec \<Rightarrow> timestamp \<Rightarrow> event \<Rightarrow> wal \<Rightarrow> u64 \<times> wal" where
  "wal_append js now ev w =
     (let sq = wal_next w;
          entry = \<lparr>wal_sequence = sq, wal_event = ev, wal_checksum = 0, wal_timestamp = now\<rparr>;
          checksum = crc64 (json_bytes (entry_to_json js entry));
          json = entry_to_json js (entry\<lparr>wal_checksum := checksum\<rparr>)
      in (sq, w\<lparr>wal_lines := wal_lines w @ [json], wal_next := sq + 1\<rparr>))"

record replay_result =
  replay_entries :: "wal_entry list"
  replay_corrupted :: nat

definition is_blank :: "string \<Rightarrow> bool" where
  "is_blank s = list_all (\<lambda>c. of_char c \<in> {9, 10, 11, 12, 13, 32 :: nat}) s"

definition replay_line :: "wal_codec \<Rightarrow> string \<Rightarrow> replay_result \<Rightarrow> replay_result" where
  "replay_line js line r =
     (if is_blank line then r
      else (case entry_from_json js line of
              None \<Rightarrow> r
            | Some entry \<Rightarrow>
                let stored_crc = wal_checksum entry;
                    recomputed = crc64 (json_bytes (entry_to_json js (entry\<lparr>wal_checksum := 0\<rparr>)))
                in if recomputed = stored_crc
                   then r\<lparr>replay_entries := replay_entries r @ [entry]\<rparr>
                   else r\<lparr>replay_corrupted := replay_corrupted r + 1\<rparr>))"

definition wal_replay :: "wal_codec \<Rightarrow> string list \<Rightarrow> replay_result" where
  "wal_replay js file_lines =
     fold (replay_line js) file_lines \<lparr>replay_entries = [], replay_corrupted = 0\<rparr>"

subsection \<open>The event store\<close>

record command =
  cmd_id :: uuid
  cmd_type :: string
  cmd_aggregate_id :: uuid
  cmd_payload :: string
  cmd_expected_version :: "u64 option"

record event_store =
  stored_events :: "event list"
  processed_commands :: "uuid set"

definition store_new :: event_store where
  "store_new = \<lparr>stored_events = [], processed_commands = {}\<rparr>"

definition command_is_duplicate :: "uuid \<Rightarrow> event_store \<Rightarrow> bool" where
  "command_is_duplicate cid s \<longleftrightarrow> cid \<in> processed_commands s"

definition store_append :: "event \<Rightarrow> uuid \<Rightarrow> event_store \<Rightarrow> event_store" where
  "store_append ev cid s =
     s\<lparr>processed_commands := insert cid (processed_commands s), stored_events := stored_events s @ [ev]\<rparr>"

definition events_for_aggregate :: "uuid \<Rightarrow> event_store \<Rightarrow> event list" where
  "events_for_aggregate aggregate s = filter (\<lambda>e. ev_aggregate_id e = aggregate) (stored_events s)"

definition process_command_idempotent ::
  "command \<Rightarrow> (command \<Rightarrow> event list) \<Rightarrow> event_store \<Rightarrow> event list \<times> event_store"
where
  "process_command_idempotent c handler s =
     (if command_is_duplicate (cmd_id c) s then (events_for_aggregate (cmd_aggregate_id c) s, s)
      else let events = handler c
           in (events, fold (\<lambda>e. store_append e (cmd_id c)) events s))"

subsection \<open>The read model\<close>

record 'j payload_json =
  parse_json :: "string \<Rightarrow> 'j option"
  field_str :: "'j \<Rightarrow> string \<Rightarrow> string option"
  field_i64 :: "'j \<Rightarrow> string \<Rightarrow> i64 option"
  parse_uuid :: "string \<Rightarrow> uuid option"

record projection =
  proj_account_id :: uuid
  proj_balance :: i64
  proj_total_credits :: i64
  proj_total_debits :: i64
  proj_transaction_count :: u64
  proj_last_updated :: timestamp

record read_model =
  model_accounts :: "uuid \<rightharpoonup> projection"
  total_system_balance :: i64

definition model_new :: read_model where
  "model_new = \<lparr>model_accounts = Map.empty, total_system_balance = 0\<rparr>"

definition event_account :: "'j payload_json \<Rightarrow> event \<Rightarrow> ('j \<times> uuid) option" where
  "event_account js ev =
     Option.bind (parse_json js (ev_payload ev)) (\<lambda>data.
     Option.bind (field_str js data ''account_id'') (\<lambda>id_str.
     Option.bind (parse_uuid js id_str) (\<lambda>i. Some (data, i))))"

definition event_amount :: "'j payload_json \<Rightarrow> 'j \<Rightarrow> i64" where
  "event_amount js data =
     (case field_i64 js data ''amount_cents'' of None \<Rightarrow> 0 | Some a \<Rightarrow> a)"

definition apply_deposit :: "i64 \<Rightarrow> uuid \<Rightarrow> event \<Rightarrow> read_model \<Rightarrow> read_model" where
  "apply_deposit amount i ev m =
     (case model_accounts m i of
        None \<Rightarrow> m
      | Some proj \<Rightarrow>
          let new_bal = sint (proj_balance proj) + sint amount;
              new_sys = sint (total_system_balance m) + sint amount
          in if \<not> i64_in_range new_bal then m
             else if \<not> i64_in_range new_sys then m
             else m\<lparr>model_accounts := (model_accounts m)(i \<mapsto>
                      proj\<lparr>proj_balance := word_of_int new_bal,
                           proj_total_credits := saturating_add_i64 (proj_total_credits proj) amount,
                           proj_transaction_count := proj_transaction_count proj + 1,
                           proj_last_updated := ev_timestamp ev\<rparr>),
                    total_system_balance := word_of_int new_sys\<rparr>)"

definition apply_withdrawal :: "i64 \<Rightarrow> uuid \<Rightarrow> event \<Rightarrow> read_model \<Rightarrow> read_model" where
  "apply_withdrawal amount i ev m =
     (case model_accounts m i of
        None \<Rightarrow> m
      | Some proj \<Rightarrow>
          let new_bal = sint (proj_balance proj) - sint amount;
              new_sys = sint (total_system_balance m) - sint amount
          in if \<not> i64_in_range new_bal then m
             else if \<not> i64_in_range new_sys then m
             else m\<lparr>model_accounts := (model_accounts m)(i \<mapsto>
                      proj\<lparr>proj_balance := word_of_int new_bal,
                           proj_total_debits := saturating_add_i64 (proj_total_debits proj) amount,
                           proj_transaction_count := proj_transaction_count proj + 1,
                           proj_last_updated := ev_timestamp ev\<rparr>),
                    total_system_balance := word_of_int new_sys\<rparr>)"

definition model_apply :: "'j payload_json \<Rightarrow> event \<Rightarrow> read_model \<Rightarrow> read_model" where
  "model_apply js ev m =
     (if ev_type ev = ''AccountCreated'' then
        (case event_account js ev of
           None \<Rightarrow> m
         | Some (_, i) \<Rightarrow>
             m\<lparr>model_accounts := (model_accounts m)(i \<mapsto>
                 \<lparr>proj_account_id = i, proj_balance = 0, proj_total_credits = 0,
                  proj_total_debits = 0, proj_transaction_count = 0,
                  proj_last_updated = ev_timestamp ev\<rparr>)\<rparr>)
      else if ev_type ev = ''FundsDeposited'' then
        (case event_account js ev of
           None \<Rightarrow> m
         | Some (data, i) \<Rightarrow>
             let amount = event_amount js data
             in if sint amount \<le> 0 then m else apply_deposit amount i ev m)
      else if ev_type ev = ''FundsWithdrawn'' then
        (case event_account js ev of
           None \<Rightarrow> m
         | Some (data, i) \<Rightarrow>
             let amount = event_amount js data
             in if sint amount \<le> 0 then m else apply_withdrawal amount i ev m)
      else m)"

definition rebuild :: "'j payload_json \<Rightarrow> event list \<Rightarrow> read_model" where
  "rebuild js events = fold (model_apply js) events model_new"

subsection \<open>Snapshots and the flush buffer\<close>

record snapshot =
  snap_aggregate_id :: uuid
  snap_version :: u64
  snap_state_json :: string
  snap_taken_at :: timestamp

record snapshot_store =
  snapshots :: "uuid \<rightharpoonup> snapshot"
  snap_frequency :: u64

definition snapshots_new :: "u64 \<Rightarrow> snapshot_store" where
  "snapshots_new freq = \<lparr>snapshots = Map.empty, snap_frequency = freq\<rparr>"

definition should_snapshot :: "u64 \<Rightarrow> snapshot_store \<Rightarrow> bool" where
  "should_snapshot version s \<longleftrightarrow>
     (if snap_frequency s = 0 then False else version mod snap_frequency s = 0)"

definition snapshot_save :: "snapshot \<Rightarrow> snapshot_store \<Rightarrow> snapshot_store" where
  "snapshot_save sn s = s\<lparr>snapshots := (snapshots s)(snap_aggregate_id sn \<mapsto> sn)\<rparr>"

definition snapshot_latest :: "uuid \<Rightarrow> snapshot_store \<Rightarrow> snapshot option" where
  "snapshot_latest aggregate s = snapshots s aggregate"

record flush_buffer =
  flush_pending :: "wal_entry list"
  flush_batch_size :: nat

definition flush_new :: "nat \<Rightarrow> flush_buffer" where
  "flush_new n = \<lparr>flush_pending = [], flush_batch_size = n\<rparr>"

definition flush_add :: "wal_entry \<Rightarrow> flush_buffer \<Rightarrow> wal_entry list option \<times> flush_buffer" where
  "flush_add e b =
     (let buf = flush_pending b @ [e]
      in if length buf \<ge> flush_batch_size b then (Some buf, b\<lparr>flush_pending := []\<rparr>)
         else (None, b\<lparr>flush_pending := buf\<rparr>))"

definition flush_remaining :: "flush_buffer \<Rightarrow> wal_entry list \<times> flush_buffer" where
  "flush_remaining b = (flush_pending b, b\<lparr>flush_pending := []\<rparr>)"

subsection \<open>Recovery from the log\<close>

definition sealed_entry :: "wal_codec \<Rightarrow> u64 \<Rightarrow> timestamp \<times> event \<Rightarrow> wal_entry" where
  "sealed_entry js sq te =
     (let entry = \<lparr>wal_sequence = sq, wal_event = snd te, wal_checksum = 0, wal_timestamp = fst te\<rparr>
      in entry\<lparr>wal_checksum := crc64 (json_bytes (entry_to_json js entry))\<rparr>)"

definition wal_write :: "wal_codec \<Rightarrow> timestamp \<times> event \<Rightarrow> wal \<Rightarrow> wal" where
  "wal_write js te w = snd (wal_append js (fst te) (snd te) w)"

definition sealed_from :: "wal_codec \<Rightarrow> u64 \<Rightarrow> (timestamp \<times> event) list \<Rightarrow> wal_entry list" where
  "sealed_from js sq tes = map (\<lambda>k. sealed_entry js (sq + word_of_nat k) (tes ! k)) [0..<length tes]"

lemma wal_write_unfold:
  "wal_write js te w =
     w\<lparr>wal_lines := wal_lines w @ [entry_to_json js (sealed_entry js (wal_next w) te)],
       wal_next := wal_next w + 1\<rparr>"
  by (simp add: wal_write_def wal_append_def sealed_entry_def Let_def)

lemma sealed_from_Cons:
  "sealed_from js sq (te # tes) = sealed_entry js sq te # sealed_from js (sq + 1) tes"
  by (simp add: sealed_from_def map_upt_Suc add.assoc del: upt_Suc)

lemma wal_writes:
  "fold (wal_write js) tes w =
     w\<lparr>wal_lines := wal_lines w @ map (entry_to_json js) (sealed_from js (wal_next w) tes),
       wal_next := wal_next w + word_of_nat (length tes)\<rparr>"
proof (induction tes arbitrary: w)
  case Nil
  then show ?case by (simp add: sealed_from_def)
next
  case (Cons te tes)
  then show ?case by (simp add: wal_write_unfold sealed_from_Cons add.assoc)
qed

lemma seal_checks:
  "(sealed_entry js sq te)\<lparr>wal_checksum := 0\<rparr> =
     \<lparr>wal_sequence = sq, wal_event = snd te, wal_checksum = 0, wal_timestamp = fst te\<rparr>"
  "wal_checksum (sealed_entry js sq te) =
     crc64 (json_bytes (entry_to_json js ((sealed_entry js sq te)\<lparr>wal_checksum := 0\<rparr>)))"
  by (simp_all add: sealed_entry_def Let_def)

lemma replay_sealed:
  assumes "\<And>e. entry_from_json js (entry_to_json js e) = Some e"
    and "\<And>e. \<not> is_blank (entry_to_json js e)"
    and "\<And>e. e \<in> set es \<Longrightarrow> wal_checksum e = crc64 (json_bytes (entry_to_json js (e\<lparr>wal_checksum := 0\<rparr>)))"
  shows "fold (replay_line js) (map (entry_to_json js) es) r =
    r\<lparr>replay_entries := replay_entries r @ es\<rparr>"
  using assms(3)
proof (induction es arbitrary: r)
  case Nil
  then show ?case by simp
next
  case (Cons e es)
  then show ?case by (simp add: replay_line_def assms(1,2) Let_def)
qed

lemma sealed_from_checks:
  "e \<in> set (sealed_from js sq tes) \<Longrightarrow>
   wal_checksum e = crc64 (json_bytes (entry_to_json js (e\<lparr>wal_checksum := 0\<rparr>)))"
  unfolding sealed_from_def by (auto simp: seal_checks)

text \<open>
  C27. Recovery. Write the events \<open>xs\<close> to a new log, reopen the file (a restart) and write \<open>ys\<close>:
  replay returns all of \<open>xs\<close> and then all of \<open>ys\<close>, each as written, and reports no corruption.
  Their sequence numbers, however, are \<open>1, 2, ...\<close> for each session: reopening restarts them, so
  they do not identify an entry across a restart. The hypotheses are the round trip of the JSON
  text and that it is not blank.
\<close>

theorem wal_replay_recovers:
  assumes "\<And>e. entry_from_json js (entry_to_json js e) = Some e"
    and "\<And>e. \<not> is_blank (entry_to_json js e)"
  shows "let w1 = fold (wal_write js) xs (wal_create []);
             w2 = fold (wal_write js) ys (wal_create (wal_lines w1));
             r = wal_replay js (wal_lines w2)
         in map (\<lambda>e. (wal_timestamp e, wal_event e)) (replay_entries r) = xs @ ys \<and>
            replay_corrupted r = 0 \<and>
            map wal_sequence (replay_entries r) =
              map (\<lambda>k. 1 + word_of_nat k) ([0..<length xs] @ [0..<length ys])"
proof -
  let ?es = "sealed_from js 1 xs @ sealed_from js 1 ys"
  have lines: "wal_lines (fold (wal_write js) ys (wal_create (wal_lines (fold (wal_write js) xs (wal_create []))))) =
      map (entry_to_json js) ?es"
    by (simp add: wal_writes wal_create_def)
  have replay: "wal_replay js (map (entry_to_json js) ?es) = \<lparr>replay_entries = ?es, replay_corrupted = 0\<rparr>"
  proof -
    have "wal_checksum e = crc64 (json_bytes (entry_to_json js (e\<lparr>wal_checksum := 0\<rparr>)))"
      if "e \<in> set ?es" for e using that sealed_from_checks [of e js 1] by auto
    from replay_sealed [where es = ?es and r = "\<lparr>replay_entries = [], replay_corrupted = 0\<rparr>", OF assms this]
    show ?thesis unfolding wal_replay_def by simp
  qed
  have "map (\<lambda>e. (wal_timestamp e, wal_event e)) (sealed_from js 1 zs) = zs" for zs
    by (rule nth_equalityI) (simp_all add: sealed_from_def sealed_entry_def Let_def)
  moreover have "map wal_sequence (sealed_from js 1 zs) = map (\<lambda>k. 1 + word_of_nat k) [0..<length zs]" for zs
    by (simp add: sealed_from_def sealed_entry_def Let_def)
  ultimately show ?thesis unfolding Let_def lines replay by simp
qed

text \<open>A concrete codec, for instantiating the hypotheses: a prefix-free code of the fields.\<close>

definition enc_nat :: "nat \<Rightarrow> string" where "enc_nat n = replicate n (CHR ''a'') @ ''b''"
definition enc_str :: "string \<Rightarrow> string" where "enc_str s = enc_nat (length s) @ s"
definition enc_int :: "int \<Rightarrow> string" where "enc_int i = enc_nat (nat i) @ enc_nat (nat (- i))"

lemma enc_nat_inject [simp]: "enc_nat m @ x = enc_nat n @ y \<longleftrightarrow> m = n \<and> x = y"
proof (induction m arbitrary: n)
  case 0
  then show ?case by (cases n) (auto simp: enc_nat_def)
next
  case (Suc m)
  then show ?case by (cases n) (auto simp: enc_nat_def)
qed

lemma enc_str_inject [simp]: "enc_str s @ x = enc_str u @ y \<longleftrightarrow> s = u \<and> x = y"
  by (auto simp: enc_str_def)

lemma enc_int_inject [simp]: "enc_int i @ x = enc_int j @ y \<longleftrightarrow> i = j \<and> x = y"
  by (auto simp: enc_int_def)

definition demo_text :: "wal_entry \<Rightarrow> string" where
  "demo_text e =
     enc_nat (unat (wal_sequence e)) @ enc_nat (unat (wal_checksum e)) @ enc_int (wal_timestamp e) @
     enc_nat (unat (ev_id (wal_event e))) @ enc_str (ev_type (wal_event e)) @
     enc_nat (unat (ev_aggregate_id (wal_event e))) @ enc_str (ev_payload (wal_event e)) @
     enc_nat (unat (ev_aggregate_version (wal_event e))) @ enc_int (ev_timestamp (wal_event e)) @ []"

lemma demo_text_inj: "inj demo_text"
  by (rule injI, simp only: demo_text_def enc_nat_inject enc_str_inject enc_int_inject)
    (auto simp: word_unat_eq_iff intro!: wal_entry.equality event.equality)

lemma demo_text_not_blank: "\<not> is_blank (demo_text e)"
  by (cases "unat (wal_sequence e)") (simp_all add: demo_text_def enc_nat_def is_blank_def)

definition demo_codec :: wal_codec where
  "demo_codec = \<lparr>entry_to_json = demo_text, entry_from_json = (\<lambda>s. Some (inv demo_text s))\<rparr>"

theorem wal_replay_recovers_witness:
  "let w = fold (wal_write demo_codec) [(5, event_new 1 2 ''FundsDeposited'' 3 ''{}'' 1)] (wal_create []);
       r = wal_replay demo_codec (wal_lines w)
   in map wal_sequence (replay_entries r) = [1] \<and> replay_corrupted r = 0"
  using wal_replay_recovers [of demo_codec "[(5, event_new 1 2 ''FundsDeposited'' 3 ''{}'' 1)]" "[]"]
  by (simp add: demo_codec_def demo_text_inj demo_text_not_blank Let_def wal_create_def)

subsection \<open>Commands run once\<close>

lemma fold_store_append:
  "fold (\<lambda>e. store_append e cid) es s =
     s\<lparr>processed_commands := (if es = [] then processed_commands s else insert cid (processed_commands s)),
       stored_events := stored_events s @ es\<rparr>"
  by (induction es arbitrary: s) (simp_all add: store_append_def)

text \<open>
  Commands. Submit a command twice. When its handler produced events the first time, the
  second submission leaves the store unchanged, whatever the handler is now, and returns the
  events of the aggregate, which are the earlier events of that aggregate followed by those of
  the command that belong to it. When the handler produced no event the command is not recorded,
  and the second submission runs the handler again on the unchanged store.
\<close>

theorem command_runs_once:
  assumes "cmd_id c \<notin> processed_commands s"
  shows "case process_command_idempotent c handler s of (r1, s1) \<Rightarrow>
     r1 = handler c \<and> stored_events s1 = stored_events s @ handler c \<and>
     process_command_idempotent c handler' s1 =
       (if handler c = [] then (handler' c, fold (\<lambda>e. store_append e (cmd_id c)) (handler' c) s)
        else (events_for_aggregate (cmd_aggregate_id c) s @
                filter (\<lambda>e. ev_aggregate_id e = cmd_aggregate_id c) (handler c), s1))"
  using assms
  by (auto simp: process_command_idempotent_def command_is_duplicate_def fold_store_append
      events_for_aggregate_def Let_def)

definition demo_command :: command where
  "demo_command = \<lparr>cmd_id = 9, cmd_type = ''Deposit'', cmd_aggregate_id = 3, cmd_payload = ''{}'',
     cmd_expected_version = None\<rparr>"

theorem command_runs_once_witness:
  "let e = event_new 1 2 ''FundsDeposited'' 3 ''{}'' 1;
       (r1, s1) = process_command_idempotent demo_command (\<lambda>_. [e]) store_new
   in process_command_idempotent demo_command (\<lambda>_. [e, e]) s1 = ([e], s1)"
  using command_runs_once [where c = demo_command and s = store_new
      and handler = "\<lambda>_. [event_new 1 2 ''FundsDeposited'' 3 ''{}'' 1]"
      and handler' = "\<lambda>_. [event_new 1 2 ''FundsDeposited'' 3 ''{}'' 1, event_new 1 2 ''FundsDeposited'' 3 ''{}'' 1]"]
  by (simp add: Let_def store_new_def demo_command_def events_for_aggregate_def event_new_def
      split: prod.splits)

subsection \<open>The total of the read model\<close>

definition balances_total :: "read_model \<Rightarrow> int" where
  "balances_total m = map_total (\<lambda>p. sint (proj_balance p)) (model_accounts m)"

text \<open>The balance that an \<open>AccountCreated\<close> event for an account that exists overwrites.\<close>

definition overwritten :: "'j payload_json \<Rightarrow> event \<Rightarrow> read_model \<Rightarrow> int" where
  "overwritten js ev m =
     (if ev_type ev = ''AccountCreated'' then
        (case event_account js ev of
           None \<Rightarrow> 0
         | Some (_, i) \<Rightarrow>
             (case model_accounts m i of None \<Rightarrow> 0 | Some p \<Rightarrow> sint (proj_balance p)))
      else 0)"

fun overwritten_total :: "'j payload_json \<Rightarrow> event list \<Rightarrow> read_model \<Rightarrow> int" where
  "overwritten_total js [] m = 0"
| "overwritten_total js (e # es) m = overwritten js e m + overwritten_total js es (model_apply js e m)"

lemma deposit_total:
  assumes "finite (dom (model_accounts m))"
  shows "sint (total_system_balance (apply_deposit a i ev m)) - balances_total (apply_deposit a i ev m) =
      sint (total_system_balance m) - balances_total m"
    and "dom (model_accounts (apply_deposit a i ev m)) = dom (model_accounts m)"
  using assms
  by (auto simp: apply_deposit_def Let_def balances_total_def map_total_update sint_add_i64 split: option.split)

lemma withdrawal_total:
  assumes "finite (dom (model_accounts m))"
  shows "sint (total_system_balance (apply_withdrawal a i ev m)) - balances_total (apply_withdrawal a i ev m) =
      sint (total_system_balance m) - balances_total m"
    and "dom (model_accounts (apply_withdrawal a i ev m)) = dom (model_accounts m)"
  using assms
  by (auto simp: apply_withdrawal_def Let_def balances_total_def map_total_update sint_sub_i64 split: option.split)

lemma model_apply_total:
  assumes "finite (dom (model_accounts m))"
  shows "sint (total_system_balance (model_apply js ev m)) - balances_total (model_apply js ev m) =
      sint (total_system_balance m) - balances_total m + overwritten js ev m \<and>
    finite (dom (model_accounts (model_apply js ev m)))"
proof (cases "ev_type ev = ''AccountCreated''")
  case True
  show ?thesis
  proof (cases "event_account js ev")
    case None
    with True assms show ?thesis by (simp add: model_apply_def overwritten_def)
  next
    case (Some di)
    obtain data i where di: "di = (data, i)" by (cases di)
    show ?thesis
      using True Some assms
      by (cases "model_accounts m i")
        (simp_all add: di model_apply_def overwritten_def balances_total_def map_total_insert map_total_update)
  qed
next
  case False
  then show ?thesis
    using assms deposit_total [OF assms] withdrawal_total [OF assms]
    by (auto simp: model_apply_def overwritten_def Let_def split: option.split)
qed

lemma rebuild_total:
  assumes "finite (dom (model_accounts m))"
  shows "sint (total_system_balance (fold (model_apply js) es m)) - balances_total (fold (model_apply js) es m) =
    sint (total_system_balance m) - balances_total m + overwritten_total js es m"
  using assms
proof (induction es arbitrary: m)
  case Nil
  then show ?case by simp
next
  case (Cons e es)
  from model_apply_total [OF Cons.prems, of js e] Cons.IH [of "model_apply js e m"] show ?case by simp
qed

text \<open>The accounts that the events create, in order.\<close>

fun created :: "'j payload_json \<Rightarrow> event list \<Rightarrow> uuid list" where
  "created js [] = []"
| "created js (e # es) =
     (case event_account js e of
        Some (_, i) \<Rightarrow> (if ev_type e = ''AccountCreated'' then [i] else []) @ created js es
      | None \<Rightarrow> created js es)"

lemma model_apply_dom:
  "dom (model_accounts (model_apply js e m)) \<subseteq> dom (model_accounts m) \<union> set (created js [e])"
  by (auto simp: model_apply_def apply_deposit_def apply_withdrawal_def Let_def split: option.splits if_splits)

lemma overwritten_total_zero:
  assumes "distinct (created js es)" and "set (created js es) \<inter> dom (model_accounts m) = {}"
  shows "overwritten_total js es m = 0"
  using assms
proof (induction es arbitrary: m)
  case Nil
  then show ?case by simp
next
  case (Cons e es)
  have split: "created js (e # es) = created js [e] @ created js es"
    by (simp split: option.split)
  have "overwritten js e m = 0"
    using Cons.prems(2) by (auto simp: overwritten_def split: option.splits)
  moreover have "set (created js es) \<inter> dom (model_accounts (model_apply js e m)) = {}"
    using Cons.prems model_apply_dom [of js e m] unfolding split distinct_append set_append by blast
  moreover have "distinct (created js es)" using Cons.prems(1) unfolding split distinct_append by blast
  ultimately show ?case using Cons.IH [of "model_apply js e m"] by simp
qed

text \<open>
  The total of the read model. After replaying any events, the system total is the sum of
  the projected balances plus the balances that were lost because an \<open>AccountCreated\<close> event
  arrived for an account that already existed: such an event resets the account to zero and
  leaves the total. When no account is created twice the two agree exactly, whatever deposits
  and withdrawals were applied or skipped.
\<close>

theorem read_model_total_agrees:
  "sint (total_system_balance (rebuild js es)) =
     balances_total (rebuild js es) + overwritten_total js es model_new \<and>
   (distinct (created js es) \<longrightarrow>
     sint (total_system_balance (rebuild js es)) = balances_total (rebuild js es))"
proof -
  have "sint (total_system_balance (rebuild js es)) - balances_total (rebuild js es) =
      overwritten_total js es model_new"
    using rebuild_total [of model_new js es]
    by (simp add: rebuild_def model_new_def balances_total_def map_total_empty)
  moreover have "distinct (created js es) \<Longrightarrow> overwritten_total js es model_new = 0"
    by (rule overwritten_total_zero) (simp_all add: model_new_def)
  ultimately show ?thesis by auto
qed

definition demo_payload :: "string payload_json" where
  "demo_payload = \<lparr>parse_json = Some, field_str = (\<lambda>_ _. Some ''7''), field_i64 = (\<lambda>_ _. Some 100),
     parse_uuid = (\<lambda>s. Some (word_of_nat (read_digit s)))\<rparr>"

theorem read_model_total_agrees_witness:
  "sint (total_system_balance (rebuild demo_payload
      [event_new 1 0 ''AccountCreated'' 7 ''{}'' 1, event_new 2 0 ''FundsDeposited'' 7 ''{}'' 2])) =
   balances_total (rebuild demo_payload
      [event_new 1 0 ''AccountCreated'' 7 ''{}'' 1, event_new 2 0 ''FundsDeposited'' 7 ''{}'' 2])"
  using read_model_total_agrees [of demo_payload
      "[event_new 1 0 ''AccountCreated'' 7 ''{}'' 1, event_new 2 0 ''FundsDeposited'' 7 ''{}'' 2]"]
  by (simp add: event_account_def demo_payload_def event_new_def)

subsection \<open>The flush buffer loses nothing\<close>

fun flush_adds :: "wal_entry list \<Rightarrow> flush_buffer \<Rightarrow> wal_entry list \<times> flush_buffer" where
  "flush_adds [] b = ([], b)"
| "flush_adds (e # es) b =
     (case flush_add e b of
        (out, b1) \<Rightarrow> (case flush_adds es b1 of
          (rest, b2) \<Rightarrow> ((case out of None \<Rightarrow> [] | Some batch \<Rightarrow> batch) @ rest, b2)))"

lemma flush_adds_all:
  "case flush_adds es b of (out, b') \<Rightarrow> out @ fst (flush_remaining b') = flush_pending b @ es"
proof (induction es arbitrary: b)
  case Nil
  then show ?case by (simp add: flush_remaining_def)
next
  case (Cons e es)
  from Cons [of "snd (flush_add e b)"] show ?case
    by (auto simp: flush_add_def flush_remaining_def Let_def split: prod.splits)
qed

end
