(* ===== verification/Rbac.thy ===== *)
theory Rbac
  imports Ledger_Prelude
begin

section \<open>Role-based access control\<close>

text \<open>
  \<open>src/rbac.rs\<close>: the roles, permissions and bindings, the decision functions, and the banking
  helpers. The request headers are the map of their values; the parser of identifiers (package
  \<open>uuid\<close>) and the test that a header value is text (package \<open>http\<close>) are arguments. The JSON export
  and the printed matrix are in theory Api_Views.
\<close>

datatype role = Admin | Auditor | Teller | Customer | System | Compliance

datatype permission =
    ReadAnyAccount | ReadOwnAccount | CreateAccount | UpdateAccountStatus | CloseAccount
  | InitiateTransfer | InitiateOwnTransfer | ViewAnyTransaction | ViewOwnTransaction
  | ViewAuditLog | VerifyChainIntegrity | ExportAuditReport | ViewTrialBalance
  | ManageUsers | ManageRoles | ConfigureLimits | ViewSystemMetrics
  | RedactPii | ExportUserData | GenerateSarReport
  | SagaOrchestrate | AutoReconcile | CronJob

record rbac_engine =
  role_bindings :: "uuid \<rightharpoonup> role set"
  role_permissions :: "role \<rightharpoonup> permission set"

definition banking_permissions :: "role \<rightharpoonup> permission set" where
  "banking_permissions r = Some
     (case r of
        Admin \<Rightarrow>
          {ReadAnyAccount, CreateAccount, UpdateAccountStatus, CloseAccount, InitiateTransfer,
           ViewAnyTransaction, ViewAuditLog, VerifyChainIntegrity, ExportAuditReport,
           ViewTrialBalance, ManageUsers, ManageRoles, ConfigureLimits, ViewSystemMetrics,
           RedactPii, ExportUserData, GenerateSarReport}
      | Auditor \<Rightarrow>
          {ReadAnyAccount, ViewAnyTransaction, ViewAuditLog, VerifyChainIntegrity,
           ExportAuditReport, ViewTrialBalance}
      | Teller \<Rightarrow>
          {ReadAnyAccount, CreateAccount, InitiateTransfer, ViewAnyTransaction, ViewAuditLog,
           VerifyChainIntegrity, ViewTrialBalance}
      | Customer \<Rightarrow> {ReadOwnAccount, InitiateOwnTransfer, ViewOwnTransaction}
      | System \<Rightarrow> {ReadAnyAccount, InitiateTransfer, SagaOrchestrate, AutoReconcile, CronJob}
      | Compliance \<Rightarrow>
          {ReadAnyAccount, ViewAnyTransaction, ViewAuditLog, VerifyChainIntegrity,
           ExportAuditReport, RedactPii, ExportUserData, GenerateSarReport})"

definition rbac_new :: rbac_engine where
  "rbac_new = \<lparr>role_bindings = Map.empty, role_permissions = banking_permissions\<rparr>"

definition roles_for :: "uuid \<Rightarrow> rbac_engine \<Rightarrow> role set" where
  "roles_for subject e = (case role_bindings e subject of None \<Rightarrow> {} | Some rs \<Rightarrow> rs)"

definition rbac_bind :: "uuid \<Rightarrow> role \<Rightarrow> rbac_engine \<Rightarrow> rbac_engine" where
  "rbac_bind subject r e =
     e\<lparr>role_bindings := (role_bindings e)(subject \<mapsto> insert r (roles_for subject e))\<rparr>"

definition rbac_unbind :: "uuid \<Rightarrow> role \<Rightarrow> rbac_engine \<Rightarrow> rbac_engine" where
  "rbac_unbind subject r e =
     (case role_bindings e subject of
        None \<Rightarrow> e
      | Some rs \<Rightarrow> e\<lparr>role_bindings := (role_bindings e)(subject \<mapsto> rs - {r})\<rparr>)"

definition can :: "uuid \<Rightarrow> permission \<Rightarrow> rbac_engine \<Rightarrow> bool" where
  "can subject p e \<longleftrightarrow>
     (\<exists>r \<in> roles_for subject e.
        (case role_permissions e r of None \<Rightarrow> False | Some perms \<Rightarrow> p \<in> perms))"

definition can_all :: "uuid \<Rightarrow> permission list \<Rightarrow> rbac_engine \<Rightarrow> bool" where
  "can_all subject ps e = list_all (\<lambda>p. can subject p e) ps"

definition can_any :: "uuid \<Rightarrow> permission list \<Rightarrow> rbac_engine \<Rightarrow> bool" where
  "can_any subject ps e = list_ex (\<lambda>p. can subject p e) ps"

definition permissions_for :: "uuid \<Rightarrow> rbac_engine \<Rightarrow> permission set" where
  "permissions_for subject e =
     (\<Union>r \<in> roles_for subject e. case role_permissions e r of None \<Rightarrow> {} | Some perms \<Rightarrow> perms)"

definition subjects_with_role :: "role \<Rightarrow> rbac_engine \<Rightarrow> uuid set" where
  "subjects_with_role r e =
     {s. case role_bindings e s of None \<Rightarrow> False | Some rs \<Rightarrow> r \<in> rs}"

definition extract_subject ::
  "('v \<Rightarrow> string option) \<Rightarrow> (string \<Rightarrow> uuid option) \<Rightarrow> (string \<rightharpoonup> 'v) \<Rightarrow> uuid option"
where
  "extract_subject to_str parse_id headers =
     Option.bind (headers ''x-subject-id'') (\<lambda>v. Option.bind (to_str v) parse_id)"

record authz_error =
  authz_required :: permission
  authz_reason :: string

definition onboard_customer :: "uuid \<Rightarrow> rbac_engine \<Rightarrow> uuid \<times> rbac_engine" where
  "onboard_customer customer_id e = (customer_id, rbac_bind customer_id Customer e)"

text \<open>
  A temporary grant: the expiry \<open>Instant::now() + Duration\<close> is computed, so that a duration past the
  range of the clock panics (\<open>None\<close> of \<open>add_secs\<close>), and dropped; the subject is bound before.
\<close>

definition grant_temporary_audit ::
  "(timestamp \<Rightarrow> u64 \<Rightarrow> timestamp option) \<Rightarrow> timestamp \<Rightarrow> uuid \<Rightarrow> u64 \<Rightarrow> rbac_engine \<Rightarrow>
   unit option \<times> rbac_engine"
where
  "grant_temporary_audit add_secs now subject duration_seconds e =
     (map_option (\<lambda>_. ()) (add_secs now duration_seconds), rbac_bind subject Auditor e)"

definition revoke_temporary_audit :: "uuid \<Rightarrow> rbac_engine \<Rightarrow> rbac_engine" where
  "revoke_temporary_audit subject e = rbac_unbind subject Auditor e"

definition check_sod :: "uuid \<Rightarrow> uuid \<Rightarrow> (unit, authz_error) result" where
  "check_sod requester approver =
     (if requester = approver
      then Err \<lparr>authz_required = InitiateTransfer,
                authz_reason = ''Segregation of duties: requester cannot be approver''\<rparr>
      else Ok ())"

subsection \<open>What the engine decides\<close>

datatype rbac_call = CallBind uuid role | CallUnbind uuid role

fun rbac_apply :: "rbac_call \<Rightarrow> rbac_engine \<Rightarrow> rbac_engine" where
  "rbac_apply (CallBind s r) e = rbac_bind s r e"
| "rbac_apply (CallUnbind s r) e = rbac_unbind s r e"

text \<open>The roles of a subject after the calls: the last call on a role decides.\<close>

fun bound_after :: "rbac_call list \<Rightarrow> uuid \<Rightarrow> role \<Rightarrow> bool \<Rightarrow> bool" where
  "bound_after [] s r b = b"
| "bound_after (CallBind s' r' # cs) s r b = bound_after cs s r (s' = s \<and> r' = r \<or> b)"
| "bound_after (CallUnbind s' r' # cs) s r b = bound_after cs s r (\<not> (s' = s \<and> r' = r) \<and> b)"

lemma roles_for_bind: "roles_for s (rbac_bind s' r e) = (if s = s' then insert r (roles_for s e) else roles_for s e)"
  by (simp add: roles_for_def rbac_bind_def)

lemma roles_for_unbind: "roles_for s (rbac_unbind s' r e) = (if s = s' then roles_for s e - {r} else roles_for s e)"
  by (simp add: roles_for_def rbac_unbind_def split: option.split)

lemma role_permissions_apply: "role_permissions (rbac_apply c e) = role_permissions e"
  by (cases c) (simp_all add: rbac_bind_def rbac_unbind_def split: option.split)

lemma role_permissions_run: "role_permissions (fold rbac_apply cs e) = role_permissions e"
  by (induction cs arbitrary: e) (simp_all add: role_permissions_apply)

lemma bound_after_run: "r \<in> roles_for s (fold rbac_apply cs e) \<longleftrightarrow> bound_after cs s r (r \<in> roles_for s e)"
proof (induction cs arbitrary: e)
  case Nil
  then show ?case by simp
next
  case (Cons c cs)
  show ?case
  proof (cases c)
    case (CallBind s' r')
    have "r \<in> roles_for s (rbac_bind s' r' e) \<longleftrightarrow> s' = s \<and> r' = r \<or> r \<in> roles_for s e"
      by (auto simp: roles_for_bind)
    with Cons [of "rbac_bind s' r' e"] CallBind show ?thesis by simp
  next
    case (CallUnbind s' r')
    have "r \<in> roles_for s (rbac_unbind s' r' e) \<longleftrightarrow> \<not> (s' = s \<and> r' = r) \<and> r \<in> roles_for s e"
      by (auto simp: roles_for_unbind)
    with Cons [of "rbac_unbind s' r' e"] CallUnbind show ?thesis by simp
  qed
qed

lemma can_iff_permission: "can s p e \<longleftrightarrow> p \<in> permissions_for s e"
  by (auto simp: can_def permissions_for_def split: option.splits)

text \<open>
  C40. Authorization. After any binding and unbinding calls, a subject has a permission exactly
  when some role whose last call for that subject was a binding grants it; the list decisions and
  the effective permission set agree with that. Redaction of personal data is held exactly by
  administrators and compliance, account-status changes by administrators alone; and no set of
  roles without \<open>System\<close> and \<open>Customer\<close>, administrators included, ever holds the internal or the
  own-account permissions.
\<close>

theorem authorization_decides:
  "let e = fold rbac_apply cs rbac_new; bound = (\<lambda>r. bound_after cs s r False)
   in (can s p e \<longleftrightarrow> (\<exists>r. bound r \<and> p \<in> the (banking_permissions r))) \<and>
      permissions_for s e = {q. can s q e} \<and>
      can_all s ps e = list_all (\<lambda>q. q \<in> permissions_for s e) ps \<and>
      can_any s ps e = list_ex (\<lambda>q. q \<in> permissions_for s e) ps \<and>
      (can s RedactPii e \<longleftrightarrow> bound Admin \<or> bound Compliance) \<and>
      (can s UpdateAccountStatus e \<longleftrightarrow> bound Admin) \<and>
      (can s SagaOrchestrate e \<longleftrightarrow> bound System) \<and>
      (can s ReadOwnAccount e \<longleftrightarrow> bound Customer)"
proof -
  let ?e = "fold rbac_apply cs rbac_new" and ?bound = "\<lambda>r. bound_after cs s r False"
  have none: "roles_for s rbac_new = {}" by (simp add: roles_for_def rbac_new_def)
  have roles: "r \<in> roles_for s ?e \<longleftrightarrow> ?bound r" for r
    using bound_after_run [of r s cs rbac_new] by (simp add: none)
  have perms: "role_permissions ?e = banking_permissions"
    by (simp add: role_permissions_run) (simp add: rbac_new_def)
  have can: "can s q ?e \<longleftrightarrow> (\<exists>r. ?bound r \<and> q \<in> the (banking_permissions r))" for q
    unfolding can_def perms using roles by (auto simp: banking_permissions_def)
  have special: "RedactPii \<in> the (banking_permissions r) \<longleftrightarrow> r = Admin \<or> r = Compliance"
    "UpdateAccountStatus \<in> the (banking_permissions r) \<longleftrightarrow> r = Admin"
    "SagaOrchestrate \<in> the (banking_permissions r) \<longleftrightarrow> r = System"
    "ReadOwnAccount \<in> the (banking_permissions r) \<longleftrightarrow> r = Customer" for r
    by (cases r; simp add: banking_permissions_def)+
  show ?thesis
    unfolding Let_def using can special can_iff_permission [of s _ ?e]
    by (auto simp: can_all_def can_any_def)
qed

text \<open>
  A temporary audit grant that is revoked takes the auditor role away for good, also from a
  subject who was an auditor before the grant.
\<close>

lemma temporary_audit_removes_role:
  "roles_for s (revoke_temporary_audit s (snd (grant_temporary_audit add_secs now s secs e))) =
   roles_for s e - {Auditor}"
  by (auto simp: revoke_temporary_audit_def grant_temporary_audit_def roles_for_bind roles_for_unbind)

end
