(* ===== verification/Identity.thy ===== *)
theory Identity
  imports Ledger_Prelude
begin

section \<open>Parties and identifiers\<close>

text \<open>
  \<open>src/domain/party.rs\<close>, \<open>src/domain/identifier.rs\<close> and \<open>src/service/identity_service.rs\<close>: the
  parties, their versioned identifiers, and the service that adds and replaces identifiers.
\<close>

datatype party_type =
    Individual | Corporation | Trust | GovernmentAgency | FinancialInstitution
  | OtherParty string

datatype party_status = PartyActive | PartySuspended | PartyClosed

record party =
  party_id :: uuid
  party_type_of :: party_type
  party_legal_name :: string
  party_created_at :: timestamp
  party_status_of :: party_status

definition party_new :: "uuid \<Rightarrow> timestamp \<Rightarrow> party_type \<Rightarrow> string \<Rightarrow> party" where
  "party_new i now ty name =
     \<lparr>party_id = i, party_type_of = ty, party_legal_name = name, party_created_at = now,
      party_status_of = PartyActive\<rparr>"

datatype identifier_type =
    NationalId | PassportNumber | TaxIdentificationNumber | BusinessRegistrationNumber
  | DriversLicense | Email | Phone | OtherIdentifier string

datatype identifier_status =
  IdentifierActive | IdentifierInactive | IdentifierExpired | PendingVerification

record party_identifier =
  ident_id :: uuid
  ident_party :: uuid
  ident_type :: identifier_type
  ident_value :: string
  ident_country :: "string option"
  ident_from :: timestamp
  ident_to :: "timestamp option"
  ident_status :: identifier_status
  ident_replaces :: "uuid option"
  ident_verified_at :: "timestamp option"

definition identifier_new ::
  "uuid \<Rightarrow> timestamp \<Rightarrow> uuid \<Rightarrow> identifier_type \<Rightarrow> string \<Rightarrow> string option \<Rightarrow> timestamp option \<Rightarrow> party_identifier"
where
  "identifier_new i now p ty value_text country until =
     \<lparr>ident_id = i, ident_party = p, ident_type = ty, ident_value = value_text,
      ident_country = country, ident_from = now, ident_to = until,
      ident_status = PendingVerification, ident_replaces = None, ident_verified_at = None\<rparr>"

definition identifier_verify :: "timestamp \<Rightarrow> party_identifier \<Rightarrow> party_identifier" where
  "identifier_verify now d = d\<lparr>ident_status := IdentifierActive, ident_verified_at := Some now\<rparr>"

definition replace_with ::
  "uuid \<Rightarrow> timestamp \<Rightarrow> timestamp \<Rightarrow> string \<Rightarrow> party_identifier \<Rightarrow> party_identifier \<times> party_identifier"
where
  "replace_with i now1 now2 new_value d =
     ((identifier_new i now1 (ident_party d) (ident_type d) new_value (ident_country d) (ident_to d))
        \<lparr>ident_replaces := Some (ident_id d), ident_status := IdentifierActive,
         ident_verified_at := Some now2\<rparr>,
      d\<lparr>ident_status := IdentifierInactive\<rparr>)"

subsection \<open>The service\<close>

record identity_service =
  parties :: "uuid \<rightharpoonup> party"
  identifiers :: "uuid \<rightharpoonup> party_identifier"
  party_identifiers :: "uuid \<rightharpoonup> uuid list"

datatype identity_error = PartyNotFound uuid | PartyNotActive uuid | IdentifierNotFound uuid

definition identity_new :: identity_service where
  "identity_new = \<lparr>parties = Map.empty, identifiers = Map.empty, party_identifiers = Map.empty\<rparr>"

definition create_party ::
  "uuid \<Rightarrow> timestamp \<Rightarrow> party_type \<Rightarrow> string \<Rightarrow> identity_service \<Rightarrow> party \<times> identity_service"
where
  "create_party i now ty name s =
     (let p = party_new i now ty name in (p, s\<lparr>parties := (parties s)(party_id p \<mapsto> p)\<rparr>))"

definition ids_of :: "uuid \<Rightarrow> identity_service \<Rightarrow> uuid list" where
  "ids_of p s = (case party_identifiers s p of None \<Rightarrow> [] | Some ids \<Rightarrow> ids)"

definition push_id :: "uuid \<Rightarrow> uuid \<Rightarrow> identity_service \<Rightarrow> identity_service" where
  "push_id p i s = s\<lparr>party_identifiers := (party_identifiers s)(p \<mapsto> ids_of p s @ [i])\<rparr>"

definition add_identifier ::
  "uuid \<Rightarrow> timestamp \<Rightarrow> uuid \<Rightarrow> identifier_type \<Rightarrow> string \<Rightarrow> string option \<Rightarrow> identity_service \<Rightarrow>
   (party_identifier, identity_error) result \<times> identity_service"
where
  "add_identifier i now p ty value_text country s =
     (case parties s p of
        None \<Rightarrow> (Err (PartyNotFound p), s)
      | Some party \<Rightarrow>
          if party_status_of party \<noteq> PartyActive then (Err (PartyNotActive p), s)
          else let d = identifier_new i now p ty value_text country None
               in (Ok d, push_id p (ident_id d)
                           (s\<lparr>identifiers := (identifiers s)(ident_id d \<mapsto> d)\<rparr>)))"

definition replace_identifier ::
  "uuid \<Rightarrow> timestamp \<Rightarrow> timestamp \<Rightarrow> uuid \<Rightarrow> string \<Rightarrow> identity_service \<Rightarrow>
   (party_identifier, identity_error) result \<times> identity_service"
where
  "replace_identifier i now1 now2 old_id new_value s =
     (case identifiers s old_id of
        None \<Rightarrow> (Err (IdentifierNotFound old_id), s)
      | Some old \<Rightarrow>
          let (replacement, old') = replace_with i now1 now2 new_value old
          in (Ok replacement,
              push_id (ident_party replacement) (ident_id replacement)
                (s\<lparr>identifiers := (identifiers s)(old_id \<mapsto> old', ident_id replacement \<mapsto> replacement)\<rparr>)))"

definition get_active_identifiers :: "uuid \<Rightarrow> identity_service \<Rightarrow> party_identifier list" where
  "get_active_identifiers p s =
     (case party_identifiers s p of
        None \<Rightarrow> []
      | Some ids \<Rightarrow> filter (\<lambda>d. ident_status d = IdentifierActive)
                      (List.map_filter (identifiers s) ids))"

definition get_party :: "uuid \<Rightarrow> identity_service \<Rightarrow> party option" where
  "get_party p s = parties s p"

subsection \<open>The history is kept\<close>

datatype identity_call =
    CallCreateParty uuid timestamp party_type string
  | CallAddIdentifier uuid timestamp uuid identifier_type string "string option"
  | CallReplaceIdentifier uuid timestamp timestamp uuid string

fun identity_apply :: "identity_call \<Rightarrow> identity_service \<Rightarrow> identity_service" where
  "identity_apply (CallCreateParty i now ty name) s = snd (create_party i now ty name s)"
| "identity_apply (CallAddIdentifier i now p ty v c) s = snd (add_identifier i now p ty v c s)"
| "identity_apply (CallReplaceIdentifier i n1 n2 oldid v) s = snd (replace_identifier i n1 n2 oldid v s)"

text \<open>The identifier a call draws, if it makes an identifier.\<close>

fun drawn_id :: "identity_call \<Rightarrow> uuid list" where
  "drawn_id (CallCreateParty i now ty name) = []"
| "drawn_id (CallAddIdentifier i now p ty v c) = [i]"
| "drawn_id (CallReplaceIdentifier i n1 n2 oldid v) = [i]"

definition replaces_ok :: "identity_service \<Rightarrow> party_identifier \<Rightarrow> bool" where
  "replaces_ok s d \<longleftrightarrow>
     (case ident_replaces d of
        None \<Rightarrow> True
      | Some r \<Rightarrow> (\<exists>x. identifiers s r = Some x \<and> ident_status x = IdentifierInactive \<and>
                    ident_party x = ident_party d \<and> ident_type x = ident_type d))"

definition identity_ok :: "identity_service \<Rightarrow> bool" where
  "identity_ok s \<longleftrightarrow>
     (\<forall>i d. identifiers s i = Some d \<longrightarrow>
        ident_id d = i \<and> i \<in> set (ids_of (ident_party d) s) \<and> replaces_ok s d) \<and>
     (\<forall>p i. i \<in> set (ids_of p s) \<longrightarrow> (\<exists>d. identifiers s i = Some d \<and> ident_party d = p)) \<and>
     (\<forall>p. distinct (ids_of p s))"

text \<open>What a later version of an identifier keeps of an earlier one: everything but the status.\<close>

definition same_identity :: "party_identifier \<Rightarrow> party_identifier \<Rightarrow> bool" where
  "same_identity d d' \<longleftrightarrow>
     d' = d\<lparr>ident_status := ident_status d'\<rparr> \<and>
     (ident_status d' = ident_status d \<or> ident_status d' = IdentifierInactive)"

definition history_kept :: "identity_service \<Rightarrow> identity_service \<Rightarrow> bool" where
  "history_kept s s' \<longleftrightarrow>
     (\<forall>i d. identifiers s i = Some d \<longrightarrow>
        (\<exists>d'. identifiers s' i = Some d' \<and> same_identity d d')) \<and>
     (\<forall>p. \<exists>more. ids_of p s' = ids_of p s @ more)"

lemma ids_of_push: "ids_of q (push_id p i s) = (if q = p then ids_of p s @ [i] else ids_of q s)"
  by (simp add: ids_of_def push_id_def)

lemma ids_of_identifiers [simp]: "ids_of p (s\<lparr>identifiers := m\<rparr>) = ids_of p s"
  by (simp add: ids_of_def)

lemma identifiers_push [simp]: "identifiers (push_id p i s) = identifiers s"
  by (simp add: push_id_def)

lemma same_identity_refl: "same_identity d d"
  by (simp add: same_identity_def)

lemma same_identity_trans: "same_identity d d' \<Longrightarrow> same_identity d' d'' \<Longrightarrow> same_identity d d''"
  by (cases d; cases d'; cases d'') (auto simp: same_identity_def)

lemma history_kept_refl: "history_kept s s"
  by (simp add: history_kept_def same_identity_refl)

lemma history_kept_trans:
  assumes "history_kept s s'" and "history_kept s' s''"
  shows "history_kept s s''"
proof -
  have "\<exists>more. ids_of p s'' = ids_of p s @ more" for p
  proof -
    obtain m1 where m1: "ids_of p s' = ids_of p s @ m1"
      using assms(1) unfolding history_kept_def by blast
    obtain m2 where "ids_of p s'' = ids_of p s' @ m2"
      using assms(2) unfolding history_kept_def by blast
    with m1 show ?thesis by simp
  qed
  moreover have "\<exists>d''. identifiers s'' i = Some d'' \<and> same_identity d d''" if "identifiers s i = Some d" for i d
  proof -
    obtain d' where d': "identifiers s' i = Some d'" "same_identity d d'"
      using assms(1) \<open>identifiers s i = Some d\<close> unfolding history_kept_def by blast
    obtain d'' where "identifiers s'' i = Some d''" "same_identity d' d''"
      using assms(2) d'(1) unfolding history_kept_def by blast
    with d'(2) show ?thesis by (blast intro: same_identity_trans)
  qed
  ultimately show ?thesis by (simp add: history_kept_def)
qed

lemma identity_okD:
  assumes "identity_ok s"
  shows "identifiers s i = Some d \<Longrightarrow> ident_id d = i"
    and "identifiers s i = Some d \<Longrightarrow> i \<in> set (ids_of (ident_party d) s)"
    and "identifiers s i = Some d \<Longrightarrow> replaces_ok s d"
    and "i \<in> set (ids_of p s) \<Longrightarrow> \<exists>d. identifiers s i = Some d \<and> ident_party d = p"
    and "distinct (ids_of p s)"
  using assms unfolding identity_ok_def by blast+

text \<open>A new identifier under a fresh number, and an old one made inactive.\<close>

lemma insert_identifier_ok:
  assumes ok: "identity_ok s" and fresh: "identifiers s i = None" and "ident_id d = i"
    and rep: "replaces_ok s d" and p: "ident_party d = p"
  shows "identity_ok (push_id p i (s\<lparr>identifiers := (identifiers s)(i \<mapsto> d)\<rparr>)) \<and>
    history_kept s (push_id p i (s\<lparr>identifiers := (identifiers s)(i \<mapsto> d)\<rparr>))"
proof -
  let ?s = "push_id p i (s\<lparr>identifiers := (identifiers s)(i \<mapsto> d)\<rparr>)"
  have unlisted: "i \<notin> set (ids_of q s)" for q using identity_okD(4) [OF ok, of i q] fresh by auto
  have rep': "replaces_ok ?s x" if "replaces_ok s x" for x
  proof (cases "ident_replaces x")
    case (Some r)
    with that have "r \<noteq> i" using fresh by (auto simp: replaces_ok_def)
    with Some that show ?thesis by (simp add: replaces_ok_def)
  qed (simp add: replaces_ok_def)
  have "identity_ok ?s"
    unfolding identity_ok_def
  proof (intro conjI allI impI)
    fix j x assume x: "identifiers ?s j = Some x"
    show "ident_id x = j" using x assms(3) identity_okD(1) [OF ok] by (auto split: if_splits)
    show "j \<in> set (ids_of (ident_party x) ?s)"
    proof (cases "j = i")
      case True
      with x p show ?thesis by (simp add: ids_of_push)
    next
      case False
      with x have "identifiers s j = Some x" by simp
      from identity_okD(2) [OF ok this] show ?thesis by (auto simp: ids_of_push)
    qed
    show "replaces_ok ?s x" using x rep rep' identity_okD(3) [OF ok] by (auto split: if_splits)
  next
    fix q j assume "j \<in> set (ids_of q ?s)"
    then show "\<exists>x. identifiers ?s j = Some x \<and> ident_party x = q"
      using identity_okD(4) [OF ok] unlisted p by (auto simp: ids_of_push split: if_splits)
  next
    fix q show "distinct (ids_of q ?s)"
      using identity_okD(5) [OF ok] unlisted by (simp add: ids_of_push)
  qed
  moreover have "history_kept s ?s"
    using fresh by (auto simp: history_kept_def ids_of_push same_identity_refl)
  ultimately show ?thesis by blast
qed

lemma inactivate_ok:
  assumes ok: "identity_ok s" and "identifiers s i = Some d"
  defines "s' \<equiv> s\<lparr>identifiers := (identifiers s)(i \<mapsto> d\<lparr>ident_status := IdentifierInactive\<rparr>)\<rparr>"
  shows "identity_ok s' \<and> history_kept s s'"
proof -
  have rep: "replaces_ok s x \<Longrightarrow> replaces_ok s' x" for x
    using assms(2) by (cases "ident_replaces x") (auto simp: replaces_ok_def s'_def)
  have rep_d: "replaces_ok s' (d\<lparr>ident_status := IdentifierInactive\<rparr>)"
    using rep [of d] identity_okD(3) [OF ok assms(2)] by (simp add: replaces_ok_def split: option.splits)
  have "identity_ok s'"
    unfolding identity_ok_def
  proof (intro conjI allI impI)
    fix j x assume x: "identifiers s' j = Some x"
    show "ident_id x = j" using x assms(2) identity_okD(1) [OF ok] by (auto simp: s'_def split: if_splits)
    show "j \<in> set (ids_of (ident_party x) s')"
      using x assms(2) identity_okD(2) [OF ok] by (auto simp: s'_def split: if_splits)
    show "replaces_ok s' x"
    proof (cases "j = i")
      case True
      with x rep_d show ?thesis by (simp add: s'_def)
    next
      case False
      with x have "identifiers s j = Some x" by (simp add: s'_def)
      then show ?thesis using rep identity_okD(3) [OF ok] by blast
    qed
  next
    fix q j assume "j \<in> set (ids_of q s')"
    then show "\<exists>x. identifiers s' j = Some x \<and> ident_party x = q"
      using identity_okD(4) [OF ok, of j q] assms(2) by (auto simp: s'_def)
  next
    fix q show "distinct (ids_of q s')" using identity_okD(5) [OF ok] by (simp add: s'_def)
  qed
  moreover have "history_kept s s'"
    using assms(2) by (auto simp: history_kept_def s'_def same_identity_def)
  ultimately show ?thesis by blast
qed

lemma identity_apply_ok:
  assumes ok: "identity_ok s" and fresh: "set (drawn_id c) \<inter> dom (identifiers s) = {}"
  shows "identity_ok (identity_apply c s) \<and> history_kept s (identity_apply c s) \<and>
    dom (identifiers (identity_apply c s)) \<subseteq> dom (identifiers s) \<union> set (drawn_id c)"
proof (cases c)
  case (CallCreateParty i now ty name)
  have "ids_of p (s\<lparr>parties := m\<rparr>) = ids_of p s" "replaces_ok (s\<lparr>parties := m\<rparr>) d = replaces_ok s d" for p m d
    by (simp_all add: ids_of_def replaces_ok_def split: option.split)
  then show ?thesis
    using ok by (simp add: CallCreateParty create_party_def Let_def identity_ok_def history_kept_def
        same_identity_refl)
next
  case (CallAddIdentifier i now p ty v country)
  let ?d = "identifier_new i now p ty v country None"
  have "identifiers s i = None" using fresh CallAddIdentifier by auto
  with insert_identifier_ok [OF ok this, of ?d p] ok show ?thesis
    by (auto simp: CallAddIdentifier add_identifier_def identifier_new_def replaces_ok_def Let_def
        history_kept_refl split: option.splits)
next
  case (CallReplaceIdentifier i n1 n2 oldid v)
  show ?thesis
  proof (cases "identifiers s oldid")
    case None
    then show ?thesis
      using ok by (auto simp: CallReplaceIdentifier replace_identifier_def history_kept_refl)
  next
    case (Some d)
    let ?s1 = "s\<lparr>identifiers := (identifiers s)(oldid \<mapsto> d\<lparr>ident_status := IdentifierInactive\<rparr>)\<rparr>"
    let ?r = "fst (replace_with i n1 n2 v d)"
    have ne: "i \<noteq> oldid" "identifiers ?s1 i = None"
      using fresh Some CallReplaceIdentifier by auto
    note s1 = inactivate_ok [OF ok Some]
    have "replaces_ok ?s1 ?r"
      using identity_okD(1) [OF ok Some] by (simp add: replaces_ok_def replace_with_def identifier_new_def)
    with insert_identifier_ok [OF conjunct1 [OF s1] ne(2), of ?r "ident_party d"]
    have "identity_ok (push_id (ident_party d) i (?s1\<lparr>identifiers := (identifiers ?s1)(i \<mapsto> ?r)\<rparr>)) \<and>
      history_kept ?s1 (push_id (ident_party d) i (?s1\<lparr>identifiers := (identifiers ?s1)(i \<mapsto> ?r)\<rparr>))"
      by (simp add: replace_with_def identifier_new_def)
    moreover have "identity_apply c s = push_id (ident_party d) i (?s1\<lparr>identifiers := (identifiers ?s1)(i \<mapsto> ?r)\<rparr>)"
      using Some by (simp add: CallReplaceIdentifier replace_identifier_def replace_with_def identifier_new_def Let_def)
    ultimately show ?thesis
      using history_kept_trans [OF conjunct2 [OF s1]] Some by (auto simp: CallReplaceIdentifier)
  qed
qed

lemma identity_run_ok:
  assumes "identity_ok s" and "distinct (concat (map drawn_id cs))"
    and "set (concat (map drawn_id cs)) \<inter> dom (identifiers s) = {}"
  shows "identity_ok (fold identity_apply cs s) \<and> history_kept s (fold identity_apply cs s) \<and>
    dom (identifiers (fold identity_apply cs s)) \<subseteq> dom (identifiers s) \<union> set (concat (map drawn_id cs))"
  using assms
proof (induction cs arbitrary: s)
  case Nil
  then show ?case by (simp add: history_kept_refl)
next
  case (Cons c cs)
  let ?s = "identity_apply c s"
  have c: "identity_ok ?s" "history_kept s ?s"
    "dom (identifiers ?s) \<subseteq> dom (identifiers s) \<union> set (drawn_id c)"
    using identity_apply_ok [OF Cons.prems(1), of c] Cons.prems(3) by auto
  have "set (concat (map drawn_id cs)) \<inter> dom (identifiers ?s) = {}"
    using Cons.prems(2,3) c(3) unfolding list.map concat.simps distinct_append set_append by blast
  with Cons.IH [OF c(1)] Cons.prems(2) have rest: "identity_ok (fold identity_apply cs ?s)"
    "history_kept ?s (fold identity_apply cs ?s)"
    "dom (identifiers (fold identity_apply cs ?s)) \<subseteq> dom (identifiers ?s) \<union> set (concat (map drawn_id cs))"
    by simp_all
  from rest(3) c(3) have "dom (identifiers (fold identity_apply cs ?s)) \<subseteq>
      dom (identifiers s) \<union> set (concat (map drawn_id (c # cs)))" by auto
  with rest(1) history_kept_trans [OF c(2) rest(2)] show ?case by simp
qed

text \<open>
  C30. Identifiers are versioned, never overwritten. Let any calls \<open>cs\<close> and then any calls \<open>ds\<close> run
  on a new service, each identifier number drawn once. Everything the service held after \<open>cs\<close> is
  there after \<open>ds\<close>, unchanged except that it may have become inactive, and each party's list has
  only grown; the lists contain exactly the party's identifiers, once each; and every identifier
  that replaces another points to an inactive one of the same party and type.
\<close>

theorem identifiers_never_overwritten:
  assumes "distinct (concat (map drawn_id (cs @ ds)))"
  shows "let s = fold identity_apply cs identity_new; s' = fold identity_apply (cs @ ds) identity_new
         in identity_ok s' \<and> history_kept s s'"
proof -
  have init: "identity_ok identity_new" "dom (identifiers identity_new) = {}"
    by (simp_all add: identity_ok_def identity_new_def ids_of_def)
  have cs: "identity_ok (fold identity_apply cs identity_new)"
    "dom (identifiers (fold identity_apply cs identity_new)) \<subseteq> set (concat (map drawn_id cs))"
    using identity_run_ok [OF init(1), of cs] assms by (simp_all add: init(2))
  have "set (concat (map drawn_id ds)) \<inter> dom (identifiers (fold identity_apply cs identity_new)) = {}"
    using cs(2) assms unfolding map_append concat_append distinct_append by blast
  with identity_run_ok [OF cs(1), of ds] assms show ?thesis by (simp add: Let_def)
qed

theorem identifiers_never_overwritten_witness:
  "let cs = [CallCreateParty 1 0 Individual ''Ann'', CallAddIdentifier 2 0 1 PassportNumber ''AB1'' None];
       ds = [CallReplaceIdentifier 3 1 1 2 ''AB2'']
   in history_kept (fold identity_apply cs identity_new) (fold identity_apply (cs @ ds) identity_new)"
  using identifiers_never_overwritten
    [of "[CallCreateParty 1 0 Individual ''Ann'', CallAddIdentifier 2 0 1 PassportNumber ''AB1'' None]"
      "[CallReplaceIdentifier 3 1 1 2 ''AB2'']"]
  by (simp add: Let_def)

text \<open>
  Replacing an identifier that is still pending, or one already inactive, also yields an active
  and verified replacement: the replacement does not look at the status of what it replaces.
\<close>

lemma replacement_is_verified:
  assumes "identifiers s oldid = Some d"
  shows "\<exists>r s'. replace_identifier i now1 now2 oldid v s = (Ok r, s') \<and>
    ident_status r = IdentifierActive \<and> ident_verified_at r = Some now2"
  using assms by (simp add: replace_identifier_def replace_with_def Let_def)

end
