(* ===== verification/Api.thy ===== *)
theory Api
  imports Ledger_Service Hash_Chain Resilience Rbac Identity
begin

section \<open>The REST API\<close>

text \<open>
  \<open>src/api/mod.rs\<close>: the application state and the handlers that change it, each as a whole,
  and the currencies of \<open>src/domain/money.rs\<close> that its answers name. Handlers run one at a time,
  in memory (\<open>store\<close> is \<open>None\<close>). The field \<open>ledger\<close> of the application state is never set and
  \<open>saga_service\<close> only read, so both are left out; the verdict of the rate limiter is an argument
  of \<open>rate_limited\<close> (theory Api_Contract puts the token bucket there). The JSON of the answers and
  the read-only handlers are in theory Api_Views. What a handler takes from packages (JSON text,
  decimal text, the Unicode case tables, the text of a \<open>uuid\<close>, the digest) is in \<open>api_env\<close>
  (\<open>ae_minor_text\<close> is defined, and shown not to panic, in theory Money), and
  what one request draws (instants and identifiers, in the order drawn) in \<open>call_ctx\<close>. An error
  answer keeps the value that its text prints. A panic is \<open>None\<close>.
\<close>

datatype json_value = JText string | JNumber u64

record api_env =
  ae_crypto :: crypto
  ae_entry_json :: "journal_entry \<Rightarrow> (string, string) result"
  ae_object_json :: "(string \<times> json_value) list \<Rightarrow> string"
  ae_show_uuid :: "uuid \<Rightarrow> string"
  ae_uppercase :: "string \<Rightarrow> string"
  ae_lowercase :: "string \<Rightarrow> string"
  ae_minor_text :: "i64 \<Rightarrow> u8 \<Rightarrow> string"

record call_ctx =
  utc :: "nat \<Rightarrow> timestamp"
  instant :: "nat \<Rightarrow> timestamp"
  fresh :: "nat \<Rightarrow> uuid"

subsection \<open>Currencies\<close>

record currency =
  currency_code :: string
  currency_name :: string
  minor_unit :: u8
  currency_symbol :: string
  numeric_code :: "16 word"

definition usd :: currency where
  "usd = \<lparr>currency_code = ''USD'', currency_name = ''US Dollar'', minor_unit = 2,
     currency_symbol = ''$'', numeric_code = 840\<rparr>"

definition eur :: currency where
  "eur = \<lparr>currency_code = ''EUR'', currency_name = ''Euro'', minor_unit = 2,
     currency_symbol = map char_of [226, 130, 172 :: nat], numeric_code = 978\<rparr>"

definition vnd :: currency where
  "vnd = \<lparr>currency_code = ''VND'', currency_name = ''Vietnamese Dong'', minor_unit = 0,
     currency_symbol = map char_of [226, 130, 171 :: nat], numeric_code = 704\<rparr>"

definition jpy :: currency where
  "jpy = \<lparr>currency_code = ''JPY'', currency_name = ''Japanese Yen'', minor_unit = 0,
     currency_symbol = map char_of [194, 165 :: nat], numeric_code = 392\<rparr>"

definition resolve_currency :: "api_env \<Rightarrow> string \<Rightarrow> currency" where
  "resolve_currency ev code =
     (let up = ae_uppercase ev code
      in if up = ''USD'' then usd else if up = ''EUR'' then eur
         else if up = ''VND'' then vnd else if up = ''JPY'' then jpy
         else \<lparr>currency_code = up, currency_name = code, minor_unit = 2, currency_symbol = code,
               numeric_code = 0\<rparr>)"

definition format_money :: "api_env \<Rightarrow> i64 \<Rightarrow> currency \<Rightarrow> string" where
  "format_money ev cents cur = ae_minor_text ev cents (minor_unit cur) @ '' '' @ currency_code cur"

definition decimal_from_minor :: "api_env \<Rightarrow> i64 \<Rightarrow> currency \<Rightarrow> string" where
  "decimal_from_minor ev cents cur = ae_minor_text ev cents (minor_unit cur)"

subsection \<open>State, requests and answers\<close>

record app_state =
  app_accounts :: registry
  app_metrics :: signals
  app_breaker :: breaker
  app_chain :: hash_chain
  app_journal :: "journal_entry list"
  app_journal_seq :: u64
  app_rbac :: rbac_engine
  app_identity :: identity_service

definition default_admin :: uuid where "default_admin = 1"

definition default_auditor :: uuid where "default_auditor = 2"

text \<open>Durations and instants are in nanoseconds.\<close>

definition app_new :: "api_env \<Rightarrow> timestamp \<Rightarrow> app_state" where
  "app_new ev now =
     \<lparr>app_accounts = service_new, app_metrics = signals_new 1000,
      app_breaker = breaker_new 10 (30 * 1000000000),
      app_chain = chain_new (ae_crypto ev) now (as_bytes ''banking-ledger-hmac-key-v1-32b''),
      app_journal = [], app_journal_seq = 0,
      app_rbac = rbac_bind default_auditor Auditor (rbac_bind default_admin Admin rbac_new),
      app_identity = identity_new\<rparr>"

datatype fault =
    InvalidAccountType
  | InvalidStatus
  | DebitFault debit_error
  | CreditFault credit_error
  | HoldFault hold_error
  | StatusFault account_status_error
  | JournalFault journal_error
  | SerializeFault string
  | ReversalFault journal_error
  | ReversalPostFault post_error
  | RedactionFault string
  | IdentityFault identity_error

datatype app_error = NotFound | BadRequest fault | ServiceUnavailable

record account_response =
  ar_id :: uuid
  ar_type :: account_type
  ar_currency :: string
  ar_balance :: i64
  ar_available :: i64
  ar_status :: account_status
  ar_formatted :: string
  ar_decimal :: string
  ar_symbol :: string
  ar_decimals :: u8

definition from_account :: "api_env \<Rightarrow> account \<Rightarrow> currency \<Rightarrow> account_response" where
  "from_account ev a cur =
     (let bal = balance_cents a
      in \<lparr>ar_id = acc_id a, ar_type = acc_type a, ar_currency = currency_code cur, ar_balance = bal,
          ar_available = available_balance_cents a, ar_status = acc_status a,
          ar_formatted = format_money ev bal cur, ar_decimal = decimal_from_minor ev bal cur,
          ar_symbol = currency_symbol cur, ar_decimals = minor_unit cur\<rparr>)"

record transfer_request =
  tr_from :: uuid
  tr_to :: uuid
  tr_amount :: i64
  tr_description :: "string option"

record transfer_response =
  tp_transaction_id :: uuid
  tp_journal_entry_id :: uuid
  tp_from_balance :: i64
  tp_to_balance :: i64
  tp_chain_index :: u64
  tp_chain_hash :: string
  tp_amount_formatted :: string
  tp_amount_decimal :: string

subsection \<open>Accounts\<close>

text \<open>The breaker in front of a handler: refused requests get no further.\<close>

definition guarded ::
  "call_ctx \<Rightarrow> (app_state \<Rightarrow> ('r, app_error) result \<times> app_state) \<Rightarrow> app_state \<Rightarrow>
   ('r, app_error) result \<times> app_state"
where
  "guarded cx handler s =
     (case allow_request (instant cx 0) (app_breaker s) of
        (allowed, b) \<Rightarrow>
          if allowed then handler (s\<lparr>app_breaker := b\<rparr>)
          else (Err ServiceUnavailable, s\<lparr>app_breaker := b\<rparr>))"

definition note_failure :: "call_ctx \<Rightarrow> app_state \<Rightarrow> app_state" where
  "note_failure cx s = s\<lparr>app_breaker := record_failure (instant cx 2) (app_breaker s)\<rparr>"

text \<open>\<open>instant cx 1\<close> is the start of the request.\<close>

definition note_success :: "call_ctx \<Rightarrow> app_state \<Rightarrow> app_state" where
  "note_success cx s =
     s\<lparr>app_metrics := record_request (instant cx 2 - instant cx 1) False (app_metrics s),
       app_breaker := record_success (app_breaker s)\<rparr>"

definition parse_account_type :: "api_env \<Rightarrow> string \<Rightarrow> account_type option" where
  "parse_account_type ev t =
     (let up = ae_uppercase ev t
      in if up = ''ASSET'' then Some Asset else if up = ''LIABILITY'' then Some Liability
         else if up = ''EQUITY'' then Some Equity else if up = ''REVENUE'' then Some Revenue
         else if up = ''EXPENSE'' then Some Expense else None)"

definition api_create_account ::
  "api_env \<Rightarrow> call_ctx \<Rightarrow> string \<Rightarrow> string \<Rightarrow> i64 \<Rightarrow> app_state \<Rightarrow>
   (account_response, app_error) result \<times> app_state"
where
  "api_create_account ev cx ty cur initial =
     guarded cx (\<lambda>s.
       case parse_account_type ev ty of
         None \<Rightarrow> (Err (BadRequest InvalidAccountType), s)
       | Some account_type \<Rightarrow>
           (case create_account (fresh cx 0) (utc cx 0) (utc cx 1) account_type cur initial None
                   (app_accounts s) of
              (account, svc) \<Rightarrow>
                (Ok (from_account ev account (resolve_currency ev cur)),
                 note_success cx (s\<lparr>app_accounts := svc\<rparr>))))"

definition api_get_account ::
  "api_env \<Rightarrow> call_ctx \<Rightarrow> uuid \<Rightarrow> app_state \<Rightarrow> (account_response, app_error) result \<times> app_state"
where
  "api_get_account ev cx i s =
     (case get_account i (app_accounts s) of
        None \<Rightarrow> (Err NotFound, s)
      | Some account \<Rightarrow>
          (Ok (from_account ev account (resolve_currency ev (acc_currency account))),
           s\<lparr>app_metrics := record_request (instant cx 2 - instant cx 1) False (app_metrics s)\<rparr>))"

text \<open>The end of the account handlers: read the account back, record the success, answer.\<close>

definition account_answer ::
  "(account \<Rightarrow> 'r) \<Rightarrow> call_ctx \<Rightarrow> uuid \<Rightarrow> app_state \<Rightarrow> ('r, app_error) result \<times> app_state"
where
  "account_answer answer cx i s =
     (case get_account i (app_accounts s) of
        None \<Rightarrow> (Err NotFound, s)
      | Some account \<Rightarrow> (Ok (answer account), note_success cx s))"

definition describe :: "api_env \<Rightarrow> account \<Rightarrow> account_response" where
  "describe ev account = from_account ev account (resolve_currency ev (acc_currency account))"

definition api_debit ::
  "api_env \<Rightarrow> call_ctx \<Rightarrow> uuid \<Rightarrow> i64 \<Rightarrow> app_state \<Rightarrow> (account_response, app_error) result \<times> app_state"
where
  "api_debit ev cx i amount =
     guarded cx (\<lambda>s.
       case perform_debit i amount (utc cx 0) (app_accounts s) of
         (Err e, svc) \<Rightarrow> (Err (BadRequest (DebitFault e)), note_failure cx (s\<lparr>app_accounts := svc\<rparr>))
       | (Ok _, svc) \<Rightarrow> account_answer (describe ev) cx i (s\<lparr>app_accounts := svc\<rparr>))"

definition api_credit ::
  "api_env \<Rightarrow> call_ctx \<Rightarrow> uuid \<Rightarrow> i64 \<Rightarrow> app_state \<Rightarrow> (account_response, app_error) result \<times> app_state"
where
  "api_credit ev cx i amount =
     guarded cx (\<lambda>s.
       case perform_credit i amount (utc cx 0) (app_accounts s) of
         (Err e, svc) \<Rightarrow> (Err (BadRequest (CreditFault e)), note_failure cx (s\<lparr>app_accounts := svc\<rparr>))
       | (Ok _, svc) \<Rightarrow> account_answer (describe ev) cx i (s\<lparr>app_accounts := svc\<rparr>))"

definition parse_status :: "api_env \<Rightarrow> string option \<Rightarrow> account_status option" where
  "parse_status ev t =
     (let up = ae_uppercase ev (case t of None \<Rightarrow> ''OPEN'' | Some x \<Rightarrow> x)
      in if up = ''OPEN'' then Some Open else if up = ''FROZEN'' then Some Frozen
         else if up = ''CLOSED'' then Some Closed else None)"

definition api_set_status ::
  "api_env \<Rightarrow> call_ctx \<Rightarrow> uuid \<Rightarrow> string option \<Rightarrow> app_state \<Rightarrow>
   (account_response, app_error) result \<times> app_state"
where
  "api_set_status ev cx i status_text =
     guarded cx (\<lambda>s.
       case parse_status ev status_text of
         None \<Rightarrow> (Err (BadRequest InvalidStatus), s)
       | Some new_status \<Rightarrow>
           (case service_set_status i new_status (utc cx 0) (app_accounts s) of
              (Err e, svc) \<Rightarrow>
                (Err (BadRequest (StatusFault e)), note_failure cx (s\<lparr>app_accounts := svc\<rparr>))
            | (Ok found, svc) \<Rightarrow>
                if found then account_answer (describe ev) cx i (s\<lparr>app_accounts := svc\<rparr>)
                else (Err NotFound, note_failure cx (s\<lparr>app_accounts := svc\<rparr>))))"

record hold_response =
  hr_id :: uuid
  hr_balance :: i64
  hr_available :: i64
  hr_amount :: i64

definition describe_hold :: "uuid \<Rightarrow> i64 \<Rightarrow> account \<Rightarrow> hold_response" where
  "describe_hold i amount account =
     \<lparr>hr_id = i, hr_balance = balance_cents account,
      hr_available = available_balance_cents account, hr_amount = amount\<rparr>"

definition api_place_hold ::
  "call_ctx \<Rightarrow> uuid \<Rightarrow> i64 \<Rightarrow> app_state \<Rightarrow> (hold_response, app_error) result \<times> app_state"
where
  "api_place_hold cx i amount =
     guarded cx (\<lambda>s.
       case service_place_hold i amount (app_accounts s) of
         (Err e, svc) \<Rightarrow> (Err (BadRequest (HoldFault e)), note_failure cx (s\<lparr>app_accounts := svc\<rparr>))
       | (Ok _, svc) \<Rightarrow> account_answer (describe_hold i amount) cx i (s\<lparr>app_accounts := svc\<rparr>))"

definition api_release_hold ::
  "call_ctx \<Rightarrow> uuid \<Rightarrow> i64 \<Rightarrow> app_state \<Rightarrow> (hold_response, app_error) result \<times> app_state"
where
  "api_release_hold cx i amount =
     guarded cx (\<lambda>s.
       case service_release_hold i amount (app_accounts s) of
         (Err e, svc) \<Rightarrow> (Err (BadRequest (HoldFault e)), note_failure cx (s\<lparr>app_accounts := svc\<rparr>))
       | (Ok _, svc) \<Rightarrow> account_answer (describe_hold i amount) cx i (s\<lparr>app_accounts := svc\<rparr>))"

subsection \<open>Transfers and reversals\<close>

text \<open>The second half of \<open>transfer\<close>: the balances, after the entry is in chain and journal.\<close>

definition settle_transfer ::
  "api_env \<Rightarrow> call_ctx \<Rightarrow> transfer_request \<Rightarrow> currency \<Rightarrow> hash_link \<Rightarrow> app_state \<Rightarrow>
   (transfer_response, app_error) result \<times> app_state"
where
  "settle_transfer ev cx req cur block s =
     (case perform_debit (tr_from req) (tr_amount req) (utc cx 2) (app_accounts s) of
        (Err e, svc) \<Rightarrow> (Err (BadRequest (DebitFault e)), note_failure cx (s\<lparr>app_accounts := svc\<rparr>))
      | (Ok _, svc1) \<Rightarrow>
          (case perform_credit (tr_to req) (tr_amount req) (utc cx 3) svc1 of
             (Err e, svc2) \<Rightarrow>
               (case perform_credit (tr_from req) (tr_amount req) (utc cx 4) svc2 of
                  (_, svc3) \<Rightarrow>
                    (Err (BadRequest (CreditFault e)), note_failure cx (s\<lparr>app_accounts := svc3\<rparr>)))
           | (Ok _, svc2) \<Rightarrow>
               (case (get_account (tr_from req) svc2, get_account (tr_to req) svc2) of
                  (Some from, Some to) \<Rightarrow>
                    (Ok \<lparr>tp_transaction_id = fresh cx 0, tp_journal_entry_id = fresh cx 1,
                         tp_from_balance = balance_cents from, tp_to_balance = balance_cents to,
                         tp_chain_index = link_index block, tp_chain_hash = link_hash block,
                         tp_amount_formatted = format_money ev (tr_amount req) cur,
                         tp_amount_decimal = decimal_from_minor ev (tr_amount req) cur\<rparr>,
                     note_success cx (s\<lparr>app_accounts := svc2\<rparr>))
                | _ \<Rightarrow> (Err NotFound, s\<lparr>app_accounts := svc2\<rparr>))))"

definition transfer_legs :: "transfer_request \<Rightarrow> entry_leg list" where
  "transfer_legs req = [leg_debit (tr_to req) (tr_amount req), leg_credit (tr_from req) (tr_amount req)]"

text \<open>The transfer behind the breaker, \<open>None\<close> if the append panics.\<close>

definition run_transfer ::
  "api_env \<Rightarrow> call_ctx \<Rightarrow> transfer_request \<Rightarrow> app_state \<Rightarrow>
   ((transfer_response, app_error) result \<times> app_state) option"
where
  "run_transfer ev cx req s =
     (case get_account (tr_from req) (app_accounts s) of
        None \<Rightarrow> Some (Err NotFound, s)
      | Some from_snapshot \<Rightarrow>
          let cur = resolve_currency ev (acc_currency from_snapshot);
              desc = (case tr_description req of None \<Rightarrow> ''Transfer'' | Some d \<Rightarrow> d);
              seq = app_journal_seq s + 1;
              s1 = s\<lparr>app_journal_seq := seq\<rparr>
          in (case entry_new (fresh cx 1) (utc cx 0) (fresh cx 0) seq (transfer_legs req) desc of
                Err e \<Rightarrow> Some (Err (BadRequest (JournalFault e)), s1)
              | Ok entry \<Rightarrow>
                  (case ae_entry_json ev entry of
                     Err e \<Rightarrow> Some (Err (BadRequest (SerializeFault e)), s1)
                   | Ok chain_data \<Rightarrow>
                       (case chain_append (ae_crypto ev) (utc cx 1) chain_data (app_chain s1) of
                          None \<Rightarrow> None
                        | Some (block, chain) \<Rightarrow>
                            Some (settle_transfer ev cx req cur block
                              (s1\<lparr>app_chain := chain, app_journal := app_journal s1 @ [entry]\<rparr>))))))"

definition api_transfer ::
  "api_env \<Rightarrow> call_ctx \<Rightarrow> transfer_request \<Rightarrow> app_state \<Rightarrow>
   ((transfer_response, app_error) result \<times> app_state) option"
where
  "api_transfer ev cx req s =
     (case allow_request (instant cx 0) (app_breaker s) of
        (allowed, b) \<Rightarrow>
          if allowed then run_transfer ev cx req (s\<lparr>app_breaker := b\<rparr>)
          else Some (Err ServiceUnavailable, s\<lparr>app_breaker := b\<rparr>))"

text \<open>Append one block of data, \<open>None\<close> on a panic.\<close>

definition append_block :: "api_env \<Rightarrow> timestamp \<Rightarrow> string \<Rightarrow> app_state \<Rightarrow> app_state option" where
  "append_block ev now data s =
     map_option (\<lambda>(_, chain). s\<lparr>app_chain := chain\<rparr>) (chain_append (ae_crypto ev) now data (app_chain s))"

definition api_reverse ::
  "api_env \<Rightarrow> call_ctx \<Rightarrow> uuid \<Rightarrow> app_state \<Rightarrow> ((journal_entry, app_error) result \<times> app_state) option"
where
  "api_reverse ev cx eid s =
     (case List.find (\<lambda>e. entry_id e = eid) (app_journal s) of
        None \<Rightarrow> Some (Err NotFound, s)
      | Some original \<Rightarrow>
          let seq = app_journal_seq s + 1; s1 = s\<lparr>app_journal_seq := seq\<rparr>
          in (case entry_reverse (ae_show_uuid ev) (fresh cx 1) (utc cx 0) original (fresh cx 0) seq of
                Err e \<Rightarrow> Some (Err (BadRequest (ReversalFault e)), s1)
              | Ok reversal \<Rightarrow>
                  (case post_legs registry_post (\<lambda>k. utc cx (k + 2)) (legs reversal) (app_accounts s1) of
                     (Err e, svc) \<Rightarrow>
                       Some (Err (BadRequest (ReversalPostFault e)), s1\<lparr>app_accounts := svc\<rparr>)
                   | (Ok _, svc) \<Rightarrow>
                       map_option (\<lambda>s2. (Ok reversal, s2\<lparr>app_journal := app_journal s2 @ [reversal]\<rparr>))
                         (append_block ev (utc cx 1)
                            (ae_object_json ev
                               [(''action'', JText ''journal_reversal''),
                                (''entry_id'', JText (ae_show_uuid ev (entry_id reversal))),
                                (''reverses'', JText (ae_show_uuid ev eid)),
                                (''description'', JText (description reversal)),
                                (''sequence'', JNumber seq)])
                            (s1\<lparr>app_accounts := svc\<rparr>)))))"

subsection \<open>Audit trail, transactions and chart\<close>

record redact_response =
  rr_index :: u64
  rr_head :: string
  rr_length :: nat

definition api_redact ::
  "api_env \<Rightarrow> u64 \<Rightarrow> app_state \<Rightarrow> (redact_response, app_error) result \<times> app_state"
where
  "api_redact ev index s =
     (case redact_block (ae_crypto ev) index (app_chain s) of
        (Err e, chain) \<Rightarrow> (Err (BadRequest (RedactionFault e)), s\<lparr>app_chain := chain\<rparr>)
      | (Ok new_head, chain) \<Rightarrow>
          (Ok \<lparr>rr_index = index, rr_head = new_head, rr_length = chain_len chain\<rparr>,
           s\<lparr>app_chain := chain\<rparr>))"

definition api_commit_transaction ::
  "api_env \<Rightarrow> call_ctx \<Rightarrow> uuid \<Rightarrow> app_state \<Rightarrow> (uuid \<times> app_state) option"
where
  "api_commit_transaction ev cx txn s =
     map_option (Pair txn)
       (append_block ev (utc cx 0)
          (ae_object_json ev [(''action'', JText ''transaction_commit''),
                              (''transaction_id'', JText (ae_show_uuid ev txn))]) s)"

definition api_reject_transaction ::
  "api_env \<Rightarrow> call_ctx \<Rightarrow> uuid \<Rightarrow> app_state \<Rightarrow> (uuid \<times> app_state) option"
where
  "api_reject_transaction ev cx txn s =
     map_option (Pair txn)
       (append_block ev (utc cx 0)
          (ae_object_json ev [(''action'', JText ''transaction_reject''),
                              (''transaction_id'', JText (ae_show_uuid ev txn))]) s)"

definition api_create_transaction :: "call_ctx \<Rightarrow> string \<Rightarrow> transaction" where
  "api_create_transaction cx reference = transaction_new (fresh cx 0) (utc cx 0) reference"

definition api_coa_deactivate ::
  "api_env \<Rightarrow> call_ctx \<Rightarrow> uuid \<Rightarrow> app_state \<Rightarrow> ((uuid, app_error) result \<times> app_state) option"
where
  "api_coa_deactivate ev cx i s =
     (case service_set_status i Closed (utc cx 0) (app_accounts s) of
        (Err e, svc) \<Rightarrow> Some (Err (BadRequest (StatusFault e)), s\<lparr>app_accounts := svc\<rparr>)
      | (Ok found, svc) \<Rightarrow>
          if found
          then map_option (Pair (Ok i))
                 (append_block ev (utc cx 1) (''coa_deactivate:'' @ ae_show_uuid ev i)
                    (s\<lparr>app_accounts := svc\<rparr>))
          else Some (Err NotFound, s\<lparr>app_accounts := svc\<rparr>))"

definition api_verify_chain ::
  "api_env \<Rightarrow> app_state \<Rightarrow> ((bool \<times> u64 list) \<times> nat) option"
where
  "api_verify_chain ev s =
     map_option (\<lambda>r. (r, chain_len (app_chain s))) (verify_chain (ae_crypto ev) (app_chain s))"

definition api_chain_proof :: "u64 \<Rightarrow> app_state \<Rightarrow> (chain_proof, app_error) result" where
  "api_chain_proof index s =
     (case proof_for_block index (app_chain s) of None \<Rightarrow> Err NotFound | Some p \<Rightarrow> Ok p)"

text \<open>Per account the debits, the credits and their wrapping difference.\<close>

definition api_trial_balance :: "app_state \<Rightarrow> (uuid \<rightharpoonup> i64 \<times> i64 \<times> i64)" where
  "api_trial_balance s = map_option (\<lambda>(debits, credits). (debits, credits, debits - credits))
     \<circ> trial_balance (app_journal s)"

definition api_entries_for_account :: "uuid \<Rightarrow> app_state \<Rightarrow> journal_entry list" where
  "api_entries_for_account i s = for_account (app_journal s) i"

definition api_validate_entries :: "app_state \<Rightarrow> bool \<times> nat \<times> uuid list" where
  "api_validate_entries s =
     (case validate_all (app_journal s) of (valid, invalid) \<Rightarrow> (valid, length (app_journal s), invalid))"

subsection \<open>Authorization\<close>

definition require_permission ::
  "uuid option \<Rightarrow> permission \<Rightarrow> app_state \<Rightarrow> (uuid, permission \<times> uuid) result"
where
  "require_permission subject_header perm s =
     (let subject = (case subject_header of None \<Rightarrow> default_admin | Some i \<Rightarrow> i)
      in if can subject perm (app_rbac s) then Ok subject else Err (perm, subject))"

datatype authz_failure = Forbidden permission uuid | UnknownRole string

definition parse_role :: "api_env \<Rightarrow> string \<Rightarrow> role option" where
  "parse_role ev t =
     (let low = ae_lowercase ev t
      in if low = ''admin'' then Some Admin else if low = ''auditor'' then Some Auditor
         else if low = ''teller'' then Some Teller else if low = ''customer'' then Some Customer
         else if low = ''system'' then Some System else if low = ''compliance'' then Some Compliance
         else None)"

definition api_bind_role ::
  "api_env \<Rightarrow> uuid option \<Rightarrow> uuid \<Rightarrow> string \<Rightarrow> app_state \<Rightarrow>
   (permission set, authz_failure) result \<times> app_state"
where
  "api_bind_role ev subject_header subject role_text s =
     (case require_permission subject_header ManageRoles s of
        Err (perm, i) \<Rightarrow> (Err (Forbidden perm i), s)
      | Ok _ \<Rightarrow>
          (case parse_role ev role_text of
             None \<Rightarrow> (Err (UnknownRole role_text), s)
           | Some r \<Rightarrow>
               let engine = rbac_bind subject r (app_rbac s)
               in (Ok (permissions_for subject engine), s\<lparr>app_rbac := engine\<rparr>)))"

definition api_subject_roles ::
  "uuid option \<Rightarrow> uuid \<Rightarrow> app_state \<Rightarrow> (role set \<times> permission set, authz_failure) result"
where
  "api_subject_roles subject_header subject s =
     (case require_permission subject_header ManageRoles s of
        Err (perm, i) \<Rightarrow> Err (Forbidden perm i)
      | Ok _ \<Rightarrow> Ok (roles_for subject (app_rbac s), permissions_for subject (app_rbac s)))"

subsection \<open>Parties and identifiers\<close>

definition parse_party_type :: "api_env \<Rightarrow> string \<Rightarrow> party_type" where
  "parse_party_type ev t =
     (let low = ae_lowercase ev t
      in if low = ''individual'' then Individual else if low = ''corporation'' then Corporation
         else if low = ''trust'' then Trust else if low = ''government'' then GovernmentAgency
         else if low = ''financial'' then FinancialInstitution else OtherParty low)"

definition api_create_party ::
  "api_env \<Rightarrow> call_ctx \<Rightarrow> string \<Rightarrow> string \<Rightarrow> app_state \<Rightarrow> uuid \<times> app_state"
where
  "api_create_party ev cx ty name s =
     (case create_party (fresh cx 0) (utc cx 0) (parse_party_type ev ty) name (app_identity s) of
        (p, svc) \<Rightarrow> (party_id p, s\<lparr>app_identity := svc\<rparr>))"

definition parse_identifier_type :: "api_env \<Rightarrow> string \<Rightarrow> identifier_type" where
  "parse_identifier_type ev t =
     (let low = ae_lowercase ev t
      in if low = ''national_id'' then NationalId else if low = ''passport'' then PassportNumber
         else if low = ''drivers_license'' then DriversLicense
         else if low = ''tax_id'' then TaxIdentificationNumber
         else if low = ''business_reg'' then BusinessRegistrationNumber
         else if low = ''email'' then Email else if low = ''phone'' then Phone
         else OtherIdentifier low)"

definition api_add_identifier ::
  "api_env \<Rightarrow> call_ctx \<Rightarrow> uuid \<Rightarrow> string \<Rightarrow> string \<Rightarrow> string option \<Rightarrow> app_state \<Rightarrow>
   (party_identifier, app_error) result \<times> app_state"
where
  "api_add_identifier ev cx p ty text country s =
     (case add_identifier (fresh cx 0) (utc cx 0) p (parse_identifier_type ev ty) text country
             (app_identity s) of
        (Err e, svc) \<Rightarrow> (Err (BadRequest (IdentityFault e)), s\<lparr>app_identity := svc\<rparr>)
      | (Ok d, svc) \<Rightarrow> (Ok d, s\<lparr>app_identity := svc\<rparr>))"

text \<open>
  The scan over the parties in the order \<open>ps\<close> the map yields them: the first active identifier
  with the given number.
\<close>

definition find_active :: "uuid list \<Rightarrow> uuid \<Rightarrow> identity_service \<Rightarrow> party_identifier option" where
  "find_active ps i svc =
     List.find (\<lambda>d. ident_id d = i) (concat (map (\<lambda>p. get_active_identifiers p svc) ps))"

definition api_verify_identifier ::
  "call_ctx \<Rightarrow> uuid list \<Rightarrow> uuid \<Rightarrow> app_state \<Rightarrow> (party_identifier, app_error) result \<times> app_state"
where
  "api_verify_identifier cx ps i s =
     (case find_active ps i (app_identity s) of
        None \<Rightarrow> (Err NotFound, s)
      | Some d \<Rightarrow>
          (case replace_identifier (fresh cx 0) (utc cx 0) (utc cx 1) i (ident_value d) (app_identity s) of
             (Err e, svc) \<Rightarrow> (Err (BadRequest (IdentityFault e)), s\<lparr>app_identity := svc\<rparr>)
           | (Ok verified, svc) \<Rightarrow> (Ok verified, s\<lparr>app_identity := svc\<rparr>)))"

definition api_replace_identifier ::
  "call_ctx \<Rightarrow> uuid list \<Rightarrow> uuid \<Rightarrow> string \<Rightarrow> app_state \<Rightarrow> (party_identifier, app_error) result \<times> app_state"
where
  "api_replace_identifier cx ps i new_value s =
     (if find_active ps i (app_identity s) = None then (Err NotFound, s)
      else (case replace_identifier (fresh cx 0) (utc cx 0) (utc cx 1) i new_value (app_identity s) of
              (Err e, svc) \<Rightarrow> (Err (BadRequest (IdentityFault e)), s\<lparr>app_identity := svc\<rparr>)
            | (Ok replacement, svc) \<Rightarrow> (Ok replacement, s\<lparr>app_identity := svc\<rparr>)))"

definition api_list_identifiers :: "uuid \<Rightarrow> app_state \<Rightarrow> party_identifier list" where
  "api_list_identifiers p s = get_active_identifiers p (app_identity s)"

subsection \<open>Requests\<close>

text \<open>
  The routes whose handlers change the state. \<open>rate_limited\<close> is the middleware around all of
  them, given the verdict of the token bucket.
\<close>

datatype api_request =
    ReqCreateAccount string string i64
  | ReqGetAccount uuid
  | ReqDebit uuid i64
  | ReqCredit uuid i64
  | ReqSetStatus uuid "string option"
  | ReqPlaceHold uuid i64
  | ReqReleaseHold uuid i64
  | ReqTransfer transfer_request
  | ReqReverse uuid
  | ReqRedact u64
  | ReqCommit uuid
  | ReqReject uuid
  | ReqCoaDeactivate uuid
  | ReqBindRole "uuid option" uuid string
  | ReqCreateParty string string
  | ReqAddIdentifier uuid string string "string option"
  | ReqVerifyIdentifier "uuid list" uuid
  | ReqReplaceIdentifier "uuid list" uuid string

fun api_step :: "api_env \<Rightarrow> call_ctx \<Rightarrow> api_request \<Rightarrow> app_state \<Rightarrow> app_state option" where
  "api_step ev cx (ReqCreateAccount ty cur n) s = Some (snd (api_create_account ev cx ty cur n s))"
| "api_step ev cx (ReqGetAccount i) s = Some (snd (api_get_account ev cx i s))"
| "api_step ev cx (ReqDebit i n) s = Some (snd (api_debit ev cx i n s))"
| "api_step ev cx (ReqCredit i n) s = Some (snd (api_credit ev cx i n s))"
| "api_step ev cx (ReqSetStatus i t) s = Some (snd (api_set_status ev cx i t s))"
| "api_step ev cx (ReqPlaceHold i n) s = Some (snd (api_place_hold cx i n s))"
| "api_step ev cx (ReqReleaseHold i n) s = Some (snd (api_release_hold cx i n s))"
| "api_step ev cx (ReqTransfer req) s = map_option snd (api_transfer ev cx req s)"
| "api_step ev cx (ReqReverse i) s = map_option snd (api_reverse ev cx i s)"
| "api_step ev cx (ReqRedact index) s = Some (snd (api_redact ev index s))"
| "api_step ev cx (ReqCommit txn) s = map_option snd (api_commit_transaction ev cx txn s)"
| "api_step ev cx (ReqReject txn) s = map_option snd (api_reject_transaction ev cx txn s)"
| "api_step ev cx (ReqCoaDeactivate i) s = map_option snd (api_coa_deactivate ev cx i s)"
| "api_step ev cx (ReqBindRole h i t) s = Some (snd (api_bind_role ev h i t s))"
| "api_step ev cx (ReqCreateParty ty name) s = Some (snd (api_create_party ev cx ty name s))"
| "api_step ev cx (ReqAddIdentifier p ty v c) s = Some (snd (api_add_identifier ev cx p ty v c s))"
| "api_step ev cx (ReqVerifyIdentifier ps i) s = Some (snd (api_verify_identifier cx ps i s))"
| "api_step ev cx (ReqReplaceIdentifier ps i v) s = Some (snd (api_replace_identifier cx ps i v s))"

definition rate_limited :: "bool \<Rightarrow> (app_state \<Rightarrow> app_state option) \<Rightarrow> app_state \<Rightarrow> app_state option" where
  "rate_limited consumed handler s = (if consumed then handler s else Some s)"

fun api_run :: "api_env \<Rightarrow> (bool \<times> call_ctx \<times> api_request) list \<Rightarrow> app_state \<Rightarrow> app_state option" where
  "api_run ev [] s = Some s"
| "api_run ev ((consumed, cx, req) # reqs) s =
     Option.bind (rate_limited consumed (api_step ev cx req) s) (api_run ev reqs)"

subsection \<open>The books\<close>

text \<open>What the API keeps of a ledger: its journal, its counter and its accounts.\<close>

definition ledger_of :: "app_state \<Rightarrow> ledger" where
  "ledger_of s =
     \<lparr>journal_entries = app_journal s, sequence_counter = app_journal_seq s,
      ledger_accounts = app_accounts s, transactions = Map.empty\<rparr>"

text \<open>
  What every request does to the books: it extends the journal as the ledger service does, with
  entries that pass the tamper check, and the chain stays verified and keeps ahead of the journal.
\<close>

definition books_ok :: "api_env \<Rightarrow> app_state \<Rightarrow> bool" where
  "books_ok ev s \<longleftrightarrow> registry_inv (app_accounts s) \<and> chain_ok (ae_crypto ev) (app_chain s) \<and>
     (\<forall>e \<in> set (app_journal s). verify_balance e) \<and> length (app_journal s) < chain_len (app_chain s)"

definition books_step :: "api_env \<Rightarrow> app_state \<Rightarrow> app_state \<Rightarrow> bool" where
  "books_step ev s s' \<longleftrightarrow> books_ok ev s' \<and> extends (ledger_of s) (ledger_of s')"

lemma ledger_of_simps [simp]:
  "journal_entries (ledger_of s) = app_journal s" "sequence_counter (ledger_of s) = app_journal_seq s"
  "ledger_accounts (ledger_of s) = app_accounts s"
  by (simp_all add: ledger_of_def)

lemma note_simps [simp]:
  "app_journal (note_failure cx s) = app_journal s" "app_journal (note_success cx s) = app_journal s"
  "app_journal_seq (note_failure cx s) = app_journal_seq s"
  "app_journal_seq (note_success cx s) = app_journal_seq s"
  "app_chain (note_failure cx s) = app_chain s" "app_chain (note_success cx s) = app_chain s"
  "app_accounts (note_failure cx s) = app_accounts s" "app_accounts (note_success cx s) = app_accounts s"
  by (simp_all add: note_failure_def note_success_def)

lemma extends_same_journal:
  assumes "app_journal s' = app_journal s"
    and "app_journal_seq s' = app_journal_seq s \<or> app_journal_seq s' = app_journal_seq s + 1"
    and "registry_inv (app_accounts s')"
  shows "extends (ledger_of s) (ledger_of s')"
  using assms by (auto simp: extends_def)

text \<open>A request that touches only accounts (and breaker, metrics, roles, identities).\<close>

lemma books_step_accounts:
  assumes "books_ok ev s" and "registry_inv (app_accounts s')"
    and "app_journal s' = app_journal s" and "app_chain s' = app_chain s"
    and "app_journal_seq s' = app_journal_seq s \<or> app_journal_seq s' = app_journal_seq s + 1"
  shows "books_step ev s s'"
  using assms extends_same_journal [OF assms(3,5,2)] by (simp add: books_step_def books_ok_def)

lemma registry_invD: "registry_inv svc \<Longrightarrow> svc k = Some a \<Longrightarrow> account_inv a"
  by (auto simp: registry_inv_def ran_def)

lemma registry_inv_upd: "registry_inv svc \<Longrightarrow> account_inv a \<Longrightarrow> registry_inv (svc(k \<mapsto> a))"
  by (auto simp: registry_inv_def ran_def)

lemma registry_call_inv:
  assumes "registry_inv svc"
  shows "registry_inv (snd (perform_debit k n t svc))" "registry_inv (snd (perform_credit k n t svc))"
    "registry_inv (snd (service_place_hold k n svc))" "registry_inv (snd (service_release_hold k n svc))"
    "registry_inv (snd (service_set_status k st t svc))"
    "registry_inv (snd (create_account uid t t' ty cur n owner svc))"
proof -
  have call: "account_inv (snd (account_call op t a))" if "svc k = Some a" for op a
    using registry_invD [OF assms that] by (rule account_call_inv)
  note calls = call [of _ "OpDebit n"] call [of _ "OpCredit n"] call [of _ "OpHold n"]
    call [of _ "OpRelease n"] call [of _ "OpStatus st"]
  show "registry_inv (snd (perform_debit k n t svc))" "registry_inv (snd (perform_credit k n t svc))"
    "registry_inv (snd (service_place_hold k n svc))" "registry_inv (snd (service_release_hold k n svc))"
    "registry_inv (snd (service_set_status k st t svc))"
    using assms calls
    by (auto simp: perform_debit_def perform_credit_def service_place_hold_def
        service_release_hold_def service_set_status_def split: option.split prod.split sum.split
        intro!: registry_inv_upd)
  show "registry_inv (snd (create_account uid t t' ty cur n owner svc))"
    using assms account_new_inv by (simp add: create_account_def Let_def registry_inv_upd account_clone_id)
qed

lemma append_block_books:
  assumes "books_ok ev s"
  shows "\<exists>s'. append_block ev now data s = Some s' \<and> chain_ok (ae_crypto ev) (app_chain s') \<and>
    chain_len (app_chain s') = Suc (chain_len (app_chain s)) \<and> app_journal s' = app_journal s \<and>
    app_accounts s' = app_accounts s \<and> app_journal_seq s' = app_journal_seq s"
proof -
  have ok: "chain_ok (ae_crypto ev) (app_chain s)" using assms by (simp add: books_ok_def)
  obtain b c where c: "chain_append (ae_crypto ev) now data (app_chain s) = Some (b, c)"
    using chain_ok_nonempty [OF ok] by (simp add: chain_append_def Let_def)
  moreover have "chain_len c = Suc (chain_len (app_chain s))"
    using c by (auto simp: chain_append_def Let_def chain_len_def split: if_splits)
  ultimately show ?thesis
    using chain_append_ok [OF ok c] by (simp add: append_block_def)
qed

lemma books_ok_update [simp]:
  "books_ok ev (s\<lparr>app_breaker := b\<rparr>) = books_ok ev s"
  "books_ok ev (s\<lparr>app_metrics := m\<rparr>) = books_ok ev s"
  "books_ok ev (s\<lparr>app_journal_seq := q\<rparr>) = books_ok ev s"
  by (simp_all add: books_ok_def)

lemma guarded_books:
  assumes "\<And>b. books_step ev s (snd (handler (s\<lparr>app_breaker := b\<rparr>)))" and "books_ok ev s"
  shows "books_step ev s (snd (guarded cx handler s))"
  using assms by (auto simp: guarded_def books_ok_def intro: books_step_accounts split: prod.split)

lemma account_answer_simps [simp]:
  "app_journal (snd (account_answer f cx i s)) = app_journal s"
  "app_journal_seq (snd (account_answer f cx i s)) = app_journal_seq s"
  "app_chain (snd (account_answer f cx i s)) = app_chain s"
  "app_accounts (snd (account_answer f cx i s)) = app_accounts s"
  by (simp_all add: account_answer_def split: option.split)

lemma account_requests_books:
  assumes "books_ok ev s"
  shows "books_step ev s (snd (api_create_account ev cx ty cur n s))"
    "books_step ev s (snd (api_debit ev cx i n s))" "books_step ev s (snd (api_credit ev cx i n s))"
    "books_step ev s (snd (api_set_status ev cx i st s))"
    "books_step ev s (snd (api_place_hold cx i n s))" "books_step ev s (snd (api_release_hold cx i n s))"
proof -
  have reg: "registry_inv (app_accounts s)" using assms by (simp add: books_ok_def)
  note inv = registry_call_inv [OF reg]
  have create: "registry_inv svc" if "create_account uid t t' ty cur n owner (app_accounts s) = (a, svc)"
    for uid t t' ty cur n owner a svc
    using inv(6) [of uid t t' ty cur n owner] that by simp
  have status: "registry_inv svc" if "service_set_status i st t (app_accounts s) = (r, svc)" for st t r svc
    using inv(5) [of i st t] that by simp
  show "books_step ev s (snd (api_create_account ev cx ty cur n s))"
    unfolding api_create_account_def
    by (rule guarded_books [OF _ assms])
      (use create reg assms in \<open>auto split: option.split prod.split intro!: books_step_accounts\<close>)
  show "books_step ev s (snd (api_debit ev cx i n s))" unfolding api_debit_def
    by (rule guarded_books [OF _ assms])
      (use inv(1) [of i n "utc cx 0"] assms in \<open>auto split: prod.split sum.split intro!: books_step_accounts\<close>)
  show "books_step ev s (snd (api_credit ev cx i n s))" unfolding api_credit_def
    by (rule guarded_books [OF _ assms])
      (use inv(2) [of i n "utc cx 0"] assms in \<open>auto split: prod.split sum.split intro!: books_step_accounts\<close>)
  show "books_step ev s (snd (api_set_status ev cx i st s))" unfolding api_set_status_def
    by (rule guarded_books [OF _ assms])
      (use status reg assms in
        \<open>auto split: option.split prod.split sum.split intro!: books_step_accounts\<close>)
  show "books_step ev s (snd (api_place_hold cx i n s))" unfolding api_place_hold_def
    by (rule guarded_books [OF _ assms])
      (use inv(3) [of i n] assms in \<open>auto split: prod.split sum.split intro!: books_step_accounts\<close>)
  show "books_step ev s (snd (api_release_hold cx i n s))" unfolding api_release_hold_def
    by (rule guarded_books [OF _ assms])
      (use inv(4) [of i n] assms in \<open>auto split: prod.split sum.split intro!: books_step_accounts\<close>)
qed

lemma books_step_append:
  assumes "books_ok ev s" and "registry_inv (app_accounts s1)" and "app_journal s1 = app_journal s"
    and "app_chain s1 = app_chain s" and "app_journal_seq s1 = app_journal_seq s"
  shows "\<exists>s2. append_block ev now data s1 = Some s2 \<and> books_step ev s s2"
proof -
  have "books_ok ev s1" using assms by (simp add: books_ok_def)
  from append_block_books [OF this] obtain s2 where s2: "append_block ev now data s1 = Some s2"
    "chain_ok (ae_crypto ev) (app_chain s2)" "chain_len (app_chain s2) = Suc (chain_len (app_chain s1))"
    "app_journal s2 = app_journal s1" "app_accounts s2 = app_accounts s1"
    "app_journal_seq s2 = app_journal_seq s1" by blast
  have "books_ok ev s2" using s2 assms by (simp add: books_ok_def)
  moreover have "extends (ledger_of s) (ledger_of s2)"
    using s2 assms by (intro extends_same_journal) auto
  ultimately show ?thesis using s2(1) by (auto simp: books_step_def)
qed

text \<open>A request that journals a verified entry under the next number.\<close>

lemma books_step_entry:
  assumes "books_ok ev s" and "verify_balance e" and "2 \<le> length (legs e)"
    and "sequence_number e = app_journal_seq s + 1"
    and "app_journal s' = app_journal s @ [e]" and "app_journal_seq s' = app_journal_seq s + 1"
    and "registry_inv (app_accounts s')" and "chain_ok (ae_crypto ev) (app_chain s')"
    and "chain_len (app_chain s') = Suc (chain_len (app_chain s))"
  shows "books_step ev s s'"
proof -
  have "entry_balanced e" using assms(2,3) by (auto simp: entry_balanced_def verify_balance_def Let_def)
  then have "extends (ledger_of s) (ledger_of s')"
    using assms by (auto simp: extends_def)
  with assms show ?thesis by (auto simp: books_step_def books_ok_def)
qed

lemma transfer_entry_verifies:
  assumes "entry_new eid now txn seq (transfer_legs req) desc = Ok e"
  shows "verify_balance e" "legs e = transfer_legs req" "sequence_number e = seq" "entry_id e = eid"
    "0 < sint (tr_amount req)"
  using entry_new_OkD [OF assms]
  by (auto simp: verify_balance_def transfer_legs_def leg_debit_def leg_credit_def Let_def split: if_splits)

lemma settle_transfer_books:
  assumes "registry_inv (app_accounts s)"
  shows "app_journal (snd (settle_transfer ev cx req cur block s)) = app_journal s"
    "app_journal_seq (snd (settle_transfer ev cx req cur block s)) = app_journal_seq s"
    "app_chain (snd (settle_transfer ev cx req cur block s)) = app_chain s"
    "registry_inv (app_accounts (snd (settle_transfer ev cx req cur block s)))"
proof -
  show "app_journal (snd (settle_transfer ev cx req cur block s)) = app_journal s"
    "app_journal_seq (snd (settle_transfer ev cx req cur block s)) = app_journal_seq s"
    "app_chain (snd (settle_transfer ev cx req cur block s)) = app_chain s"
    by (simp_all add: settle_transfer_def split: prod.split sum.split option.split)
  have d: "registry_inv svc'" if "registry_inv svc" "perform_debit k n t svc = (r, svc')" for k n t svc r svc'
    using registry_call_inv(1) [OF that(1), of k n t] that(2) by simp
  have c: "registry_inv svc'" if "registry_inv svc" "perform_credit k n t svc = (r, svc')" for k n t svc r svc'
    using registry_call_inv(2) [OF that(1), of k n t] that(2) by simp
  show "registry_inv (app_accounts (snd (settle_transfer ev cx req cur block s)))"
    using assms
    by (auto simp: settle_transfer_def split: prod.split sum.split option.split
        dest: d [rotated] c [rotated])
qed

lemma transfer_books:
  assumes "books_ok ev s"
  shows "\<exists>r s'. api_transfer ev cx req s = Some (r, s') \<and> books_step ev s s'"
proof -
  have reg: "registry_inv (app_accounts s)" and chain: "chain_ok (ae_crypto ev) (app_chain s)"
    using assms by (simp_all add: books_ok_def)
  have app: "\<exists>b c. chain_append (ae_crypto ev) t d (app_chain s) = Some (b, c)" for t d
    using chain_ok_nonempty [OF chain] by (simp add: chain_append_def Let_def)
  have len: "chain_len c = Suc (chain_len (app_chain s))"
    if "chain_append (ae_crypto ev) t d (app_chain s) = Some (b, c)" for t d b c
    using that by (auto simp: chain_append_def Let_def chain_len_def split: if_splits)
  have "\<exists>r s'. run_transfer ev cx req (s\<lparr>app_breaker := b\<rparr>) = Some (r, s') \<and> books_step ev s s'" for b
  proof (cases "get_account (tr_from req) (app_accounts s)")
    case None
    then show ?thesis using assms reg by (auto simp: run_transfer_def intro: books_step_accounts)
  next
    case (Some a)
    let ?entry = "entry_new (fresh cx 1) (utc cx 0) (fresh cx 0) (app_journal_seq s + 1) (transfer_legs req)
      (case tr_description req of None \<Rightarrow> ''Transfer'' | Some d \<Rightarrow> d)"
    show ?thesis
    proof (cases ?entry)
      case (Inl e)
      with Some show ?thesis
        using assms reg by (auto simp: run_transfer_def Let_def intro!: books_step_accounts)
    next
      case (Inr e)
      note e = transfer_entry_verifies [OF Inr]
      show ?thesis
      proof (cases "ae_entry_json ev e")
        case (Inl x)
        with Some \<open>?entry = Ok e\<close> show ?thesis
          using assms reg by (auto simp: run_transfer_def Let_def intro!: books_step_accounts)
      next
        case (Inr d)
        obtain bl c where c: "chain_append (ae_crypto ev) (utc cx 1) d (app_chain s) = Some (bl, c)"
          using app by blast
        let ?s1 = "s\<lparr>app_breaker := b, app_journal_seq := app_journal_seq s + 1, app_chain := c,
          app_journal := app_journal s @ [e]\<rparr>"
        let ?cur = "resolve_currency ev (acc_currency a)"
        have "run_transfer ev cx req (s\<lparr>app_breaker := b\<rparr>) = Some (settle_transfer ev cx req ?cur bl ?s1)"
          using Some \<open>?entry = Ok e\<close> Inr c by (simp add: run_transfer_def Let_def)
        moreover have "books_step ev s (snd (settle_transfer ev cx req ?cur bl ?s1))"
        proof (rule books_step_entry [OF assms e(1)])
          show "2 \<le> length (legs e)" using e(2) by (simp add: transfer_legs_def)
          show "sequence_number e = app_journal_seq s + 1" by (rule e(3))
        qed (use settle_transfer_books [of ?s1 ev cx req ?cur bl] reg chain_append_ok [OF chain c] len [OF c]
            in simp_all)
        ultimately show ?thesis by (metis prod.collapse)
      qed
    qed
  qed
  then show ?thesis
    using assms reg by (auto simp: api_transfer_def split: prod.split intro: books_step_accounts)
qed

lemma reverse_books:
  assumes "books_ok ev s"
  shows "\<exists>r s'. api_reverse ev cx eid s = Some (r, s') \<and> books_step ev s s'"
proof (cases "List.find (\<lambda>e. entry_id e = eid) (app_journal s)")
  case None
  then show ?thesis using assms by (auto simp: api_reverse_def books_ok_def intro: books_step_accounts)
next
  case (Some original)
  have reg: "registry_inv (app_accounts s)" using assms by (simp add: books_ok_def)
  let ?rev = "entry_reverse (ae_show_uuid ev) (fresh cx 1) (utc cx 0) original (fresh cx 0) (app_journal_seq s + 1)"
  show ?thesis
  proof (cases ?rev)
    case (Inl e)
    with Some show ?thesis
      using assms reg by (auto simp: api_reverse_def Let_def intro!: books_step_accounts)
  next
    case (Inr reversal)
    obtain r svc where post: "post_legs registry_post (\<lambda>k. utc cx (k + 2)) (legs reversal) (app_accounts s) = (r, svc)"
      by fastforce
    have svc: "registry_inv svc" using reg.post_legs_inv [OF reg post] .
    have "original \<in> set (app_journal s)" using Some by (auto simp: find_Some_iff)
    then have "verify_balance original" using assms by (simp add: books_ok_def)
    then have rev: "verify_balance reversal" "2 \<le> length (legs reversal)"
      "sequence_number reversal = app_journal_seq s + 1"
      using entry_reverse_OkD [OF Inr] entry_reverse_balanced [OF Inr]
      by (auto simp: verify_balance_def Let_def entry_balanced_def)
    show ?thesis
    proof (cases r)
      case (Inl e)
      with Some \<open>?rev = Ok reversal\<close> post svc show ?thesis
        using assms by (auto simp: api_reverse_def Let_def intro!: books_step_accounts)
    next
      case (Inr u)
      let ?s1 = "s\<lparr>app_journal_seq := app_journal_seq s + 1, app_accounts := svc\<rparr>"
      let ?data = "ae_object_json ev [(''action'', JText ''journal_reversal''),
        (''entry_id'', JText (ae_show_uuid ev (entry_id reversal))), (''reverses'', JText (ae_show_uuid ev eid)),
        (''description'', JText (description reversal)), (''sequence'', JNumber (app_journal_seq s + 1))]"
      have "books_ok ev ?s1" using assms svc by (simp add: books_ok_def)
      from append_block_books [OF this, of "utc cx 1" ?data] obtain s2 where
        s2: "append_block ev (utc cx 1) ?data ?s1 = Some s2" "chain_ok (ae_crypto ev) (app_chain s2)"
        "chain_len (app_chain s2) = Suc (chain_len (app_chain s))" "app_journal s2 = app_journal s"
        "app_accounts s2 = svc" "app_journal_seq s2 = app_journal_seq s + 1" by auto
      have "api_reverse ev cx eid s = Some (Ok reversal, s2\<lparr>app_journal := app_journal s2 @ [reversal]\<rparr>)"
        using Some \<open>?rev = Ok reversal\<close> post Inr s2(1) by (simp add: api_reverse_def Let_def)
      moreover have "books_step ev s (s2\<lparr>app_journal := app_journal s2 @ [reversal]\<rparr>)"
        by (rule books_step_entry [OF assms rev]) (use s2 svc in simp_all)
      ultimately show ?thesis by blast
    qed
  qed
qed

lemma redact_block_chain:
  assumes "books_ok ev s"
  shows "chain_ok (ae_crypto ev) (snd (redact_block (ae_crypto ev) index (app_chain s)))"
    "chain_len (snd (redact_block (ae_crypto ev) index (app_chain s))) = chain_len (app_chain s)"
proof -
  show "chain_ok (ae_crypto ev) (snd (redact_block (ae_crypto ev) index (app_chain s)))"
    using assms by (simp add: books_ok_def snd_redact_block redact_ok)
  show "chain_len (snd (redact_block (ae_crypto ev) index (app_chain s))) = chain_len (app_chain s)"
    by (simp add: snd_redact_block redact_def Let_def chain_len_def)
qed

lemma redact_books:
  assumes "books_ok ev s"
  shows "books_step ev s (snd (api_redact ev index s))"
proof -
  let ?s = "snd (api_redact ev index s)"
  have s: "app_journal ?s = app_journal s" "app_accounts ?s = app_accounts s"
    "app_journal_seq ?s = app_journal_seq s"
    "app_chain ?s = snd (redact_block (ae_crypto ev) index (app_chain s))"
    by (simp_all add: api_redact_def split: prod.split sum.split)
  have "extends (ledger_of s) (ledger_of ?s)"
    using s assms by (intro extends_same_journal) (simp_all add: books_ok_def)
  then show ?thesis
    using s assms redact_block_chain [OF assms, of index] by (simp add: books_step_def books_ok_def)
qed

lemma append_requests_books:
  assumes "books_ok ev s"
  shows "\<exists>r s'. api_commit_transaction ev cx txn s = Some (r, s') \<and> books_step ev s s'"
    "\<exists>r s'. api_reject_transaction ev cx txn s = Some (r, s') \<and> books_step ev s s'"
    "\<exists>r s'. api_coa_deactivate ev cx i s = Some (r, s') \<and> books_step ev s s'"
proof -
  have reg: "registry_inv (app_accounts s)" using assms by (simp add: books_ok_def)
  note app = books_step_append [OF assms]
  have "\<exists>s2. append_block ev t d s = Some s2 \<and> books_step ev s s2" for t d
    by (rule app) (simp_all add: reg)
  then show "\<exists>r s'. api_commit_transaction ev cx txn s = Some (r, s') \<and> books_step ev s s'"
    "\<exists>r s'. api_reject_transaction ev cx txn s = Some (r, s') \<and> books_step ev s s'"
    by (force simp: api_commit_transaction_def api_reject_transaction_def)+
  obtain r svc where st: "service_set_status i Closed (utc cx 0) (app_accounts s) = (r, svc)" by fastforce
  then have svc: "registry_inv svc" using registry_call_inv(5) [OF reg, of i Closed "utc cx 0"] by simp
  have "\<exists>s2. append_block ev t d (s\<lparr>app_accounts := svc\<rparr>) = Some s2 \<and> books_step ev s s2" for t d
    by (rule app) (simp_all add: svc)
  moreover have "books_step ev s (s\<lparr>app_accounts := svc\<rparr>)"
    using assms svc by (auto intro: books_step_accounts)
  ultimately show "\<exists>r s'. api_coa_deactivate ev cx i s = Some (r, s') \<and> books_step ev s s'"
    using st by (fastforce simp: api_coa_deactivate_def split: sum.split)
qed

lemma books_step_other:
  assumes "books_ok ev s" and "app_accounts s' = app_accounts s" and "app_journal s' = app_journal s"
    and "app_chain s' = app_chain s" and "app_journal_seq s' = app_journal_seq s"
  shows "books_step ev s s'"
  using assms by (intro books_step_accounts) (simp_all add: books_ok_def)

lemma other_requests_books:
  assumes "books_ok ev s"
  shows "books_step ev s (snd (api_get_account ev cx i s))"
    "books_step ev s (snd (api_bind_role ev h i t s))" "books_step ev s (snd (api_create_party ev cx ty name s))"
    "books_step ev s (snd (api_add_identifier ev cx p ty v c s))"
    "books_step ev s (snd (api_verify_identifier cx ps i s))"
    "books_step ev s (snd (api_replace_identifier cx ps i v s))"
  by (rule books_step_other [OF assms];
      simp add: api_get_account_def api_bind_role_def api_create_party_def api_add_identifier_def
        api_verify_identifier_def api_replace_identifier_def Let_def
        split: option.split sum.split prod.split)+

lemma api_step_books:
  assumes "books_ok ev s"
  shows "\<exists>s'. api_step ev cx req s = Some s' \<and> books_step ev s s'"
  using account_requests_books [OF assms] other_requests_books [OF assms] redact_books [OF assms]
    transfer_books [OF assms, of cx] reverse_books [OF assms, of cx] append_requests_books [OF assms, of cx]
  by (cases req) (simp_all; fastforce)+

lemma api_run_books:
  assumes "books_ok ev s" and "ledger_inv (ledger_of s)" and "unat (app_journal_seq s) + length reqs < 2 ^ 64"
  shows "\<exists>s'. api_run ev reqs s = Some s' \<and> books_ok ev s' \<and> ledger_inv (ledger_of s') \<and>
    (\<exists>new. app_journal s' = app_journal s @ new)"
  using assms
proof (induction reqs arbitrary: s)
  case Nil
  then show ?case by simp
next
  case (Cons r reqs)
  obtain consumed cx req where r: "r = (consumed, cx, req)" by (cases r)
  obtain s1 where s1: "rate_limited consumed (api_step ev cx req) s = Some s1" "books_step ev s s1"
    using api_step_books [OF Cons.prems(1), of cx req] books_step_other [OF Cons.prems(1), of s]
    by (cases consumed) (auto simp: rate_limited_def)
  have "unat (sequence_counter (ledger_of s)) + 1 < 2 ^ 64" using Cons.prems(3) by simp
  from extends_inv [OF _ Cons.prems(2) this, of "ledger_of s1"] s1(2)
  have "ledger_inv (ledger_of s1)" "unat (app_journal_seq s1) \<le> unat (app_journal_seq s) + 1"
    by (auto simp: books_step_def)
  moreover have "books_ok ev s1" "\<exists>new. app_journal s1 = app_journal s @ new"
    using s1(2) by (auto simp: books_step_def extends_def)
  ultimately show ?case
    using Cons.IH [of s1] Cons.prems(3) s1(1) r by (auto simp: Cons.prems)
qed

text \<open>Without a bound on the requests the numbers may wrap, but the journal still only grows.\<close>

lemma api_run_journal:
  assumes "books_ok ev s"
  shows "\<exists>s'. api_run ev reqs s = Some s' \<and> (\<exists>new. app_journal s' = app_journal s @ new)"
  using assms
proof (induction reqs arbitrary: s)
  case Nil
  then show ?case by simp
next
  case (Cons r reqs)
  obtain consumed cx req where r: "r = (consumed, cx, req)" by (cases r)
  obtain s1 where s1: "rate_limited consumed (api_step ev cx req) s = Some s1" "books_step ev s s1"
    using api_step_books [OF Cons.prems, of cx req] books_step_other [OF Cons.prems, of s]
    by (cases consumed) (auto simp: rate_limited_def)
  then have "books_ok ev s1" "\<exists>new. app_journal s1 = app_journal s @ new"
    by (auto simp: books_step_def extends_def)
  with Cons.IH [of s1] s1(1) r show ?case by auto
qed

lemma app_new_books: "books_ok ev (app_new ev now)" "ledger_inv (ledger_of (app_new ev now))"
proof -
  have "registry_inv service_new" by (simp add: registry_inv_def service_new_def)
  then show "books_ok ev (app_new ev now)" "ledger_inv (ledger_of (app_new ev now))"
    by (simp_all add: books_ok_def ledger_inv_def ledger_of_def app_new_def chain_new_ok length_chain_new
        chain_len_def)
qed

text \<open>
  C6. The API keeps its books. From a new application, let any requests arrive, in any order and
  with any content, some of them turned away by the rate limiter: no handler panics; the journal
  is only appended to, its entries are balanced and numbered strictly increasingly, every
  account keeps a non-negative held amount; \<open>/journal/verify\<close> finds no tampered block,
  \<open>/journal/validate\<close> no invalid entry, and the chain has a block for every entry.
\<close>

theorem api_keeps_books:
  assumes "length (reqs @ later) < 2 ^ 64"
  shows "\<exists>s s'. api_run ev reqs (app_new ev now) = Some s \<and> api_run ev (reqs @ later) (app_new ev now) = Some s' \<and>
    (\<exists>new. app_journal s' = app_journal s @ new) \<and> ledger_inv (ledger_of s') \<and>
    api_verify_chain ev s' = Some ((True, []), chain_len (app_chain s')) \<and>
    api_validate_entries s' = (True, length (app_journal s'), []) \<and>
    length (app_journal s') < chain_len (app_chain s')"
proof -
  have split: "api_run ev (xs @ ys) s = Option.bind (api_run ev xs s) (api_run ev ys)" for xs ys s
    by (induction xs arbitrary: s) (auto split: Option.bind_split)
  have seq: "app_journal_seq (app_new ev now) = 0" by (simp add: app_new_def)
  obtain s where s: "api_run ev reqs (app_new ev now) = Some s" "books_ok ev s" "ledger_inv (ledger_of s)"
    using api_run_books [OF app_new_books, of ev now reqs] assms seq by auto
  obtain s' where s': "api_run ev (reqs @ later) (app_new ev now) = Some s'" "books_ok ev s'" "ledger_inv (ledger_of s')"
    using api_run_books [OF app_new_books, of ev now "reqs @ later"] assms seq by auto
  obtain t where "api_run ev later s = Some t" "\<exists>new. app_journal t = app_journal s @ new"
    using api_run_journal [OF s(2)] by blast
  then have "\<exists>new. app_journal s' = app_journal s @ new" using s(1) s'(1) by (simp add: split)
  moreover have "verify_chain (ae_crypto ev) (app_chain s') = Some (True, [])"
    using s'(2) by (simp add: verify_chain_decides books_ok_def)
  moreover have "validate_all (app_journal s') = (True, [])"
    using s'(2) by (simp add: validate_all_def Let_def books_ok_def)
  ultimately show ?thesis
    using s(1) s' by (auto simp: api_verify_chain_def api_validate_entries_def books_ok_def)
qed

subsection \<open>What a transfer moves\<close>

lemma perform_debit_is_ok:
  assumes "registry_inv svc" and "svc k = Some a"
  shows "is_ok (fst (perform_debit k n t svc)) \<longleftrightarrow>
    0 < sint n \<and> acc_status a = Open \<and> sint n \<le> sint (available_balance a)"
  using assms(2) debit_refines [OF registry_invD [OF assms], of n t "fst (debit a n t)" "snd (debit a n t)"]
  by (auto simp: perform_debit_def purse_of_def split: prod.splits if_splits)

lemma perform_credit_is_ok:
  assumes "registry_inv svc" and "svc k = Some a"
  shows "is_ok (fst (perform_credit k n t svc)) \<longleftrightarrow>
    0 < sint n \<and> acc_status a = Open \<and> sint (balance a) + sint n \<le> i64_max"
  using assms(2) credit_refines [OF registry_invD [OF assms], of n t "fst (credit a n t)" "snd (credit a n t)"]
  by (auto simp: perform_credit_def purse_of_def split: prod.splits if_splits)

text \<open>The refund of a failed transfer always succeeds and restores the funds.\<close>

lemma refund_restores:
  assumes "registry_inv svc" and "perform_debit k n t svc = (Ok v, svc1)"
  shows "\<exists>v' svc2. perform_credit k n t' svc1 = (Ok v', svc2) \<and> funds_of svc2 = funds_of svc"
proof -
  from assms(2) obtain a a' where a: "svc k = Some a" "debit a n t = (Ok v, a')" "svc1 = svc(k \<mapsto> a')"
    by (auto simp: perform_debit_def split: option.splits prod.splits)
  note d = debit_OkD [OF registry_invD [OF assms(1) a(1)] a(2)]
  note ok = perform_debit_ok [OF assms]
  have "is_ok (fst (perform_credit k n t' svc1))"
    using perform_credit_is_ok [of svc1 k a' n t'] ok a(3) d sint_i64_upper [of "balance a"]
    by (simp add: i64_simps)
  then obtain v' svc2 where c: "perform_credit k n t' svc1 = (Ok v', svc2)"
    by (metis is_ok_iff prod.collapse)
  from perform_credit_ok [OF _ c] ok show ?thesis using c by (auto simp: fun_eq_iff)
qed

definition can_settle :: "transfer_request \<Rightarrow> registry \<Rightarrow> bool" where
  "can_settle req svc \<longleftrightarrow>
     (case (svc (tr_from req), svc (tr_to req)) of
        (Some a, Some b) \<Rightarrow>
          0 < sint (tr_amount req) \<and> acc_status a = Open \<and> acc_status b = Open \<and>
          sint (tr_amount req) \<le> sint (available_balance a) \<and>
          sint (balance b) + sint (tr_amount req) \<le> i64_max
      | _ \<Rightarrow> False)"

definition moved :: "transfer_request \<Rightarrow> (uuid \<Rightarrow> int) \<Rightarrow> (uuid \<Rightarrow> int)" where
  "moved req f = f(tr_from req := f (tr_from req) - sint (tr_amount req),
                   tr_to req := f (tr_to req) + sint (tr_amount req))"

lemma settle_transfer_effect:
  assumes inv: "registry_inv (app_accounts s)" and ne: "tr_from req \<noteq> tr_to req"
  shows "is_ok (fst (settle_transfer ev cx req cur block s)) = can_settle req (app_accounts s) \<and>
    funds_of (app_accounts (snd (settle_transfer ev cx req cur block s))) =
      (if can_settle req (app_accounts s) then moved req (funds_of (app_accounts s)) else funds_of (app_accounts s))"
proof -
  let ?svc = "app_accounts s" and ?n = "tr_amount req"
  obtain r svc1 where deb: "perform_debit (tr_from req) ?n (utc cx 2) ?svc = (r, svc1)" by fastforce
  show ?thesis
  proof (cases r)
    case (Inl e)
    then have "\<not> can_settle req ?svc"
      using deb perform_debit_is_ok [OF inv, of "tr_from req" _ ?n "utc cx 2"]
      by (auto simp: can_settle_def split: option.splits)
    moreover have "svc1 = ?svc" using perform_debit_err [OF inv] deb Inl by blast
    ultimately show ?thesis using deb Inl by (simp add: settle_transfer_def)
  next
    case (Inr v)
    note d = perform_debit_ok [OF inv deb [unfolded Inr]]
    have other: "svc1 (tr_to req) = ?svc (tr_to req)"
      using deb ne by (auto simp: perform_debit_def split: option.splits prod.splits)
    obtain a where a: "?svc (tr_from req) = Some a" "0 < sint ?n" "acc_status a = Open"
        "sint ?n \<le> sint (available_balance a)"
      using deb Inr perform_debit_is_ok [OF inv, of "tr_from req" _ ?n "utc cx 2"]
      by (auto simp: perform_debit_def split: option.splits)
    have can: "can_settle req ?svc \<longleftrightarrow> is_ok (fst (perform_credit (tr_to req) ?n (utc cx 3) svc1))"
      using a other perform_credit_is_ok [of svc1 "tr_to req" _ ?n "utc cx 3"] d
      by (cases "?svc (tr_to req)") (auto simp: can_settle_def perform_credit_def)
    obtain r2 svc2 where cred: "perform_credit (tr_to req) ?n (utc cx 3) svc1 = (r2, svc2)" by fastforce
    show ?thesis
    proof (cases r2)
      case (Inl e)
      then have "svc2 = svc1" using cred d perform_credit_err by blast
      moreover obtain v' svc3 where "perform_credit (tr_from req) ?n (utc cx 4) svc1 = (Ok v', svc3)"
        "funds_of svc3 = funds_of ?svc"
        using refund_restores [OF inv deb [unfolded \<open>r = Ok v\<close>]] by blast
      ultimately show ?thesis
        using deb \<open>r = Ok v\<close> cred Inl can by (simp add: settle_transfer_def)
    next
      case (Inr v2)
      note c = perform_credit_ok [OF conjunct1 [OF d] cred [unfolded Inr]]
      have "tr_from req \<in> dom svc2" "tr_to req \<in> dom svc2"
        using c d a(1) cred Inr by (auto simp: perform_credit_def split: option.splits)
      then obtain x y where "svc2 (tr_from req) = Some x" "svc2 (tr_to req) = Some y" by blast
      then show ?thesis
        using deb \<open>r = Ok v\<close> cred Inr can c d ne
        by (auto simp: settle_transfer_def get_account_def moved_def fun_eq_iff)
    qed
  qed
qed

lemma entry_new_transfer:
  "0 < sint (tr_amount req) \<Longrightarrow> \<exists>e. entry_new eid now txn seq (transfer_legs req) desc = Ok e"
  by (simp add: entry_new_Ok_iff transfer_legs_def leg_debit_def leg_credit_def)

text \<open>A transfer from an unknown account or of no amount is refused before anything is posted.\<close>

lemma run_transfer_refused:
  assumes "\<not> (tr_from req \<in> dom (app_accounts s) \<and> 0 < sint (tr_amount req))"
  shows "\<exists>err s'. run_transfer ev cx req s = Some (Err err, s') \<and>
    app_accounts s' = app_accounts s \<and> app_journal s' = app_journal s"
proof (cases "app_accounts s (tr_from req)")
  case None
  then show ?thesis by (simp add: run_transfer_def get_account_def)
next
  case (Some a)
  then have "\<not> 0 < sint (tr_amount req)" using assms by auto
  then obtain err where "entry_new (fresh cx 1) (utc cx 0) (fresh cx 0) (app_journal_seq s + 1)
      (transfer_legs req) (case tr_description req of None \<Rightarrow> ''Transfer'' | Some d \<Rightarrow> d) = Err err"
    by (metis transfer_entry_verifies(5) sum.exhaust)
  with Some show ?thesis by (simp add: run_transfer_def get_account_def Let_def)
qed

text \<open>Any other transfer is journalled and chained, and then settled.\<close>

lemma run_transfer_settles:
  assumes "books_ok ev s" and "\<forall>e. is_ok (ae_entry_json ev e)"
    and "tr_from req \<in> dom (app_accounts s)" and "0 < sint (tr_amount req)"
  shows "\<exists>e c cur bl. run_transfer ev cx req s = Some (settle_transfer ev cx req cur bl
      (s\<lparr>app_journal_seq := app_journal_seq s + 1, app_chain := c, app_journal := app_journal s @ [e]\<rparr>)) \<and>
    legs e = transfer_legs req \<and> entry_id e = fresh cx 1"
proof -
  obtain a where a: "app_accounts s (tr_from req) = Some a" using assms(3) by blast
  obtain e where e: "entry_new (fresh cx 1) (utc cx 0) (fresh cx 0) (app_journal_seq s + 1)
      (transfer_legs req) (case tr_description req of None \<Rightarrow> ''Transfer'' | Some d \<Rightarrow> d) = Ok e"
    using entry_new_transfer assms(4) by blast
  obtain d where d: "ae_entry_json ev e = Ok d" using assms(2) [rule_format, of e] by (auto simp: is_ok_iff)
  have "blocks (app_chain s) \<noteq> []"
    using assms(1) chain_ok_nonempty [of "ae_crypto ev" "app_chain s"] by (simp add: books_ok_def)
  then obtain bl c where "chain_append (ae_crypto ev) (utc cx 1) d (app_chain s) = Some (bl, c)"
    by (simp add: chain_append_def Let_def)
  with a e d have "run_transfer ev cx req s = Some (settle_transfer ev cx req (resolve_currency ev (acc_currency a)) bl
      (s\<lparr>app_journal_seq := app_journal_seq s + 1, app_chain := c, app_journal := app_journal s @ [e]\<rparr>))"
    by (simp add: run_transfer_def Let_def get_account_def account_clone_id)
  then show ?thesis using transfer_entry_verifies [OF e] by blast
qed

lemma run_transfer_effect:
  assumes books: "books_ok ev s" and ne: "tr_from req \<noteq> tr_to req"
    and json: "\<forall>e. is_ok (ae_entry_json ev e)"
  shows "\<exists>r s'. run_transfer ev cx req s = Some (r, s') \<and>
     is_ok r = can_settle req (app_accounts s) \<and>
     funds_of (app_accounts s') =
       (if is_ok r then moved req (funds_of (app_accounts s)) else funds_of (app_accounts s)) \<and>
     (if tr_from req \<in> dom (app_accounts s) \<and> 0 < sint (tr_amount req)
      then \<exists>e. app_journal s' = app_journal s @ [e] \<and> legs e = transfer_legs req \<and> entry_id e = fresh cx 1
      else app_journal s' = app_journal s)"
proof (cases "tr_from req \<in> dom (app_accounts s) \<and> 0 < sint (tr_amount req)")
  case False
  then have "\<not> can_settle req (app_accounts s)" by (auto simp: can_settle_def split: option.splits)
  moreover obtain err s' where "run_transfer ev cx req s = Some (Err err, s')"
    "app_accounts s' = app_accounts s" "app_journal s' = app_journal s" using run_transfer_refused [OF False] by blast
  ultimately show ?thesis using False by (intro exI [of _ "Err err"] exI [of _ s']) auto
next
  case True
  obtain e c cur bl where run: "run_transfer ev cx req s = Some (settle_transfer ev cx req cur bl
      (s\<lparr>app_journal_seq := app_journal_seq s + 1, app_chain := c, app_journal := app_journal s @ [e]\<rparr>))"
    and e: "legs e = transfer_legs req" "entry_id e = fresh cx 1"
    using run_transfer_settles [OF books json conjunct1 [OF True] conjunct2 [OF True]] by blast
  let ?s1 = "s\<lparr>app_journal_seq := app_journal_seq s + 1, app_chain := c, app_journal := app_journal s @ [e]\<rparr>"
  obtain r s' where rs: "settle_transfer ev cx req cur bl ?s1 = (r, s')" by fastforce
  have inv: "registry_inv (app_accounts ?s1)" using books by (simp add: books_ok_def)
  note eff = settle_transfer_effect [OF inv ne, of ev cx cur bl, unfolded rs fst_conv snd_conv]
  have "app_journal s' = app_journal s @ [e]"
    using settle_transfer_books(1) [OF inv, of ev cx req cur bl, unfolded rs snd_conv] by simp
  then show ?thesis using True run rs eff e by (intro exI [of _ r] exI [of _ s']) simp
qed

text \<open>
  C7. A transfer conserves the funds on every branch. It succeeds exactly when the breaker lets
  it through, both accounts are open, the amount is positive and available, and the destination
  has room; then the amount moves. On every error each account has the funds it had, the
  refund after a failed credit included. But every attempt that gets past the breaker with a
  known source and a positive amount is in the journal for good, also when it failed. The
  hypothesis on the JSON text says that serializing an entry never fails.
\<close>

theorem transfer_conserves_funds:
  assumes "books_ok ev s" and "tr_from req \<noteq> tr_to req" and "\<forall>e. is_ok (ae_entry_json ev e)"
  shows "\<exists>r s'. api_transfer ev cx req s = Some (r, s') \<and>
     is_ok r = (fst (allow_request (instant cx 0) (app_breaker s)) \<and> can_settle req (app_accounts s)) \<and>
     funds_of (app_accounts s') =
       (if is_ok r then moved req (funds_of (app_accounts s)) else funds_of (app_accounts s)) \<and>
     (if fst (allow_request (instant cx 0) (app_breaker s)) \<and> tr_from req \<in> dom (app_accounts s) \<and>
         0 < sint (tr_amount req)
      then \<exists>e. app_journal s' = app_journal s @ [e] \<and> legs e = transfer_legs req
      else app_journal s' = app_journal s)"
proof -
  obtain allowed b where b: "allow_request (instant cx 0) (app_breaker s) = (allowed, b)" by fastforce
  show ?thesis
  proof (cases allowed)
    case False
    with b show ?thesis by (simp add: api_transfer_def)
  next
    case True
    have "books_ok ev (s\<lparr>app_breaker := b\<rparr>)" using assms(1) by simp
    moreover have same: "app_accounts (s\<lparr>app_breaker := b\<rparr>) = app_accounts s"
      "app_journal (s\<lparr>app_breaker := b\<rparr>) = app_journal s" by simp_all
    ultimately obtain r s' where
      "run_transfer ev cx req (s\<lparr>app_breaker := b\<rparr>) = Some (r, s')"
      "is_ok r = can_settle req (app_accounts s)"
      "funds_of (app_accounts s') =
        (if is_ok r then moved req (funds_of (app_accounts s)) else funds_of (app_accounts s))"
      "if tr_from req \<in> dom (app_accounts s) \<and> 0 < sint (tr_amount req)
       then \<exists>e. app_journal s' = app_journal s @ [e] \<and> legs e = transfer_legs req \<and> entry_id e = fresh cx 1
       else app_journal s' = app_journal s"
      using run_transfer_effect [OF _ assms(2,3), of "s\<lparr>app_breaker := b\<rparr>" cx] unfolding same by blast
    with True b show ?thesis
      unfolding api_transfer_def b by (intro exI [of _ r] exI [of _ s']) (auto split: if_splits)
  qed
qed

definition demo_env :: api_env where
  "demo_env =
     \<lparr>ae_crypto = demo_crypto, ae_entry_json = (\<lambda>e. Ok (description e)), ae_object_json = (\<lambda>_. ''{}''),
      ae_show_uuid = (\<lambda>i. show_nat (unat i)), ae_uppercase = id, ae_lowercase = id,
      ae_minor_text = (\<lambda>n _. show_nat (unat n))\<rparr>"

definition demo_ctx :: "nat \<Rightarrow> call_ctx" where
  "demo_ctx k = \<lparr>utc = (\<lambda>_. 0), instant = (\<lambda>_. 0), fresh = (\<lambda>i. word_of_nat (100 * k + i))\<rparr>"

definition demo_app :: app_state where
  "demo_app = (app_new demo_env 0)\<lparr>app_accounts := two_accounts\<rparr>"

definition demo_transfer_request :: "i64 \<Rightarrow> transfer_request" where
  "demo_transfer_request n = \<lparr>tr_from = 1, tr_to = 2, tr_amount = n, tr_description = None\<rparr>"

lemma demo_app_books: "books_ok demo_env demo_app"
  using app_new_books(1) [of demo_env 0] two_accounts_inv by (simp add: demo_app_def books_ok_def)

lemma demo_json: "\<forall>e. is_ok (ae_entry_json demo_env e)"
  by (simp add: demo_env_def)

lemma demo_app_simps [simp]:
  "app_accounts demo_app = two_accounts" "fst (allow_request t (app_breaker demo_app))"
  "app_journal demo_app = []"
  by (simp_all add: demo_app_def app_new_def breaker_new_def allow_request_def Let_def)

theorem api_keeps_books_witness:
  "\<exists>s. api_run demo_env [(True, demo_ctx 1, ReqCreateAccount ''ASSET'' ''USD'' 500), (False, demo_ctx 2, ReqRedact 1),
         (True, demo_ctx 3, ReqTransfer (demo_transfer_request 20))] (app_new demo_env 0) = Some s \<and>
       ledger_inv (ledger_of s)"
  using api_keeps_books [of "[(True, demo_ctx 1, ReqCreateAccount ''ASSET'' ''USD'' 500), (False, demo_ctx 2, ReqRedact 1),
         (True, demo_ctx 3, ReqTransfer (demo_transfer_request 20))]" "[]" demo_env 0]
  by (auto simp del: api_run.simps)

theorem transfer_conserves_funds_witness:
  "(\<exists>r s'. api_transfer demo_env (demo_ctx 1) (demo_transfer_request 300) demo_app = Some (Ok r, s') \<and>
      funds_of (app_accounts s') 1 = 700 \<and> funds_of (app_accounts s') 2 = 350) \<and>
   (\<exists>e s'. api_transfer demo_env (demo_ctx 1) (demo_transfer_request 5000) demo_app = Some (Err e, s') \<and>
      funds_of (app_accounts s') = funds_of two_accounts \<and> length (app_journal s') = 1)"
proof -
  have ne: "tr_from (demo_transfer_request n) \<noteq> tr_to (demo_transfer_request n)" for n
    by (simp add: demo_transfer_request_def)
  note t = transfer_conserves_funds [OF demo_app_books ne demo_json, of "demo_ctx 1"]
  have can: "can_settle (demo_transfer_request 300) two_accounts" "\<not> can_settle (demo_transfer_request 5000) two_accounts"
    by (simp_all add: can_settle_def demo_transfer_request_def two_accounts_def account_new_def i64_simps)
  have f: "funds_of two_accounts 1 = 1000" "funds_of two_accounts 2 = 50"
    by (simp_all add: funds_of_def two_accounts_def account_new_def)
  have d: "tr_from (demo_transfer_request n) \<in> dom two_accounts" for n
    by (simp add: demo_transfer_request_def two_accounts_def)
  from t [of 300] can(1) have "\<exists>r s'. api_transfer demo_env (demo_ctx 1) (demo_transfer_request 300) demo_app = Some (r, s') \<and>
      is_ok r \<and> funds_of (app_accounts s') = moved (demo_transfer_request 300) (funds_of two_accounts)"
    by auto
  moreover from t [of 5000] can(2) d have "\<exists>r s'. api_transfer demo_env (demo_ctx 1) (demo_transfer_request 5000) demo_app =
      Some (r, s') \<and> \<not> is_ok r \<and> funds_of (app_accounts s') = funds_of two_accounts \<and> length (app_journal s') = 1"
    by (auto simp: demo_transfer_request_def)
  ultimately show ?thesis
    using f unfolding not_is_ok_iff unfolding is_ok_iff by (auto simp: moved_def demo_transfer_request_def)
qed

subsection \<open>What a reversal moves\<close>

lemma transfer_OkD:
  assumes "api_transfer ev cx req s = Some (Ok resp, s')"
  shows "\<exists>e v w svc. app_journal s' = app_journal s @ [e] \<and> legs e = transfer_legs req \<and>
    entry_id e = fresh cx 1 \<and> tp_journal_entry_id resp = fresh cx 1 \<and> 0 < sint (tr_amount req) \<and>
    perform_debit (tr_from req) (tr_amount req) (utc cx 2) (app_accounts s) = (Ok v, svc) \<and>
    perform_credit (tr_to req) (tr_amount req) (utc cx 3) svc = (Ok w, app_accounts s')"
proof -
  obtain b where run: "run_transfer ev cx req (s\<lparr>app_breaker := b\<rparr>) = Some (Ok resp, s')"
    using assms by (auto simp: api_transfer_def split: prod.splits if_splits)
  let ?desc = "case tr_description req of None \<Rightarrow> ''Transfer'' | Some d \<Rightarrow> d"
  from run obtain cur e bl c where
    e: "entry_new (fresh cx 1) (utc cx 0) (fresh cx 0) (app_journal_seq s + 1) (transfer_legs req) ?desc = Ok e"
    and settle: "settle_transfer ev cx req cur bl
      (s\<lparr>app_breaker := b, app_journal_seq := app_journal_seq s + 1, app_chain := c,
         app_journal := app_journal s @ [e]\<rparr>) = (Ok resp, s')"
    by (auto simp: run_transfer_def Let_def split: option.splits sum.splits)
  from settle obtain v w svc where "app_journal s' = app_journal s @ [e]"
    "tp_journal_entry_id resp = fresh cx 1"
    "perform_debit (tr_from req) (tr_amount req) (utc cx 2) (app_accounts s) = (Ok v, svc)"
    "perform_credit (tr_to req) (tr_amount req) (utc cx 3) svc = (Ok w, app_accounts s')"
    by (auto simp: settle_transfer_def split: prod.splits sum.splits option.splits)
  with transfer_entry_verifies [OF e] show ?thesis by blast
qed

lemma perform_debit_OkE:
  assumes "perform_debit k n t svc = (Ok v, svc')"
  obtains a a' where "svc k = Some a" "svc' = svc(k \<mapsto> a')" "debit a n t = (Ok v, a')"
  using assms that by (auto simp: perform_debit_def split: option.splits prod.splits)

lemma perform_credit_OkE:
  assumes "perform_credit k n t svc = (Ok v, svc')"
  obtains a a' where "svc k = Some a" "svc' = svc(k \<mapsto> a')" "credit a n t = (Ok v, a')"
  using assms that by (auto simp: perform_credit_def split: option.splits prod.splits)

text \<open>The entry of a transfer debits the destination and credits the source, so its reversal
  credits the destination and debits the source: in that order, through the registry.\<close>

lemma post_reversed_transfer:
  assumes "0 < sint (tr_amount req)"
  shows "post_legs registry_post clk (map reverse_leg (transfer_legs req)) svc =
    (case perform_credit (tr_to req) (tr_amount req) (clk 0) svc of
       (Err e, svc1) \<Rightarrow> (Err (PostCredit e), svc1)
     | (Ok _, svc1) \<Rightarrow>
         (case perform_debit (tr_from req) (tr_amount req) (clk 1) svc1 of
            (Err e, svc2) \<Rightarrow> (Err (PostDebit e), svc2)
          | (Ok _, svc2) \<Rightarrow> (Ok (), svc2)))"
  using assms
  by (simp add: transfer_legs_def registry_post_def leg_debit_def leg_credit_def reverse_leg_def
      split: prod.split sum.split)

lemma api_reverse_unfold:
  assumes books: "books_ok ev s"
    and found: "List.find (\<lambda>e. entry_id e = eid) (app_journal s) = Some e"
    and post: "\<And>clk. post_legs registry_post clk (map reverse_leg (legs e)) (app_accounts s) = f clk"
  shows "\<exists>r s'. api_reverse ev cx eid s = Some (r, s') \<and>
    is_ok r = is_ok (fst (f (\<lambda>k. utc cx (k + 2)))) \<and> app_accounts s' = snd (f (\<lambda>k. utc cx (k + 2)))"
proof -
  have "e \<in> set (app_journal s)" using found by (auto simp: find_Some_iff)
  then have "verify_balance e" using books by (simp add: books_ok_def)
  then have bal: "side_total Debit (legs e) \<noteq> 0" "side_total Credit (legs e) = side_total Debit (legs e)"
    by (auto simp: verify_balance_def Let_def)
  have len: "2 \<le> length (legs e)"
  proof (rule ccontr)
    assume "\<not> 2 \<le> length (legs e)"
    then have "legs e = [] \<or> (\<exists>l. legs e = [l])" by (cases "legs e"; cases "tl (legs e)") auto
    with bal show False by (auto split: if_splits)
  qed
  have "\<exists>x. entry_new (fresh cx 1) (utc cx 0) (fresh cx 0) (app_journal_seq s + 1) (map reverse_leg (legs e))
      (''REVERSAL of '' @ ae_show_uuid ev (entry_id e)) = Ok x"
    using bal len by (simp add: entry_new_Ok_iff)
  then obtain reversal where rev:
    "entry_reverse (ae_show_uuid ev) (fresh cx 1) (utc cx 0) e (fresh cx 0) (app_journal_seq s + 1) = Ok reversal"
    by (auto simp: entry_reverse_def)
  obtain r svc where f: "f (\<lambda>k. utc cx (k + 2)) = (r, svc)" by fastforce
  have p: "post_legs registry_post (\<lambda>k. utc cx (k + 2)) (legs reversal) (app_accounts s) = (r, svc)"
    using post entry_reverse_OkD(1) [OF rev] f by simp
  have "registry_inv svc" using reg.post_legs_inv [OF _ p] books by (simp add: books_ok_def)
  then have books1: "books_ok ev (s\<lparr>app_journal_seq := app_journal_seq s + 1, app_accounts := svc\<rparr>)"
    using books by (simp add: books_ok_def)
  show ?thesis
  proof (cases r)
    case (Inl x)
    with found rev p f show ?thesis by (simp add: api_reverse_def Let_def)
  next
    case (Inr u)
    with found rev p f append_block_books [OF books1] show ?thesis
      by (fastforce simp: api_reverse_def Let_def)
  qed
qed

text \<open>
  What the accounts are after a transfer that was settled: the sender's is the debited account,
  the receiver's is open.
\<close>

lemma transferred_accounts:
  assumes "registry_inv m" and "tr_from req \<noteq> tr_to req" and "0 < sint (tr_amount req)"
    and deb: "perform_debit (tr_from req) (tr_amount req) t1 m = (Ok v, svc)"
    and cred: "perform_credit (tr_to req) (tr_amount req) t2 svc = (Ok w, m')"
  obtains a a' b where "m (tr_from req) = Some a" and "m' (tr_from req) = Some a'" and "acc_status a' = Open"
    and "sint (available_balance a') = sint (available_balance a) - sint (tr_amount req)"
    and "m' (tr_to req) = Some b" and "acc_status b = Open"
    and "sint (balance b) = funds_of m (tr_to req) + sint (tr_amount req)"
    and "funds_of m' = moved req (funds_of m)"
proof -
  note d = perform_debit_ok [OF assms(1) deb]
  note c = perform_credit_ok [OF conjunct1 [OF d] cred]
  have funds: "funds_of m' = moved req (funds_of m)" using c d assms(2) by (auto simp: moved_def fun_eq_iff)
  obtain a1 a2 where a: "m (tr_from req) = Some a1" "svc = m(tr_from req \<mapsto> a2)"
    "debit a1 (tr_amount req) t1 = (Ok v, a2)" using perform_debit_OkE [OF deb] by blast
  note a2 = debit_OkD [OF registry_invD [OF assms(1) a(1)] a(3)]
  obtain b1 b2 where b: "svc (tr_to req) = Some b1" "m' = svc(tr_to req \<mapsto> b2)"
    "credit b1 (tr_amount req) t2 = (Ok w, b2)" using perform_credit_OkE [OF cred] by blast
  note b2 = credit_OkD [OF registry_invD [OF conjunct1 [OF d] b(1)] b(3)]
  have "sint (balance b2) = funds_of m (tr_to req) + sint (tr_amount req)"
    using fun_cong [OF funds, of "tr_to req"] b(2) by (simp add: funds_of_def moved_def)
  then show thesis using that [of a1 a2 b2] a b(2) a2 b2 assms(2) funds by simp
qed

text \<open>Crediting the receiver once more and then debiting the sender once more.\<close>

lemma moved_again:
  assumes "registry_inv m" and "tr_from req \<noteq> tr_to req"
    and cred: "perform_credit (tr_to req) (tr_amount req) t1 m = (Ok x, svc1)"
    and deb: "perform_debit (tr_from req) (tr_amount req) t2 svc1 = (y, svc2)"
  shows "funds_of svc2 = (if is_ok y then moved req (funds_of m)
      else (funds_of m)(tr_to req := funds_of m (tr_to req) + sint (tr_amount req)))"
proof (cases y)
  case (Inl z)
  note c = perform_credit_ok [OF assms(1) cred]
  have same: "svc2 = svc1" using perform_debit_err [OF conjunct1 [OF c]] deb Inl by blast
  from Inl c show ?thesis unfolding same by (simp add: fun_eq_iff)
next
  case (Inr z)
  note c = perform_credit_ok [OF assms(1) cred]
  with Inr perform_debit_ok [OF conjunct1 [OF c] deb [unfolded Inr]] assms(2) show ?thesis
    by (auto simp: moved_def fun_eq_iff)
qed

text \<open>
  Reversing a transfer repeats it. After a successful transfer, \<open>/journal/entries/{id}/reverse\<close>
  on its entry credits the destination once more and debits the source once more: if the source
  still has the amount available, twice the amount has left it; if not, the answer is an error,
  but the second credit stays, and the funds in all have grown by the amount.
\<close>

theorem reversal_repeats_transfer:
  assumes "books_ok ev s" and "tr_from req \<noteq> tr_to req"
    and "api_transfer ev cx req s = Some (Ok resp, s1)"
    and "\<forall>e \<in> set (app_journal s). entry_id e \<noteq> fresh cx 1"
    and "funds_of (app_accounts s) (tr_to req) + 2 * sint (tr_amount req) \<le> i64_max"
  shows "\<exists>r s2. api_reverse ev cx2 (tp_journal_entry_id resp) s1 = Some (r, s2) \<and>
     is_ok r = (case app_accounts s (tr_from req) of None \<Rightarrow> False
                | Some a \<Rightarrow> 2 * sint (tr_amount req) \<le> sint (available_balance a)) \<and>
     funds_of (app_accounts s2) =
       (if is_ok r then moved req (moved req (funds_of (app_accounts s)))
        else (moved req (funds_of (app_accounts s)))
               (tr_to req := funds_of (app_accounts s) (tr_to req) + 2 * sint (tr_amount req)))"
proof -
  let ?n = "tr_amount req" and ?m = "app_accounts s"
  obtain e v w svc where e: "app_journal s1 = app_journal s @ [e]" "legs e = transfer_legs req"
      "entry_id e = fresh cx 1" "tp_journal_entry_id resp = fresh cx 1" "0 < sint ?n"
    and deb: "perform_debit (tr_from req) ?n (utc cx 2) ?m = (Ok v, svc)"
    and cred: "perform_credit (tr_to req) ?n (utc cx 3) svc = (Ok w, app_accounts s1)"
    using transfer_OkD [OF assms(3)] by auto
  have books1: "books_ok ev s1" using transfer_books [OF assms(1), of cx req] assms(3) by (auto simp: books_step_def)
  have inv: "registry_inv ?m" "registry_inv (app_accounts s1)" using assms(1) books1 by (simp_all add: books_ok_def)
  obtain a a' b where a: "?m (tr_from req) = Some a" "app_accounts s1 (tr_from req) = Some a'" "acc_status a' = Open"
      "sint (available_balance a') = sint (available_balance a) - sint ?n"
    and b: "app_accounts s1 (tr_to req) = Some b" "acc_status b = Open"
      "sint (balance b) = funds_of ?m (tr_to req) + sint ?n"
    and funds1: "funds_of (app_accounts s1) = moved req (funds_of ?m)"
    by (rule transferred_accounts [OF inv(1) assms(2) e(5) deb cred])
  have found: "List.find (\<lambda>x. entry_id x = fresh cx 1) (app_journal s1) = Some e"
    using e assms(4) by (simp add: find_append_new)
  note post = post_reversed_transfer [OF e(5), folded e(2)]
  have "is_ok (fst (perform_credit (tr_to req) ?n (utc cx2 2) (app_accounts s1)))"
    using perform_credit_is_ok [OF inv(2) b(1)] b(2,3) e(5) assms(5) by simp
  then obtain x svc1 where c1: "perform_credit (tr_to req) ?n (utc cx2 2) (app_accounts s1) = (Ok x, svc1)"
    by (metis is_ok_iff prod.collapse)
  note c2 = perform_credit_ok [OF inv(2) c1]
  have from1: "svc1 (tr_from req) = Some a'"
    by (rule perform_credit_OkE [OF c1]) (use a(2) assms(2) in simp)
  obtain y svc2 where d1: "perform_debit (tr_from req) ?n (utc cx2 3) svc1 = (y, svc2)" by fastforce
  have can: "is_ok y \<longleftrightarrow> 2 * sint ?n \<le> sint (available_balance a)"
    using perform_debit_is_ok [OF conjunct1 [OF c2] from1, of ?n "utc cx2 3"] d1 e(5) a(3,4) by auto
  obtain r s2 where r: "api_reverse ev cx2 (fresh cx 1) s1 = Some (r, s2)" "is_ok r = is_ok y" "app_accounts s2 = svc2"
    using api_reverse_unfold [OF books1 found post, of cx2] c1 d1
    by (auto simp: numeral_eq_Suc split: sum.splits)
  have "funds_of svc2 = (if is_ok y then moved req (moved req (funds_of ?m))
      else (moved req (funds_of ?m))(tr_to req := funds_of ?m (tr_to req) + 2 * sint ?n))"
    using moved_again [OF inv(2) assms(2) c1 d1] funds1 by (auto simp: moved_def fun_eq_iff)
  with r can a(1) e(4) show ?thesis by simp
qed

theorem reversal_repeats_transfer_witness:
  "\<exists>resp s1 r s2. api_transfer demo_env (demo_ctx 1) (demo_transfer_request 300) demo_app = Some (Ok resp, s1) \<and>
     api_reverse demo_env (demo_ctx 2) (tp_journal_entry_id resp) s1 = Some (r, s2) \<and> is_ok r \<and>
     funds_of (app_accounts s2) 1 = 400 \<and> funds_of (app_accounts s2) 2 = 650"
proof -
  let ?req = "demo_transfer_request 300"
  have ne: "tr_from ?req \<noteq> tr_to ?req" by (simp add: demo_transfer_request_def)
  have "can_settle ?req two_accounts"
    by (simp add: can_settle_def demo_transfer_request_def two_accounts_def account_new_def i64_simps)
  then have "fst (allow_request (instant (demo_ctx 1) 0) (app_breaker demo_app)) \<and>
      can_settle ?req (app_accounts demo_app)" by simp
  then obtain resp s1 where t: "api_transfer demo_env (demo_ctx 1) ?req demo_app = Some (Ok resp, s1)"
    using run_transfer_effect [OF _ ne demo_json, of "demo_app\<lparr>app_breaker := snd (allow_request (instant (demo_ctx 1) 0) (app_breaker demo_app))\<rparr>" "demo_ctx 1"]
      demo_app_books
    by (auto simp: api_transfer_def is_ok_iff case_prod_unfold)
  have fresh: "\<forall>e \<in> set (app_journal demo_app). entry_id e \<noteq> fresh (demo_ctx 1) 1" by simp
  have room: "funds_of (app_accounts demo_app) (tr_to ?req) + 2 * sint (tr_amount ?req) \<le> i64_max"
    by (simp add: funds_of_def two_accounts_def account_new_def demo_transfer_request_def i64_simps)
  have f: "funds_of two_accounts 1 = 1000" "funds_of two_accounts 2 = 50"
    by (simp_all add: funds_of_def two_accounts_def account_new_def)
  have av: "case two_accounts (tr_from ?req) of None \<Rightarrow> False
      | Some a \<Rightarrow> 2 * sint (tr_amount ?req) \<le> sint (available_balance a)"
    by (simp add: two_accounts_def account_new_def demo_transfer_request_def)
  from reversal_repeats_transfer [OF demo_app_books ne t fresh room, of "demo_ctx 2"] av
  obtain r s2 where "api_reverse demo_env (demo_ctx 2) (tp_journal_entry_id resp) s1 = Some (r, s2)" "is_ok r"
    "funds_of (app_accounts s2) = moved ?req (moved ?req (funds_of two_accounts))" by auto
  with t f show ?thesis by (auto simp: moved_def demo_transfer_request_def)
qed

subsection \<open>Who may do what\<close>

text \<open>A request without the subject header has the administrator's permissions.\<close>

lemma missing_header_is_admin:
  "require_permission None perm (app_new ev now) = Ok default_admin \<longleftrightarrow>
   perm \<in> the (banking_permissions Admin)"
  by (cases perm)
    (simp_all add: require_permission_def app_new_def can_def roles_for_def rbac_bind_def rbac_new_def
      banking_permissions_def default_admin_def default_auditor_def)

text \<open>Only a subject with \<open>ManageRoles\<close> (or no subject at all) changes bindings.\<close>

lemma bind_role_needs_permission:
  "app_rbac (snd (api_bind_role ev header i t s)) \<noteq> app_rbac s \<Longrightarrow>
   can (case header of None \<Rightarrow> default_admin | Some j \<Rightarrow> j) ManageRoles (app_rbac s)"
  by (auto simp: api_bind_role_def require_permission_def Let_def split: if_splits option.splits)

text \<open>Ten refused debits, whoever sent them, open the breaker for everyone.\<close>

lemma refused_debit_counts:
  assumes "fst (perform_debit i n (utc cx 0) (app_accounts s)) = Err e"
    and "fst (allow_request (instant cx 0) (app_breaker s))"
  shows "app_breaker (snd (api_debit ev cx i n s)) =
    record_failure (instant cx 2) (snd (allow_request (instant cx 0) (app_breaker s)))"
  using assms by (auto simp: api_debit_def guarded_def note_failure_def split: prod.splits sum.splits)

end
