(* ===== verification/Money.thy ===== *)
theory Money
  imports Api Complex_Main
begin

section \<open>Money\<close>

text \<open>
  \<open>src/domain/money.rs\<close>, over the currencies of theory \<open>Api\<close>, and the \<open>AccountExt\<close> part of
  \<open>src/extensions.rs\<close> that needs it. The \<open>rust_decimal\<close> package is the parameter \<open>decimal_pkg\<close>
  over a type of decimals of its own; an operation of the package that panics is \<open>None\<close>. What
  is asked of the package is \<open>exact_decimals\<close>: a result that a 96-bit mantissa with a scale of
  at most 28 can represent is exact, rounding follows its strategy, and the conversion to
  \<open>i64\<close> is exact on integers. \<open>10u64.pow\<close> wraps, as the release profile does.
\<close>

datatype rounding_strategy =
    MidpointNearestEven | MidpointAwayFromZero | MidpointTowardZero | AwayFromZero | ToZero

record 'd decimal_pkg =
  dp_zero :: 'd
  dp_from_u64 :: "u64 \<Rightarrow> 'd"
  dp_from_i64 :: "i64 \<Rightarrow> 'd"
  dp_add :: "'d \<Rightarrow> 'd \<Rightarrow> 'd option"
  dp_sub :: "'d \<Rightarrow> 'd \<Rightarrow> 'd option"
  dp_mul :: "'d \<Rightarrow> 'd \<Rightarrow> 'd option"
  dp_div :: "'d \<Rightarrow> 'd \<Rightarrow> 'd option"
  dp_round :: "rounding_strategy \<Rightarrow> nat \<Rightarrow> 'd \<Rightarrow> 'd"
  dp_to_i64 :: "'d \<Rightarrow> i64 option"
  dp_nonneg :: "'d \<Rightarrow> bool"
  dp_le :: "'d \<Rightarrow> 'd \<Rightarrow> bool"
  dp_fixed :: "nat \<Rightarrow> 'd \<Rightarrow> string"

definition subunits_per_unit :: "currency \<Rightarrow> u64" where
  "subunits_per_unit cur = 10 ^ unat (minor_unit cur)"

definition is_zero_decimal :: "currency \<Rightarrow> bool" where
  "is_zero_decimal cur \<longleftrightarrow> minor_unit cur = 0"

datatype rounding_mode = HalfEven | HalfUp | HalfDown | RoundUp | RoundDown | Ceiling | Floor

definition apply_mode :: "'d decimal_pkg \<Rightarrow> rounding_mode \<Rightarrow> 'd \<Rightarrow> nat \<Rightarrow> 'd" where
  "apply_mode dp mode v scale =
     (case mode of
        HalfEven \<Rightarrow> dp_round dp MidpointNearestEven scale v
      | HalfUp \<Rightarrow> dp_round dp MidpointAwayFromZero scale v
      | HalfDown \<Rightarrow> dp_round dp MidpointTowardZero scale v
      | RoundUp \<Rightarrow> dp_round dp AwayFromZero scale v
      | RoundDown \<Rightarrow> dp_round dp ToZero scale v
      | Ceiling \<Rightarrow> if dp_nonneg dp v then dp_round dp AwayFromZero scale v else dp_round dp ToZero scale v
      | Floor \<Rightarrow> if dp_nonneg dp v then dp_round dp ToZero scale v else dp_round dp AwayFromZero scale v)"

record 'd money =
  money_amount :: 'd
  money_currency :: currency

datatype money_error = CurrencyMismatch string string

definition money_new :: "'d \<Rightarrow> currency \<Rightarrow> 'd money" where
  "money_new a cur = \<lparr>money_amount = a, money_currency = cur\<rparr>"

definition money_zero :: "'d decimal_pkg \<Rightarrow> currency \<Rightarrow> 'd money" where
  "money_zero dp cur = \<lparr>money_amount = dp_zero dp, money_currency = cur\<rparr>"

definition from_minor :: "'d decimal_pkg \<Rightarrow> i64 \<Rightarrow> currency \<Rightarrow> 'd money option" where
  "from_minor dp cents cur =
     (case dp_div dp (dp_from_i64 dp cents) (dp_from_u64 dp (subunits_per_unit cur)) of
        None \<Rightarrow> None
      | Some a \<Rightarrow> Some \<lparr>money_amount = a, money_currency = cur\<rparr>)"

text \<open>The outer option is the panic of the multiplication, the inner one the result.\<close>

definition try_to_minor :: "'d decimal_pkg \<Rightarrow> 'd money \<Rightarrow> i64 option option" where
  "try_to_minor dp m =
     (case dp_mul dp (money_amount m) (dp_from_u64 dp (subunits_per_unit (money_currency m))) of
        None \<Rightarrow> None
      | Some scaled \<Rightarrow> Some (dp_to_i64 dp (dp_round dp MidpointNearestEven 0 scaled)))"

definition to_minor :: "'d decimal_pkg \<Rightarrow> 'd money \<Rightarrow> i64 option" where
  "to_minor dp m = (case try_to_minor dp m of Some (Some c) \<Rightarrow> Some c | _ \<Rightarrow> None)"

definition money_mul :: "'d decimal_pkg \<Rightarrow> 'd money \<Rightarrow> 'd \<Rightarrow> 'd money option" where
  "money_mul dp m scalar =
     (case dp_mul dp (money_amount m) scalar of
        None \<Rightarrow> None
      | Some a \<Rightarrow> Some \<lparr>money_amount = a, money_currency = money_currency m\<rparr>)"

definition money_round :: "'d decimal_pkg \<Rightarrow> 'd money \<Rightarrow> rounding_mode \<Rightarrow> 'd money" where
  "money_round dp m mode =
     \<lparr>money_amount = apply_mode dp mode (money_amount m) (unat (minor_unit (money_currency m))),
      money_currency = money_currency m\<rparr>"

definition check_currency :: "'d money \<Rightarrow> 'd money \<Rightarrow> (unit, money_error) result" where
  "check_currency m other =
     (if currency_code (money_currency m) \<noteq> currency_code (money_currency other)
      then Err (CurrencyMismatch (currency_code (money_currency m)) (currency_code (money_currency other)))
      else Ok ())"

definition money_add :: "'d decimal_pkg \<Rightarrow> 'd money \<Rightarrow> 'd money \<Rightarrow> ('d money, money_error) result option" where
  "money_add dp m rhs =
     (case check_currency m rhs of
        Err e \<Rightarrow> Some (Err e)
      | Ok _ \<Rightarrow> (case dp_add dp (money_amount m) (money_amount rhs) of
                  None \<Rightarrow> None
                | Some a \<Rightarrow> Some (Ok \<lparr>money_amount = a, money_currency = money_currency m\<rparr>)))"

definition money_sub :: "'d decimal_pkg \<Rightarrow> 'd money \<Rightarrow> 'd money \<Rightarrow> ('d money, money_error) result option" where
  "money_sub dp m rhs =
     (case check_currency m rhs of
        Err e \<Rightarrow> Some (Err e)
      | Ok _ \<Rightarrow> (case dp_sub dp (money_amount m) (money_amount rhs) of
                  None \<Rightarrow> None
                | Some a \<Rightarrow> Some (Ok \<lparr>money_amount = a, money_currency = money_currency m\<rparr>)))"

definition money_display :: "'d decimal_pkg \<Rightarrow> 'd money \<Rightarrow> string" where
  "money_display dp m =
     currency_symbol (money_currency m) @ '' '' @
     dp_fixed dp (unat (minor_unit (money_currency m))) (money_amount m)"

definition balance_display :: "'d decimal_pkg \<Rightarrow> account \<Rightarrow> currency \<Rightarrow> string option" where
  "balance_display dp a cur =
     (case from_minor dp (balance_cents a) cur of
        None \<Rightarrow> None
      | Some m \<Rightarrow> Some (currency_symbol cur @ '' '' @ dp_fixed dp (unat (minor_unit cur)) (money_amount m)))"

definition can_close :: "account \<Rightarrow> bool" where
  "can_close a \<longleftrightarrow> balance_cents a = 0 \<and> available_balance_cents a = 0"

subsection \<open>What is asked of the package\<close>

definition representable :: "rat \<Rightarrow> bool" where
  "representable v \<longleftrightarrow> (\<exists>n s. s \<le> 28 \<and> \<bar>n\<bar> < 2 ^ 96 \<and> v = of_int n / 10 ^ s)"

text \<open>A value that needs no rounding at the scale is kept by every strategy.\<close>

definition rounded :: "rounding_strategy \<Rightarrow> rat \<Rightarrow> int" where
  "rounded st x =
     (let low = \<lfloor>x\<rfloor>; up = \<lceil>x\<rceil>; toward = (if 0 \<le> x then low else up); away = (if 0 \<le> x then up else low)
      in case st of
           ToZero \<Rightarrow> toward
         | AwayFromZero \<Rightarrow> away
         | MidpointTowardZero \<Rightarrow>
             if x - of_int low < 1 / 2 then low else if x - of_int low > 1 / 2 then up else toward
         | MidpointAwayFromZero \<Rightarrow>
             if x - of_int low < 1 / 2 then low else if x - of_int low > 1 / 2 then up else away
         | MidpointNearestEven \<Rightarrow>
             if x - of_int low < 1 / 2 then low else if x - of_int low > 1 / 2 then up
             else if even low then low else up)"

definition exact_decimals :: "'d decimal_pkg \<Rightarrow> ('d \<Rightarrow> rat) \<Rightarrow> bool" where
  "exact_decimals dp val \<longleftrightarrow>
     val (dp_zero dp) = 0 \<and>
     (\<forall>n. val (dp_from_u64 dp n) = of_nat (unat n)) \<and>
     (\<forall>n. val (dp_from_i64 dp n) = of_int (sint n)) \<and>
     (\<forall>a b. representable (val a + val b) \<longrightarrow> (\<exists>c. dp_add dp a b = Some c \<and> val c = val a + val b)) \<and>
     (\<forall>a b. representable (val a - val b) \<longrightarrow> (\<exists>c. dp_sub dp a b = Some c \<and> val c = val a - val b)) \<and>
     (\<forall>a b. representable (val a * val b) \<longrightarrow> (\<exists>c. dp_mul dp a b = Some c \<and> val c = val a * val b)) \<and>
     (\<forall>a b. val b \<noteq> 0 \<and> representable (val a / val b) \<longrightarrow> (\<exists>c. dp_div dp a b = Some c \<and> val c = val a / val b)) \<and>
     (\<forall>a b. val b = 0 \<longrightarrow> dp_div dp a b = None) \<and>
     (\<forall>st s a. val (dp_round dp st s a) = of_int (rounded st (val a * 10 ^ s)) / 10 ^ s) \<and>
     (\<forall>a n. val a = of_int n \<longrightarrow> dp_to_i64 dp a = (if i64_in_range n then Some (word_of_int n) else None)) \<and>
     (\<forall>a. dp_nonneg dp a \<longleftrightarrow> 0 \<le> val a) \<and> (\<forall>a b. dp_le dp a b \<longleftrightarrow> val a \<le> val b)"

lemma exact_decimalsD:
  assumes "exact_decimals dp val"
  shows "val (dp_from_u64 dp m) = of_nat (unat m)" and "val (dp_from_i64 dp n) = of_int (sint n)"
    and "representable (val a * val b) \<Longrightarrow> \<exists>c. dp_mul dp a b = Some c \<and> val c = val a * val b"
    and "val b \<noteq> 0 \<Longrightarrow> representable (val a / val b) \<Longrightarrow> \<exists>c. dp_div dp a b = Some c \<and> val c = val a / val b"
    and "val b = 0 \<Longrightarrow> dp_div dp a b = None"
    and "val (dp_round dp st s a) = of_int (rounded st (val a * 10 ^ s)) / 10 ^ s"
    and "val a = of_int k \<Longrightarrow> dp_to_i64 dp a = (if i64_in_range k then Some (word_of_int k) else None)"
    and "dp_nonneg dp a \<longleftrightarrow> 0 \<le> val a"
    and "representable (val a + val b) \<Longrightarrow> \<exists>c. dp_add dp a b = Some c \<and> val c = val a + val b"
    and "representable (val a - val b) \<Longrightarrow> \<exists>c. dp_sub dp a b = Some c \<and> val c = val a - val b"
    and "dp_le dp a b \<longleftrightarrow> val a \<le> val b"
  using assms by (simp_all add: exact_decimals_def)

subsection \<open>Minor units\<close>

lemma rounded_of_int: "rounded st (of_int n) = n"
  by (cases st) (simp_all add: rounded_def Let_def)

lemma unat_subunits:
  assumes "unat (minor_unit cur) \<le> 19"
  shows "unat (subunits_per_unit cur) = 10 ^ unat (minor_unit cur)"
proof -
  have "(10 :: nat) ^ unat (minor_unit cur) \<le> 10 ^ 19" using assms by (rule power_increasing) simp
  then have "unat (of_nat (10 ^ unat (minor_unit cur)) :: u64) = 10 ^ unat (minor_unit cur)"
    by (intro of_nat_inverse) simp_all
  then show ?thesis by (simp add: subunits_per_unit_def)
qed

lemma subunits_value:
  assumes "exact_decimals dp val" and "unat (minor_unit cur) \<le> 19"
  shows "val (dp_from_u64 dp (subunits_per_unit cur)) = 10 ^ unat (minor_unit cur)"
  unfolding exact_decimalsD(1) [OF assms(1)] unat_subunits [OF assms(2)] by simp

lemma from_minor_exact:
  assumes "exact_decimals dp val" and "unat (minor_unit cur) \<le> 19"
  shows "\<exists>m. from_minor dp cents cur = Some m \<and> money_currency m = cur \<and>
    val (money_amount m) = of_int (sint cents) / 10 ^ unat (minor_unit cur)"
proof -
  let ?k = "unat (minor_unit cur)"
  have v: "val (dp_from_u64 dp (subunits_per_unit cur)) = 10 ^ ?k"
    by (rule subunits_value [OF assms])
  have c: "val (dp_from_i64 dp cents) = of_int (sint cents)" using exact_decimalsD(2) [OF assms(1)] .
  have "\<bar>sint cents\<bar> < 2 ^ 96" using sint_i64_lower [of cents] sint_i64_upper [of cents] by simp
  then have "representable (of_int (sint cents) / 10 ^ ?k)"
    unfolding representable_def using assms(2) by (intro exI [of _ "sint cents"] exI [of _ ?k]) simp
  then show ?thesis
    using exact_decimalsD(4) [OF assms(1), of "dp_from_u64 dp (subunits_per_unit cur)" "dp_from_i64 dp cents"]
    unfolding v c by (auto simp: from_minor_def)
qed

text \<open>
  C36. Minor units survive the round trip. For every currency of at most 19 decimal places,
  \<open>from_minor\<close> gives the exact amount and \<open>try_to_minor\<close> (and \<open>to_minor\<close>, without a panic)
  gives the same number of minor units back.
\<close>

theorem minor_units_roundtrip:
  assumes "exact_decimals dp val" and "unat (minor_unit cur) \<le> 19"
  shows "\<exists>m. from_minor dp cents cur = Some m \<and>
    val (money_amount m) = of_int (sint cents) / 10 ^ unat (minor_unit cur) \<and>
    try_to_minor dp m = Some (Some cents) \<and> to_minor dp m = Some cents"
proof -
  obtain m where m: "from_minor dp cents cur = Some m" "money_currency m = cur"
      "val (money_amount m) = of_int (sint cents) / 10 ^ unat (minor_unit cur)"
    using from_minor_exact [OF assms] by blast
  have v: "val (dp_from_u64 dp (subunits_per_unit cur)) = 10 ^ unat (minor_unit cur)"
    by (rule subunits_value [OF assms])
  then have p: "val (money_amount m) * val (dp_from_u64 dp (subunits_per_unit cur)) = of_int (sint cents)"
    using m(3) by simp
  have "\<bar>sint cents\<bar> < 2 ^ 96" using sint_i64_lower [of cents] sint_i64_upper [of cents] by simp
  then have "representable (of_int (sint cents))"
    unfolding representable_def by (intro exI [of _ "sint cents"] exI [of _ 0]) simp
  then obtain c where c: "dp_mul dp (money_amount m) (dp_from_u64 dp (subunits_per_unit cur)) = Some c"
      "val c = of_int (sint cents)"
    using exact_decimalsD(3) [OF assms(1), of "money_amount m" "dp_from_u64 dp (subunits_per_unit cur)"] unfolding p by blast
  have "val (dp_round dp MidpointNearestEven 0 c) = of_int (sint cents)"
    unfolding exact_decimalsD(6) [OF assms(1)] c(2) power_0 mult_1_right div_by_1 rounded_of_int ..
  from exact_decimalsD(7) [OF assms(1) this] have "dp_to_i64 dp (dp_round dp MidpointNearestEven 0 c) = Some cents"
    using sint_i64_lower [of cents] sint_i64_upper [of cents] by (simp add: i64_simps)
  then have "try_to_minor dp m = Some (Some cents)" using m(2) c(1) by (simp add: try_to_minor_def)
  then show ?thesis using m by (auto simp: to_minor_def)
qed

text \<open>
  The number of subunits wraps: a currency of 64 decimal places has none, and converting any
  amount panics with a division by zero.
\<close>

lemma huge_minor_unit_panics:
  assumes "exact_decimals dp val" and "minor_unit cur = 64"
  shows "from_minor dp cents cur = None"
proof -
  have "subunits_per_unit cur = 0" using assms(2) by (simp add: subunits_per_unit_def)
  then have "val (dp_from_u64 dp (subunits_per_unit cur)) = 0" using exact_decimalsD(1) [OF assms(1), of 0] by simp
  from exact_decimalsD(5) [OF assms(1) this] show ?thesis by (simp add: from_minor_def)
qed

subsection \<open>Rounding\<close>

lemma rounded_near:
  fixes x :: rat
  shows "\<bar>of_int (rounded st x) - x\<bar> < 1"
    and "st \<in> {MidpointNearestEven, MidpointAwayFromZero, MidpointTowardZero} \<Longrightarrow> \<bar>of_int (rounded st x) - x\<bar> \<le> 1 / 2"
proof -
  consider (int) "x = of_int \<lfloor>x\<rfloor>" "(of_int \<lceil>x\<rceil> :: rat) = of_int \<lfloor>x\<rfloor>"
    | (frac) "of_int \<lfloor>x\<rfloor> < x" "x < of_int \<lfloor>x\<rfloor> + 1" "(of_int \<lceil>x\<rceil> :: rat) = of_int \<lfloor>x\<rfloor> + 1"
    using floor_correct [of x] by (cases "x = of_int \<lfloor>x\<rfloor>") (auto simp: ceiling_altdef)
  then show "\<bar>of_int (rounded st x) - x\<bar> < 1"
    by cases (cases st; auto simp: rounded_def Let_def abs_if split: if_splits)+
  assume mid: "st \<in> {MidpointNearestEven, MidpointAwayFromZero, MidpointTowardZero}"
  consider (int) "x = of_int \<lfloor>x\<rfloor>" "(of_int \<lceil>x\<rceil> :: rat) = of_int \<lfloor>x\<rfloor>"
    | (frac) "of_int \<lfloor>x\<rfloor> < x" "x < of_int \<lfloor>x\<rfloor> + 1" "(of_int \<lceil>x\<rceil> :: rat) = of_int \<lfloor>x\<rfloor> + 1"
    using floor_correct [of x] by (cases "x = of_int \<lfloor>x\<rfloor>") (auto simp: ceiling_altdef)
  then show "\<bar>of_int (rounded st x) - x\<bar> \<le> 1 / 2"
    by cases (use mid in \<open>cases st; auto simp: rounded_def Let_def abs_if split: if_splits\<close>)+
qed

lemma rounded_direction:
  fixes x :: rat
  shows "\<bar>of_int (rounded ToZero x)\<bar> \<le> \<bar>x\<bar>" and "\<bar>x\<bar> \<le> \<bar>of_int (rounded AwayFromZero x) :: rat\<bar>"
    and "0 \<le> x \<Longrightarrow> of_int (rounded ToZero x) \<le> x" and "0 \<le> x \<Longrightarrow> x \<le> of_int (rounded AwayFromZero x)"
    and "x < 0 \<Longrightarrow> x \<le> of_int (rounded ToZero x)" and "x < 0 \<Longrightarrow> of_int (rounded AwayFromZero x) \<le> x"
proof -
  have f: "of_int \<lfloor>x\<rfloor> \<le> x" "x \<le> of_int \<lceil>x\<rceil>" by linarith+
  have z: "0 \<le> x \<Longrightarrow> (0 :: rat) \<le> of_int \<lfloor>x\<rfloor>" "x < 0 \<Longrightarrow> (of_int \<lceil>x\<rceil> :: rat) \<le> 0" by simp_all
  show "\<bar>of_int (rounded ToZero x)\<bar> \<le> \<bar>x\<bar>" "\<bar>x\<bar> \<le> \<bar>of_int (rounded AwayFromZero x) :: rat\<bar>"
    using f z by (cases "0 \<le> x"; simp add: rounded_def Let_def abs_if; linarith)+
qed (simp_all add: rounded_def Let_def)

text \<open>A result half a unit away decides a tie.\<close>

lemma rounded_ties:
  fixes x :: rat
  assumes "\<bar>of_int (rounded st x) - x\<bar> = 1 / 2"
  shows "st = MidpointAwayFromZero \<Longrightarrow> \<bar>x\<bar> < \<bar>of_int (rounded st x)\<bar>"
    and "st = MidpointTowardZero \<Longrightarrow> \<bar>of_int (rounded st x)\<bar> < \<bar>x\<bar>"
    and "st = MidpointNearestEven \<Longrightarrow> even (rounded st x)"
proof -
  have x: "x \<noteq> of_int n" for n
  proof
    assume "x = of_int n"
    with assms have "\<bar>of_int (rounded st x - n) :: rat\<bar> = 1 / 2" by simp
    then have "(of_int (2 * \<bar>rounded st x - n\<bar>) :: rat) = of_int 1" by simp
    then have "2 * \<bar>rounded st x - n\<bar> = 1" by (simp only: of_int_eq_iff)
    then show False by presburger
  qed
  have f: "of_int \<lfloor>x\<rfloor> < x" "x < of_int \<lfloor>x\<rfloor> + 1" "\<lceil>x\<rceil> = \<lfloor>x\<rfloor> + 1"
    using floor_correct [of x] x [of "\<lfloor>x\<rfloor>"] by (auto simp: ceiling_altdef order_less_le)
  have z: "0 \<le> x \<Longrightarrow> (0 :: rat) \<le> of_int \<lfloor>x\<rfloor>" "x < 0 \<Longrightarrow> (of_int \<lfloor>x\<rfloor> :: rat) + 1 \<le> 0"
    using f(3) by simp_all (metis ceiling_le_zero of_int_1 of_int_add of_int_le_0_iff less_le)
  show "st = MidpointAwayFromZero \<Longrightarrow> \<bar>x\<bar> < \<bar>of_int (rounded st x)\<bar>"
    using assms f z by (auto simp: rounded_def Let_def abs_if split: if_splits)
  show "st = MidpointTowardZero \<Longrightarrow> \<bar>of_int (rounded st x)\<bar> < \<bar>x\<bar>"
    using assms f z by (auto simp: rounded_def Let_def abs_if split: if_splits)
  show "st = MidpointNearestEven \<Longrightarrow> even (rounded st x)"
    using assms f by (auto simp: rounded_def Let_def abs_if split: if_splits)
qed

text \<open>The strategy that a mode chooses for a value.\<close>

definition mode_strategy :: "rounding_mode \<Rightarrow> rat \<Rightarrow> rounding_strategy" where
  "mode_strategy mode x =
     (case mode of
        HalfEven \<Rightarrow> MidpointNearestEven | HalfUp \<Rightarrow> MidpointAwayFromZero | HalfDown \<Rightarrow> MidpointTowardZero
      | RoundUp \<Rightarrow> AwayFromZero | RoundDown \<Rightarrow> ToZero
      | Ceiling \<Rightarrow> if 0 \<le> x then AwayFromZero else ToZero | Floor \<Rightarrow> if 0 \<le> x then ToZero else AwayFromZero)"

lemma apply_mode_value:
  assumes "exact_decimals dp val"
  shows "val (apply_mode dp mode v scale) = of_int (rounded (mode_strategy mode (val v)) (val v * 10 ^ scale)) / 10 ^ scale"
  using exact_decimalsD(6,8) [OF assms] by (cases mode) (simp_all add: apply_mode_def mode_strategy_def)

text \<open>
  C37. What the rounding modes promise. The result is a multiple of the unit in the last place,
  less than one unit away from the value, and rounding it again changes nothing. The three
  half modes are at most half a unit away, and a tie goes to the even neighbour with \<open>HalfEven\<close>,
  away from zero with \<open>HalfUp\<close> and towards zero with \<open>HalfDown\<close>. \<open>Ceiling\<close> never rounds down and
  \<open>Floor\<close> never up, for either sign; \<open>Down\<close> never moves away from zero and \<open>Up\<close> never towards it.
  \<open>Money::round\<close> does this at the decimal places of the currency, which it keeps.
\<close>

theorem rounding_modes_bounded:
  assumes "exact_decimals dp val" and "w = val (apply_mode dp mode v scale)"
  shows "(\<exists>n. w = of_int n / 10 ^ scale) \<and> \<bar>w - val v\<bar> < 1 / 10 ^ scale \<and>
    val (apply_mode dp mode (apply_mode dp mode v scale) scale) = w \<and>
    (mode \<in> {HalfEven, HalfUp, HalfDown} \<longrightarrow> \<bar>w - val v\<bar> \<le> 1 / 2 / 10 ^ scale) \<and>
    (\<bar>w - val v\<bar> = 1 / 2 / 10 ^ scale \<longrightarrow>
       (mode = HalfEven \<longrightarrow> (\<exists>n. w = of_int (2 * n) / 10 ^ scale)) \<and>
       (mode = HalfUp \<longrightarrow> \<bar>val v\<bar> < \<bar>w\<bar>) \<and> (mode = HalfDown \<longrightarrow> \<bar>w\<bar> < \<bar>val v\<bar>)) \<and>
    (mode = Ceiling \<longrightarrow> val v \<le> w) \<and> (mode = Floor \<longrightarrow> w \<le> val v) \<and>
    (mode = RoundDown \<longrightarrow> \<bar>w\<bar> \<le> \<bar>val v\<bar>) \<and> (mode = RoundUp \<longrightarrow> \<bar>val v\<bar> \<le> \<bar>w\<bar>) \<and>
    (scale = unat (minor_unit (money_currency m)) \<longrightarrow> v = money_amount m \<longrightarrow>
       val (money_amount (money_round dp m mode)) = w \<and> money_currency (money_round dp m mode) = money_currency m)"
proof -
  define p :: rat where "p = 10 ^ scale"
  define x where "x = val v * p"
  define st where "st = mode_strategy mode (val v)"
  define r :: rat where "r = of_int (rounded st x)"
  have p: "0 < p" by (simp add: p_def)
  have w: "w = r / p" "val v = x / p"
    using apply_mode_value [OF assms(1), of mode v scale] assms(2) p by (simp_all add: r_def x_def st_def p_def)
  have sgn: "0 \<le> val v \<longleftrightarrow> 0 \<le> x" using p by (simp add: x_def zero_le_mult_iff)
  have dist: "\<bar>w - val v\<bar> = \<bar>r - x\<bar> / p" "\<bar>w\<bar> = \<bar>r\<bar> / p" "\<bar>val v\<bar> = \<bar>x\<bar> / p"
    using p by (simp_all add: w diff_divide_distrib [symmetric])
  have unit: "a / p = b / p \<longleftrightarrow> a = b" "a / p < b / p \<longleftrightarrow> a < b" "a / p \<le> b / p \<longleftrightarrow> a \<le> b" for a b
    using p by (simp_all add: divide_less_cancel divide_le_cancel)
  have near: "\<bar>r - x\<bar> < 1" "mode \<in> {HalfEven, HalfUp, HalfDown} \<longrightarrow> \<bar>r - x\<bar> \<le> 1 / 2"
    using rounded_near [of st x] by (auto simp: r_def st_def mode_strategy_def)
  have again: "val (apply_mode dp mode (apply_mode dp mode v scale) scale) = w"
    using p unfolding apply_mode_value [OF assms(1), of mode "apply_mode dp mode v scale"] assms(2) [symmetric] p_def [symmetric]
    by (simp add: w(1) r_def rounded_of_int)
  have tie: "(mode = HalfEven \<longrightarrow> even (rounded st x)) \<and> (mode = HalfUp \<longrightarrow> \<bar>x\<bar> < \<bar>r\<bar>) \<and> (mode = HalfDown \<longrightarrow> \<bar>r\<bar> < \<bar>x\<bar>)"
    if "\<bar>r - x\<bar> = 1 / 2"
    using rounded_ties [OF that [unfolded r_def]] by (auto simp: r_def st_def mode_strategy_def)
  have dir: "mode = Ceiling \<longrightarrow> x \<le> r" "mode = Floor \<longrightarrow> r \<le> x" "mode = RoundDown \<longrightarrow> \<bar>r\<bar> \<le> \<bar>x\<bar>" "mode = RoundUp \<longrightarrow> \<bar>x\<bar> \<le> \<bar>r\<bar>"
    using rounded_direction [of x] sgn by (auto simp: r_def st_def mode_strategy_def)
  have even: "even (rounded st x) \<Longrightarrow> \<exists>n. w = of_int (2 * n) / p" unfolding w r_def by (metis evenE)
  have "(\<exists>n. w = of_int n / p) \<and> \<bar>w - val v\<bar> < 1 / p \<and> (mode \<in> {HalfEven, HalfUp, HalfDown} \<longrightarrow> \<bar>w - val v\<bar> \<le> 1 / 2 / p) \<and>
    (\<bar>w - val v\<bar> = 1 / 2 / p \<longrightarrow> (mode = HalfEven \<longrightarrow> (\<exists>n. w = of_int (2 * n) / p)) \<and>
       (mode = HalfUp \<longrightarrow> \<bar>val v\<bar> < \<bar>w\<bar>) \<and> (mode = HalfDown \<longrightarrow> \<bar>w\<bar> < \<bar>val v\<bar>))"
    using near tie even p w(1) unfolding dist unit by (auto simp: r_def)
  moreover have "mode = Ceiling \<longrightarrow> val v \<le> w" "mode = Floor \<longrightarrow> w \<le> val v"
    "mode = RoundDown \<longrightarrow> \<bar>w\<bar> \<le> \<bar>val v\<bar>" "mode = RoundUp \<longrightarrow> \<bar>val v\<bar> \<le> \<bar>w\<bar>"
    using dir p by (simp_all add: w divide_right_mono)
  moreover have "scale = unat (minor_unit (money_currency m)) \<longrightarrow> v = money_amount m \<longrightarrow>
      val (money_amount (money_round dp m mode)) = w \<and> money_currency (money_round dp m mode) = money_currency m"
    using assms(2) by (simp add: money_round_def)
  ultimately show ?thesis using again unfolding p_def by blast
qed

text \<open>The rational numbers, as a package that meets the hypotheses.\<close>

definition rat_pkg :: "rat decimal_pkg" where
  "rat_pkg =
     \<lparr>dp_zero = 0, dp_from_u64 = (\<lambda>n. of_nat (unat n)), dp_from_i64 = (\<lambda>n. of_int (sint n)),
      dp_add = (\<lambda>a b. Some (a + b)), dp_sub = (\<lambda>a b. Some (a - b)), dp_mul = (\<lambda>a b. Some (a * b)),
      dp_div = (\<lambda>a b. if b = 0 then None else Some (a / b)),
      dp_round = (\<lambda>st s a. of_int (rounded st (a * 10 ^ s)) / 10 ^ s),
      dp_to_i64 = (\<lambda>a. if i64_in_range \<lfloor>a\<rfloor> then Some (word_of_int \<lfloor>a\<rfloor>) else None),
      dp_nonneg = (\<lambda>a. 0 \<le> a), dp_le = (\<le>), dp_fixed = (\<lambda>_ _. ''0'')\<rparr>"

lemma rat_pkg_exact: "exact_decimals rat_pkg id"
  by (simp add: exact_decimals_def rat_pkg_def)

theorem minor_units_roundtrip_witness:
  "\<exists>m. from_minor rat_pkg (- 12345) usd = Some m \<and> to_minor rat_pkg m = Some (- 12345)"
  using minor_units_roundtrip [OF rat_pkg_exact, of usd "- 12345"] by (auto simp: usd_def)

theorem rounding_modes_bounded_witness:
  "\<bar>id (apply_mode rat_pkg HalfDown (- (5 / 2)) 0)\<bar> < \<bar>id (- (5 / 2) :: rat)\<bar> \<and> id (apply_mode rat_pkg HalfDown (- (5 / 2)) 0) = - 2"
proof -
  have "apply_mode rat_pkg HalfDown (- (5 / 2)) 0 = - 2"
    unfolding apply_mode_def rat_pkg_def rounded_def by code_simp
  then show ?thesis
    using rounding_modes_bounded [OF rat_pkg_exact refl, of HalfDown "- (5 / 2)" 0] by simp
qed

subsection \<open>Currencies do not mix\<close>

text \<open>
  Sums and differences are computed exactly when the codes of the currencies agree and the
  result is representable, and refused with both codes when they do not; scaling never changes
  the currency.
\<close>

lemma currencies_do_not_mix:
  assumes "exact_decimals dp val"
  shows "currency_code (money_currency m) \<noteq> currency_code (money_currency n) \<Longrightarrow>
      money_add dp m n = Some (Err (CurrencyMismatch (currency_code (money_currency m)) (currency_code (money_currency n)))) \<and>
      money_sub dp m n = Some (Err (CurrencyMismatch (currency_code (money_currency m)) (currency_code (money_currency n))))"
    and "currency_code (money_currency m) = currency_code (money_currency n) \<Longrightarrow>
      representable (val (money_amount m) + val (money_amount n)) \<Longrightarrow>
      \<exists>s. money_add dp m n = Some (Ok s) \<and> money_currency s = money_currency m \<and>
        val (money_amount s) = val (money_amount m) + val (money_amount n)"
    and "currency_code (money_currency m) = currency_code (money_currency n) \<Longrightarrow>
      representable (val (money_amount m) - val (money_amount n)) \<Longrightarrow>
      \<exists>s. money_sub dp m n = Some (Ok s) \<and> money_currency s = money_currency m \<and>
        val (money_amount s) = val (money_amount m) - val (money_amount n)"
  using exact_decimalsD(9,10) [OF assms, of "money_amount m" "money_amount n"]
  by (auto simp: money_add_def money_sub_def check_currency_def)

subsection \<open>The amounts of the REST API\<close>

text \<open>
  \<open>format_money\<close> and \<open>decimal_from_minor\<close> of \<open>src/api/mod.rs\<close> go through \<open>Money::from_minor\<close> and
  the package's fixed-point text. Theory Api has that composition as the field \<open>ae_minor_text\<close>; this
  is the field, and for every currency that the API resolves (none or two decimal places) the
  conversion does not panic, so that the total function is what the code computes.
\<close>

definition minor_text :: "'d decimal_pkg \<Rightarrow> i64 \<Rightarrow> u8 \<Rightarrow> string" where
  "minor_text dp cents minor =
     (case from_minor dp cents (usd\<lparr>minor_unit := minor\<rparr>) of
        None \<Rightarrow> [] | Some m \<Rightarrow> dp_fixed dp (unat minor) (money_amount m))"

lemma resolved_minor_unit: "unat (minor_unit (resolve_currency ev code)) \<le> 2"
  by (simp add: resolve_currency_def Let_def usd_def eur_def vnd_def jpy_def)

lemma format_money_text:
  assumes "exact_decimals dp val" and "ae_minor_text ev = minor_text dp" and "cur = resolve_currency ev code"
  shows "\<exists>m. from_minor dp cents cur = Some m \<and>
    val (money_amount m) = of_int (sint cents) / 10 ^ unat (minor_unit cur) \<and>
    decimal_from_minor ev cents cur = dp_fixed dp (unat (minor_unit cur)) (money_amount m) \<and>
    format_money ev cents cur = dp_fixed dp (unat (minor_unit cur)) (money_amount m) @ '' '' @ currency_code cur"
proof -
  have "unat (minor_unit cur) \<le> 19" using resolved_minor_unit [of ev code] assms(3) by simp
  from from_minor_exact [OF assms(1) this, of cents] obtain m where
    m: "from_minor dp cents cur = Some m" "val (money_amount m) = of_int (sint cents) / 10 ^ unat (minor_unit cur)" by blast
  have "minor_text dp cents (minor_unit cur) = dp_fixed dp (unat (minor_unit cur)) (money_amount m)"
    using m(1) by (auto simp: minor_text_def from_minor_def subunits_per_unit_def split: option.splits)
  then show ?thesis using m assms(2) by (simp add: decimal_from_minor_def format_money_def)
qed

end
