(* ===== verification/Choreography.thy ===== *)
theory Choreography
  imports Money
begin

section \<open>Choreographed transfers\<close>

text \<open>
  \<open>src/service/choreography.rs\<close>: the events of a transfer, the service that tracks its state,
  and the account service whose handlers debit, credit and refund. Amounts are decimals of the
  package \<open>decimal_pkg\<close> of theory Money, whose sums and differences may panic; they are exact when
  they are representable (\<open>exact_decimals\<close>). A handler that panics answers \<open>None\<close>; the state
  it leaves is that before the panic. Identifiers and instants are arguments, and the text of an
  identifier is too.
\<close>

datatype choreo_state =
  ChoreoInitiated | ChoreoDebitPending | ChoreoDebited | ChoreoCreditPending | ChoreoCompleted |
  ChoreoFailed

record 'd transfer_initiated =
  ti_correlation_id :: uuid
  ti_transaction_id :: string
  ti_from :: string
  ti_to :: string
  ti_amount :: 'd
  ti_timestamp :: timestamp

record 'd account_debited =
  ad_correlation_id :: uuid
  ad_transaction_id :: string
  ad_account_id :: string
  ad_amount :: 'd
  ad_timestamp :: timestamp

record 'd account_credited =
  ac_correlation_id :: uuid
  ac_transaction_id :: string
  ac_account_id :: string
  ac_amount :: 'd
  ac_timestamp :: timestamp

record 'd debit_failed =
  df_correlation_id :: uuid
  df_transaction_id :: string
  df_account_id :: string
  df_amount :: 'd
  df_reason :: string
  df_timestamp :: timestamp

record 'd credit_failed =
  cf_correlation_id :: uuid
  cf_transaction_id :: string
  cf_account_id :: string
  cf_amount :: 'd
  cf_reason :: string
  cf_timestamp :: timestamp

record transfer_completed =
  tc_correlation_id :: uuid
  tc_transaction_id :: string
  tc_timestamp :: timestamp

record transfer_failed =
  tf_correlation_id :: uuid
  tf_transaction_id :: string
  tf_reason :: string
  tf_timestamp :: timestamp

record 'd refund_initiated =
  rf_correlation_id :: uuid
  rf_transaction_id :: string
  rf_account_id :: string
  rf_amount :: 'd
  rf_timestamp :: timestamp

subsection \<open>The transaction service\<close>

type_synonym choreo_states = "string \<rightharpoonup> choreo_state"

definition initiate_transfer ::
  "uuid \<Rightarrow> string \<Rightarrow> timestamp \<Rightarrow> string \<Rightarrow> string \<Rightarrow> 'd \<Rightarrow> choreo_states \<Rightarrow>
   'd transfer_initiated \<times> choreo_states"
where
  "initiate_transfer cid tid now source destination amount st =
     (\<lparr>ti_correlation_id = cid, ti_transaction_id = tid, ti_from = source, ti_to = destination,
       ti_amount = amount, ti_timestamp = now\<rparr>,
      st(tid \<mapsto> ChoreoInitiated))"

definition tx_account_debited :: "'d account_debited \<Rightarrow> choreo_states \<Rightarrow> choreo_states" where
  "tx_account_debited e st = st(ad_transaction_id e \<mapsto> ChoreoDebited)"

definition tx_account_credited ::
  "timestamp \<Rightarrow> 'd account_credited \<Rightarrow> choreo_states \<Rightarrow> transfer_completed \<times> choreo_states"
where
  "tx_account_credited now e st =
     (\<lparr>tc_correlation_id = ac_correlation_id e, tc_transaction_id = ac_transaction_id e,
       tc_timestamp = now\<rparr>,
      st(ac_transaction_id e \<mapsto> ChoreoCompleted))"

definition tx_debit_failed ::
  "timestamp \<Rightarrow> 'd debit_failed \<Rightarrow> choreo_states \<Rightarrow> transfer_failed \<times> choreo_states"
where
  "tx_debit_failed now e st =
     (\<lparr>tf_correlation_id = df_correlation_id e, tf_transaction_id = df_transaction_id e,
       tf_reason = df_reason e, tf_timestamp = now\<rparr>,
      st(df_transaction_id e \<mapsto> ChoreoFailed))"

definition tx_credit_failed ::
  "timestamp \<Rightarrow> timestamp \<Rightarrow> 'd credit_failed \<Rightarrow> choreo_states \<Rightarrow>
   (transfer_failed \<times> 'd refund_initiated) \<times> choreo_states"
where
  "tx_credit_failed now1 now2 e st =
     ((\<lparr>tf_correlation_id = cf_correlation_id e, tf_transaction_id = cf_transaction_id e,
        tf_reason = cf_reason e, tf_timestamp = now1\<rparr>,
       \<lparr>rf_correlation_id = cf_correlation_id e, rf_transaction_id = cf_transaction_id e,
        rf_account_id = cf_account_id e, rf_amount = cf_amount e, rf_timestamp = now2\<rparr>),
      st(cf_transaction_id e \<mapsto> ChoreoFailed))"

subsection \<open>The account service\<close>

record 'd choreo_accounts =
  ch_balances :: "string \<rightharpoonup> 'd"
  ch_processed_debits :: "uuid set"
  ch_processed_credits :: "uuid set"

definition choreo_new :: "'d choreo_accounts" where
  "choreo_new = \<lparr>ch_balances = Map.empty, ch_processed_debits = {}, ch_processed_credits = {}\<rparr>"

definition choreo_seed :: "string \<Rightarrow> 'd \<Rightarrow> 'd choreo_accounts \<Rightarrow> 'd choreo_accounts" where
  "choreo_seed aid initial s = s\<lparr>ch_balances := (ch_balances s)(aid \<mapsto> initial)\<rparr>"

definition debited_event :: "timestamp \<Rightarrow> 'd transfer_initiated \<Rightarrow> 'd account_debited" where
  "debited_event now e =
     \<lparr>ad_correlation_id = ti_correlation_id e, ad_transaction_id = ti_transaction_id e,
      ad_account_id = ti_from e, ad_amount = ti_amount e, ad_timestamp = now\<rparr>"

definition debit_failed_event :: "timestamp \<Rightarrow> string \<Rightarrow> 'd transfer_initiated \<Rightarrow> 'd debit_failed" where
  "debit_failed_event now reason e =
     \<lparr>df_correlation_id = ti_correlation_id e, df_transaction_id = ti_transaction_id e,
      df_account_id = ti_from e, df_amount = ti_amount e, df_reason = reason, df_timestamp = now\<rparr>"

definition handle_transfer_initiated ::
  "'d decimal_pkg \<Rightarrow> timestamp \<Rightarrow> 'd transfer_initiated \<Rightarrow> 'd choreo_accounts \<Rightarrow>
   ('d account_debited, 'd debit_failed) result option \<times> 'd choreo_accounts"
where
  "handle_transfer_initiated dp now e s =
     (if ti_correlation_id e \<in> ch_processed_debits s then (Some (Ok (debited_event now e)), s)
      else (case ch_balances s (ti_from e) of
              Some b \<Rightarrow>
                if dp_le dp (ti_amount e) b
                then (case dp_sub dp b (ti_amount e) of
                        None \<Rightarrow> (None, s)
                      | Some new_balance \<Rightarrow>
                          (Some (Ok (debited_event now e)),
                           s\<lparr>ch_balances := (ch_balances s)(ti_from e \<mapsto> new_balance),
                             ch_processed_debits := insert (ti_correlation_id e) (ch_processed_debits s)\<rparr>))
                else (Some (Err (debit_failed_event now ''INSUFFICIENT_FUNDS'' e)), s)
            | None \<Rightarrow> (Some (Err (debit_failed_event now ''ACCOUNT_NOT_FOUND'' e)), s)))"

definition credited_event :: "timestamp \<Rightarrow> string \<Rightarrow> 'd account_debited \<Rightarrow> 'd account_credited" where
  "credited_event now dest e =
     \<lparr>ac_correlation_id = ad_correlation_id e, ac_transaction_id = ad_transaction_id e,
      ac_account_id = dest, ac_amount = ad_amount e, ac_timestamp = now\<rparr>"

definition handle_account_debited ::
  "'d decimal_pkg \<Rightarrow> timestamp \<Rightarrow> 'd account_debited \<Rightarrow> string \<Rightarrow> 'd choreo_accounts \<Rightarrow>
   ('d account_credited, 'd credit_failed) result option \<times> 'd choreo_accounts"
where
  "handle_account_debited dp now e dest s =
     (let failed = \<lparr>cf_correlation_id = ad_correlation_id e, cf_transaction_id = ad_transaction_id e,
                    cf_account_id = dest, cf_amount = ad_amount e,
                    cf_reason = ''DESTINATION_NOT_FOUND'', cf_timestamp = now\<rparr>
      in if ad_correlation_id e \<in> ch_processed_credits s then (Some (Ok (credited_event now dest e)), s)
      else (case ch_balances s dest of
              Some b \<Rightarrow>
                (case dp_add dp b (ad_amount e) of
                   None \<Rightarrow> (None, s)
                 | Some new_balance \<Rightarrow>
                     (Some (Ok (credited_event now dest e)),
                      s\<lparr>ch_balances := (ch_balances s)(dest \<mapsto> new_balance),
                        ch_processed_credits := insert (ad_correlation_id e) (ch_processed_credits s)\<rparr>))
            | None \<Rightarrow>
                (case ch_balances s (ad_account_id e) of
                   None \<Rightarrow> (Some (Err failed), s)
                 | Some b \<Rightarrow>
                     (case dp_add dp b (ad_amount e) of
                        None \<Rightarrow> (None, s)
                      | Some refunded \<Rightarrow>
                          (Some (Err failed), s\<lparr>ch_balances := (ch_balances s)(ad_account_id e \<mapsto> refunded)\<rparr>)))))"

subsection \<open>The whole transfer\<close>

text \<open>
  The services connected: the initiation is delivered to the account service, and its debited
  event, if any, back to the account service for the destination of the transfer. A delivery
  reads two instants.
\<close>

type_synonym 'd delivery = "('d account_credited, 'd debit_failed + 'd credit_failed) result option"

definition deliver_transfer ::
  "'d decimal_pkg \<Rightarrow> timestamp \<times> timestamp \<Rightarrow> 'd transfer_initiated \<Rightarrow> 'd choreo_accounts \<Rightarrow>
   'd delivery \<times> 'd choreo_accounts"
where
  "deliver_transfer dp now e s =
     (case handle_transfer_initiated dp (fst now) e s of
        (None, s1) \<Rightarrow> (None, s1)
      | (Some (Err f), s1) \<Rightarrow> (Some (Err (Inl f)), s1)
      | (Some (Ok d), s1) \<Rightarrow>
          (case handle_account_debited dp (snd now) d (ti_to e) s1 of
             (None, s2) \<Rightarrow> (None, s2)
           | (Some (Err f), s2) \<Rightarrow> (Some (Err (Inr f)), s2)
           | (Some (Ok c), s2) \<Rightarrow> (Some (Ok c), s2)))"

lemmas choreo_defs = deliver_transfer_def handle_transfer_initiated_def handle_account_debited_def
  debited_event_def credited_event_def debit_failed_event_def

fun deliver_times ::
  "'d decimal_pkg \<Rightarrow> (timestamp \<times> timestamp) list \<Rightarrow> 'd transfer_initiated \<Rightarrow> 'd choreo_accounts \<Rightarrow>
   'd delivery list \<times> 'd choreo_accounts"
where
  "deliver_times dp [] e s = ([], s)"
| "deliver_times dp (now # nows) e s =
     (let (r, s1) = deliver_transfer dp now e s; (rs, s2) = deliver_times dp nows e s1 in (r # rs, s2))"

lemma deliver_times_stable:
  assumes "\<And>now. deliver_transfer dp now e s = (f now, s)"
  shows "deliver_times dp nows e s = (map f nows, s)"
  using assms by (induction nows) simp_all

definition balance_values :: "('d \<Rightarrow> rat) \<Rightarrow> 'd choreo_accounts \<Rightarrow> string \<rightharpoonup> rat" where
  "balance_values val s = map_option val \<circ> ch_balances s"

definition credited :: "'d transfer_initiated \<Rightarrow> timestamp \<times> timestamp \<Rightarrow> 'd account_credited" where
  "credited e now = credited_event (snd now) (ti_to e) (debited_event (fst now) e)"

lemmas credited_defs = credited_def debited_event_def credited_event_def

text \<open>
  C28. A choreographed transfer moves its amount exactly once. Let the destination exist and
  differ from the source, and let the transfer's identifier be new. If the source has the
  funds and the two new balances are representable, the first delivery moves exactly the amount
  and every delivery is answered with the credit, without moving anything more. With
  insufficient funds or an unknown source every delivery is refused with that reason and
  nothing changes. No delivery panics. (Without a destination the refund repeats, and a credit
  that overflows loses the amount: see below.)
\<close>

theorem choreography_exactly_once:
  assumes "exact_decimals dp val"
    and "ti_correlation_id e \<notin> ch_processed_debits s" and "ti_correlation_id e \<notin> ch_processed_credits s"
    and "ti_from e \<noteq> ti_to e" and "ch_balances s (ti_to e) = Some d"
    and "\<And>b. ch_balances s (ti_from e) = Some b \<Longrightarrow> val (ti_amount e) \<le> val b \<Longrightarrow>
      representable (val b - val (ti_amount e)) \<and> representable (val d + val (ti_amount e))"
    and "nows \<noteq> []" and "deliver_times dp nows e s = (rs, s')"
  shows "case ch_balances s (ti_from e) of
      Some b \<Rightarrow>
        if val (ti_amount e) \<le> val b
        then rs = map (\<lambda>now. Some (Ok (credited e now))) nows \<and>
          balance_values val s' =
            (balance_values val s)(ti_from e \<mapsto> val b - val (ti_amount e), ti_to e \<mapsto> val d + val (ti_amount e))
        else rs = map (\<lambda>now. Some (Err (Inl (debit_failed_event (fst now) ''INSUFFICIENT_FUNDS'' e)))) nows \<and> s' = s
    | None \<Rightarrow> rs = map (\<lambda>now. Some (Err (Inl (debit_failed_event (fst now) ''ACCOUNT_NOT_FOUND'' e)))) nows \<and> s' = s"
proof (cases "ch_balances s (ti_from e)")
  case None
  then have "deliver_transfer dp now e s = (Some (Err (Inl (debit_failed_event (fst now) ''ACCOUNT_NOT_FOUND'' e))), s)" for now
    using assms(2) by (simp add: deliver_transfer_def handle_transfer_initiated_def)
  from deliver_times_stable [OF this, of nows] show ?thesis using None assms(8) by simp
next
  case (Some b)
  note le = exact_decimalsD(11) [OF assms(1)]
  show ?thesis
  proof (cases "val (ti_amount e) \<le> val b")
    case True
    obtain b' where b': "dp_sub dp b (ti_amount e) = Some b'" "val b' = val b - val (ti_amount e)"
      using exact_decimalsD(10) [OF assms(1), of b "ti_amount e"] assms(6) [OF Some True] by blast
    obtain d' where d': "dp_add dp d (ti_amount e) = Some d'" "val d' = val d + val (ti_amount e)"
      using exact_decimalsD(9) [OF assms(1), of d "ti_amount e"] assms(6) [OF Some True] by blast
    let ?s = "s\<lparr>ch_balances := (ch_balances s)(ti_from e \<mapsto> b', ti_to e \<mapsto> d'),
      ch_processed_debits := insert (ti_correlation_id e) (ch_processed_debits s),
      ch_processed_credits := insert (ti_correlation_id e) (ch_processed_credits s)\<rparr>"
    have first: "deliver_transfer dp now e s = (Some (Ok (credited e now)), ?s)" for now
      using assms(2-5) Some True b'(1) d'(1) by (simp add: choreo_defs credited_def le Let_def)
    have "deliver_transfer dp now e ?s = (Some (Ok (credited e now)), ?s)" for now
      by (simp add: choreo_defs credited_def)
    from deliver_times_stable [OF this] first assms(7,8)
    have "rs = map (\<lambda>now. Some (Ok (credited e now))) nows" "s' = ?s" by (cases nows; auto)+
    then show ?thesis using Some True b'(2) d'(2) assms(4) by (auto simp: balance_values_def fun_eq_iff)
  next
    case False
    then have "deliver_transfer dp now e s = (Some (Err (Inl (debit_failed_event (fst now) ''INSUFFICIENT_FUNDS'' e))), s)" for now
      using assms(2) Some by (simp add: deliver_transfer_def handle_transfer_initiated_def le)
    from deliver_times_stable [OF this, of nows] show ?thesis using Some False assms(8) by simp
  qed
qed

definition demo_transfer :: "rat transfer_initiated" where
  "demo_transfer = \<lparr>ti_correlation_id = 1, ti_transaction_id = ''t'', ti_from = ''alice'', ti_to = ''bob'',
     ti_amount = 30, ti_timestamp = 0\<rparr>"

lemma representable_int: "\<bar>n\<bar> < 2 ^ 96 \<Longrightarrow> representable (of_int n)"
  unfolding representable_def by (intro exI [of _ n] exI [of _ 0]) simp

theorem choreography_exactly_once_witness:
  "let s = choreo_seed ''bob'' 5 (choreo_seed ''alice'' 100 choreo_new);
       (rs, s') = deliver_times rat_pkg [(1, 2), (3, 4), (5, 6)] demo_transfer s
   in rs = map (\<lambda>now. Some (Ok (credited demo_transfer now))) [(1, 2), (3, 4), (5, 6)] \<and>
      balance_values id s' = [''alice'' \<mapsto> 70, ''bob'' \<mapsto> 35]"
proof -
  let ?s = "choreo_seed ''bob'' 5 (choreo_seed ''alice'' 100 choreo_new)"
  obtain rs s' where run: "deliver_times rat_pkg [(1, 2), (3, 4), (5, 6)] demo_transfer ?s = (rs, s')" by fastforce
  have r: "representable 70" "representable 35" using representable_int [of 70] representable_int [of 35] by simp_all
  have "ti_correlation_id demo_transfer \<notin> ch_processed_debits ?s" "ti_correlation_id demo_transfer \<notin> ch_processed_credits ?s"
    "ti_from demo_transfer \<noteq> ti_to demo_transfer" "ch_balances ?s (ti_to demo_transfer) = Some 5"
    by (simp_all add: demo_transfer_def choreo_seed_def choreo_new_def)
  from choreography_exactly_once [OF rat_pkg_exact this _ _ run] r run show ?thesis
    by (simp add: demo_transfer_def choreo_seed_def choreo_new_def balance_values_def fun_eq_iff)
qed

text \<open>
  The refund is not idempotent. When the destination does not exist, every delivery after
  the first refunds again: the refund does not clear the record of the debit, so a redelivered
  initiation skips the debit, and nothing records the refund. After \<open>n + 1\<close> deliveries the source
  has its balance and \<open>n\<close> times the amount on top, as long as that is representable.
\<close>

lemma refund_again:
  assumes "exact_decimals dp val" and "ti_correlation_id e \<in> ch_processed_debits s"
    and "ti_correlation_id e \<notin> ch_processed_credits s" and "ch_balances s (ti_to e) = None"
    and "ch_balances s (ti_from e) = Some b" and "representable (val b + val (ti_amount e))"
  obtains r c where "deliver_transfer dp now e s = (r, s\<lparr>ch_balances := (ch_balances s)(ti_from e \<mapsto> c)\<rparr>)"
    "val c = val b + val (ti_amount e)"
  using exact_decimalsD(9) [OF assms(1,6)] assms(2-5) by (auto simp: choreo_defs Let_def)

lemma refunds_again:
  assumes "exact_decimals dp val" and "ti_correlation_id e \<in> ch_processed_debits s"
    and "ti_correlation_id e \<notin> ch_processed_credits s" and "ch_balances s (ti_to e) = None"
    and "ch_balances s (ti_from e) = Some b"
    and "\<And>k. k \<le> length nows \<Longrightarrow> representable (val b + of_nat k * val (ti_amount e))"
  shows "balance_values val (snd (deliver_times dp nows e s)) =
    (balance_values val s)(ti_from e \<mapsto> val b + of_nat (length nows) * val (ti_amount e))"
  using assms(2-)
proof (induction nows arbitrary: s b)
  case Nil
  then show ?case by (auto simp: balance_values_def fun_eq_iff)
next
  case (Cons now nows)
  have rep: "representable (val b + of_nat (Suc k) * val (ti_amount e))" if "k \<le> length nows" for k
    using Cons.prems(5) [of "Suc k"] that by simp
  from rep [of 0] have "representable (val b + val (ti_amount e))" by simp
  from refund_again [OF assms(1) Cons.prems(1-4) this] obtain r c where
    c: "deliver_transfer dp now e s = (r, s\<lparr>ch_balances := (ch_balances s)(ti_from e \<mapsto> c)\<rparr>)"
      "val c = val b + val (ti_amount e)" by blast
  let ?s = "s\<lparr>ch_balances := (ch_balances s)(ti_from e \<mapsto> c)\<rparr>"
  have "ti_from e \<noteq> ti_to e" using Cons.prems(3,4) by auto
  then have "balance_values val (snd (deliver_times dp nows e ?s)) =
      (balance_values val ?s)(ti_from e \<mapsto> val c + of_nat (length nows) * val (ti_amount e))"
    using Cons.prems rep by (intro Cons.IH) (simp_all add: c(2) algebra_simps)
  then show ?case using c by (auto simp: balance_values_def case_prod_unfold Let_def fun_eq_iff algebra_simps)
qed

lemma redelivery_refunds_again:
  assumes "exact_decimals dp val"
    and "ti_correlation_id e \<notin> ch_processed_debits s" and "ti_correlation_id e \<notin> ch_processed_credits s"
    and "ch_balances s (ti_to e) = None"
    and "ch_balances s (ti_from e) = Some b" and "val (ti_amount e) \<le> val b"
    and "representable (val b - val (ti_amount e))"
    and "\<And>k. k \<le> length nows \<Longrightarrow> representable (val b + of_nat k * val (ti_amount e))"
  shows "balance_values val (snd (deliver_times dp (now # nows) e s)) =
    (balance_values val s)(ti_from e \<mapsto> val b + of_nat (length nows) * val (ti_amount e))"
proof -
  have ne: "ti_from e \<noteq> ti_to e" using assms(4,5) by auto
  obtain a where a: "dp_sub dp b (ti_amount e) = Some a" "val a = val b - val (ti_amount e)"
    using exact_decimalsD(10) [OF assms(1,7)] by blast
  then have "representable (val a + val (ti_amount e))" using assms(8) [of 0] by simp
  then obtain c where c: "dp_add dp a (ti_amount e) = Some c" "val c = val b"
    using exact_decimalsD(9) [OF assms(1)] a(2) by fastforce
  let ?s = "s\<lparr>ch_balances := (ch_balances s)(ti_from e \<mapsto> c),
    ch_processed_debits := insert (ti_correlation_id e) (ch_processed_debits s)\<rparr>"
  have first: "snd (deliver_transfer dp now e s) = ?s"
    using assms ne a(1) c(1) exact_decimalsD(11) [OF assms(1)] by (simp add: choreo_defs Let_def)
  have "balance_values val (snd (deliver_times dp nows e ?s)) =
      (balance_values val ?s)(ti_from e \<mapsto> val c + of_nat (length nows) * val (ti_amount e))"
    using assms(3,4,8) ne by (intro refunds_again [OF assms(1)]) (simp_all add: c(2))
  then show ?thesis
    using first by (auto simp: balance_values_def case_prod_unfold Let_def fun_eq_iff c(2))
qed

text \<open>
  A credit that overflows loses the amount: the handler panics after the debit, nothing refunds
  the source, and every redelivery skips the debit and panics again.
\<close>

lemma credit_overflow_loses_amount:
  assumes "ti_correlation_id e \<notin> ch_processed_debits s" and "ti_correlation_id e \<notin> ch_processed_credits s"
    and "ti_from e \<noteq> ti_to e" and "ch_balances s (ti_from e) = Some b" and "ch_balances s (ti_to e) = Some d"
    and "dp_le dp (ti_amount e) b" and "dp_sub dp b (ti_amount e) = Some b'" and "dp_add dp d (ti_amount e) = None"
    and "deliver_times dp (now # nows) e s = (rs, s')"
  shows "rs = replicate (Suc (length nows)) None \<and> ch_balances s' = (ch_balances s)(ti_from e \<mapsto> b')"
proof -
  let ?s = "s\<lparr>ch_balances := (ch_balances s)(ti_from e \<mapsto> b'),
    ch_processed_debits := insert (ti_correlation_id e) (ch_processed_debits s)\<rparr>"
  have first: "deliver_transfer dp now e s = (None, ?s)" using assms(1-8) by (simp add: choreo_defs Let_def)
  have "deliver_transfer dp now e ?s = (None, ?s)" for now using assms(2,3,5,8) by (simp add: choreo_defs Let_def)
  from deliver_times_stable [OF this, of nows] first assms(9) show ?thesis by (auto simp: map_replicate_const)
qed

lemma refund_event_names_destination:
  assumes "handle_account_debited dp now e dest s = (Some (Err f), s')"
  shows "rf_account_id (snd (fst (tx_credit_failed now1 now2 f st))) = dest"
  using assms by (auto simp: handle_account_debited_def tx_credit_failed_def Let_def split: if_splits option.splits)

end
