(* ===== verification/Chart_Of_Accounts.thy ===== *)
theory Chart_Of_Accounts
  imports Ledger_Prelude
begin

section \<open>The chart of accounts\<close>

text \<open>
  \<open>src/domain/coa.rs\<close>: the account categories with their normal balance, the chart, and the check
  that a new account does not close a cycle of parents. The assertion in \<open>add_account\<close> runs in
  debug builds only; the model is the release build, and the check is its own operation.
\<close>

datatype coa_category = Asset | Liability | Equity | Revenue | Expense

datatype normal_balance = NormalDebit | NormalCredit

definition category_normal_balance :: "coa_category \<Rightarrow> normal_balance" where
  "category_normal_balance c =
     (case c of
        Asset \<Rightarrow> NormalDebit | Expense \<Rightarrow> NormalDebit
      | Liability \<Rightarrow> NormalCredit | Equity \<Rightarrow> NormalCredit | Revenue \<Rightarrow> NormalCredit)"

datatype coa_status = CoaActive | CoaInactive | CoaProposed

record coa_account =
  coa_id :: uuid
  coa_code :: string
  coa_name :: string
  coa_category_of :: coa_category
  coa_parent_id :: "uuid option"
  coa_normal_balance :: normal_balance
  coa_description :: string
  coa_status_of :: coa_status
  coa_version_of :: u32

definition coa_account_new ::
  "uuid \<Rightarrow> string \<Rightarrow> string \<Rightarrow> coa_category \<Rightarrow> uuid option \<Rightarrow> u32 \<Rightarrow> coa_account"
where
  "coa_account_new i code name category parent version =
     \<lparr>coa_id = i, coa_code = code, coa_name = name, coa_category_of = category,
      coa_parent_id = parent, coa_normal_balance = category_normal_balance category,
      coa_description = [], coa_status_of = CoaActive, coa_version_of = version\<rparr>"

record chart =
  chart_accounts :: "coa_account list"
  chart_version :: u32

definition chart_new :: "u32 \<Rightarrow> chart" where
  "chart_new version = \<lparr>chart_accounts = [], chart_version = version\<rparr>"

definition add_account :: "coa_account \<Rightarrow> chart \<Rightarrow> uuid \<times> chart" where
  "add_account a c = (coa_id a, c\<lparr>chart_accounts := chart_accounts c @ [a]\<rparr>)"

definition find_by_code :: "string \<Rightarrow> chart \<Rightarrow> coa_account option" where
  "find_by_code code c = List.find (\<lambda>a. coa_code a = code) (chart_accounts c)"

definition find_by_id :: "uuid \<Rightarrow> chart \<Rightarrow> coa_account option" where
  "find_by_id i c = List.find (\<lambda>a. coa_id a = i) (chart_accounts c)"

definition by_category :: "coa_category \<Rightarrow> chart \<Rightarrow> coa_account list" where
  "by_category category c =
     filter (\<lambda>a. coa_category_of a = category \<and> coa_status_of a = CoaActive) (chart_accounts c)"

definition active_accounts :: "chart \<Rightarrow> coa_account list" where
  "active_accounts c = filter (\<lambda>a. coa_status_of a = CoaActive) (chart_accounts c)"

datatype coa_error = CoaNotFound uuid | CircularReference uuid

definition deactivate :: "uuid \<Rightarrow> chart \<Rightarrow> (unit, coa_error) result \<times> chart" where
  "deactivate i c =
     (case find_by_id i c of
        None \<Rightarrow> (Err (CoaNotFound i), c)
      | Some _ \<Rightarrow>
          (Ok (), c\<lparr>chart_accounts :=
             update_first (\<lambda>a. coa_id a = i) (\<lambda>a. a\<lparr>coa_status_of := CoaInactive\<rparr>) (chart_accounts c)\<rparr>))"

definition parent_of :: "chart \<Rightarrow> uuid \<Rightarrow> uuid option" where
  "parent_of c i = Option.bind (find_by_id i c) coa_parent_id"

text \<open>
  The loop of \<open>validate_no_circular_ref\<close>. Each iteration visits an account of the chart that was
  not visited before, or leaves the chart and stops.
\<close>

function walk_parents :: "chart \<Rightarrow> uuid set \<Rightarrow> uuid option \<Rightarrow> bool" where
  "walk_parents c visited None = True"
| "walk_parents c visited (Some pid) =
     (if pid \<in> visited then False else walk_parents c (insert pid visited) (parent_of c pid))"
  by pat_completeness auto

lemma parent_of_in_chart:
  "parent_of c pid = Some q \<Longrightarrow> pid \<in> coa_id ` set (chart_accounts c)"
  by (auto simp: parent_of_def find_by_id_def bind_eq_Some_conv find_Some_iff image_iff)

termination walk_parents
proof (relation "measure (\<lambda>(c, visited, cur).
    card (coa_id ` set (chart_accounts c) - visited) + (case cur of None \<Rightarrow> 0 | Some _ \<Rightarrow> 1))")
  fix c :: chart and visited :: "uuid set" and pid
  assume new: "pid \<notin> visited"
  let ?ids = "coa_id ` set (chart_accounts c)"
  have le: "card (?ids - insert pid visited) \<le> card (?ids - visited)" by (intro card_mono) auto
  show "((c, insert pid visited, parent_of c pid), c, visited, Some pid) \<in> measure (\<lambda>(c, visited, cur).
      card (coa_id ` set (chart_accounts c) - visited) + (case cur of None \<Rightarrow> 0 | Some _ \<Rightarrow> 1))"
  proof (cases "parent_of c pid")
    case None
    with le show ?thesis by simp
  next
    case (Some q)
    then have "pid \<in> ?ids - visited" using parent_of_in_chart new by blast
    moreover have "?ids - insert pid visited = (?ids - visited) - {pid}" by blast
    ultimately have "card (?ids - insert pid visited) < card (?ids - visited)"
      by (metis card_Diff1_less finite_Diff finite_imageI finite_set)
    with Some show ?thesis by simp
  qed
qed simp

definition validate_no_circular_ref :: "coa_account \<Rightarrow> chart \<Rightarrow> bool" where
  "validate_no_circular_ref a c = walk_parents c {coa_id a} (coa_parent_id a)"

subsection \<open>The check decides acyclicity\<close>

definition parent_rel :: "chart \<Rightarrow> (uuid \<times> uuid) set" where
  "parent_rel c = {(i, p). \<exists>a \<in> set (chart_accounts c). coa_id a = i \<and> coa_parent_id a = Some p}"

lemma parent_of_rel:
  assumes "distinct (map coa_id (chart_accounts c))"
  shows "parent_of c i = Some p \<longleftrightarrow> (i, p) \<in> parent_rel c"
proof -
  have "List.find (\<lambda>a. coa_id a = i) xs = Some a \<longleftrightarrow> a \<in> set xs \<and> coa_id a = i"
    if "distinct (map coa_id xs)" for xs and a :: coa_account
    using that by (induction xs) auto
  from this [OF assms] show ?thesis
    by (auto simp: parent_of_def parent_rel_def find_by_id_def bind_eq_Some_conv)
qed

lemma walk_parents_reaches:
  assumes "distinct (map coa_id (chart_accounts c))" and "acyclic (parent_rel c)" and "i \<in> visited"
    and "\<And>v p. v \<in> visited - {i} \<Longrightarrow> cur = Some p \<Longrightarrow> (v, p) \<in> (parent_rel c)\<^sup>+"
  shows "walk_parents c visited cur \<longleftrightarrow> \<not> (\<exists>p. cur = Some p \<and> (p, i) \<in> (parent_rel c)\<^sup>*)"
  using assms
proof (induction c visited cur rule: walk_parents.induct)
  case (1 c visited)
  then show ?case by simp
next
  case (2 c visited pid)
  note rel = parent_of_rel [OF 2(2)]
  show ?case
  proof (cases "pid \<in> visited")
    case True
    have "pid = i"
    proof (rule ccontr)
      assume "pid \<noteq> i"
      then have "(pid, pid) \<in> (parent_rel c)\<^sup>+" using 2(5) True by blast
      with 2(3) show False by (simp add: acyclic_def)
    qed
    with True show ?thesis by auto
  next
    case False
    then have ne: "pid \<noteq> i" using 2(4) by blast
    have step: "(v, p) \<in> (parent_rel c)\<^sup>+"
      if v: "v \<in> insert pid visited - {i}" and p: "parent_of c pid = Some p" for v p
    proof (cases "v = pid")
      case True
      then show ?thesis using p rel by blast
    next
      case False
      then have "(v, pid) \<in> (parent_rel c)\<^sup>+" using 2(5) v by blast
      then show ?thesis using p rel trancl_into_trancl by metis
    qed
    have "walk_parents c visited (Some pid) \<longleftrightarrow>
        \<not> (\<exists>p. parent_of c pid = Some p \<and> (p, i) \<in> (parent_rel c)\<^sup>*)"
      using False 2(1) [OF False 2(2,3) _ step] 2(4) by simp
    moreover have "(pid, i) \<in> (parent_rel c)\<^sup>* \<longleftrightarrow>
        (\<exists>p. parent_of c pid = Some p \<and> (p, i) \<in> (parent_rel c)\<^sup>*)"
      using ne rel by (metis converse_rtranclE converse_rtrancl_into_rtrancl)
    ultimately show ?thesis by simp
  qed
qed

text \<open>
  The circular-reference check. For an account with a new identifier, on a chart with distinct
  identifiers whose parent links have no cycle, the check ends and answers exactly whether the
  chart with the account added still has no cycle, dangling parents included. So charts built only
  from accepted accounts stay acyclic.
\<close>

theorem circular_ref_check_decides:
  assumes "distinct (map coa_id (chart_accounts c))" and "acyclic (parent_rel c)"
    and "coa_id a \<notin> coa_id ` set (chart_accounts c)"
  shows "validate_no_circular_ref a c \<longleftrightarrow> acyclic (parent_rel (snd (add_account a c)))"
proof -
  have walk: "validate_no_circular_ref a c \<longleftrightarrow>
      \<not> (\<exists>p. coa_parent_id a = Some p \<and> (p, coa_id a) \<in> (parent_rel c)\<^sup>*)"
    unfolding validate_no_circular_ref_def by (rule walk_parents_reaches [OF assms(1,2)]) auto
  show ?thesis
  proof (cases "coa_parent_id a")
    case None
    then have "parent_rel (snd (add_account a c)) = parent_rel c"
      by (auto simp: parent_rel_def add_account_def)
    with None walk assms(2) show ?thesis by simp
  next
    case (Some p)
    then have "parent_rel (snd (add_account a c)) = insert (coa_id a, p) (parent_rel c)"
      by (auto simp: parent_rel_def add_account_def)
    with Some walk assms(2) show ?thesis by simp
  qed
qed

definition demo_chart :: chart where
  "demo_chart = snd (add_account (coa_account_new 1 ''1000'' ''Cash'' Asset (Some 2) 1) (chart_new 1))"

theorem circular_ref_check_decides_witness:
  "\<not> acyclic (parent_rel (snd (add_account (coa_account_new 2 ''2000'' ''Loop'' Asset (Some 1) 1) demo_chart)))"
proof -
  have rel: "parent_rel demo_chart = {(1, 2)}"
    by (auto simp: parent_rel_def demo_chart_def add_account_def chart_new_def coa_account_new_def)
  have "acyclic ({} :: (uuid \<times> uuid) set)" by (simp add: acyclic_def)
  then have "acyclic {(1 :: uuid, 2)}" by simp
  then have "validate_no_circular_ref (coa_account_new 2 ''2000'' ''Loop'' Asset (Some 1) 1) demo_chart \<longleftrightarrow>
      acyclic (parent_rel (snd (add_account (coa_account_new 2 ''2000'' ''Loop'' Asset (Some 1) 1) demo_chart)))"
    by (intro circular_ref_check_decides)
      (simp_all add: rel, simp_all add: demo_chart_def add_account_def chart_new_def coa_account_new_def)
  moreover have "\<not> validate_no_circular_ref (coa_account_new 2 ''2000'' ''Loop'' Asset (Some 1) 1) demo_chart"
    by (simp add: validate_no_circular_ref_def coa_account_new_def parent_of_def find_by_id_def
        demo_chart_def add_account_def chart_new_def)
  ultimately show ?thesis by simp
qed

end
