(* ===== verification/Idempotency.thy ===== *)
theory Idempotency
  imports Ledger_Prelude
begin

section \<open>Deduplication and the transaction projector\<close>

text \<open>
  \<open>src/service/idempotency.rs\<close>: the table of processed transaction identifiers with its capacity
  guard, and the handler it protects; \<open>src/service/distributed_state.rs\<close>: the projector that keeps
  the latest state of each transaction. The order in which the concurrent map iterates (package
  \<open>dashmap\<close>) is the parameter \<open>order\<close>; the protected closure is an argument with its own state.
\<close>

subsection \<open>The idempotency service\<close>

record idempotency =
  idem_processed :: "string \<rightharpoonup> timestamp"
  idem_max_entries :: nat

definition idem_new :: idempotency where
  "idem_new = \<lparr>idem_processed = Map.empty, idem_max_entries = 100000\<rparr>"

definition idem_with_capacity :: "nat \<Rightarrow> idempotency \<Rightarrow> idempotency" where
  "idem_with_capacity n s = s\<lparr>idem_max_entries := n\<rparr>"

definition is_processed :: "string \<Rightarrow> idempotency \<Rightarrow> bool" where
  "is_processed tid s \<longleftrightarrow> idem_processed s tid \<noteq> None"

definition check_and_mark :: "timestamp \<Rightarrow> string \<Rightarrow> idempotency \<Rightarrow> bool \<times> idempotency" where
  "check_and_mark now tid s =
     (idem_processed s tid \<noteq> None, s\<lparr>idem_processed := (idem_processed s)(tid \<mapsto> now)\<rparr>)"

definition idem_len :: "idempotency \<Rightarrow> nat" where
  "idem_len s = card (dom (idem_processed s))"

definition evict_oldest_batch ::
  "((string \<rightharpoonup> timestamp) \<Rightarrow> (string \<times> timestamp) list) \<Rightarrow> idempotency \<Rightarrow> idempotency"
where
  "evict_oldest_batch order s =
     (let to_remove = max (idem_max_entries s div 10) 1;
          entries = sort_key snd (order (idem_processed s))
      in s\<lparr>idem_processed := idem_processed s |` (- set (map fst (take to_remove entries)))\<rparr>)"

definition mark_processed ::
  "((string \<rightharpoonup> timestamp) \<Rightarrow> (string \<times> timestamp) list) \<Rightarrow> timestamp \<Rightarrow> string \<Rightarrow> idempotency \<Rightarrow>
   idempotency"
where
  "mark_processed order now tid s =
     (let s1 = (if idem_len s \<ge> idem_max_entries s then evict_oldest_batch order s else s)
      in s1\<lparr>idem_processed := (idem_processed s1)(tid \<mapsto> now)\<rparr>)"

text \<open>\<open>seconds_before now n\<close> is the instant \<open>n\<close> seconds earlier (package \<open>chrono\<close>).\<close>

definition evict_older_than ::
  "(timestamp \<Rightarrow> int \<Rightarrow> timestamp) \<Rightarrow> timestamp \<Rightarrow> i64 \<Rightarrow> idempotency \<Rightarrow> nat \<times> idempotency"
where
  "evict_older_than seconds_before now ttl s =
     (let cutoff = seconds_before now (max (sint ttl) 1);
          s1 = s\<lparr>idem_processed := (\<lambda>k. case idem_processed s k of
                   None \<Rightarrow> None | Some ts \<Rightarrow> if ts > cutoff then Some ts else None)\<rparr>
      in (idem_len s - idem_len s1, s1))"

definition handler_process ::
  "((string \<rightharpoonup> timestamp) \<Rightarrow> (string \<times> timestamp) list) \<Rightarrow>
   (string \<Rightarrow> 's \<Rightarrow> (unit, string) result \<times> 's) \<Rightarrow> timestamp \<Rightarrow> string \<Rightarrow> idempotency \<times> 's \<Rightarrow>
   (unit, string) result \<times> idempotency \<times> 's"
where
  "handler_process order handler now tid st =
     (case st of (dedup, w) \<Rightarrow>
        if is_processed tid dedup then (Ok (), dedup, w)
        else (case handler tid w of
                (r, w') \<Rightarrow> (r, if is_ok r then mark_processed order now tid dedup else dedup, w')))"

subsection \<open>The projector\<close>

datatype tx_status = TxInitiated | TxFundsReserved | TxCompleted | TxFailed

record tx_event =
  te_transaction_id :: uuid
  te_type :: tx_status
  te_from :: string
  te_to :: string
  te_amount :: decimal
  te_timestamp :: timestamp

record tx_state =
  ts_transaction_id :: uuid
  ts_status :: tx_status
  ts_from :: string
  ts_to :: string
  ts_amount :: decimal
  ts_last_updated :: timestamp
  ts_event_count :: nat

definition tx_status_str :: "tx_status \<Rightarrow> string" where
  "tx_status_str s =
     (case s of
        TxInitiated \<Rightarrow> ''INITIATED'' | TxFundsReserved \<Rightarrow> ''FUNDS_RESERVED''
      | TxCompleted \<Rightarrow> ''COMPLETED'' | TxFailed \<Rightarrow> ''FAILED'')"

definition projector_apply :: "tx_event \<Rightarrow> (uuid \<rightharpoonup> tx_state) \<Rightarrow> (uuid \<rightharpoonup> tx_state)" where
  "projector_apply e m =
     (case m (te_transaction_id e) of
        Some st \<Rightarrow>
          if te_timestamp e > ts_last_updated st
          then m(te_transaction_id e \<mapsto>
                   st\<lparr>ts_status := te_type e, ts_last_updated := te_timestamp e,
                      ts_event_count := ts_event_count st + 1, ts_amount := te_amount e\<rparr>)
          else m
      | None \<Rightarrow>
          m(te_transaction_id e \<mapsto>
              \<lparr>ts_transaction_id = te_transaction_id e, ts_status = te_type e, ts_from = te_from e,
               ts_to = te_to e, ts_amount = te_amount e, ts_last_updated = te_timestamp e,
               ts_event_count = 1\<rparr>))"

definition projector_get :: "uuid \<Rightarrow> (uuid \<rightharpoonup> tx_state) \<Rightarrow> tx_state option" where
  "projector_get tid m = m tid"

definition projector_by_status :: "tx_status \<Rightarrow> (uuid \<rightharpoonup> tx_state) \<Rightarrow> tx_state set" where
  "projector_by_status s m = {st \<in> ran m. ts_status st = s}"

subsection \<open>Each event is handled once\<close>

text \<open>The specification: an unbounded set of the events handled successfully.\<close>

definition once_step ::
  "(string \<Rightarrow> 's \<Rightarrow> (unit, string) result \<times> 's) \<Rightarrow> string \<Rightarrow> string set \<times> 's \<Rightarrow> string set \<times> 's"
where
  "once_step handler tid st =
     (case st of (seen, w) \<Rightarrow>
        if tid \<in> seen then (seen, w)
        else (case handler tid w of (r, w') \<Rightarrow> (if is_ok r then insert tid seen else seen, w')))"

definition process_step ::
  "((string \<rightharpoonup> timestamp) \<Rightarrow> (string \<times> timestamp) list) \<Rightarrow>
   (string \<Rightarrow> 's \<Rightarrow> (unit, string) result \<times> 's) \<Rightarrow> timestamp \<times> string \<Rightarrow> idempotency \<times> 's \<Rightarrow>
   idempotency \<times> 's"
where
  "process_step order handler te st = snd (handler_process order handler (fst te) (snd te) st)"

lemma mark_processed_room:
  assumes "idem_len s < idem_max_entries s"
  shows "mark_processed order now tid s = s\<lparr>idem_processed := (idem_processed s)(tid \<mapsto> now)\<rparr>"
  using assms by (simp add: mark_processed_def)

lemma process_refines_once:
  assumes "finite U" and "dom (idem_processed d) \<subseteq> U" and "snd ` set tes \<subseteq> U"
    and "card U \<le> idem_max_entries d"
  shows "\<exists>d'. fold (process_step order handler) tes (d, w) =
      (d', snd (fold (once_step handler) (map snd tes) (dom (idem_processed d), w))) \<and>
    dom (idem_processed d') = fst (fold (once_step handler) (map snd tes) (dom (idem_processed d), w)) \<and>
    dom (idem_processed d') \<subseteq> U"
  using assms
proof (induction tes arbitrary: d w)
  case Nil
  then show ?case by simp
next
  case (Cons te tes)
  obtain now tid where te: "te = (now, tid)" by (cases te)
  obtain r w' where h: "handler tid w = (r, w')" by (cases "handler tid w")
  show ?case
  proof (cases "idem_processed d tid = None \<and> is_ok r")
    case True
    define d1 where "d1 = d\<lparr>idem_processed := (idem_processed d)(tid \<mapsto> now)\<rparr>"
    have "dom (idem_processed d) \<subset> U"
      using True Cons.prems(2,3) te by auto
    then have "idem_len d < idem_max_entries d"
      using psubset_card_mono [OF Cons.prems(1)] Cons.prems(4) unfolding idem_len_def
      by (meson less_le_trans)
    then have step: "process_step order handler te (d, w) = (d1, w')"
      using True h
      by (simp add: process_step_def handler_process_def te is_processed_def mark_processed_room d1_def)
    have once: "once_step handler tid (dom (idem_processed d), w) = (dom (idem_processed d1), w')"
      using True h by (auto simp: once_step_def d1_def)
    have "dom (idem_processed d1) \<subseteq> U" "idem_max_entries d1 = idem_max_entries d"
      using Cons.prems(2,3) te by (auto simp: d1_def)
    with Cons.IH [of d1 w'] Cons.prems step once show ?thesis by (simp add: te)
  next
    case False
    let ?w = "if idem_processed d tid = None then w' else w"
    have step: "process_step order handler te (d, w) = (d, ?w)"
      using False h by (auto simp: process_step_def handler_process_def te is_processed_def)
    have once: "once_step handler tid (dom (idem_processed d), w) = (dom (idem_processed d), ?w)"
      using False h by (auto simp: once_step_def domIff)
    from Cons.IH [of d ?w] Cons.prems step once show ?thesis by (simp add: te)
  qed
qed

text \<open>
  C29. Each event is handled successfully once. As long as the distinct events processed fit the
  configured capacity, any sequence of deliveries, with repetitions, leaves the handler's state
  exactly as if each event were handled until its first success and skipped afterwards, and the
  table holds exactly the events that succeeded; failed events are not recorded and are tried
  again.
\<close>

theorem handler_processes_once:
  assumes "card (set tids) \<le> n"
  shows "let (d, w) = fold (process_step order handler) (map (\<lambda>t. (clk t, t)) tids) (idem_with_capacity n idem_new, w0)
         in (dom (idem_processed d), w) = fold (once_step handler) tids ({}, w0)"
proof -
  let ?d = "idem_with_capacity n idem_new"
  have none: "dom (idem_processed ?d) = {}" by (simp add: idem_with_capacity_def idem_new_def)
  have img: "snd ` set (map (\<lambda>t. (clk t, t)) tids) = set tids" by force
  have cap: "card (set tids) \<le> idem_max_entries ?d" using assms by (simp add: idem_with_capacity_def)
  have sub: "dom (idem_processed ?d) \<subseteq> set tids" "snd ` set (map (\<lambda>t. (clk t, t)) tids) \<subseteq> set tids"
    using none img by simp_all
  have comp: "map snd (map (\<lambda>t. (clk t, t)) tids) = tids" by (simp add: o_def)
  obtain d' where "fold (process_step order handler) (map (\<lambda>t. (clk t, t)) tids) (?d, w0) =
      (d', snd (fold (once_step handler) tids ({}, w0)))"
    "dom (idem_processed d') = fst (fold (once_step handler) tids ({}, w0))"
    using process_refines_once [OF finite_set sub cap, of order handler w0] unfolding comp none by blast
  then show ?thesis by simp
qed

definition demo_order :: "(string \<rightharpoonup> timestamp) \<Rightarrow> (string \<times> timestamp) list" where
  "demo_order m = (if m ''a'' = None then [] else [(''a'', the (m ''a''))])"

theorem handler_processes_once_witness:
  "snd (fold (process_step demo_order (\<lambda>t w. (Ok (), w + (1 :: nat)))) (map (\<lambda>t. (0, t)) [''a'', ''b'', ''a'', ''a''])
      (idem_with_capacity 5 idem_new, 0)) = 2"
  using handler_processes_once [of "[''a'', ''b'', ''a'', ''a'']" 5 demo_order "\<lambda>t w. (Ok (), w + (1 :: nat))" "\<lambda>_. 0" 0]
  by (simp add: Let_def once_step_def card_insert_if split: prod.splits)

subsection \<open>The capacity guard\<close>

definition iterates :: "((string \<rightharpoonup> timestamp) \<Rightarrow> (string \<times> timestamp) list) \<Rightarrow> (string \<rightharpoonup> timestamp) \<Rightarrow> bool" where
  "iterates order m \<longleftrightarrow> distinct (map fst (order m)) \<and> (\<forall>k v. (k, v) \<in> set (order m) \<longleftrightarrow> m k = Some v)"

lemma iterates_dom: "iterates order m \<Longrightarrow> fst ` set (order m) = dom m"
  by (force simp: iterates_def)

lemma iterates_card: "iterates order m \<Longrightarrow> card (dom m) = length (order m)"
  by (metis iterates_dom iterates_def distinct_card length_map list.set_map)

lemma evict_oldest:
  assumes it: "iterates order (idem_processed s)"
  shows "finite (dom (idem_processed (evict_oldest_batch order s))) \<and>
    idem_len (evict_oldest_batch order s) = idem_len s - max (idem_max_entries s div 10) 1 \<and>
    (\<forall>k v k' v'. idem_processed s k = Some v \<and> idem_processed (evict_oldest_batch order s) k = None \<and>
       idem_processed (evict_oldest_batch order s) k' = Some v' \<longrightarrow> v \<le> v')"
proof -
  let ?n = "max (idem_max_entries s div 10) 1" and ?es = "sort_key snd (order (idem_processed s))"
  let ?gone = "set (map fst (take ?n ?es))"
  have es: "set ?es = set (order (idem_processed s))" "distinct (map fst ?es)"
    using it by (auto simp: iterates_def distinct_map)
  have keys: "fst ` set ?es = dom (idem_processed s)" using iterates_dom [OF it] es(1) by simp
  have dom': "dom (idem_processed (evict_oldest_batch order s)) = dom (idem_processed s) - ?gone"
    by (auto simp: evict_oldest_batch_def Let_def)
  have gone: "?gone \<subseteq> dom (idem_processed s)"
    unfolding set_map keys [symmetric] by (intro image_mono set_take_subset)
  have "card ?gone = min ?n (length ?es)"
    using es(2) by (subst distinct_card) (simp_all add: take_map [symmetric])
  moreover have fin: "finite (dom (idem_processed s))" using keys by (metis finite_imageI finite_set)
  ultimately have "card (dom (idem_processed s) - ?gone) = card (dom (idem_processed s)) - ?n"
    using gone iterates_card [OF it] by (subst card_Diff_subset) (auto simp: finite_subset min_def)
  moreover have "v \<le> v'" if s: "idem_processed s k = Some v" and g: "k \<in> ?gone"
      and k': "idem_processed s k' = Some v'" "k' \<notin> ?gone" for k v k' v'
  proof -
    have kv: "(k, v) \<in> set ?es" "(k', v') \<in> set ?es"
      using s k'(1) it es(1) by (auto simp: iterates_def)
    obtain u where "(k, u) \<in> set (take ?n ?es)" using g by auto
    then have "u = v" using es(2) kv(1) by (metis in_set_takeD distinct_map fst_conv inj_onD old.prod.inject)
    with \<open>(k, u) \<in> _\<close> have early: "(k, v) \<in> set (take ?n ?es)" by simp
    have "(k', v') \<in> set (drop ?n ?es)"
    proof -
      have "(k', v') \<notin> set (take ?n ?es)" using k'(2) by force
      then show ?thesis using kv(2) by (metis append_take_drop_id Un_iff set_append)
    qed
    moreover have "sorted (map snd (take ?n ?es) @ map snd (drop ?n ?es))"
      by (simp flip: map_append)
    ultimately show "v \<le> v'" using early by (force simp: sorted_append)
  qed
  ultimately show ?thesis
    using fin dom' unfolding idem_len_def
    by (auto simp: evict_oldest_batch_def Let_def restrict_map_def split: if_splits)
qed

text \<open>
  The capacity guard evicts the oldest. \<open>mark_processed\<close> records the event; if the table was
  at its capacity it first drops the oldest tenth (at least one entry), no entry dropped being
  younger than one kept; so a table within its capacity stays within it (or holds one entry when
  the capacity is zero). \<open>check_and_mark\<close> has no such guard and grows past it. The hypothesis says
  that iterating the concurrent map yields each entry once.
\<close>

theorem capacity_evicts_oldest:
  assumes "iterates order (idem_processed s)" and "idem_len s \<le> max (idem_max_entries s) 1"
  shows "let s' = mark_processed order now tid s
         in is_processed tid s' \<and> idem_len s' \<le> max (idem_max_entries s) 1 \<and>
            (idem_len s < idem_max_entries s \<longrightarrow>
               idem_processed s' = (idem_processed s)(tid \<mapsto> now)) \<and>
            (\<forall>k v k' v'. idem_processed s k = Some v \<and> idem_processed s' k = None \<and>
               idem_processed s' k' = Some v' \<and> k' \<noteq> tid \<longrightarrow> v \<le> v')"
proof -
  let ?s1 = "if idem_len s \<ge> idem_max_entries s then evict_oldest_batch order s else s"
  have fin: "finite (dom (idem_processed s))"
    using iterates_dom [OF assms(1)] by (metis finite_imageI finite_set)
  note ev = evict_oldest [OF assms(1)]
  have len1: "finite (dom (idem_processed ?s1))" "Suc (idem_len ?s1) \<le> max (idem_max_entries s) 1 \<or> idem_len ?s1 = 0"
    using fin ev assms(2) by (auto simp: max_def)
  have "idem_len (mark_processed order now tid s) \<le> Suc (idem_len ?s1)"
    unfolding mark_processed_def Let_def idem_len_def by (simp add: card_insert_le_m1 card_insert_if)
  then have "idem_len (mark_processed order now tid s) \<le> max (idem_max_entries s) 1"
    using len1(2) by linarith
  then show ?thesis
    using ev by (auto simp: Let_def mark_processed_def is_processed_def split: if_splits)
qed

theorem capacity_evicts_oldest_witness:
  "let s = \<lparr>idem_processed = [''a'' \<mapsto> 5], idem_max_entries = 1\<rparr>;
       s' = mark_processed demo_order 9 ''b'' s
   in is_processed ''b'' s' \<and> idem_len s' \<le> 1"
proof -
  have "iterates demo_order [''a'' \<mapsto> 5]" by (auto simp: iterates_def demo_order_def split: if_splits)
  then show ?thesis
    using capacity_evicts_oldest [of demo_order "\<lparr>idem_processed = [''a'' \<mapsto> 5], idem_max_entries = 1\<rparr>" 9 "''b''"]
    by (simp add: idem_len_def Let_def)
qed

subsection \<open>The projector keeps the latest event\<close>

lemma projector_other: "te_transaction_id e \<noteq> tid \<Longrightarrow> projector_apply e m tid = m tid"
  by (simp add: projector_apply_def split: option.split)

definition shows_latest :: "tx_event list \<Rightarrow> tx_state \<Rightarrow> bool" where
  "shows_latest es st \<longleftrightarrow>
     (\<exists>e \<in> set es. ts_status st = te_type e \<and> ts_amount st = te_amount e \<and>
        ts_last_updated st = te_timestamp e) \<and>
     (\<forall>e \<in> set es. te_timestamp e \<le> ts_last_updated st)"

lemma projector_shows_latest:
  "case fold projector_apply es Map.empty tid of
     None \<Rightarrow> filter (\<lambda>e. te_transaction_id e = tid) es = []
   | Some st \<Rightarrow> shows_latest (filter (\<lambda>e. te_transaction_id e = tid) es) st"
proof (induction es rule: rev_induct)
  case Nil
  then show ?case by simp
next
  case (snoc e es)
  let ?m = "fold projector_apply es Map.empty"
  show ?case
  proof (cases "te_transaction_id e = tid")
    case False
    then show ?thesis using snoc projector_other [of e tid ?m] by (simp split: option.splits)
  next
    case True
    show ?thesis
    proof (cases "?m tid")
      case None
      then show ?thesis using True snoc by (simp add: projector_apply_def [of e ?m] shows_latest_def)
    next
      case (Some st)
      then have "shows_latest (filter (\<lambda>e. te_transaction_id e = tid) es) st" using snoc by simp
      then show ?thesis
        using True Some
        by (auto simp: projector_apply_def [of e ?m] shows_latest_def intro: order_trans less_imp_le)
    qed
  qed
qed

text \<open>
  The projected view does not depend on the order of arrival. Deliver the same events in two
  orders, with any repetitions, events of one transaction with the same timestamp being the same
  event: both views show the same transactions, each with the status, amount and time of its
  latest event. (The count of applied events does depend on the order: a late event is not
  counted.)
\<close>

theorem projector_order_independent:
  assumes "set es = set es'"
    and "\<And>e f. e \<in> set es \<Longrightarrow> f \<in> set es \<Longrightarrow> te_transaction_id e = te_transaction_id f \<Longrightarrow>
      te_timestamp e = te_timestamp f \<Longrightarrow> e = f"
  shows "map_option (\<lambda>st. (ts_status st, ts_amount st, ts_last_updated st)) (projector_get tid (fold projector_apply es Map.empty)) =
         map_option (\<lambda>st. (ts_status st, ts_amount st, ts_last_updated st)) (projector_get tid (fold projector_apply es' Map.empty))"
proof -
  let ?f = "\<lambda>xs. filter (\<lambda>e. te_transaction_id e = tid) xs"
  have sets: "set (?f es) = set (?f es')" using assms(1) by simp
  have empty: "?f es = [] \<longleftrightarrow> ?f es' = []" using sets by (metis set_empty)
  have unique: "(ts_status st, ts_amount st, ts_last_updated st) = (ts_status st', ts_amount st', ts_last_updated st')"
    if "shows_latest (?f es) st" "shows_latest (?f es') st'" for st st'
  proof -
    obtain e where e: "e \<in> set (?f es)" "ts_status st = te_type e" "ts_amount st = te_amount e"
      "ts_last_updated st = te_timestamp e" "\<And>x. x \<in> set (?f es) \<Longrightarrow> te_timestamp x \<le> te_timestamp e"
      using \<open>shows_latest (?f es) st\<close> unfolding shows_latest_def by metis
    obtain f where f: "f \<in> set (?f es)" "ts_status st' = te_type f" "ts_amount st' = te_amount f"
      "ts_last_updated st' = te_timestamp f" "\<And>x. x \<in> set (?f es) \<Longrightarrow> te_timestamp x \<le> te_timestamp f"
      using \<open>shows_latest (?f es') st'\<close> unfolding shows_latest_def sets by metis
    have "te_timestamp e = te_timestamp f" using e(1,5) f(1,5) by (simp add: order_antisym)
    then have "e = f" using e(1) f(1) assms(2) by auto
    with e f show ?thesis by simp
  qed
  have nonempty: "\<not> shows_latest [] st" for st by (simp add: shows_latest_def)
  note views = projector_shows_latest [where es = es and tid = tid]
    projector_shows_latest [where es = es' and tid = tid]
  show ?thesis
  proof (cases "?f es = []")
    case True
    then have "fold projector_apply es Map.empty tid = None" "fold projector_apply es' Map.empty tid = None"
      using views empty nonempty by (simp_all split: option.splits)
    then show ?thesis by (simp add: projector_get_def)
  next
    case False
    then obtain st st' where "fold projector_apply es Map.empty tid = Some st"
      "fold projector_apply es' Map.empty tid = Some st'" "shows_latest (?f es) st" "shows_latest (?f es') st'"
      using views empty by (simp split: option.splits)
    then show ?thesis using unique by (simp add: projector_get_def)
  qed
qed

definition demo_tx_event :: "decimal \<Rightarrow> tx_status \<Rightarrow> timestamp \<Rightarrow> tx_event" where
  "demo_tx_event d st t =
     \<lparr>te_transaction_id = 7, te_type = st, te_from = ''a'', te_to = ''b'', te_amount = d, te_timestamp = t\<rparr>"

theorem projector_order_independent_witness:
  "\<forall>d. map_option ts_status (projector_get 7 (fold projector_apply
      [demo_tx_event d TxCompleted 9, demo_tx_event d TxInitiated 2, demo_tx_event d TxFundsReserved 5] Map.empty)) =
   map_option ts_status (projector_get 7 (fold projector_apply
      [demo_tx_event d TxInitiated 2, demo_tx_event d TxFundsReserved 5, demo_tx_event d TxInitiated 2,
       demo_tx_event d TxCompleted 9] Map.empty))"
proof
  fix d
  let ?es = "[demo_tx_event d TxCompleted 9, demo_tx_event d TxInitiated 2, demo_tx_event d TxFundsReserved 5]"
  let ?es' = "[demo_tx_event d TxInitiated 2, demo_tx_event d TxFundsReserved 5, demo_tx_event d TxInitiated 2,
    demo_tx_event d TxCompleted 9]"
  have "set ?es = set ?es'" by auto
  moreover have "e = f" if "e \<in> set ?es" "f \<in> set ?es" "te_transaction_id e = te_transaction_id f"
    "te_timestamp e = te_timestamp f" for e f
    using that by (auto simp: demo_tx_event_def)
  ultimately have
    "map_option (\<lambda>st. (ts_status st, ts_amount st, ts_last_updated st)) (projector_get 7 (fold projector_apply ?es Map.empty)) =
     map_option (\<lambda>st. (ts_status st, ts_amount st, ts_last_updated st)) (projector_get 7 (fold projector_apply ?es' Map.empty))"
    by (rule projector_order_independent)
  then have "map_option fst (map_option (\<lambda>st. (ts_status st, ts_amount st, ts_last_updated st))
      (projector_get 7 (fold projector_apply ?es Map.empty))) =
    map_option fst (map_option (\<lambda>st. (ts_status st, ts_amount st, ts_last_updated st))
      (projector_get 7 (fold projector_apply ?es' Map.empty)))" by (rule arg_cong)
  then show "map_option ts_status (projector_get 7 (fold projector_apply ?es Map.empty)) =
    map_option ts_status (projector_get 7 (fold projector_apply ?es' Map.empty))" by (simp only: option.map_comp o_def fst_conv)
qed

end
