(* ===== verification/Deadlock.thy ===== *)
theory Deadlock
  imports Ledger_Prelude
begin

section \<open>Deadlock detection\<close>

text \<open>
  The deadlock detector of \<open>src/service/advanced.rs\<close>: who holds and who waits for which resource,
  and the search for a cycle of waiting threads. A hash map or hash set is iterated in an order
  the code does not control: \<open>node_order\<close> and \<open>set_order\<close> are parameters, and all that is asked of
  them is that they list the keys and the members. The search is nested recursion; it terminates
  because a recursive call visits a new thread and a \<open>u64\<close> has finitely many values.
\<close>

record detector =
  held_by :: "u64 \<rightharpoonup> string list"
  waiting :: "u64 \<rightharpoonup> string list"
  owners :: "string \<rightharpoonup> u64"

definition detector_new :: detector where
  "detector_new = \<lparr>held_by = Map.empty, waiting = Map.empty, owners = Map.empty\<rparr>"

definition entry_push :: "'k \<Rightarrow> 'v \<Rightarrow> ('k \<rightharpoonup> 'v list) \<Rightarrow> ('k \<rightharpoonup> 'v list)" where
  "entry_push k v m = m(k \<mapsto> (case m k of None \<Rightarrow> [] | Some vs \<Rightarrow> vs) @ [v])"

definition entry_retain :: "'k \<Rightarrow> ('v \<Rightarrow> bool) \<Rightarrow> ('k \<rightharpoonup> 'v list) \<Rightarrow> ('k \<rightharpoonup> 'v list)" where
  "entry_retain k p m = (case m k of None \<Rightarrow> m | Some vs \<Rightarrow> m(k \<mapsto> filter p vs))"

definition acquire :: "u64 \<Rightarrow> string \<Rightarrow> detector \<Rightarrow> detector" where
  "acquire t r d = d\<lparr>held_by := entry_push t r (held_by d), owners := (owners d)(r \<mapsto> t)\<rparr>"

definition wait_for :: "u64 \<Rightarrow> string \<Rightarrow> detector \<Rightarrow> detector" where
  "wait_for t r d = d\<lparr>waiting := entry_push t r (waiting d)\<rparr>"

definition release :: "u64 \<Rightarrow> string \<Rightarrow> detector \<Rightarrow> detector" where
  "release t r d =
     d\<lparr>held_by := entry_retain t (\<lambda>x. x \<noteq> r) (held_by d), owners := (owners d)(r := None),
       waiting := entry_retain t (\<lambda>x. x \<noteq> r) (waiting d)\<rparr>"

subsection \<open>The search\<close>

type_synonym wait_graph = "u64 \<rightharpoonup> u64 set"

text \<open>A thread is a key of the graph when one of the resources it waits for has an owner.\<close>

definition build_graph :: "detector \<Rightarrow> wait_graph" where
  "build_graph d t =
     (case waiting d t of
        None \<Rightarrow> None
      | Some rs \<Rightarrow>
          let holders = set (List.map_filter (owners d) rs)
          in if holders = {} then None else Some holders)"

definition neighbors :: "(u64 set \<Rightarrow> u64 list) \<Rightarrow> wait_graph \<Rightarrow> u64 \<Rightarrow> u64 list" where
  "neighbors set_order g t = (case g t of None \<Rightarrow> [] | Some hs \<Rightarrow> set_order hs)"

datatype dfs_result = NoCycle | Cycle "u64 list" | DfsPanic

text \<open>
  The loop over the neighbours with the recursive call in it. \<open>v\<close>, \<open>i\<close> and \<open>p\<close> are \<open>visited\<close>,
  \<open>in_stack\<close> and \<open>path\<close>; the result carries them as the call leaves them. \<open>position(..).unwrap()\<close>
  panics when the thread is not on the path.
\<close>

function dfs_neighbors ::
  "(u64 \<Rightarrow> u64 list) \<Rightarrow> u64 list \<Rightarrow> u64 set \<Rightarrow> u64 set \<Rightarrow> u64 list \<Rightarrow>
   dfs_result \<times> u64 set \<times> u64 set \<times> u64 list"
where
  "dfs_neighbors nb [] v i p = (NoCycle, v, i, p)"
| "dfs_neighbors nb (n # ns) v i p =
     (if n \<notin> v then
        (case dfs_neighbors nb (nb n) (insert n v) (insert n i) (p @ [n]) of
           (NoCycle, v', i', p') \<Rightarrow> dfs_neighbors nb ns v' (i' - {n}) (butlast p')
         | stopped \<Rightarrow> stopped)
      else if n \<in> i then
        (if n \<in> set p then (Cycle (dropWhile (\<lambda>x. x \<noteq> n) p @ [n]), v, i, p) else (DfsPanic, v, i, p))
      else dfs_neighbors nb ns v i p)"
  by pat_completeness auto

lemma dfs_visited_grows:
  "dfs_neighbors_dom (nb, ns, v, i, p) \<Longrightarrow> v \<subseteq> fst (snd (dfs_neighbors nb ns v i p))"
proof (induction nb ns v i p rule: dfs_neighbors.pinduct)
  case (1 nb v i p)
  then show ?case by (simp add: dfs_neighbors.psimps)
next
  case (2 nb n ns v i p)
  obtain r v' i' p' where rec: "dfs_neighbors nb (nb n) (insert n v) (insert n i) (p @ [n]) = (r, v', i', p')"
    by (metis prod_cases4)
  show ?case
  proof (cases "n \<notin> v \<and> r = NoCycle")
    case True
    with 2(2) rec have "insert n v \<subseteq> v'" by simp
    moreover have "v' \<subseteq> fst (snd (dfs_neighbors nb ns v' (i' - {n}) (butlast p')))"
      using 2(3) True rec by simp
    ultimately show ?thesis using True rec 2(1) by (simp add: dfs_neighbors.psimps) blast
  next
    case False
    with 2 rec show ?thesis by (auto simp: dfs_neighbors.psimps split: dfs_result.splits)
  qed
qed

termination dfs_neighbors
proof (relation "inv_image (finite_psubset <*lex*> less_than) (\<lambda>(nb, ns, v, i, p). (- v, length ns))",
    goal_cases)
  case 1
  then show ?case by (simp add: wf_lex_prod)
next
  case (2 nb n ns v i p)
  then show ?case by (auto simp: finite_psubset_def)
next
  case (3 nb n ns v i p r t1 v' t2 i' p')
  then have "insert n v \<subseteq> v'"
    using dfs_visited_grows [of nb "nb n" "insert n v" "insert n i" "p @ [n]"] by (metis fst_conv snd_conv)
  with 3(1) show ?case by (auto simp: finite_psubset_def)
next
  case (4 nb n ns v i p)
  then show ?case by simp
qed

definition dfs_cycle ::
  "(u64 \<Rightarrow> u64 list) \<Rightarrow> u64 \<Rightarrow> u64 set \<Rightarrow> u64 set \<Rightarrow> u64 list \<Rightarrow> dfs_result \<times> u64 set \<times> u64 set \<times> u64 list"
where
  "dfs_cycle nb n v i p =
     (case dfs_neighbors nb (nb n) (insert n v) (insert n i) (p @ [n]) of
        (NoCycle, v', i', p') \<Rightarrow> (NoCycle, v', i' - {n}, butlast p')
      | stopped \<Rightarrow> stopped)"

fun detect_loop ::
  "(u64 \<Rightarrow> u64 list) \<Rightarrow> u64 list \<Rightarrow> u64 set \<Rightarrow> u64 set \<Rightarrow> u64 list \<Rightarrow> dfs_result"
where
  "detect_loop nb [] v i p = NoCycle"
| "detect_loop nb (n # ns) v i p =
     (if n \<notin> v then
        (case dfs_cycle nb n v i p of
           (NoCycle, v', i', p') \<Rightarrow> detect_loop nb ns v' i' p'
         | (stopped, _) \<Rightarrow> stopped)
      else detect_loop nb ns v i p)"

definition detect_cycle ::
  "(wait_graph \<Rightarrow> u64 list) \<Rightarrow> (u64 set \<Rightarrow> u64 list) \<Rightarrow> detector \<Rightarrow> dfs_result"
where
  "detect_cycle node_order set_order d =
     (let g = build_graph d in detect_loop (neighbors set_order g) (node_order g) {} {} [])"

text \<open>The recursive call of the loop is the call of \<open>dfs_cycle\<close>.\<close>

lemma dfs_neighbors_calls_dfs_cycle:
  "dfs_neighbors nb (n # ns) v i p =
     (if n \<notin> v then
        (case dfs_cycle nb n v i p of
           (NoCycle, v', i', p') \<Rightarrow> dfs_neighbors nb ns v' i' p' | stopped \<Rightarrow> stopped)
      else if n \<in> i then
        (if n \<in> set p then (Cycle (dropWhile (\<lambda>x. x \<noteq> n) p @ [n]), v, i, p) else (DfsPanic, v, i, p))
      else dfs_neighbors nb ns v i p)"
  by (simp add: dfs_cycle_def split: prod.split dfs_result.split)

subsection \<open>What the search decides\<close>

definition edges :: "(u64 \<Rightarrow> u64 list) \<Rightarrow> (u64 \<times> u64) set" where
  "edges nb = {(a, b). b \<in> set (nb a)}"

definition closed_walk :: "(u64 \<Rightarrow> u64 list) \<Rightarrow> u64 list \<Rightarrow> bool" where
  "closed_walk nb c \<longleftrightarrow> 2 \<le> length c \<and> hd c = last c \<and> successively (\<lambda>a b. b \<in> set (nb a)) c"

text \<open>Threads the search is done with: nothing outside is reachable and none is on a cycle.\<close>

definition settled :: "(u64 \<Rightarrow> u64 list) \<Rightarrow> u64 set \<Rightarrow> bool" where
  "settled nb B \<longleftrightarrow> (\<forall>b \<in> B. set (nb b) \<subseteq> B \<and> (b, b) \<notin> (edges nb)\<^sup>+)"

lemma settled_reach:
  assumes "settled nb B" and "(a, b) \<in> (edges nb)\<^sup>*" and "a \<in> B"
  shows "b \<in> B"
  using assms(2,3)
proof (induction rule: rtrancl_induct)
  case base
  then show ?case .
next
  case (step x y)
  with assms(1) show ?case by (auto simp: settled_def edges_def)
qed

lemma settled_insert:
  assumes "settled nb B" and "set (nb n) \<subseteq> B" and "n \<notin> B"
  shows "settled nb (insert n B)"
proof -
  have "(n, n) \<notin> (edges nb)\<^sup>+"
  proof
    assume "(n, n) \<in> (edges nb)\<^sup>+"
    then obtain m where "(n, m) \<in> edges nb" "(m, n) \<in> (edges nb)\<^sup>*" by (meson tranclD)
    with assms settled_reach [OF assms(1)] show False by (auto simp: edges_def)
  qed
  with assms show ?thesis by (auto simp: settled_def)
qed

text \<open>What the search relies on: the path leads to the thread whose neighbours are scanned.\<close>

definition on_path :: "(u64 \<Rightarrow> u64 list) \<Rightarrow> u64 set \<Rightarrow> u64 set \<Rightarrow> u64 list \<Rightarrow> bool" where
  "on_path nb v i p \<longleftrightarrow> set p = i \<and> distinct p \<and> i \<subseteq> v \<and>
     successively (\<lambda>a b. b \<in> set (nb a)) p \<and> settled nb (v - i)"

lemma dropWhile_walk:
  assumes "on_path nb v i p" and "n \<in> set p" and "n \<in> set (nb (last p))"
  shows "closed_walk nb (dropWhile (\<lambda>x. x \<noteq> n) p @ [n])"
proof -
  let ?q = "dropWhile (\<lambda>x. x \<noteq> n) p"
  have q1: "?q \<noteq> []" using assms(2) by auto
  have q: "?q \<noteq> []" "hd ?q = n" using q1 hd_dropWhile [OF q1] by simp_all
  have p: "p = takeWhile (\<lambda>x. x \<noteq> n) p @ ?q" by simp
  have "successively (\<lambda>a b. b \<in> set (nb a)) (takeWhile (\<lambda>x. x \<noteq> n) p @ ?q)"
    using assms(1) by (simp add: on_path_def)
  then have "successively (\<lambda>a b. b \<in> set (nb a)) ?q"
    unfolding successively_append_iff by simp
  moreover have "last ?q = last p" using q(1) p by (metis last_appendR)
  ultimately have "successively (\<lambda>a b. b \<in> set (nb a)) (?q @ [n])"
    using assms(3) by (simp add: successively_append_iff)
  moreover have "2 \<le> length (?q @ [n])" using q(1) by (cases ?q) simp_all
  ultimately show ?thesis using q by (simp add: closed_walk_def)
qed

definition search_ok ::
  "(u64 \<Rightarrow> u64 list) \<Rightarrow> u64 set \<Rightarrow> u64 set \<Rightarrow> u64 set \<Rightarrow> u64 list \<Rightarrow>
   dfs_result \<times> u64 set \<times> u64 set \<times> u64 list \<Rightarrow> bool"
where
  "search_ok nb goal v i p res =
     (case res of
        (NoCycle, v', i', p') \<Rightarrow> i' = i \<and> p' = p \<and> v \<subseteq> v' \<and> goal \<subseteq> v' - i \<and> on_path nb v' i p
      | (Cycle c, _) \<Rightarrow> closed_walk nb c
      | (DfsPanic, _) \<Rightarrow> False)"

lemma on_path_push:
  assumes "on_path nb v i p" and "n \<notin> v" and "p = [] \<or> n \<in> set (nb (last p))"
  shows "on_path nb (insert n v) (insert n i) (p @ [n])"
proof -
  have "n \<notin> i" using assms(1,2) by (auto simp: on_path_def)
  then have "insert n v - insert n i = v - i" using assms(2) by blast
  then show ?thesis using assms by (auto simp: on_path_def successively_append_iff)
qed

lemma on_path_pop:
  assumes "on_path nb v' (insert n i) (p @ [n])" and "set (nb n) \<subseteq> v' - insert n i" and "n \<notin> i"
  shows "on_path nb v' i p"
proof -
  have "v' - i = insert n (v' - insert n i)" using assms(1,3) by (auto simp: on_path_def)
  then have "settled nb (v' - i)"
    using assms(1,2) settled_insert [of nb "v' - insert n i" n] by (simp add: on_path_def)
  moreover have "i \<subseteq> v'" using assms(1) by (auto simp: on_path_def)
  moreover have "set p = i" using assms(1,3) by (auto simp: on_path_def)
  ultimately show ?thesis using assms(1) by (auto simp: on_path_def successively_append_iff)
qed

lemma dfs_neighbors_ok:
  assumes "on_path nb v i p" and "p \<noteq> []" and "set ns \<subseteq> set (nb (last p))"
  shows "search_ok nb (set ns) v i p (dfs_neighbors nb ns v i p)"
  using assms
proof (induction nb ns v i p rule: dfs_neighbors.induct)
  case (1 nb v i p)
  then show ?case by (simp add: search_ok_def)
next
  case (2 nb n ns v i p)
  have path: "set p = i" "i \<subseteq> v" using "2.prems"(1) by (auto simp: on_path_def)
  consider (new) "n \<notin> v" | (stacked) "n \<in> i" | (old) "n \<in> v" "n \<notin> i" by blast
  then show ?case
  proof cases
    case new
    obtain r v' i' p' where rec:
      "dfs_neighbors nb (nb n) (insert n v) (insert n i) (p @ [n]) = (r, v', i', p')" by (metis prod_cases4)
    have push: "on_path nb (insert n v) (insert n i) (p @ [n])"
      using on_path_push [OF "2.prems"(1) new] "2.prems"(3) by simp
    have rec_ok: "search_ok nb (set (nb n)) (insert n v) (insert n i) (p @ [n]) (r, v', i', p')"
      using "2.IH"(1) [OF new push] rec by simp
    show ?thesis
    proof (cases r)
      case NoCycle
      have ni: "n \<notin> i" using new path(2) by blast
      have st: "i' = insert n i" "p' = p @ [n]" "insert n v \<subseteq> v'" "set (nb n) \<subseteq> v' - insert n i"
        "on_path nb v' (insert n i) (p @ [n])"
        using rec_ok NoCycle by (simp_all add: search_ok_def)
      have pop: "on_path nb v' i p" using on_path_pop [OF st(5,4) ni] .
      have undo: "i' - {n} = i" "butlast p' = p" using st(1,2) ni by auto
      have "search_ok nb (set ns) v' i p (dfs_neighbors nb ns v' i p)"
        using "2.IH"(2) [OF new rec [symmetric], of v' "(i', p')" i' p'] NoCycle undo pop "2.prems" by simp
      then show ?thesis
        using new rec NoCycle undo st(3) ni
        by (auto simp: search_ok_def split: prod.splits dfs_result.splits)
    next
      case (Cycle c)
      with rec_ok rec new show ?thesis by (simp add: search_ok_def)
    next
      case DfsPanic
      with rec_ok show ?thesis by (simp add: search_ok_def)
    qed
  next
    case stacked
    then show ?thesis
      using path dropWhile_walk [OF "2.prems"(1), of n] "2.prems"(3) by (auto simp: search_ok_def)
  next
    case old
    with "2.IH"(3) "2.prems" show ?thesis
      by (auto simp: search_ok_def split: prod.splits dfs_result.splits)
  qed
qed

lemma dfs_cycle_ok:
  assumes "on_path nb v {} []" and "n \<notin> v"
  shows "search_ok nb {n} v {} [] (dfs_cycle nb n v {} [])"
proof -
  have "on_path nb (insert n v) {n} [n]" using on_path_push [OF assms] by simp
  from dfs_neighbors_ok [OF this, of "nb n"] have
    ok: "search_ok nb (set (nb n)) (insert n v) {n} [n] (dfs_neighbors nb (nb n) (insert n v) {n} [n])"
    by simp
  then show ?thesis
    using on_path_pop [of nb _ n "{}" "[]"]
    by (auto simp: dfs_cycle_def search_ok_def split: prod.splits dfs_result.splits)
qed

lemma detect_loop_ok:
  assumes "on_path nb v {} []"
  shows "case detect_loop nb ns v {} [] of
      NoCycle \<Rightarrow> \<exists>v'. set ns \<union> v \<subseteq> v' \<and> settled nb v' | Cycle c \<Rightarrow> closed_walk nb c | DfsPanic \<Rightarrow> False"
  using assms
proof (induction ns arbitrary: v)
  case Nil
  then show ?case by (auto simp: on_path_def)
next
  case (Cons n ns)
  show ?case
  proof (cases "n \<in> v")
    case True
    with Cons.IH [OF Cons.prems] show ?thesis by (auto split: dfs_result.splits)
  next
    case False
    obtain r v' i' p' where rec: "dfs_cycle nb n v {} [] = (r, v', i', p')" by (metis prod_cases4)
    have ok: "search_ok nb {n} v {} [] (r, v', i', p')" using dfs_cycle_ok [OF Cons.prems False] rec by simp
    show ?thesis
    proof (cases r)
      case NoCycle
      with ok have st: "i' = {}" "p' = []" "v \<subseteq> v'" "n \<in> v'" "on_path nb v' {} []"
        by (simp_all add: search_ok_def)
      from Cons.IH [OF st(5)] st(1-4) False rec NoCycle show ?thesis
        by (auto split: dfs_result.splits)
    next
      case (Cycle c)
      with ok rec False show ?thesis by (simp add: search_ok_def)
    next
      case DfsPanic
      with ok show ?thesis by (simp add: search_ok_def)
    qed
  qed
qed

subsection \<open>Properties\<close>

text \<open>Who waits for whom, read off the detector's tables.\<close>

definition waits_for :: "detector \<Rightarrow> (u64 \<times> u64) set" where
  "waits_for d = {(t, h). \<exists>rs r. waiting d t = Some rs \<and> r \<in> set rs \<and> owners d r = Some h}"

lemma build_graph_waits:
  "build_graph d t = (if {h. (t, h) \<in> waits_for d} = {} then None else Some {h. (t, h) \<in> waits_for d})"
proof (cases "waiting d t")
  case None
  then show ?thesis by (simp add: build_graph_def waits_for_def)
next
  case (Some rs)
  have "set (List.map_filter (owners d) rs) = {h. (t, h) \<in> waits_for d}"
    using Some by (force simp: waits_for_def List.map_filter_def)
  with Some show ?thesis by (simp add: build_graph_def Let_def)
qed

lemma finite_waits: "finite {h. (t, h) \<in> waits_for d}"
proof (cases "waiting d t")
  case None
  then show ?thesis by (simp add: waits_for_def)
next
  case (Some rs)
  have "{h. (t, h) \<in> waits_for d} \<subseteq> (\<lambda>r. the (owners d r)) ` set rs"
    using Some by (force simp: waits_for_def)
  then show ?thesis by (rule finite_subset) simp
qed

lemma edges_are_waits:
  assumes "\<And>S. finite S \<Longrightarrow> set (set_order S) = S"
  shows "edges (neighbors set_order (build_graph d)) = waits_for d"
  using assms [OF finite_waits]
  by (auto simp: edges_def neighbors_def build_graph_waits split: if_splits)

lemma closed_walk_cycle:
  assumes "closed_walk nb c"
  shows "(hd c, hd c) \<in> (edges nb)\<^sup>+"
proof -
  have walk: "(hd c, last c) \<in> (edges nb)\<^sup>+" if "successively (\<lambda>a b. b \<in> set (nb a)) c" "2 \<le> length c" for c
    using that
  proof (induction c)
    case Nil
    then show ?case by simp
  next
    case (Cons x xs)
    then obtain y ys where xs: "xs = y # ys" by (cases xs) auto
    then have "(x, y) \<in> edges nb" using Cons.prems by (simp add: edges_def)
    with Cons xs show ?case by (cases ys) (auto intro: trancl_into_trancl2)
  qed
  from walk [of c] assms show ?thesis by (simp add: closed_walk_def)
qed

lemma detect_cycle_cases:
  assumes "\<And>g. set (node_order g) = dom g" and "\<And>S. finite S \<Longrightarrow> set (set_order S) = S"
  shows "(detect_cycle node_order set_order d = NoCycle \<longleftrightarrow> acyclic (waits_for d)) \<and>
    (\<forall>c. detect_cycle node_order set_order d = Cycle c \<longrightarrow>
       2 \<le> length c \<and> hd c = last c \<and> successively (\<lambda>a b. (a, b) \<in> waits_for d) c) \<and>
    detect_cycle node_order set_order d \<noteq> DfsPanic"
proof -
  let ?nb = "neighbors set_order (build_graph d)" and ?r = "detect_cycle node_order set_order d"
  have e: "edges ?nb = waits_for d" using assms(2) by (rule edges_are_waits)
  have nb: "b \<in> set (?nb a) \<longleftrightarrow> (a, b) \<in> waits_for d" for a b using e by (auto simp: edges_def)
  have "on_path ?nb {} {} []" by (simp add: on_path_def settled_def)
  from detect_loop_ok [OF this, of "node_order (build_graph d)"]
  have ok: "case ?r of NoCycle \<Rightarrow> \<exists>v'. dom (build_graph d) \<subseteq> v' \<and> settled ?nb v'
      | Cycle c \<Rightarrow> closed_walk ?nb c | DfsPanic \<Rightarrow> False"
    unfolding detect_cycle_def Let_def assms(1) Un_empty_right .
  have "acyclic (waits_for d)" if no: "?r = NoCycle"
  proof -
    obtain v' where v': "dom (build_graph d) \<subseteq> v'" "settled ?nb v'" using ok unfolding no by auto
    have "t \<in> v'" if "(t, t) \<in> (waits_for d)\<^sup>+" for t
    proof -
      from that obtain h where "(t, h) \<in> waits_for d" by (meson tranclD)
      then have "t \<in> dom (build_graph d)" by (auto simp: build_graph_waits)
      with v'(1) show ?thesis by blast
    qed
    with v'(2) show ?thesis by (auto simp: settled_def e acyclic_def)
  qed
  moreover have "\<not> acyclic (waits_for d)" if "?r = Cycle c" for c
    using ok closed_walk_cycle [of ?nb c] unfolding that by (auto simp: e acyclic_def)
  moreover have "2 \<le> length c \<and> hd c = last c \<and> successively (\<lambda>a b. (a, b) \<in> waits_for d) c" if "?r = Cycle c" for c
    using ok unfolding that by (simp add: closed_walk_def nb)
  moreover have "?r \<noteq> DfsPanic" using ok by auto
  ultimately show ?thesis by (metis dfs_result.exhaust)
qed

text \<open>
  C38. The detector decides deadlock. For whatever calls filled its tables, and in whatever order
  the hash tables are iterated, the search returns (it never runs forever and never panics); it
  reports nothing exactly when no thread waits for itself through any chain of owners, and what
  it reports is a closed walk of at least one wait, each thread waiting for the next. The
  hypotheses say that an iteration lists the keys of a map and the members of a set.
\<close>

theorem detect_cycle_decides:
  assumes "\<And>g. set (node_order g) = dom g" and "\<And>S. finite S \<Longrightarrow> set (set_order S) = S"
  shows "(detect_cycle node_order set_order d = NoCycle \<longleftrightarrow> acyclic (waits_for d)) \<and>
    (\<forall>c. detect_cycle node_order set_order d = Cycle c \<longrightarrow>
       2 \<le> length c \<and> hd c = last c \<and> successively (\<lambda>a b. (a, b) \<in> waits_for d) c) \<and>
    detect_cycle node_order set_order d \<noteq> DfsPanic"
  using assms by (rule detect_cycle_cases)

definition demo_detector :: detector where
  "demo_detector = wait_for 2 ''A'' (acquire 2 ''B'' (wait_for 1 ''B'' (acquire 1 ''A'' detector_new)))"

theorem detect_cycle_decides_witness:
  "detect_cycle (\<lambda>g. sorted_list_of_set (dom g)) sorted_list_of_set detector_new = NoCycle \<and>
   detect_cycle (\<lambda>g. sorted_list_of_set (dom g)) sorted_list_of_set demo_detector \<noteq> NoCycle"
proof -
  note d = detect_cycle_decides [of "\<lambda>g. sorted_list_of_set (dom g)" sorted_list_of_set, simplified]
  have "waits_for detector_new = {}" by (simp add: waits_for_def detector_new_def)
  then have "acyclic (waits_for detector_new)" by (simp add: acyclic_def)
  moreover have "(1, 2) \<in> waits_for demo_detector" "(2, 1) \<in> waits_for demo_detector"
    by (simp_all add: waits_for_def demo_detector_def wait_for_def acquire_def entry_push_def detector_new_def)
  then have "(1, 1) \<in> (waits_for demo_detector)\<^sup>+" by (meson r_into_trancl trancl_trans)
  then have "\<not> acyclic (waits_for demo_detector)" by (auto simp: acyclic_def)
  ultimately show ?thesis using d by simp
qed

text \<open>
  A thread that is granted a resource it announced to wait for is still listed as waiting, now
  for itself: the detector reports a deadlock that is none.
\<close>

lemma granted_wait_is_reported:
  assumes "\<And>g. set (node_order g) = dom g" and "\<And>S. finite S \<Longrightarrow> set (set_order S) = S"
  shows "\<exists>c. detect_cycle node_order set_order (acquire t r (wait_for t r d)) = Cycle c"
proof -
  let ?d = "acquire t r (wait_for t r d)"
  have "(t, t) \<in> waits_for ?d"
    by (auto simp: waits_for_def acquire_def wait_for_def entry_push_def intro: exI [of _ r])
  then have "\<not> acyclic (waits_for ?d)" by (auto simp: acyclic_def)
  then show ?thesis
    using detect_cycle_cases [OF assms, of ?d] by (metis dfs_result.exhaust)
qed

end
