(* ===== verification/Handler_Bus.thy ===== *)
theory Handler_Bus
  imports Ledger_Prelude "HOL-Library.AList"
begin

section \<open>The in-process event bus and the latency window\<close>

text \<open>
  The rest of \<open>src/service/advanced.rs\<close>: the \<open>EventBus\<close> of the choreographed saga, whose handlers
  answer an event with another one, the transfer choreography built on it, and the window of
  latency samples. The subscriber table is an association list with each key once; a handler is
  a function of the payload; the instant of the \<open>k\<close>-th event is \<open>clk k\<close>. In the latency window
  durations are natural numbers of nanoseconds; the rank that the percentile query computes in
  floating point is an argument, and the standard deviation is floating point and left out.
\<close>

type_synonym bus_handler = "string \<Rightarrow> (string, string) result"

record bus_event =
  be_type :: string
  be_payload :: string
  be_produced_by :: string
  be_timestamp :: timestamp

record handler_bus =
  subscribers :: "(string \<times> (string \<times> bus_handler) list) list"
  history :: "bus_event list"

definition hbus_new :: handler_bus where
  "hbus_new = \<lparr>subscribers = [], history = []\<rparr>"

definition handlers_of :: "string \<Rightarrow> handler_bus \<Rightarrow> (string \<times> bus_handler) list" where
  "handlers_of et b = (case map_of (subscribers b) et of None \<Rightarrow> [] | Some hs \<Rightarrow> hs)"

definition subscribe :: "string \<Rightarrow> string \<Rightarrow> bus_handler \<Rightarrow> handler_bus \<Rightarrow> handler_bus" where
  "subscribe service et h b =
     b\<lparr>subscribers := AList.update et (handlers_of et b @ [(service, h)]) (subscribers b)\<rparr>"

definition record_event ::
  "(nat \<Rightarrow> timestamp) \<Rightarrow> string \<Rightarrow> string \<Rightarrow> string \<Rightarrow> handler_bus \<Rightarrow> handler_bus"
where
  "record_event clk et payload source b =
     b\<lparr>history := history b @
         [\<lparr>be_type = et, be_payload = payload, be_produced_by = source,
           be_timestamp = clk (length (history b))\<rparr>]\<rparr>"

text \<open>\<open>handlers.remove(0)\<close> on the entry of the event type.\<close>

definition take_handler :: "string \<Rightarrow> handler_bus \<Rightarrow> ((string \<times> bus_handler) \<times> handler_bus) option" where
  "take_handler et b =
     (case handlers_of et b of
        [] \<Rightarrow> None
      | h # hs \<Rightarrow> Some (h, b\<lparr>subscribers := AList.map_entry et (\<lambda>_. hs) (subscribers b)\<rparr>))"

definition fail_payload :: "string \<Rightarrow> string \<Rightarrow> string" where
  "fail_payload err payload =
     (let q = [CHR 0x22]
      in ''{'' @ q @ ''error'' @ q @ '':'' @ q @ err @ q @ '','' @ q @ ''original'' @ q @ '':'' @ payload @ ''}'')"

text \<open>What a handler's answer to an event of type \<open>et\<close> is published as.\<close>

definition reply_of :: "string \<Rightarrow> string \<Rightarrow> (string, string) result \<Rightarrow> string \<times> string" where
  "reply_of et payload r =
     (case r of Ok new_payload \<Rightarrow> (et @ ''_SUCCESS'', new_payload)
      | Err err \<Rightarrow> (et @ ''_FAILED'', fail_payload err payload))"

definition total_handlers :: "handler_bus \<Rightarrow> nat" where
  "total_handlers b = sum_list (map (length \<circ> snd) (subscribers b))"

lemma map_entry_total:
  "map_of m k = Some (h # hs) \<Longrightarrow>
   sum_list (map (length \<circ> snd) (AList.map_entry k (\<lambda>_. hs) m)) < sum_list (map (length \<circ> snd) m)"
  by (induction m) (auto split: if_splits)

lemma take_handler_total: "take_handler et b = Some (h, b') \<Longrightarrow> total_handlers b' < total_handlers b"
  by (auto simp: take_handler_def handlers_of_def total_handlers_def split: list.splits option.splits
      intro: map_entry_total)

lemma total_record [simp]: "total_handlers (record_event clk et payload source b) = total_handlers b"
  by (simp add: record_event_def total_handlers_def)

text \<open>
  The loop of \<open>publish\<close> with \<open>n\<close> rounds to go, the recursive \<open>publish\<close> of the answer spelled out.
  Only the events that a successful handler's publication returns are collected.
\<close>

function publish_loop ::
  "(nat \<Rightarrow> timestamp) \<Rightarrow> nat \<Rightarrow> string \<Rightarrow> string \<Rightarrow> handler_bus \<Rightarrow> bus_event list \<times> handler_bus"
where
  "publish_loop clk 0 et payload b = ([], b)"
| "publish_loop clk (Suc n) et payload b =
     (case take_handler et b of
        None \<Rightarrow> ([], b)
      | Some ((service, h), b1) \<Rightarrow>
          let answer = h payload; (et', payload') = reply_of et payload answer;
              b2 = record_event clk et' payload' service b1;
              (sub_events, b3) = publish_loop clk (length (handlers_of et' b2)) et' payload' b2;
              (output_events, b4) = publish_loop clk n et payload b3
          in (if is_ok answer then sub_events @ output_events else output_events, b4))"
  by pat_completeness auto

lemma publish_loop_total:
  "publish_loop_dom (clk, n, et, payload, b) \<Longrightarrow>
   total_handlers (snd (publish_loop clk n et payload b)) \<le> total_handlers b"
proof (induction clk n et payload b rule: publish_loop.pinduct)
  case (1 clk et payload b)
  then show ?case by (simp add: publish_loop.psimps)
next
  case (2 clk n et payload b)
  show ?case
  proof (cases "take_handler et b")
    case None
    with 2(1) show ?thesis by (simp add: publish_loop.psimps)
  next
    case (Some x)
    obtain service h b1 where x: "x = ((service, h), b1)" by (metis prod.collapse)
    obtain et' payload' where r: "reply_of et payload (h payload) = (et', payload')" by fastforce
    let ?b2 = "record_event clk et' payload' service b1"
    obtain sub b3 where sub: "publish_loop clk (length (handlers_of et' ?b2)) et' payload' ?b2 = (sub, b3)"
      by fastforce
    obtain out b4 where out: "publish_loop clk n et payload b3 = (out, b4)" by fastforce
    have "total_handlers b3 \<le> total_handlers ?b2"
      using 2(2) [OF Some x [symmetric] refl refl r [symmetric] refl refl] sub by simp
    moreover have "total_handlers b4 \<le> total_handlers b3"
      using 2(3) [OF Some x [symmetric] refl refl r [symmetric] refl refl sub [symmetric] refl] out by simp
    moreover have "total_handlers b1 < total_handlers b" using take_handler_total Some x by blast
    ultimately show ?thesis
      using 2(1) Some x r sub out by (simp add: publish_loop.psimps Let_def)
  qed
qed

termination publish_loop
proof (relation "inv_image (less_than <*lex*> less_than) (\<lambda>(clk, n, et, payload, b). (total_handlers b, n))",
    goal_cases)
  case 1
  then show ?case by (simp add: wf_lex_prod)
next
  case (2 clk n et payload b)
  then show ?case using take_handler_total by fastforce
next
  case (3 clk n et payload b x y service h b1 answer z et' payload' b2 w sub_events b3)
  then have "total_handlers b3 \<le> total_handlers b2"
    using publish_loop_total [of clk "length (handlers_of et' b2)" et' payload' b2] by (metis snd_conv)
  with 3 take_handler_total [of et b] show ?case by fastforce
qed

definition publish ::
  "(nat \<Rightarrow> timestamp) \<Rightarrow> string \<Rightarrow> string \<Rightarrow> string \<Rightarrow> handler_bus \<Rightarrow> bus_event list \<times> handler_bus"
where
  "publish clk et payload source b =
     (let b1 = record_event clk et payload source b
      in publish_loop clk (length (handlers_of et b1)) et payload b1)"

text \<open>The recursive call of the loop is \<open>publish\<close>.\<close>

lemma publish_loop_publishes:
  "publish_loop clk (Suc n) et payload b =
     (case take_handler et b of
        None \<Rightarrow> ([], b)
      | Some ((service, h), b1) \<Rightarrow>
          (case publish clk (fst (reply_of et payload (h payload))) (snd (reply_of et payload (h payload))) service b1 of
             (sub_events, b3) \<Rightarrow>
               (case publish_loop clk n et payload b3 of
                  (output_events, b4) \<Rightarrow>
                    (if is_ok (h payload) then sub_events @ output_events else output_events, b4))))"
  by (simp add: publish_def Let_def case_prod_unfold split: option.split)

declare publish_loop.simps [simp del]

subsection \<open>What a publication does\<close>

text \<open>Nothing is ever returned: the innermost publication returns no events, and so do all others.\<close>

lemma handlers_record [simp]: "handlers_of et (record_event clk et' p s b) = handlers_of et b"
  by (simp add: handlers_of_def record_event_def)

lemma publish_loop_step:
  assumes "take_handler et b = Some ((service, h), b1)" and "reply_of et payload (h payload) = (et', payload')"
    and "publish_loop clk (length (handlers_of et' b1)) et' payload' (record_event clk et' payload' service b1) = (sub, b3)"
  shows "publish_loop clk (Suc n) et payload b =
    (if is_ok (h payload) then sub @ fst (publish_loop clk n et payload b3) else fst (publish_loop clk n et payload b3),
     snd (publish_loop clk n et payload b3))"
  using assms by (simp add: publish_loop.simps Let_def case_prod_unfold)

lemma publish_loop_stop: "take_handler et b = None \<Longrightarrow> publish_loop clk (Suc n) et payload b = ([], b)"
  by (simp add: publish_loop.simps)

lemma publish_loop_induct [case_names none stop step]:
  assumes none: "\<And>clk et payload b. P clk 0 et payload b"
    and stop: "\<And>clk n et payload b. take_handler et b = None \<Longrightarrow> P clk (Suc n) et payload b"
    and step: "\<And>clk n et payload b service h b1 et' payload' sub b3.
      take_handler et b = Some ((service, h), b1) \<Longrightarrow> reply_of et payload (h payload) = (et', payload') \<Longrightarrow>
      publish_loop clk (length (handlers_of et' b1)) et' payload' (record_event clk et' payload' service b1) = (sub, b3) \<Longrightarrow>
      P clk (length (handlers_of et' b1)) et' payload' (record_event clk et' payload' service b1) \<Longrightarrow>
      P clk n et payload b3 \<Longrightarrow> P clk (Suc n) et payload b"
  shows "P clk n et payload b"
proof (induction clk n et payload b rule: publish_loop.induct)
  case (1 clk et payload b)
  show ?case by (rule none)
next
  case (2 clk n et payload b)
  show ?case
  proof (cases "take_handler et b")
    case None
    then show ?thesis by (rule stop)
  next
    case (Some x)
    obtain service h b1 where x: "x = ((service, h), b1)" by (metis prod.collapse)
    obtain et' payload' where r: "reply_of et payload (h payload) = (et', payload')" by fastforce
    let ?b2 = "record_event clk et' payload' service b1"
    obtain sub b3 where sub: "publish_loop clk (length (handlers_of et' ?b2)) et' payload' ?b2 = (sub, b3)"
      by fastforce
    note ih = 2(1) [OF Some x [symmetric] refl refl r [symmetric] refl refl]
      2(2) [OF Some x [symmetric] refl refl r [symmetric] refl refl sub [symmetric] refl]
    show ?thesis using step [OF Some [unfolded x] r] sub ih by simp
  qed
qed

lemma publish_loop_returns_nothing: "fst (publish_loop clk n et payload b) = []"
  by (induction clk n et payload b rule: publish_loop_induct)
    (simp_all add: publish_loop.simps(1) publish_loop_stop publish_loop_step)

lemma map_of_map_entry: "map_of (AList.map_entry k f m) = (map_of m)(k := map_option f (map_of m k))"
  by (induction m) (auto simp: fun_eq_iff)

lemma take_handler_handlers:
  assumes "take_handler et b = Some (h, b')"
  shows "handlers_of et b = h # handlers_of et b'" "et' \<noteq> et \<Longrightarrow> handlers_of et' b' = handlers_of et' b"
    "history b' = history b"
  using assms
  by (auto simp: take_handler_def handlers_of_def map_of_map_entry split: list.splits option.splits)

lemma take_handler_None: "take_handler et b = None \<longleftrightarrow> handlers_of et b = []"
  by (simp add: take_handler_def split: list.split)

text \<open>
  A publication only takes handlers away: for no type are there more afterwards, and none are
  left for a type the loop has gone through.
\<close>

lemma publish_loop_shrinks:
  "\<exists>taken. handlers_of t b = taken @ handlers_of t (snd (publish_loop clk n et payload b))"
proof (induction clk n et payload b rule: publish_loop_induct)
  case (none clk et payload b)
  then show ?case by (simp add: publish_loop.simps(1))
next
  case (stop clk n et payload b)
  then show ?case by (simp add: publish_loop_stop)
next
  case (step clk n et payload b service h b1 et' payload' sub b3)
  have "\<exists>taken. handlers_of t b = taken @ handlers_of t b1"
    using take_handler_handlers [OF step(1)] by (cases "t = et") auto
  moreover have "\<exists>taken. handlers_of t b1 = taken @ handlers_of t b3" using step(3,4) by simp
  ultimately show ?case
    using step(5) publish_loop_step [OF step(1-3), of n] by (metis append.assoc snd_conv)
qed

lemma publish_loop_exhausts:
  "length (handlers_of et b) \<le> n \<Longrightarrow> handlers_of et (snd (publish_loop clk n et payload b)) = []"
proof (induction clk n et payload b rule: publish_loop_induct)
  case (none clk et payload b)
  then show ?case by (simp add: publish_loop.simps(1))
next
  case (stop clk n et payload b)
  then show ?case by (simp add: publish_loop_stop take_handler_None)
next
  case (step clk n et payload b service h b1 et' payload' sub b3)
  obtain taken where "handlers_of et b1 = taken @ handlers_of et b3"
    using publish_loop_shrinks [of et "record_event clk et' payload' service b1" clk _ et' payload'] step(3)
    by (metis handlers_record snd_conv)
  then have "length (handlers_of et b3) \<le> n"
    using take_handler_handlers(1) [OF step(1)] step(6) by simp
  with step(5) publish_loop_step [OF step(1-3), of n] show ?case by simp
qed

text \<open>An event without its instant.\<close>

definition event_view :: "bus_event \<Rightarrow> string \<times> string \<times> string" where
  "event_view e = (be_type e, be_payload e, be_produced_by e)"

definition reply_view :: "string \<Rightarrow> string \<Rightarrow> string \<times> bus_handler \<Rightarrow> string \<times> string \<times> string" where
  "reply_view et payload s = (case reply_of et payload (snd s payload) of (et', p') \<Rightarrow> (et', p', fst s))"

definition unanswered :: "string \<Rightarrow> handler_bus \<Rightarrow> bool" where
  "unanswered et b \<longleftrightarrow> handlers_of (et @ ''_SUCCESS'') b = [] \<and> handlers_of (et @ ''_FAILED'') b = []"

lemma reply_type: "reply_of et payload r = (et', p') \<Longrightarrow> et' = et @ ''_SUCCESS'' \<or> et' = et @ ''_FAILED''"
  by (auto simp: reply_of_def split: sum.splits)

lemma publish_loop_notifies:
  "n = length (handlers_of et b) \<Longrightarrow> unanswered et b \<Longrightarrow>
   map event_view (history (snd (publish_loop clk n et payload b))) =
     map event_view (history b) @ map (reply_view et payload) (handlers_of et b)"
proof (induction n arbitrary: b)
  case 0
  then show ?case by (simp add: publish_loop.simps(1))
next
  case (Suc n)
  then obtain service h hs where hs: "handlers_of et b = (service, h) # hs" by (cases "handlers_of et b") auto
  obtain b1 where taken: "take_handler et b = Some ((service, h), b1)" using hs by (simp add: take_handler_def)
  note b1 = take_handler_handlers [OF taken]
  obtain et' payload' where r: "reply_of et payload (h payload) = (et', payload')" by fastforce
  let ?b2 = "record_event clk et' payload' service b1"
  have quiet: "handlers_of et' b1 = []" "unanswered et ?b2"
    using reply_type [OF r] b1(2) Suc.prems(2) by (auto simp: unanswered_def)
  have "publish_loop clk (length (handlers_of et' b1)) et' payload' ?b2 = ([], ?b2)"
    using quiet(1) by (simp add: publish_loop.simps(1))
  from publish_loop_step [OF taken r this, of n]
  have "snd (publish_loop clk (Suc n) et payload b) = snd (publish_loop clk n et payload ?b2)" by simp
  moreover have "handlers_of et ?b2 = hs" using hs b1(1) by simp
  ultimately show ?case
    using Suc.IH [of ?b2] quiet(2) hs Suc.prems(1) b1(3) r
    by (simp add: record_event_def event_view_def reply_view_def)
qed

text \<open>
  A publication uses its subscribers up. Publishing an event notifies the handlers subscribed
  to its type one after the other in the order they subscribed, and publishes the answer of
  each; but it takes every handler off the table and puts none back. Afterwards nobody is
  subscribed to the type, publishing it again only records the event, and no publication ever
  returns any of the events its handlers produced.
\<close>

theorem publish_uses_up_subscribers:
  "let (ret, b') = publish clk et payload source b
   in ret = [] \<and> handlers_of et b' = [] \<and>
      publish clk' et payload' source' b' = ([], record_event clk' et payload' source' b') \<and>
      (unanswered et b \<longrightarrow>
         map event_view (history b') =
           map event_view (history b) @ (et, payload, source) # map (reply_view et payload) (handlers_of et b))"
proof -
  obtain ret b' where p: "publish clk et payload source b = (ret, b')" by fastforce
  then have loop: "publish_loop clk (length (handlers_of et b)) et payload (record_event clk et payload source b) = (ret, b')"
    by (simp add: publish_def Let_def)
  have "handlers_of et b' = []"
    using publish_loop_exhausts [of et "record_event clk et payload source b" "length (handlers_of et b)" clk payload]
      loop by simp
  moreover have "ret = []" using publish_loop_returns_nothing loop by (metis fst_conv)
  moreover have "map event_view (history b') =
      map event_view (history b) @ (et, payload, source) # map (reply_view et payload) (handlers_of et b)"
    if "unanswered et b"
    using publish_loop_notifies [of "length (handlers_of et b)" et "record_event clk et payload source b" clk payload]
      loop that by (simp add: unanswered_def record_event_def event_view_def handlers_of_def)
  ultimately show ?thesis using p by (simp add: publish_def Let_def publish_loop.simps(1))
qed

theorem publish_uses_up_subscribers_witness:
  "let b = subscribe ''ledger'' ''Paid'' (\<lambda>p. Ok (p @ ''!'')) hbus_new; b1 = snd (publish (\<lambda>_. 0) ''Paid'' ''x'' ''shop'' b)
   in map event_view (history b1) = [(''Paid'', ''x'', ''shop''), (''Paid_SUCCESS'', ''x!'', ''ledger'')] \<and>
      publish (\<lambda>_. 0) ''Paid'' ''y'' ''shop'' b1 = ([], record_event (\<lambda>_. 0) ''Paid'' ''y'' ''shop'' b1)"
proof -
  let ?b = "subscribe ''ledger'' ''Paid'' (\<lambda>p. Ok (p @ ''!'')) hbus_new"
  have "unanswered ''Paid'' ?b"
    by (simp add: unanswered_def handlers_of_def subscribe_def hbus_new_def update_conv')
  moreover have "handlers_of ''Paid'' ?b = [(''ledger'', \<lambda>p. Ok (p @ ''!''))]"
    by (simp add: handlers_of_def subscribe_def hbus_new_def)
  ultimately show ?thesis
    using publish_uses_up_subscribers [of "\<lambda>_. 0" "''Paid''" "''x''" "''shop''" ?b "\<lambda>_. 0" "''y''" "''shop''"]
    by (simp add: Let_def case_prod_unfold reply_view_def reply_of_def hbus_new_def subscribe_def)
qed

subsection \<open>The transfer choreography\<close>

record choreography_step =
  cs_service_name :: string
  cs_listens_for :: string
  cs_action :: string
  cs_emits_on_success :: string
  cs_emits_on_failure :: string
  cs_compensation :: "string option"

record choreography_definition =
  cd_name :: string
  cd_steps :: "choreography_step list"

definition build_transfer_choreography :: "handler_bus \<times> choreography_definition" where
  "build_transfer_choreography =
     (subscribe ''TransferCompleted'' ''NotificationService'' Ok
        (subscribe ''SourceDebited'' ''AccountService'' Ok
           (subscribe ''TransferRequested'' ''AccountService'' Ok hbus_new)),
      \<lparr>cd_name = ''TransferChoreography'',
       cd_steps =
         [\<lparr>cs_service_name = ''AccountService'', cs_listens_for = ''TransferRequested'',
           cs_action = ''DebitSource'', cs_emits_on_success = ''SourceDebited'',
           cs_emits_on_failure = ''TransferFailed'', cs_compensation = Some ''CreditSource''\<rparr>,
          \<lparr>cs_service_name = ''AccountService'', cs_listens_for = ''SourceDebited'',
           cs_action = ''CreditDestination'', cs_emits_on_success = ''TransferCompleted'',
           cs_emits_on_failure = ''DestinationCreditFailed'',
           cs_compensation = Some ''DebitDestination''\<rparr>,
          \<lparr>cs_service_name = ''NotificationService'', cs_listens_for = ''TransferCompleted'',
           cs_action = ''NotifyParties'', cs_emits_on_success = ''Notified'',
           cs_emits_on_failure = ''NotifyFailed'', cs_compensation = None\<rparr>]\<rparr>)"

text \<open>
  The bus is built with service and event type swapped: no step of the definition has a handler
  for the event it listens for.
\<close>

lemma choreography_listens_to_nothing:
  "s \<in> set (cd_steps (snd build_transfer_choreography)) \<Longrightarrow>
   handlers_of (cs_listens_for s) (fst build_transfer_choreography) = []"
  by (auto simp: build_transfer_choreography_def handlers_of_def subscribe_def hbus_new_def)

subsection \<open>The latency window\<close>

record latency_window =
  lw_samples :: "nat list"
  lw_max_samples :: nat
  lw_sorted :: bool

definition lw_new :: "nat \<Rightarrow> latency_window" where
  "lw_new n = \<lparr>lw_samples = [], lw_max_samples = n, lw_sorted = False\<rparr>"

text \<open>\<open>remove(0)\<close> panics on an empty vector, which a full window is when its size is zero.\<close>

definition lw_record :: "nat \<Rightarrow> latency_window \<Rightarrow> latency_window option" where
  "lw_record latency w =
     (if length (lw_samples w) \<ge> lw_max_samples w
      then (case lw_samples w of
              [] \<Rightarrow> None
            | _ # rest \<Rightarrow> Some (w\<lparr>lw_samples := rest @ [latency], lw_sorted := False\<rparr>))
      else Some (w\<lparr>lw_samples := lw_samples w @ [latency], lw_sorted := False\<rparr>))"

definition ensure_sorted :: "latency_window \<Rightarrow> latency_window" where
  "ensure_sorted w =
     (if \<not> lw_sorted w then w\<lparr>lw_samples := sort (lw_samples w), lw_sorted := True\<rparr> else w)"

definition lw_percentile :: "nat \<Rightarrow> latency_window \<Rightarrow> nat option \<times> latency_window" where
  "lw_percentile rank w =
     (if lw_samples w = [] then (None, w)
      else let w1 = ensure_sorted w
           in (Some (lw_samples w1 ! min rank (length (lw_samples w1) - 1)), w1))"

definition lw_min :: "latency_window \<Rightarrow> nat option" where
  "lw_min w = (if lw_samples w = [] then None else Some (Min (set (lw_samples w))))"

definition lw_max :: "latency_window \<Rightarrow> nat option" where
  "lw_max w = (if lw_samples w = [] then None else Some (Max (set (lw_samples w))))"

definition lw_mean :: "latency_window \<Rightarrow> nat option" where
  "lw_mean w =
     (if lw_samples w = [] then None
      else Some ((sum_list (lw_samples w) div length (lw_samples w)) mod 2 ^ 64))"

definition lw_clear :: "latency_window \<Rightarrow> latency_window" where
  "lw_clear w = w\<lparr>lw_samples := [], lw_sorted := False\<rparr>"

definition window_ok :: "latency_window \<Rightarrow> bool" where
  "window_ok w \<longleftrightarrow> length (lw_samples w) \<le> lw_max_samples w \<and> (lw_sorted w \<longrightarrow> sorted (lw_samples w))"

lemma ensure_sorted_ok:
  "window_ok w \<Longrightarrow> window_ok (ensure_sorted w) \<and> sorted (lw_samples (ensure_sorted w)) \<and>
   set (lw_samples (ensure_sorted w)) = set (lw_samples w) \<and> length (lw_samples (ensure_sorted w)) = length (lw_samples w)"
  by (auto simp: window_ok_def ensure_sorted_def)

lemma lw_record_ok:
  "window_ok w \<Longrightarrow> 0 < lw_max_samples w \<Longrightarrow> \<exists>w'. lw_record x w = Some w' \<and> window_ok w' \<and> x \<in> set (lw_samples w')"
  by (cases "lw_samples w") (auto simp: window_ok_def lw_record_def)

text \<open>A percentile is one of the samples, so it lies between the minimum and the maximum.\<close>

lemma percentile_in_range:
  assumes "window_ok w" and "lw_percentile rank w = (Some q, w')"
  shows "q \<in> set (lw_samples w) \<and> window_ok w' \<and> (\<exists>lo hi. lw_min w = Some lo \<and> lw_max w = Some hi \<and> lo \<le> q \<and> q \<le> hi)"
proof -
  have ne: "lw_samples w \<noteq> []" using assms(2) by (auto simp: lw_percentile_def)
  let ?s = "lw_samples (ensure_sorted w)"
  have "min rank (length ?s - 1) < length ?s"
    using ne ensure_sorted_ok [OF assms(1)] by (cases "lw_samples w") auto
  moreover have q: "q = ?s ! min rank (length ?s - 1)" "w' = ensure_sorted w"
    using assms(2) ne by (auto simp: lw_percentile_def Let_def)
  ultimately have "q \<in> set ?s" by simp
  then have "q \<in> set (lw_samples w)" using ensure_sorted_ok [OF assms(1)] by blast
  with q(2) ne ensure_sorted_ok [OF assms(1)] show ?thesis by (simp add: lw_min_def lw_max_def)
qed

text \<open>
  The window keeps the latest samples only as long as nobody asks: a percentile query sorts the
  samples in place, and the next sample then evicts the smallest one instead of the oldest.
\<close>

lemma query_evicts_smallest:
  assumes "window_ok w" and "length (lw_samples w) = lw_max_samples w" and "0 < lw_max_samples w"
  shows "lw_record x (snd (lw_percentile rank w)) =
    Some (w\<lparr>lw_samples := tl (sort (lw_samples w)) @ [x], lw_sorted := False\<rparr>)"
proof -
  have ne: "lw_samples w \<noteq> []" using assms(2,3) by auto
  have s: "lw_samples (ensure_sorted w) = sort (lw_samples w)"
    using assms(1) by (auto simp: ensure_sorted_def window_ok_def sorted_sort_id)
  moreover have "sort (lw_samples w) \<noteq> []" using ne by (metis length_sort length_0_conv)
  then obtain y ys where y: "sort (lw_samples w) = y # ys" by (cases "sort (lw_samples w)") auto
  moreover have "Suc (length ys) = length (lw_samples w)" using y by (metis length_Cons length_sort)
  ultimately show ?thesis
    using ne assms(2) by (auto simp: lw_percentile_def Let_def lw_record_def ensure_sorted_def split: if_splits)
qed

end
