(* ===== verification/Signing.thy ===== *)
theory Signing
  imports Hash_Chain Complex_Main
begin

section \<open>Signed transactions\<close>

text \<open>
  \<open>src/log/signing.rs\<close>: the canonical bytes of a transaction, their hash, and the signature over
  the hash. The \<open>ed25519_dalek\<close> package, the digest and the texts of amounts, instants and
  identifiers are the fields of \<open>signer\<close>; what is asked of them (a signature verifies under its
  key, keys and signatures have their sizes, the texts contain no separator and determine what
  they print) are named hypotheses of the theorems that need it. The type of amounts, the
  decimals of a package, is a parameter.
\<close>

datatype signing_status = TxCreated | TxSigned | TxVerified | TxInvalid | TxFinalized

record ('d, 'sk, 'vk) signer =
  sg_sha256 :: "u8 list \<Rightarrow> u8 list"
  sg_amount_text :: "'d \<Rightarrow> string"
  sg_rfc3339 :: "timestamp \<Rightarrow> string"
  sg_uuid_text :: "uuid \<Rightarrow> string"
  sg_sign :: "'sk \<Rightarrow> u8 list \<Rightarrow> u8 list"
  sg_from_bytes :: "u8 list \<Rightarrow> 'vk option"
  sg_as_bytes :: "'vk \<Rightarrow> u8 list"
  sg_verify :: "'vk \<Rightarrow> u8 list \<Rightarrow> u8 list \<Rightarrow> bool"

record 'd signing_tx =
  sx_sender :: string
  sx_recipient :: string
  sx_amount :: 'd
  sx_timestamp :: timestamp
  sx_correlation_id :: uuid
  sx_hash :: "u8 list"
  sx_signature :: "u8 list option"

definition canonical_bytes :: "('d, 'sk, 'vk) signer \<Rightarrow> 'd signing_tx \<Rightarrow> u8 list" where
  "canonical_bytes sg tx =
     as_bytes (sx_sender tx) @ as_bytes ''|'' @ as_bytes (sx_recipient tx) @ as_bytes ''|'' @
     as_bytes (sg_amount_text sg (sx_amount tx)) @ as_bytes ''|'' @
     as_bytes (sg_rfc3339 sg (sx_timestamp tx)) @ as_bytes ''|'' @
     as_bytes (sg_uuid_text sg (sx_correlation_id tx))"

definition tx_hash :: "('d, 'sk, 'vk) signer \<Rightarrow> 'd signing_tx \<Rightarrow> u8 list" where
  "tx_hash sg tx = sg_sha256 sg (canonical_bytes sg tx)"

definition signing_tx_new ::
  "('d, 'sk, 'vk) signer \<Rightarrow> timestamp \<Rightarrow> uuid \<Rightarrow> string \<Rightarrow> string \<Rightarrow> 'd \<Rightarrow> 'd signing_tx"
where
  "signing_tx_new sg ts cid sender recipient amount =
     (let tx = \<lparr>sx_sender = sender, sx_recipient = recipient, sx_amount = amount, sx_timestamp = ts,
                sx_correlation_id = cid, sx_hash = [], sx_signature = None\<rparr>
      in tx\<lparr>sx_hash := tx_hash sg tx\<rparr>)"

record 'd signed_tx =
  sd_transaction :: "'d signing_tx"
  sd_signature :: "u8 list"
  sd_public_key :: "u8 list"

datatype signing_error = MissingHash | InvalidPublicKey | InvalidSignature

definition sign_tx :: "('d, 'sk, 'vk) signer \<Rightarrow> 'd signing_tx \<Rightarrow> 'sk \<Rightarrow> (u8 list, signing_error) result" where
  "sign_tx sg tx sk = (if sx_hash tx = [] then Err MissingHash else Ok (sg_sign sg sk (sx_hash tx)))"

definition sign_tx_with ::
  "('d, 'sk, 'vk) signer \<Rightarrow> 'd signing_tx \<Rightarrow> 'sk \<Rightarrow> 'vk \<Rightarrow> ('d signed_tx, signing_error) result"
where
  "sign_tx_with sg tx sk vk =
     (case sign_tx sg tx sk of
        Err e \<Rightarrow> Err e
      | Ok signature \<Rightarrow>
          Ok \<lparr>sd_transaction = tx, sd_signature = signature, sd_public_key = sg_as_bytes sg vk\<rparr>)"

definition verify_tx ::
  "('d, 'sk, 'vk) signer \<Rightarrow> 'd signing_tx \<Rightarrow> u8 list \<Rightarrow> u8 list \<Rightarrow> (bool, signing_error) result"
where
  "verify_tx sg tx public_key signature =
     (if sx_hash tx = [] then Err MissingHash
      else if length public_key \<noteq> 32 then Err InvalidPublicKey
      else (case sg_from_bytes sg public_key of
              None \<Rightarrow> Err InvalidPublicKey
            | Some vk \<Rightarrow>
                if length signature \<noteq> 64 then Err InvalidSignature
                else Ok (sg_verify sg vk (sx_hash tx) signature)))"

definition verify_tamper_detection :: "('d, 'sk, 'vk) signer \<Rightarrow> 'd signing_tx \<Rightarrow> u8 list \<Rightarrow> u8 list \<Rightarrow> bool" where
  "verify_tamper_detection sg tx public_key signature =
     (if tx_hash sg tx \<noteq> sx_hash tx then False
      else (case verify_tx sg tx public_key signature of Ok r \<Rightarrow> r | Err _ \<Rightarrow> False))"

subsection \<open>What the canonical bytes determine\<close>

definition plain :: "string \<Rightarrow> bool" where
  "plain s \<longleftrightarrow> CHR ''|'' \<notin> set s"

lemma canonical_as_bytes:
  "canonical_bytes sg tx =
     as_bytes (sx_sender tx @ CHR ''|'' # sx_recipient tx @ CHR ''|'' # sg_amount_text sg (sx_amount tx) @
       CHR ''|'' # sg_rfc3339 sg (sx_timestamp tx) @ CHR ''|'' # sg_uuid_text sg (sx_correlation_id tx))"
  by (simp add: canonical_bytes_def as_bytes_def)

text \<open>Without a separator in the fields, the bytes determine the texts of all of them.\<close>

lemma canonical_bytes_inject:
  assumes "canonical_bytes sg tx = canonical_bytes sg tx'"
    and "\<And>y. y \<in> {tx, tx'} \<Longrightarrow> plain (sx_sender y) \<and> plain (sx_recipient y)"
    and "\<And>d. plain (sg_amount_text sg d)" and "\<And>t. plain (sg_rfc3339 sg t)"
  shows "sx_sender tx = sx_sender tx' \<and> sx_recipient tx = sx_recipient tx' \<and>
    sg_amount_text sg (sx_amount tx) = sg_amount_text sg (sx_amount tx') \<and>
    sg_rfc3339 sg (sx_timestamp tx) = sg_rfc3339 sg (sx_timestamp tx') \<and>
    sg_uuid_text sg (sx_correlation_id tx) = sg_uuid_text sg (sx_correlation_id tx')"
proof -
  let ?b = "CHR ''|''"
  let ?d = "\<lambda>y. sg_rfc3339 sg (sx_timestamp y) @ ?b # sg_uuid_text sg (sx_correlation_id y)"
  let ?c = "\<lambda>y. sg_amount_text sg (sx_amount y) @ ?b # ?d y"
  let ?e = "\<lambda>y. sx_recipient y @ ?b # ?c y"
  have p: "?b \<notin> set (sx_sender tx)" "?b \<notin> set (sx_sender tx')" "?b \<notin> set (sx_recipient tx)"
    "?b \<notin> set (sx_recipient tx')" "\<And>d. ?b \<notin> set (sg_amount_text sg d)" "\<And>t. ?b \<notin> set (sg_rfc3339 sg t)"
    using assms(2) [of tx] assms(2) [of tx'] assms(3,4) by (simp_all add: plain_def)
  have "sx_sender tx @ ?b # ?e tx = sx_sender tx' @ ?b # ?e tx'"
    using assms(1) unfolding canonical_as_bytes as_bytes_inject .
  from cut_at [THEN iffD1, OF p(1,2) this] have s: "sx_sender tx = sx_sender tx'" "?e tx = ?e tx'" by simp_all
  from cut_at [THEN iffD1, OF p(3,4) s(2)] have r: "sx_recipient tx = sx_recipient tx'" "?c tx = ?c tx'" by simp_all
  from cut_at [THEN iffD1, OF p(5) p(5) r(2)]
  have a: "sg_amount_text sg (sx_amount tx) = sg_amount_text sg (sx_amount tx')" "?d tx = ?d tx'" by simp_all
  from cut_at [THEN iffD1, OF p(6) p(6) a(2)] s(1) r(1) a(1) show ?thesis by simp
qed

subsection \<open>Properties\<close>

text \<open>
  What the packages document of the texts: none contains the separator; an amount can be read
  off its decimal text up to trailing zeros, so equal texts have equal values; instants print
  with all their nanoseconds and identifiers with all their digits.
\<close>

definition signing_texts :: "('d, 'sk, 'vk) signer \<Rightarrow> ('d \<Rightarrow> rat) \<Rightarrow> bool" where
  "signing_texts sg val \<longleftrightarrow>
     (\<forall>d. plain (sg_amount_text sg d)) \<and> (\<forall>t. plain (sg_rfc3339 sg t)) \<and>
     (\<forall>c d. sg_amount_text sg c = sg_amount_text sg d \<longrightarrow> val c = val d) \<and>
     inj (sg_rfc3339 sg) \<and> inj (sg_uuid_text sg)"

text \<open>
  C39. A signed transaction verifies, and a change is detected. What \<open>sign_transaction\<close> makes of a
  new transaction passes the tamper check under its key. If a record with the stored hash
  passes it with that signature, then its sender, recipient, amount (as a number), instant and
  identifier are the signed ones, or the two contents are a collision of the digest. The
  hypotheses: the names contain no separator (\<open>|\<close>), a signature verifies under its key, a key
  survives its bytes, keys have 32 bytes and signatures 64, a digest is not empty, and the texts
  are those of \<open>signing_texts\<close>.
\<close>

theorem signature_detects_tampering:
  fixes sg :: "('d, 'sk, 'vk) signer" and tx' :: "'d signing_tx"
  assumes "\<And>m. sg_verify sg vk m (sg_sign sg sk m)" and "\<And>m. length (sg_sign sg sk m) = 64"
    and "sg_from_bytes sg (sg_as_bytes sg vk) = Some vk" and "length (sg_as_bytes sg vk) = 32"
    and "\<And>m. sg_sha256 sg m \<noteq> []" and "signing_texts sg val"
    and "plain sender \<and> plain recipient" and "plain (sx_sender tx') \<and> plain (sx_recipient tx')"
  shows "\<exists>signed. sign_tx_with sg (signing_tx_new sg ts cid sender recipient amount) sk vk = Ok signed \<and>
    verify_tamper_detection sg (sd_transaction signed) (sd_public_key signed) (sd_signature signed) \<and>
    (verify_tamper_detection sg tx' (sd_public_key signed) (sd_signature signed) \<and>
     sx_hash tx' = sx_hash (sd_transaction signed) \<longrightarrow>
       sx_sender tx' = sender \<and> sx_recipient tx' = recipient \<and> val (sx_amount tx') = val amount \<and>
       sx_timestamp tx' = ts \<and> sx_correlation_id tx' = cid \<or>
       (canonical_bytes sg tx' \<noteq> canonical_bytes sg (sd_transaction signed) \<and>
        sg_sha256 sg (canonical_bytes sg tx') = sg_sha256 sg (canonical_bytes sg (sd_transaction signed))))"
proof -
  let ?tx = "signing_tx_new sg ts cid sender recipient amount"
  have f: "sx_sender ?tx = sender" "sx_recipient ?tx = recipient" "sx_amount ?tx = amount"
    "sx_timestamp ?tx = ts" "sx_correlation_id ?tx = cid" by (simp_all add: signing_tx_new_def Let_def)
  have h: "sx_hash ?tx = tx_hash sg ?tx"
    by (simp add: signing_tx_new_def Let_def tx_hash_def canonical_bytes_def)
  then have ne: "sx_hash ?tx \<noteq> []" using assms(5) by (simp add: tx_hash_def)
  let ?signed = "\<lparr>sd_transaction = ?tx, sd_signature = sg_sign sg sk (sx_hash ?tx), sd_public_key = sg_as_bytes sg vk\<rparr>"
  have made: "sign_tx_with sg ?tx sk vk = Ok ?signed" using ne by (simp add: sign_tx_with_def sign_tx_def)
  have passes: "verify_tamper_detection sg ?tx (sg_as_bytes sg vk) (sg_sign sg sk (sx_hash ?tx))"
    using h ne assms(1-4) by (simp add: verify_tamper_detection_def verify_tx_def)
  have pl: "plain (sx_sender y) \<and> plain (sx_recipient y)" if "y \<in> {tx', ?tx}" for y
    using that assms(7,8) f by auto
  have no_bar: "plain (sg_amount_text sg d)" "plain (sg_rfc3339 sg t)" for d t
    using assms(6) by (simp_all add: signing_texts_def)
  have same: "sx_sender tx' = sender \<and> sx_recipient tx' = recipient \<and> val (sx_amount tx') = val amount \<and>
      sx_timestamp tx' = ts \<and> sx_correlation_id tx' = cid" if "canonical_bytes sg tx' = canonical_bytes sg ?tx"
  proof -
    note t = canonical_bytes_inject [OF that pl no_bar, unfolded f]
    have "val (sx_amount tx') = val amount" using t assms(6) unfolding signing_texts_def by blast
    moreover have "sx_timestamp tx' = ts" "sx_correlation_id tx' = cid"
      using t assms(6) unfolding signing_texts_def by (simp_all add: inj_eq)
    ultimately show ?thesis using t by simp
  qed
  have "sg_sha256 sg (canonical_bytes sg tx') = sg_sha256 sg (canonical_bytes sg ?tx)"
    if "verify_tamper_detection sg tx' pk sig" "sx_hash tx' = sx_hash ?tx" for pk sig
    using that h by (auto simp: verify_tamper_detection_def tx_hash_def split: if_splits)
  then have det: "verify_tamper_detection sg tx' (sg_as_bytes sg vk) (sg_sign sg sk (sx_hash ?tx)) \<and> sx_hash tx' = sx_hash ?tx \<longrightarrow>
       sx_sender tx' = sender \<and> sx_recipient tx' = recipient \<and> val (sx_amount tx') = val amount \<and>
       sx_timestamp tx' = ts \<and> sx_correlation_id tx' = cid \<or>
       canonical_bytes sg tx' \<noteq> canonical_bytes sg ?tx \<and>
        sg_sha256 sg (canonical_bytes sg tx') = sg_sha256 sg (canonical_bytes sg ?tx)" using same by blast
  from made passes det show ?thesis by (intro exI [of _ ?signed]) simp
qed

text \<open>
  A package that meets the hypotheses: whole amounts, and texts that print the numbers. Under it
  a recipient, an amount, an instant or an identifier that is replaced after signing is detected.
\<close>

definition demo_signer :: "(nat, unit, unit) signer" where
  "demo_signer =
     \<lparr>sg_sha256 = (\<lambda>m. 0 # m), sg_amount_text = (\<lambda>n. show_nat n @ ''.00''),
      sg_rfc3339 = (\<lambda>t. if t < 0 then CHR ''-'' # show_nat (nat (- t)) else CHR ''+'' # show_nat (nat t)),
      sg_uuid_text = (\<lambda>u. show_nat (unat u)), sg_sign = (\<lambda>_ _. replicate 64 0), sg_from_bytes = (\<lambda>_. Some ()),
      sg_as_bytes = (\<lambda>_. replicate 32 0), sg_verify = (\<lambda>_ _ _. True)\<rparr>"

lemma plain_show_nat: "plain (show_nat n)"
  using show_nat_chars [of "CHR ''|''" n] by (auto simp: plain_def)

lemma demo_signer_texts: "signing_texts demo_signer of_nat"
  using plain_show_nat by (auto simp: signing_texts_def demo_signer_def plain_def inj_def unsigned_word_eqI split: if_splits)

theorem signature_detects_tampering_witness:
  "\<exists>signed. sign_tx_with demo_signer (signing_tx_new demo_signer 5 7 ''alice'' ''bob'' 100) () () = Ok signed \<and>
     verify_tamper_detection demo_signer (sd_transaction signed) (sd_public_key signed) (sd_signature signed) \<and>
     \<not> verify_tamper_detection demo_signer ((sd_transaction signed)\<lparr>sx_amount := 1000000\<rparr>)
         (sd_public_key signed) (sd_signature signed)"
proof -
  let ?tx = "signing_tx_new demo_signer 5 7 ''alice'' ''bob'' 100"
  let ?bad = "?tx\<lparr>sx_amount := 1000000\<rparr>"
  have bad: "sx_sender ?bad = ''alice''" "sx_recipient ?bad = ''bob''" "sx_amount ?bad = 1000000"
    by (simp_all add: signing_tx_new_def Let_def)
  have names: "plain ''alice''" "plain ''bob''" by (simp_all add: plain_def)
  have pkg: "sg_sha256 demo_signer m = 0 # m" "sg_verify demo_signer () m n" "length (sg_sign demo_signer () m) = 64"
    "length (sg_as_bytes demo_signer ()) = 32" "sg_from_bytes demo_signer n = Some ()" for m n
    by (simp_all add: demo_signer_def)
  obtain signed where signed: "sign_tx_with demo_signer ?tx () () = Ok signed"
    "verify_tamper_detection demo_signer (sd_transaction signed) (sd_public_key signed) (sd_signature signed)"
    "verify_tamper_detection demo_signer ?bad (sd_public_key signed) (sd_signature signed) \<and>
       sx_hash ?bad = sx_hash (sd_transaction signed) \<Longrightarrow> (of_nat 1000000 :: rat) = of_nat 100"
    using signature_detects_tampering [OF pkg(2,3,5,4) _ demo_signer_texts, of "''alice''" "''bob''" ?bad 5 7 100]
    unfolding pkg(1) bad using names by auto
  then have "sd_transaction signed = ?tx" by (auto simp: sign_tx_with_def split: sum.splits)
  with signed show ?thesis by auto
qed

text \<open>
  The separator is ambiguous. Shifting a separator between sender and recipient changes who
  pays whom and leaves the canonical bytes as they are: a signature for ``a'' to ``b|c'' is one
  for ``a|b'' to ``c'', and the tamper check cannot tell them apart.
\<close>

theorem separator_shift_undetected:
  "verify_tamper_detection sg (tx\<lparr>sx_sender := a @ ''|'' @ b, sx_recipient := c\<rparr>) pk sig =
     verify_tamper_detection sg (tx\<lparr>sx_sender := a, sx_recipient := b @ ''|'' @ c\<rparr>) pk sig \<and>
   signing_tx_new sg ts cid (a @ ''|'' @ b) c amount =
     (signing_tx_new sg ts cid a (b @ ''|'' @ c) amount)\<lparr>sx_sender := a @ ''|'' @ b, sx_recipient := c\<rparr>"
proof -
  have same: "canonical_bytes sg (y\<lparr>sx_sender := a @ ''|'' @ b, sx_recipient := c\<rparr>) =
      canonical_bytes sg (y\<lparr>sx_sender := a, sx_recipient := b @ ''|'' @ c\<rparr>)" for y
    by (simp add: canonical_bytes_def as_bytes_def)
  then have "verify_tamper_detection sg (tx\<lparr>sx_sender := a @ ''|'' @ b, sx_recipient := c\<rparr>) pk sig =
     verify_tamper_detection sg (tx\<lparr>sx_sender := a, sx_recipient := b @ ''|'' @ c\<rparr>) pk sig"
    by (simp add: verify_tamper_detection_def tx_hash_def verify_tx_def split: option.split)
  moreover have "signing_tx_new sg ts cid (a @ ''|'' @ b) c amount =
      (signing_tx_new sg ts cid a (b @ ''|'' @ c) amount)\<lparr>sx_sender := a @ ''|'' @ b, sx_recipient := c\<rparr>"
    by (simp add: signing_tx_new_def Let_def tx_hash_def canonical_bytes_def as_bytes_def)
  ultimately show ?thesis by blast
qed

end
