(* ===== verification/Monitors.thy ===== *)
theory Monitors
  imports Ledger_Prelude
begin

section \<open>Condition variables: the blocking transfer account and the transfer queue\<close>

text \<open>
  \<open>TransferCondition\<close> and \<open>FairTransferQueue\<close> of \<open>src/service/concurrency.rs\<close>: data behind a
  \<open>Mutex\<close> with a \<open>Condvar\<close>. A call holds the mutex from \<open>lock\<close> to its return or to
  \<open>Condvar::wait\<close>, so one step of the system is one critical section of one thread:
  \<^item> \<open>critical\<close> says how a critical section ends: it blocks in \<open>wait\<close>, returns (with the new
    data and the notification it sent), or panics, which poisons the mutex;
  \<^item> \<open>run_step\<close> runs the section of a thread that enters or was woken, and \<open>spurious_step\<close>
    wakes a sleeping thread for no reason, as the documentation of \<open>Condvar\<close> allows;
  \<^item> the log of the calls that returned is kept to state what has happened; no step reads it.
  The locale \<open>broadcast_monitor\<close> is the contract under which no wake-up is lost; the blocking
  account meets it as long as credits use \<open>notify_all\<close>.
\<close>

datatype notification = NotifyNobody | NotifyOne | NotifyAll

datatype ('s, 'r) critical = Block | Return 's 'r notification | Panic

datatype 'r mpc = Entering | Waiting | Woken | Returned 'r | Panicked

record ('s, 'c, 'r) monitor =
  mn_data :: 's
  mn_poisoned :: bool
  mn_threads :: "('c \<times> 'r mpc) list"
  mn_log :: "('c \<times> 'r) list"

definition monitor_new :: "'s \<Rightarrow> 'c list \<Rightarrow> ('s, 'c, 'r) monitor" where
  "monitor_new s cs = \<lparr>mn_data = s, mn_poisoned = False, mn_threads = map (\<lambda>c. (c, Entering)) cs, mn_log = []\<rparr>"

definition wake :: "'c \<times> 'r mpc \<Rightarrow> 'c \<times> 'r mpc" where
  "wake t = (if snd t = Waiting then (fst t, Woken) else t)"

inductive notifies :: "notification \<Rightarrow> ('c \<times> 'r mpc) list \<Rightarrow> ('c \<times> 'r mpc) list \<Rightarrow> bool" where
  notify_nobody: "notifies NotifyNobody ts ts"
| notify_all: "notifies NotifyAll ts (map wake ts)"
| notify_one: "j < length ts \<Longrightarrow> snd (ts ! j) = Waiting \<Longrightarrow> notifies NotifyOne ts (ts[j := wake (ts ! j)])"
| notify_none: "Waiting \<notin> snd ` set ts \<Longrightarrow> notifies NotifyOne ts ts"

lemma notifies_total: "\<exists>ts'. notifies n ts ts'"
proof (cases n)
  case NotifyOne
  show ?thesis
  proof (cases "Waiting \<in> snd ` set ts")
    case True
    then obtain j where "j < length ts" "snd (ts ! j) = Waiting" by (auto simp: in_set_conv_nth)
    then show ?thesis using NotifyOne notify_one by blast
  next
    case False
    then show ?thesis using NotifyOne notify_none by blast
  qed
qed (auto intro: notifies.intros)

inductive run_step ::
  "('c \<Rightarrow> 's \<Rightarrow> ('s, 'r) critical) \<Rightarrow> ('s, 'c, 'r) monitor \<Rightarrow> ('s, 'c, 'r) monitor \<Rightarrow> bool"
  for body where
  step_poisoned:
    "i < length (mn_threads M) \<Longrightarrow> mn_threads M ! i = (c, p) \<Longrightarrow> p = Entering \<or> p = Woken \<Longrightarrow>
     mn_poisoned M \<Longrightarrow> run_step body M (M\<lparr>mn_threads := (mn_threads M)[i := (c, Panicked)]\<rparr>)"
| step_block:
    "i < length (mn_threads M) \<Longrightarrow> mn_threads M ! i = (c, p) \<Longrightarrow> p = Entering \<or> p = Woken \<Longrightarrow>
     \<not> mn_poisoned M \<Longrightarrow> body c (mn_data M) = Block \<Longrightarrow>
     run_step body M (M\<lparr>mn_threads := (mn_threads M)[i := (c, Waiting)]\<rparr>)"
| step_panic:
    "i < length (mn_threads M) \<Longrightarrow> mn_threads M ! i = (c, p) \<Longrightarrow> p = Entering \<or> p = Woken \<Longrightarrow>
     \<not> mn_poisoned M \<Longrightarrow> body c (mn_data M) = Panic \<Longrightarrow>
     run_step body M (M\<lparr>mn_poisoned := True, mn_threads := (mn_threads M)[i := (c, Panicked)]\<rparr>)"
| step_return:
    "i < length (mn_threads M) \<Longrightarrow> mn_threads M ! i = (c, p) \<Longrightarrow> p = Entering \<or> p = Woken \<Longrightarrow>
     \<not> mn_poisoned M \<Longrightarrow> body c (mn_data M) = Return s r n \<Longrightarrow>
     notifies n ((mn_threads M)[i := (c, Returned r)]) ts \<Longrightarrow>
     run_step body M (M\<lparr>mn_data := s, mn_threads := ts, mn_log := mn_log M @ [(c, r)]\<rparr>)"

inductive spurious_step :: "('s, 'c, 'r) monitor \<Rightarrow> ('s, 'c, 'r) monitor \<Rightarrow> bool" where
  "i < length (mn_threads M) \<Longrightarrow> snd (mn_threads M ! i) = Waiting \<Longrightarrow>
   spurious_step M (M\<lparr>mn_threads := (mn_threads M)[i := wake (mn_threads M ! i)]\<rparr>)"

definition mon_step ::
  "('c \<Rightarrow> 's \<Rightarrow> ('s, 'r) critical) \<Rightarrow> ('s, 'c, 'r) monitor \<Rightarrow> ('s, 'c, 'r) monitor \<Rightarrow> bool"
where
  "mon_step body M M' \<longleftrightarrow> run_step body M M' \<or> spurious_step M M'"

subsection \<open>\<open>TransferCondition\<close>\<close>

datatype tc_call = WaitAndDebit i64 | CreditAndNotify i64 | CreditAndNotifyOne i64

fun tc_body :: "tc_call \<Rightarrow> i64 \<Rightarrow> (i64, i64) critical" where
  "tc_body (WaitAndDebit amount) bal =
     (if sint bal < sint amount then Block else Return (bal - amount) (bal - amount) NotifyNobody)"
| "tc_body (CreditAndNotify amount) bal =
     (case checked_add_i64 bal amount of None \<Rightarrow> Panic | Some b \<Rightarrow> Return b b NotifyAll)"
| "tc_body (CreditAndNotifyOne amount) bal =
     (case checked_add_i64 bal amount of None \<Rightarrow> Panic | Some b \<Rightarrow> Return b b NotifyOne)"

subsection \<open>\<open>FairTransferQueue\<close>\<close>

record queued_request =
  qr_from_account :: uuid
  qr_to_account :: uuid
  qr_amount_cents :: i64

datatype fq_call = Enqueue queued_request | DequeueWait

fun fq_body :: "fq_call \<Rightarrow> queued_request list \<Rightarrow> (queued_request list, queued_request option) critical" where
  "fq_body (Enqueue request) q = Return (q @ [request]) None NotifyOne"
| "fq_body DequeueWait [] = Block"
| "fq_body DequeueWait (request # q) = Return q (Some request) NotifyNobody"

subsection \<open>Every run ends\<close>

definition unfinished :: "('c \<times> 'r mpc) list \<Rightarrow> nat" where
  "unfinished ts = length (filter (\<lambda>t. snd t \<in> {Entering, Waiting, Woken}) ts)"

definition runnable :: "('c \<times> 'r mpc) list \<Rightarrow> nat" where
  "runnable ts = length (filter (\<lambda>t. snd t \<in> {Entering, Woken}) ts)"

text \<open>What waking does not change, notifying does not change.\<close>

lemma map_notifies: "notifies n ts ts' \<Longrightarrow> (\<And>t. f (wake t) = f t) \<Longrightarrow> map f ts' = map f ts"
  by (induction rule: notifies.induct) (simp_all add: map_update list_update_same_conv)

lemma notifies_unfinished:
  assumes "notifies n ts ts'"
  shows "unfinished ts' = unfinished ts"
proof -
  let ?f = "\<lambda>t. snd t \<in> {Entering, Waiting, Woken}"
  have "map ?f ts' = map ?f ts" using assms by (rule map_notifies) (simp add: wake_def)
  then have "filter id (map ?f ts') = filter id (map ?f ts)" by (rule arg_cong)
  then show ?thesis
    unfolding unfinished_def filter_map comp_def id_def by (metis (no_types) length_map)
qed

lemma unfinished_update:
  assumes "i < length ts" and "ts ! i = (c, p)" and "p = Entering \<or> p = Woken"
  shows "unfinished (ts[i := (c, Waiting)]) = unfinished ts"
    and "q = Panicked \<or> q = Returned r \<Longrightarrow> unfinished (ts[i := (c, q)]) < unfinished ts"
    and "runnable (ts[i := (c, Waiting)]) < runnable ts"
  using assms length_filter_update [OF assms(1), of "\<lambda>t. snd t \<in> {Entering, Waiting, Woken}" "(c, Waiting)"]
    length_filter_update [OF assms(1), of "\<lambda>t. snd t \<in> {Entering, Waiting, Woken}" "(c, q)"]
    length_filter_update [OF assms(1), of "\<lambda>t. snd t \<in> {Entering, Woken}" "(c, Waiting)"]
  by (auto simp: unfinished_def runnable_def)

lemma run_step_decreases:
  "run_step body M M' \<Longrightarrow> (mn_threads M', mn_threads M) \<in> measures [unfinished, runnable]"
proof (induction rule: run_step.induct)
  case (step_poisoned i M c p)
  then show ?case using unfinished_update(2) [OF step_poisoned(1-3), of Panicked] by simp
next
  case (step_block i M c p)
  then show ?case using unfinished_update(1,3) [OF step_block(1-3)] by simp
next
  case (step_panic i M c p)
  then show ?case using unfinished_update(2) [OF step_panic(1-3), of Panicked] by simp
next
  case (step_return i M c p s r n ts)
  then show ?case
    using notifies_unfinished [OF step_return(6)] unfinished_update(2) [OF step_return(1-3), of "Returned r" r] by simp
qed

lemma run_step_wf: "wf {(M', M). run_step body M M'}"
  by (rule wf_subset [OF wf_inv_image [OF wf_measures, of "[unfinished, runnable]" mn_threads]])
    (auto dest: run_step_decreases simp del: in_measures)

text \<open>From every state some run of critical sections ends, and no run is infinite.\<close>

lemma quiescence_reached: "\<exists>N. (run_step body)\<^sup>*\<^sup>* M N \<and> \<not> (\<exists>N'. run_step body N N')"
proof (induction M rule: wf_induct_rule [OF run_step_wf [of body]])
  case (1 M)
  show ?case
  proof (cases "\<exists>M'. run_step body M M'")
    case True
    then obtain M' where "run_step body M M'" ..
    with 1 [of M'] show ?thesis by (auto intro: converse_rtranclp_into_rtranclp)
  qed auto
qed

subsection \<open>Sleepers\<close>

lemma set_notifies:
  assumes "notifies n ts ts'"
  shows "set ts' \<subseteq> set ts \<union> wake ` set ts"
  using assms by cases (auto dest!: set_update_subset_insert [THEN subsetD] nth_mem)

text \<open>
  \<open>threads_from\<close>: the threads are the calls \<open>monitor_new\<close> was given, in order, and a thread
  panics only when the mutex is poisoned.
\<close>

definition threads_from :: "'c list \<Rightarrow> ('s, 'c, 'r) monitor \<Rightarrow> bool" where
  "threads_from cs M \<longleftrightarrow> map fst (mn_threads M) = cs \<and> (\<forall>c. (c, Panicked) \<in> set (mn_threads M) \<longrightarrow> mn_poisoned M)"

lemma map_fst_notifies: "notifies n ts ts' \<Longrightarrow> map fst ts' = map fst ts"
  by (rule map_notifies) (simp_all add: wake_def)

lemma map_fst_step: "mon_step body M M' \<Longrightarrow> map fst (mn_threads M') = map fst (mn_threads M)"
  unfolding mon_step_def
  by (auto elim!: run_step.cases spurious_step.cases dest!: map_fst_notifies
      simp: map_update list_update_same_conv wake_def)

text \<open>Where the threads of the next state come from.\<close>

lemma in_update: "x \<in> set (ts[i := y]) \<Longrightarrow> x = y \<or> x \<in> set ts"
  using set_update_subset_insert by fastforce

lemma in_wake_update:
  assumes "j < length ts" and "snd (ts ! j) = Waiting" and "(c, q) \<in> set (ts[j := wake (ts ! j)])"
  shows "(c, q) \<in> set ts \<or> q = Woken \<and> (c, Waiting) \<in> set ts"
proof -
  have "(fst (ts ! j), Waiting) \<in> set ts" using assms(1,2) nth_mem [of j ts] by (cases "ts ! j") simp
  then show ?thesis using assms(2) in_update [OF assms(3)] by (auto simp: wake_def)
qed

lemma in_notifies:
  assumes "notifies n ts ts'" and "(c, q) \<in> set ts'"
  shows "(c, q) \<in> set ts \<and> (q = Waiting \<longrightarrow> n \<noteq> NotifyAll) \<or> q = Woken \<and> (c, Waiting) \<in> set ts"
  using assms
proof cases
  case notify_all
  then show ?thesis using assms(2) by (auto simp: wake_def split: if_splits)
next
  case (notify_one j)
  then show ?thesis using in_wake_update [of j ts c q] assms(2) by auto
qed (use assms(2) in auto)

lemma run_step_thread:
  assumes "run_step body M M'" and "(c, q) \<in> set (mn_threads M')"
  shows "(c, q) \<in> set (mn_threads M) \<and>
      (mn_data M' = mn_data M \<or>
       (\<exists>d r n. d \<in> fst ` set (mn_threads M) \<and> body d (mn_data M) = Return (mn_data M') r n \<and>
          (q = Waiting \<longrightarrow> n \<noteq> NotifyAll))) \<or>
    q = Woken \<and> (c, Waiting) \<in> set (mn_threads M) \<or>
    q = Waiting \<and> body c (mn_data M) = Block \<and> mn_data M' = mn_data M \<or>
    q = Panicked \<and> mn_poisoned M' \<or> (\<exists>r. q = Returned r)"
  using assms
proof cases
  case (step_return i d p s r n ts)
  have d: "d \<in> fst ` set (mn_threads M)" using step_return(2,3) nth_mem by (metis fst_conv imageI)
  from in_notifies [OF step_return(7)] assms(2) step_return(1)
  have "(c, q) \<in> set ((mn_threads M)[i := (d, Returned r)]) \<and> (q = Waiting \<longrightarrow> n \<noteq> NotifyAll) \<or>
      q = Woken \<and> (c, Waiting) \<in> set ((mn_threads M)[i := (d, Returned r)])" by simp
  then show ?thesis using d step_return(1,6) by (auto dest!: in_update)
qed (use assms(2) in \<open>auto dest!: in_update\<close>)

lemma spurious_step_thread:
  assumes "spurious_step M M'" and "(c, q) \<in> set (mn_threads M')"
  shows "mn_data M' = mn_data M \<and> mn_poisoned M' = mn_poisoned M \<and> mn_log M' = mn_log M \<and>
    ((c, q) \<in> set (mn_threads M) \<or> q = Woken \<and> (c, Waiting) \<in> set (mn_threads M))"
  using assms
proof cases
  case (1 i)
  then show ?thesis using in_wake_update [of i "mn_threads M" c q] assms(2) by simp
qed

lemma poisoned_stays: "mon_step body M M' \<Longrightarrow> mn_poisoned M \<Longrightarrow> mn_poisoned M'"
  by (auto simp: mon_step_def elim: run_step.cases spurious_step.cases)

lemma threads_from_step:
  assumes "threads_from cs M" and "mon_step body M M'"
  shows "threads_from cs M'"
proof -
  have "mn_poisoned M'" if "(c, Panicked) \<in> set (mn_threads M')" for c
    using assms that run_step_thread [of body M M' c Panicked] spurious_step_thread [of M M' c Panicked]
      poisoned_stays [OF assms(2)] unfolding threads_from_def mon_step_def by blast
  then show ?thesis using assms map_fst_step [OF assms(2)] by (auto simp: threads_from_def)
qed

lemma threads_from_reach: "(mon_step body)\<^sup>*\<^sup>* (monitor_new s cs) M \<Longrightarrow> threads_from cs M"
proof (induction rule: rtranclp_induct)
  case base
  show ?case by (auto simp: threads_from_def monitor_new_def comp_def)
next
  case (step M M')
  then show ?case by (blast intro: threads_from_step)
qed

lemma threads_from_calls: "(mon_step body)\<^sup>*\<^sup>* (monitor_new s cs) M \<Longrightarrow> fst ` set (mn_threads M) = set cs"
  using threads_from_reach [of body s cs M] unfolding threads_from_def by (metis set_map)

lemma run_steps_reach: "(run_step body)\<^sup>*\<^sup>* M N \<Longrightarrow> (mon_step body)\<^sup>*\<^sup>* M N"
  using mono_rtranclp [of "run_step body" "mon_step body"] by (auto simp: mon_step_def)

text \<open>When nothing can run, every call has returned, panicked, or sleeps.\<close>

lemma quiescent_threads:
  assumes "\<not> (\<exists>N'. run_step body N N')" and "(c, q) \<in> set (mn_threads N)"
  shows "(\<exists>r. q = Returned r) \<or> q = Panicked \<or> q = Waiting"
proof (rule ccontr)
  assume "\<not> ?thesis"
  then have q: "q = Entering \<or> q = Woken" by (cases q) auto
  obtain i where i: "i < length (mn_threads N)" "mn_threads N ! i = (c, q)"
    using assms(2) by (metis in_set_conv_nth)
  show False
  proof (cases "mn_poisoned N")
    case True
    with i q assms(1) show False using step_poisoned by metis
  next
    case False
    note live = i q False
    show False
    proof (cases "body c (mn_data N)")
      case Block
      with live assms(1) show False using step_block by metis
    next
      case (Return s r n)
      obtain ts where "notifies n ((mn_threads N)[i := (c, Returned r)]) ts" using notifies_total by blast
      with live Return assms(1) show False using step_return by metis
    next
      case Panic
      with live assms(1) show False using step_panic by metis
    qed
  qed
qed

subsection \<open>The contract of a broadcast\<close>

text \<open>
  A monitor in which every section that lets a sleeping call continue notifies all. Then no
  wake-up is lost: a sleeping call could not continue. Calls outside \<open>calls\<close> are not promised
  anything.
\<close>

locale broadcast_monitor =
  fixes body :: "'c \<Rightarrow> 's \<Rightarrow> ('s, 'r) critical" and calls :: "'c \<Rightarrow> bool"
  assumes broadcast: "calls c \<Longrightarrow> calls d \<Longrightarrow> body d s = Return s' r n \<Longrightarrow> body c s = Block \<Longrightarrow>
    body c s' \<noteq> Block \<Longrightarrow> n = NotifyAll"
begin

lemma sleepers_blocked_step:
  assumes "mon_step body M M'" and "\<And>c. c \<in> fst ` set (mn_threads M) \<Longrightarrow> calls c"
    and "\<And>c. (c, Waiting) \<in> set (mn_threads M) \<Longrightarrow> body c (mn_data M) = Block"
    and "(c, Waiting) \<in> set (mn_threads M')"
  shows "body c (mn_data M') = Block"
proof (cases "run_step body M M'")
  case True
  have "calls c" if "(c, Waiting) \<in> set (mn_threads M)" using assms(2) that by force
  with run_step_thread [OF True assms(4)] assms(2) assms(3) [of c] broadcast [of c _ "mn_data M" "mn_data M'"]
  show ?thesis by auto
next
  case False
  then have "spurious_step M M'" using assms(1) by (simp add: mon_step_def)
  from spurious_step_thread [OF this assms(4)] assms(3) show ?thesis by auto
qed

lemma sleepers_blocked:
  assumes "(mon_step body)\<^sup>*\<^sup>* (monitor_new s cs) M" and "\<And>c. c \<in> set cs \<Longrightarrow> calls c"
    and "(c, Waiting) \<in> set (mn_threads M)"
  shows "body c (mn_data M) = Block"
  using assms(1,3)
proof (induction arbitrary: c rule: rtranclp_induct)
  case base
  then show ?case by (auto simp: monitor_new_def)
next
  case (step M M')
  have "calls d" if "d \<in> fst ` set (mn_threads M)" for d
    using assms(2) [of d] that threads_from_calls [OF step.hyps(1)] by simp
  then show ?case using sleepers_blocked_step [OF step.hyps(2) _ step.IH step.prems] by blast
qed

lemma quiescent_calls:
  assumes "(mon_step body)\<^sup>*\<^sup>* (monitor_new s cs) M" and "\<And>c. c \<in> set cs \<Longrightarrow> calls c"
    and "\<not> (\<exists>N'. run_step body M N')" and "(c, q) \<in> set (mn_threads M)"
  shows "(\<exists>r. q = Returned r) \<or> mn_poisoned M \<and> q = Panicked \<or> q = Waiting \<and> body c (mn_data M) = Block"
  using quiescent_threads [OF assms(3,4)] sleepers_blocked [OF assms(1,2)] assms(4)
    threads_from_reach [OF assms(1)] by (auto simp: threads_from_def)

end

subsection \<open>The blocking account\<close>

text \<open>The calls for which the account keeps the contract: credits that notify all, and debits of no negative amount.\<close>

fun tc_broadcasts :: "tc_call \<Rightarrow> bool" where
  "tc_broadcasts (WaitAndDebit amount) = (0 \<le> sint amount)"
| "tc_broadcasts (CreditAndNotify amount) = True"
| "tc_broadcasts (CreditAndNotifyOne amount) = False"

lemma sint_debit:
  fixes bal amount :: i64
  assumes "sint amount \<le> sint bal" and "0 \<le> sint amount"
  shows "sint (bal - amount) = sint bal - sint amount"
  using assms sint_i64_upper [of bal] by (intro sint_sub_i64) (simp add: i64_simps)

lemma tc_body_Block: "tc_body c bal = Block \<longleftrightarrow> (\<exists>n. c = WaitAndDebit n \<and> sint bal < sint n)"
  by (cases c) (auto split: option.splits)

interpretation tc: broadcast_monitor tc_body tc_broadcasts
proof
  fix c d s s' r n
  assume c: "tc_broadcasts c" "tc_broadcasts d" "tc_body d s = Return s' r n" "tc_body c s = Block" "tc_body c s' \<noteq> Block"
  then show "n = NotifyAll" by (cases d) (auto simp: tc_body_Block sint_debit split: if_splits option.splits)
qed

text \<open>What a call that returned did to the balance.\<close>

fun tc_effect :: "tc_call \<Rightarrow> int" where
  "tc_effect (WaitAndDebit amount) = - sint amount"
| "tc_effect (CreditAndNotify amount) = sint amount"
| "tc_effect (CreditAndNotifyOne amount) = sint amount"

fun tc_settled :: "tc_call \<times> i64 mpc \<Rightarrow> int" where
  "tc_settled (c, Returned r) = tc_effect c"
| "tc_settled (c, p) = 0"

lemma tc_body_effect:
  "tc_broadcasts c \<Longrightarrow> tc_body c bal = Return bal' r n \<Longrightarrow> sint bal' = sint bal + tc_effect c"
  by (cases c) (auto simp: sint_debit checked_add_i64_Some sint_add_i64 split: if_splits option.splits)

lemma tc_settled_wake: "tc_settled (wake t) = tc_settled t"
  by (cases t; cases "snd t") (auto simp: wake_def)

lemma tc_balance_step:
  assumes "mon_step tc_body M M'" and "\<And>c. c \<in> fst ` set (mn_threads M) \<Longrightarrow> tc_broadcasts c"
  shows "sint (mn_data M') - sum_list (map tc_settled (mn_threads M')) =
    sint (mn_data M) - sum_list (map tc_settled (mn_threads M))"
proof (cases "run_step tc_body M M'")
  case True
  then show ?thesis
  proof cases
    case (step_return i c p s r n ts)
    have "tc_broadcasts c" using assms(2) step_return(2,3) nth_mem by (metis fst_conv imageI)
    then have "sint s = sint (mn_data M) + tc_effect c" using tc_body_effect step_return(6) by blast
    moreover have "tc_settled (c, p) = 0" using step_return(4) by auto
    ultimately show ?thesis
      using step_return(1-3) map_notifies [OF step_return(7), of tc_settled, OF tc_settled_wake] sum_list_map_update [of i "mn_threads M" tc_settled]
      by simp
  qed (auto simp: sum_list_map_update)
next
  case False
  then have "spurious_step M M'" using assms(1) by (simp add: mon_step_def)
  then show ?thesis by cases (simp add: sum_list_map_update tc_settled_wake)
qed

lemma tc_balance:
  assumes "(mon_step tc_body)\<^sup>*\<^sup>* (monitor_new b cs) M" and "\<And>c. c \<in> set cs \<Longrightarrow> tc_broadcasts c"
  shows "sint (mn_data M) = sint b + sum_list (map tc_settled (mn_threads M))"
  using assms(1)
proof (induction rule: rtranclp_induct)
  case base
  show ?case by (induction cs) (simp_all add: monitor_new_def)
next
  case (step M M')
  have "tc_broadcasts d" if "d \<in> fst ` set (mn_threads M)" for d
    using assms(2) [of d] that threads_from_calls [OF step.hyps(1)] by simp
  then show ?case using tc_balance_step [OF step.hyps(2)] step.IH by simp
qed

text \<open>
  C31. Blocked debits get their money. Take any calls that wait and debit (amounts not negative)
  and that credit with \<open>notify_all\<close>, in any interleaving, spurious wake-ups included. From
  every state that is reached, running critical sections comes to an end, and whenever it has
  ended, the balance is the initial balance plus the credits less the debits that returned, and
  every call has returned, except debits of more than the balance, which sleep (and calls that
  panicked, once an overflowing credit has poisoned the mutex). No wake-up is lost.
\<close>

theorem blocked_debits_return:
  assumes "(mon_step tc_body)\<^sup>*\<^sup>* (monitor_new b cs) M" and "\<And>c. c \<in> set cs \<Longrightarrow> tc_broadcasts c"
  shows "wf {(N', N). run_step tc_body N N'} \<and>
    (\<exists>N. (run_step tc_body)\<^sup>*\<^sup>* M N \<and> \<not> (\<exists>N'. run_step tc_body N N')) \<and>
    (\<forall>N. (run_step tc_body)\<^sup>*\<^sup>* M N \<and> \<not> (\<exists>N'. run_step tc_body N N') \<longrightarrow>
       map fst (mn_threads N) = cs \<and>
       sint (mn_data N) = sint b + sum_list (map tc_settled (mn_threads N)) \<and>
       (\<forall>(c, q) \<in> set (mn_threads N). (\<exists>r. q = Returned r) \<or> mn_poisoned N \<and> q = Panicked \<or>
          q = Waiting \<and> (\<exists>n. c = WaitAndDebit n \<and> sint (mn_data N) < sint n)))"
proof -
  have *: "map fst (mn_threads N) = cs \<and> sint (mn_data N) = sint b + sum_list (map tc_settled (mn_threads N)) \<and>
     (\<forall>(c, q) \<in> set (mn_threads N). (\<exists>r. q = Returned r) \<or> mn_poisoned N \<and> q = Panicked \<or>
          q = Waiting \<and> (\<exists>n. c = WaitAndDebit n \<and> sint (mn_data N) < sint n))"
    if steps: "(run_step tc_body)\<^sup>*\<^sup>* M N" and quiet: "\<not> (\<exists>N'. run_step tc_body N N')" for N
  proof (intro conjI ballI)
    have N: "(mon_step tc_body)\<^sup>*\<^sup>* (monitor_new b cs) N"
      using assms(1) run_steps_reach [OF steps] by simp
    show "map fst (mn_threads N) = cs" using threads_from_reach [OF N] by (simp add: threads_from_def)
    show "sint (mn_data N) = sint b + sum_list (map tc_settled (mn_threads N))" by (rule tc_balance [OF N assms(2)])
    show "case t of (c, q) \<Rightarrow> (\<exists>r. q = Returned r) \<or> mn_poisoned N \<and> q = Panicked \<or>
          q = Waiting \<and> (\<exists>n. c = WaitAndDebit n \<and> sint (mn_data N) < sint n)"
      if "t \<in> set (mn_threads N)" for t
      using tc.quiescent_calls [OF N assms(2) quiet, of "fst t" "snd t"] that unfolding tc_body_Block
      by (simp add: case_prod_unfold)
  qed
  then show ?thesis using run_step_wf [of tc_body] quiescence_reached [of tc_body M] by (intro conjI) (assumption+, blast)
qed

theorem blocked_debits_return_witness:
  "\<exists>N. (run_step tc_body)\<^sup>*\<^sup>* (monitor_new 0 [WaitAndDebit 500, CreditAndNotify 1000]) N \<and>
     \<not> (\<exists>N'. run_step tc_body N N') \<and> sint (mn_data N) = sum_list (map tc_settled (mn_threads N)) \<and>
     map fst (mn_threads N) = [WaitAndDebit 500, CreditAndNotify 1000]"
  using blocked_debits_return [of 0 "[WaitAndDebit 500, CreditAndNotify 1000]"
      "monitor_new 0 [WaitAndDebit 500, CreditAndNotify 1000]"] by fastforce

text \<open>
  A notification of one thread can be wasted: the thread that is woken needs more than was
  credited and goes back to sleep, and a debit that could be paid sleeps on with nothing left to
  wake it.
\<close>

lemma not_runnable: "Entering \<notin> snd ` set (mn_threads M) \<Longrightarrow> Woken \<notin> snd ` set (mn_threads M) \<Longrightarrow> \<not> run_step body M M'"
  by (auto elim!: run_step.cases dest!: nth_mem) (metis image_eqI snd_conv)+

lemma notify_one_strands_debit:
  "\<exists>M. (run_step tc_body)\<^sup>*\<^sup>* (monitor_new 0 [WaitAndDebit 500, WaitAndDebit 100, CreditAndNotifyOne 100]) M \<and>
     \<not> (\<exists>M'. run_step tc_body M M') \<and> mn_data M = 100 \<and> (WaitAndDebit 100, Waiting) \<in> set (mn_threads M)"
proof -
  let ?a = "WaitAndDebit 500" and ?b = "WaitAndDebit 100" and ?c = "CreditAndNotifyOne 100"
  let ?M0 = "monitor_new 0 [?a, ?b, ?c] :: (i64, tc_call, i64) monitor"
  let ?M1 = "?M0\<lparr>mn_threads := [(?a, Waiting), (?b, Entering), (?c, Entering)]\<rparr>"
  let ?M2 = "?M0\<lparr>mn_threads := [(?a, Waiting), (?b, Waiting), (?c, Entering)]\<rparr>"
  let ?M3 = "?M0\<lparr>mn_data := 100, mn_threads := [(?a, Woken), (?b, Waiting), (?c, Returned 100)], mn_log := [(?c, 100)]\<rparr>"
  let ?M4 = "?M3\<lparr>mn_threads := [(?a, Waiting), (?b, Waiting), (?c, Returned 100)]\<rparr>"
  have "run_step tc_body ?M0 ?M1"
    using step_block [of 0 ?M0 ?a Entering tc_body] by (simp add: monitor_new_def)
  moreover have "run_step tc_body ?M1 ?M2"
    using step_block [of 1 ?M1 ?b Entering tc_body] by (simp add: monitor_new_def)
  moreover have "notifies NotifyOne [(?a, Waiting), (?b, Waiting), (?c, Returned 100)] [(?a, Woken), (?b, Waiting), (?c, Returned (100 :: i64))]"
    using notify_one [of 0 "[(?a, Waiting), (?b, Waiting), (?c, Returned (100 :: i64))]"] by (simp add: wake_def)
  then have "run_step tc_body ?M2 ?M3"
    using step_return [of 2 ?M2 ?c Entering tc_body 100 100 NotifyOne]
    by (simp add: monitor_new_def checked_add_i64_def i64_simps)
  moreover have "run_step tc_body ?M3 ?M4"
    using step_block [of 0 ?M3 ?a Woken tc_body] by (simp add: monitor_new_def)
  ultimately have "(run_step tc_body)\<^sup>*\<^sup>* ?M0 ?M4" by (meson converse_rtranclp_into_rtranclp rtranclp.rtrancl_refl)
  moreover have "\<not> run_step tc_body ?M4 M'" for M' by (rule not_runnable) (simp_all add: monitor_new_def)
  ultimately show ?thesis by (intro exI [of _ ?M4]) (simp add: monitor_new_def)
qed

subsection \<open>The transfer queue\<close>

definition enqueued :: "(fq_call \<times> queued_request option) list \<Rightarrow> queued_request list" where
  "enqueued l = concat (map (\<lambda>e. case fst e of Enqueue request \<Rightarrow> [request] | DequeueWait \<Rightarrow> []) l)"

definition delivered :: "(fq_call \<times> queued_request option) list \<Rightarrow> queued_request list" where
  "delivered l = concat (map (\<lambda>e. case snd e of Some request \<Rightarrow> [request] | None \<Rightarrow> []) l)"

definition woken :: "('c \<times> 'r mpc) list \<Rightarrow> nat" where
  "woken ts = length (filter (\<lambda>t. snd t = Woken) ts)"

definition fq_ok :: "(queued_request list, fq_call, queued_request option) monitor \<Rightarrow> bool" where
  "fq_ok M \<longleftrightarrow> \<not> mn_poisoned M \<and> enqueued (mn_log M) = delivered (mn_log M) @ mn_data M \<and>
     (Waiting \<in> snd ` set (mn_threads M) \<longrightarrow> length (mn_data M) \<le> woken (mn_threads M)) \<and>
     (\<forall>c. (c, Waiting) \<in> set (mn_threads M) \<or> (c, Woken) \<in> set (mn_threads M) \<longrightarrow> c = DequeueWait)"

lemma log_simps:
  "enqueued (l @ [(c, r)]) = enqueued l @ (case c of Enqueue request \<Rightarrow> [request] | DequeueWait \<Rightarrow> [])"
  "delivered (l @ [(c, r)]) = delivered l @ (case r of Some request \<Rightarrow> [request] | None \<Rightarrow> [])"
  by (simp_all add: enqueued_def delivered_def split: fq_call.split)

lemma notify_one_woken:
  assumes "notifies NotifyOne ts ts'" and "Waiting \<in> snd ` set ts'"
  shows "woken ts' = woken ts + 1"
  using assms
proof cases
  case (notify_one j)
  then show ?thesis
    using length_filter_update [of j ts "\<lambda>t. snd t = Woken" "wake (ts ! j)"] by (simp add: woken_def wake_def)
qed (use assms(2) in auto)

lemma woken_update:
  assumes "i < length ts" and "snd x \<noteq> Woken"
  shows "woken (ts[i := x]) = woken ts - (if snd (ts ! i) = Woken then 1 else 0)"
  using length_filter_update [OF assms(1), of "\<lambda>t. snd t = Woken" x] assms(2) by (simp add: woken_def)

lemma woken_wake_update:
  assumes "i < length ts" and "snd (ts ! i) = Waiting"
  shows "woken (ts[i := wake (ts ! i)]) = woken ts + 1"
  using length_filter_update [OF assms(1), of "\<lambda>t. snd t = Woken" "wake (ts ! i)"] assms(2)
  by (simp add: woken_def wake_def)

lemma fq_body_Block: "fq_body c q = Block \<longleftrightarrow> c = DequeueWait \<and> q = []"
  by (cases "(c, q)" rule: fq_body.cases) simp_all

lemma fq_body_Return:
  "fq_body c q = Return q' r n \<longleftrightarrow>
     (\<exists>request. c = Enqueue request \<and> q' = q @ [request] \<and> r = None \<and> n = NotifyOne) \<or>
     (\<exists>request. c = DequeueWait \<and> q = request # q' \<and> r = Some request \<and> n = NotifyNobody)"
  by (cases "(c, q)" rule: fq_body.cases) auto

lemma fq_body_no_panic: "fq_body c q \<noteq> Panic"
  by (cases "(c, q)" rule: fq_body.cases) simp_all

text \<open>Only \<open>dequeue_wait\<close> ever sleeps.\<close>

lemma fq_sleepers_step:
  assumes "mon_step fq_body M M'" and "(c, Waiting) \<in> set (mn_threads M') \<or> (c, Woken) \<in> set (mn_threads M')"
    and "\<And>c. (c, Waiting) \<in> set (mn_threads M) \<or> (c, Woken) \<in> set (mn_threads M) \<Longrightarrow> c = DequeueWait"
  shows "c = DequeueWait"
proof (cases "run_step fq_body M M'")
  case True
  with assms(2) run_step_thread [OF True, of c Waiting] run_step_thread [OF True, of c Woken] assms(3) [of c]
  show ?thesis by (auto simp: fq_body_Block)
next
  case False
  then have "spurious_step M M'" using assms(1) by (simp add: mon_step_def)
  with assms(2) spurious_step_thread [OF this, of c Waiting] spurious_step_thread [OF this, of c Woken] assms(3) [of c]
  show ?thesis by auto
qed

lemma waiting_update: "Waiting \<in> snd ` set (ts[i := (c, Returned r)]) \<Longrightarrow> Waiting \<in> snd ` set ts"
  using set_update_subset_insert [of ts i "(c, Returned r)"] by auto

lemma fq_return_ok:
  assumes "fq_ok M" and "i < length (mn_threads M)" and "mn_threads M ! i = (c, p)" and "p = Entering \<or> p = Woken"
    and "fq_body c (mn_data M) = Return s r n" and "notifies n ((mn_threads M)[i := (c, Returned r)]) ts"
    and "Waiting \<in> snd ` set ts"
  shows "length s \<le> woken ts"
proof (cases c)
  case (Enqueue request)
  have "p \<noteq> Woken" using assms(1-3) nth_mem [OF assms(2)] Enqueue by (auto simp: fq_ok_def)
  then have w: "woken ((mn_threads M)[i := (c, Returned r)]) = woken (mn_threads M)"
    using assms(2,3) by (simp add: woken_update)
  have n: "n = NotifyOne" "s = mn_data M @ [request]" using assms(5) Enqueue by (auto simp: fq_body_Return)
  have "Waiting \<in> snd ` set ((mn_threads M)[i := (c, Returned r)])"
    using assms(6,7) in_notifies [OF assms(6)] by force
  from waiting_update [OF this] have "length (mn_data M) \<le> woken (mn_threads M)"
    using assms(1) by (simp add: fq_ok_def)
  then show ?thesis using notify_one_woken [OF assms(6) [unfolded n(1)] assms(7)] w n(2) by simp
next
  case DequeueWait
  then obtain request where d: "mn_data M = request # s" "n = NotifyNobody" using assms(5) by (auto simp: fq_body_Return)
  then have ts: "ts = (mn_threads M)[i := (c, Returned r)]" using assms(6) by (auto elim: notifies.cases)
  with assms(1) waiting_update [OF assms(7) [unfolded ts]] have "length (mn_data M) \<le> woken (mn_threads M)"
    by (simp add: fq_ok_def)
  then show ?thesis using d(1) ts assms(2,3) by (auto simp: woken_update)
qed

lemma fq_step_ok:
  assumes "fq_ok M" and "mon_step fq_body M M'"
  shows "fq_ok M'"
proof -
  have sl: "c = DequeueWait" if "(c, Waiting) \<in> set (mn_threads M') \<or> (c, Woken) \<in> set (mn_threads M')" for c
    using fq_sleepers_step [OF assms(2) that] assms(1) by (auto simp: fq_ok_def)
  show ?thesis
  proof (cases "run_step fq_body M M'")
    case True
    then show ?thesis
    proof cases
      case (step_block i c p)
      then show ?thesis using sl assms(1) by (auto simp: fq_ok_def fq_body_Block)
    next
      case (step_return i c p s r n ts)
      have "enqueued (mn_log M @ [(c, r)]) = delivered (mn_log M @ [(c, r)]) @ s"
        using assms(1) step_return(6) by (auto simp: fq_ok_def fq_body_Return log_simps)
      then show ?thesis
        using sl assms(1) step_return(1) fq_return_ok [OF assms(1) step_return(2-4,6,7)] by (auto simp: fq_ok_def)
    qed (use assms(1) fq_body_no_panic in \<open>auto simp: fq_ok_def\<close>)
  next
    case False
    then have "spurious_step M M'" using assms(2) by (simp add: mon_step_def)
    then show ?thesis
    proof cases
      case (1 i)
      have "Waiting \<in> snd ` set (mn_threads M)" using 1(2,3) nth_mem by (metis imageI)
      then show ?thesis using sl assms(1) 1 woken_wake_update [OF 1(2,3)] by (auto simp: fq_ok_def)
    qed
  qed
qed

lemma fq_reach_ok: "(mon_step fq_body)\<^sup>*\<^sup>* (monitor_new [] cs) M \<Longrightarrow> fq_ok M"
proof (induction rule: rtranclp_induct)
  case base
  show ?case by (auto simp: fq_ok_def monitor_new_def enqueued_def delivered_def)
next
  case (step M M')
  then show ?case by (blast intro: fq_step_ok)
qed

text \<open>
  C32. The transfer queue is first in, first out, and loses no wake-up. For any calls in any
  interleaving, the requests taken so far followed by the requests in the queue are the
  requests put in, in that order. A notification of one thread is enough here: running critical
  sections comes to an end, and then every call has returned, except \<open>dequeue_wait\<close> calls that
  sleep on an empty queue.
\<close>

theorem transfer_queue_fifo:
  assumes "(mon_step fq_body)\<^sup>*\<^sup>* (monitor_new [] cs) M"
  shows "enqueued (mn_log M) = delivered (mn_log M) @ mn_data M \<and>
    (\<exists>N. (run_step fq_body)\<^sup>*\<^sup>* M N \<and> \<not> (\<exists>N'. run_step fq_body N N')) \<and>
    (\<not> (\<exists>M'. run_step fq_body M M') \<longrightarrow>
       (\<forall>(c, q) \<in> set (mn_threads M). (\<exists>r. q = Returned r) \<or> q = Waiting \<and> c = DequeueWait \<and> mn_data M = []))"
proof (intro conjI impI ballI)
  note ok = fq_reach_ok [OF assms]
  show "enqueued (mn_log M) = delivered (mn_log M) @ mn_data M" using ok by (simp add: fq_ok_def)
  show "\<exists>N. (run_step fq_body)\<^sup>*\<^sup>* M N \<and> \<not> (\<exists>N'. run_step fq_body N N')" by (rule quiescence_reached)
  fix t assume quiet: "\<not> (\<exists>M'. run_step fq_body M M')" and t: "t \<in> set (mn_threads M)"
  obtain c q where cq: "t = (c, q)" by fastforce
  have "snd u \<noteq> Woken" if "u \<in> set (mn_threads M)" for u
    using quiescent_threads [OF quiet, of "fst u" "snd u"] that by auto
  then have "woken (mn_threads M) = 0" by (simp add: woken_def filter_empty_conv)
  moreover have "q \<noteq> Panicked"
    using threads_from_reach [OF assms] ok t cq by (auto simp: threads_from_def fq_ok_def)
  ultimately show "case t of (c, q) \<Rightarrow> (\<exists>r. q = Returned r) \<or> q = Waiting \<and> c = DequeueWait \<and> mn_data M = []"
    using quiescent_threads [OF quiet, of c q] t cq ok by (force simp: fq_ok_def)
qed

theorem transfer_queue_fifo_witness:
  "\<exists>N. (run_step fq_body)\<^sup>*\<^sup>* (monitor_new [] [DequeueWait, DequeueWait]) N \<and> \<not> (\<exists>N'. run_step fq_body N N') \<and>
     (\<forall>(c, q) \<in> set (mn_threads N). (\<exists>r. q = Returned r) \<or> q = Waiting \<and> c = DequeueWait \<and> mn_data N = [])"
proof -
  let ?M = "monitor_new [] [DequeueWait, DequeueWait]"
  obtain N where N: "(run_step fq_body)\<^sup>*\<^sup>* ?M N" "\<not> (\<exists>N'. run_step fq_body N N')"
    using transfer_queue_fifo [of "[DequeueWait, DequeueWait]" ?M] by auto
  then show ?thesis
    using transfer_queue_fifo [of "[DequeueWait, DequeueWait]" N] run_steps_reach [OF N(1)] by blast
qed

end
