(* ===== verification/Concurrency.thy ===== *)
theory Concurrency
  imports Ledger_Prelude
begin

section \<open>Validation, the reference debit, and analytics\<close>

text \<open>
  The rest of \<open>src/service/concurrency.rs\<close> (its condition variables are in theory
  \<open>Monitors\<close>): the validation pipeline, with the validators as functions of the context; the
  compare-and-swap loop \<open>atomic_debit\<close>, one access to the balance per step, and its sequential
  meaning; the optimistic read of a lock; and the analytics counter, whose writes are critical
  sections of an \<open>RwLock\<close> and so a sequence of updates.
  \<^item> the pipeline passes exactly when every validator does, and collects what they report;
  \<^item> \<open>atomic_debit\<close> is linearizable: the calls that finished behaved as if run one after the
    other, in the order they finished;
  \<^item> the analytics are the count, the saturated volume and the extremes of what was recorded.
\<close>

subsection \<open>The validation pipeline\<close>

record validation_result =
  vr_is_valid :: bool
  vr_errors :: "string list"
  vr_warnings :: "string list"

definition vr_valid :: validation_result where
  "vr_valid = \<lparr>vr_is_valid = True, vr_errors = [], vr_warnings = []\<rparr>"

definition vr_invalid :: "string list \<Rightarrow> validation_result" where
  "vr_invalid errors = \<lparr>vr_is_valid = False, vr_errors = errors, vr_warnings = []\<rparr>"

definition add_error :: "string \<Rightarrow> validation_result \<Rightarrow> validation_result" where
  "add_error error r = r\<lparr>vr_is_valid := False, vr_errors := vr_errors r @ [error]\<rparr>"

definition add_warning :: "string \<Rightarrow> validation_result \<Rightarrow> validation_result" where
  "add_warning warning r = r\<lparr>vr_warnings := vr_warnings r @ [warning]\<rparr>"

record validation_context =
  vc_account_id :: uuid
  vc_amount_cents :: i64
  vc_available_balance_cents :: i64
  vc_daily_debit_total_cents :: i64
  vc_daily_debit_limit_cents :: i64
  vc_account_status :: string

type_synonym validator = "validation_context \<Rightarrow> validation_result"

record validation_pipeline =
  vp_validators :: "validator list"

definition pipeline_new :: validation_pipeline where
  "pipeline_new = \<lparr>vp_validators = []\<rparr>"

definition pipeline_add :: "validator \<Rightarrow> validation_pipeline \<Rightarrow> validation_pipeline" where
  "pipeline_add v p = p\<lparr>vp_validators := vp_validators p @ [v]\<rparr>"

definition collect :: "validation_result \<Rightarrow> validation_result \<Rightarrow> validation_result" where
  "collect result vr =
     (let result = (if \<not> vr_is_valid vr
                    then result\<lparr>vr_is_valid := False, vr_errors := vr_errors result @ vr_errors vr\<rparr>
                    else result)
      in result\<lparr>vr_warnings := vr_warnings result @ vr_warnings vr\<rparr>)"

definition pipeline_validate :: "validation_pipeline \<Rightarrow> validation_context \<Rightarrow> validation_result" where
  "pipeline_validate p context = foldl (\<lambda>result v. collect result (v context)) vr_valid (vp_validators p)"

subsection \<open>The reference debit\<close>

datatype ad_pc = AdLoop | AdLoaded i64 | AdDone "(i64, string) result"

fun atomic_debit_step :: "i64 \<Rightarrow> ad_pc \<Rightarrow> i64 \<Rightarrow> ad_pc \<times> i64" where
  "atomic_debit_step amount AdLoop balance =
     (if sint balance < sint amount then (AdDone (Err ''Insufficient funds''), balance)
      else (AdLoaded balance, balance))"
| "atomic_debit_step amount (AdLoaded current) balance =
     (if balance = current then (AdDone (Ok (current - amount)), current - amount) else (AdLoop, balance))"
| "atomic_debit_step amount (AdDone r) balance = (AdDone r, balance)"

text \<open>What the loop computes when nobody interferes.\<close>

definition atomic_debit :: "i64 \<Rightarrow> i64 \<Rightarrow> (i64, string) result \<times> i64" where
  "atomic_debit amount balance =
     (if sint balance < sint amount then (Err ''Insufficient funds'', balance)
      else (Ok (balance - amount), balance - amount))"

record ad_system =
  ad_balance :: i64
  ad_threads :: "(i64 \<times> ad_pc) list"
  ad_finished :: "(i64 \<times> (i64, string) result) list"

definition ad_start :: "i64 \<Rightarrow> i64 list \<Rightarrow> ad_system" where
  "ad_start balance amounts = \<lparr>ad_balance = balance, ad_threads = map (\<lambda>n. (n, AdLoop)) amounts, ad_finished = []\<rparr>"

inductive ad_step :: "ad_system \<Rightarrow> ad_system \<Rightarrow> bool" where
  "i < length (ad_threads S) \<Longrightarrow> ad_threads S ! i = (n, p) \<Longrightarrow> (\<forall>r. p \<noteq> AdDone r) \<Longrightarrow>
   atomic_debit_step n p (ad_balance S) = (p', b) \<Longrightarrow>
   ad_step S \<lparr>ad_balance = b, ad_threads = (ad_threads S)[i := (n, p')],
     ad_finished = ad_finished S @ (case p' of AdDone r \<Rightarrow> [(n, r)] | _ \<Rightarrow> [])\<rparr>"

subsection \<open>The optimistic read\<close>

datatype lock_mode = Unlocked | ReadLocked | WriteLocked

record 'a rw_lock =
  rw_mode :: lock_mode
  rw_poisoned :: bool
  rw_value :: 'a

definition optimistic_read :: "'a rw_lock \<Rightarrow> 'a option" where
  "optimistic_read lk = (if rw_mode lk = WriteLocked \<or> rw_poisoned lk then None else Some (rw_value lk))"

subsection \<open>The analytics counter\<close>

record analytics_data =
  an_total_transactions :: u64
  an_total_volume_cents :: i64
  an_peak_balance_cents :: i64
  an_min_balance_cents :: i64

definition analytics_default :: analytics_data where
  "analytics_default =
     \<lparr>an_total_transactions = 0, an_total_volume_cents = 0,
      an_peak_balance_cents = word_of_int i64_min, an_min_balance_cents = word_of_int i64_max\<rparr>"

definition abs_as_i64 :: "i64 \<Rightarrow> i64" where
  "abs_as_i64 a = word_of_int \<bar>sint a\<bar>"

definition record_transaction :: "i64 \<Rightarrow> i64 \<Rightarrow> analytics_data \<Rightarrow> analytics_data" where
  "record_transaction amount_cents new_balance d0 =
     (let d1 = d0\<lparr>an_total_transactions := an_total_transactions d0 + 1\<rparr>;
          d2 = d1\<lparr>an_total_volume_cents := saturating_add_i64 (an_total_volume_cents d1) (abs_as_i64 amount_cents)\<rparr>;
          d3 = (if sint new_balance > sint (an_peak_balance_cents d2)
                then d2\<lparr>an_peak_balance_cents := new_balance\<rparr> else d2)
      in if an_total_transactions d3 = 1 \<or> sint new_balance < sint (an_min_balance_cents d3)
         then d3\<lparr>an_min_balance_cents := new_balance\<rparr> else d3)"

subsection \<open>The pipeline collects\<close>

lemma collect_fold:
  "foldl (\<lambda>result v. collect result (v context)) r vs =
     \<lparr>vr_is_valid = (vr_is_valid r \<and> (\<forall>v \<in> set vs. vr_is_valid (v context))),
      vr_errors = vr_errors r @ concat (map (\<lambda>v. vr_errors (v context)) (filter (\<lambda>v. \<not> vr_is_valid (v context)) vs)),
      vr_warnings = vr_warnings r @ concat (map (\<lambda>v. vr_warnings (v context)) vs)\<rparr>"
  by (induction vs arbitrary: r) (auto simp: collect_def Let_def)

text \<open>
  The pipeline passes exactly when every validator passes; it reports the errors of those that
  fail and the warnings of all, in the order the validators were added.
\<close>

lemma pipeline_collects:
  "pipeline_validate p context =
     \<lparr>vr_is_valid = (\<forall>v \<in> set (vp_validators p). vr_is_valid (v context)),
      vr_errors = concat (map (\<lambda>v. vr_errors (v context)) (filter (\<lambda>v. \<not> vr_is_valid (v context)) (vp_validators p))),
      vr_warnings = concat (map (\<lambda>v. vr_warnings (v context)) (vp_validators p))\<rparr>"
  by (simp add: pipeline_validate_def collect_fold vr_valid_def)

subsection \<open>The reference debit is linearizable\<close>

text \<open>\<open>sequential b l b'\<close>: run one after the other from \<open>b\<close>, the calls of \<open>l\<close> have those results and leave \<open>b'\<close>.\<close>

fun sequential :: "i64 \<Rightarrow> (i64 \<times> (i64, string) result) list \<Rightarrow> i64 \<Rightarrow> bool" where
  "sequential b [] b' \<longleftrightarrow> b = b'"
| "sequential b ((n, r) # l) b' \<longleftrightarrow> fst (atomic_debit n b) = r \<and> sequential (snd (atomic_debit n b)) l b'"

lemma sequential_snoc:
  "sequential b (l @ [(n, r)]) b' \<longleftrightarrow> (\<exists>c. sequential b l c \<and> atomic_debit n c = (r, b'))"
proof (induction l arbitrary: b)
  case Nil
  show ?case by (cases "atomic_debit n b") auto
next
  case (Cons x l)
  then show ?case by (cases x) auto
qed

definition ad_ok :: "i64 \<Rightarrow> i64 list \<Rightarrow> ad_system \<Rightarrow> bool" where
  "ad_ok b ns S \<longleftrightarrow> sequential b (ad_finished S) (ad_balance S) \<and> map fst (ad_threads S) = ns \<and>
     (\<forall>n current. (n, AdLoaded current) \<in> set (ad_threads S) \<longrightarrow> sint n \<le> sint current) \<and>
     (\<forall>n r. (n, AdDone r) \<in> set (ad_threads S) \<longrightarrow> (n, r) \<in> set (ad_finished S)) \<and>
     fst ` set (ad_finished S) \<subseteq> set ns"

lemma ad_step_sequential:
  assumes "sequential b l balance" and "\<And>current. p = AdLoaded current \<Longrightarrow> sint n \<le> sint current"
    and "atomic_debit_step n p balance = (p', balance')" and "\<forall>r. p \<noteq> AdDone r"
  shows "sequential b (l @ (case p' of AdDone r \<Rightarrow> [(n, r)] | _ \<Rightarrow> [])) balance'"
  using assms
  by (cases p) (auto simp: sequential_snoc atomic_debit_def intro!: exI [of _ balance] split: if_splits)

lemma ad_step_ok:
  assumes "ad_step S S'" and "ad_ok b ns S"
  shows "ad_ok b ns S'"
  using assms(1)
proof cases
  case (1 i n p p' c)
  have mem: "(n, p) \<in> set (ad_threads S)" using 1(2,3) nth_mem by metis
  have threads: "x = (n, p') \<or> x \<in> set (ad_threads S)" if "x \<in> set (ad_threads S')" for x
    using that 1(1) set_update_subset_insert [of "ad_threads S" i "(n, p')"] by auto
  have "sint n \<le> sint current" if "p' = AdLoaded current" for current
    using that 1(4,5) by (cases p) (auto split: if_splits)
  then have loaded: "sint m \<le> sint current" if "(m, AdLoaded current) \<in> set (ad_threads S')" for m current
    using threads [OF that] assms(2) unfolding ad_ok_def by blast
  have ended: "(m, r) \<in> set (ad_finished S')" if "(m, AdDone r) \<in> set (ad_threads S')" for m r
  proof -
    have "(m, AdDone r) = (n, p') \<or> (m, r) \<in> set (ad_finished S)"
      using threads [OF that] assms(2) unfolding ad_ok_def by blast
    then show ?thesis unfolding 1(1) by auto
  qed
  have seq: "sequential b (ad_finished S') (ad_balance S')"
    unfolding 1(1) ad_system.select_convs
  proof (rule ad_step_sequential [OF _ _ 1(5,4)])
    show "sequential b (ad_finished S) (ad_balance S)" using assms(2) by (simp add: ad_ok_def)
    show "sint n \<le> sint current" if "p = AdLoaded current" for current
      using assms(2) mem that by (simp add: ad_ok_def)
  qed
  have "n \<in> set (map fst (ad_threads S))" using imageI [OF mem, of fst] by simp
  then have "n \<in> set ns" using assms(2) unfolding ad_ok_def by (elim conjE) simp
  moreover have "fst ` set (ad_finished S') \<subseteq> insert n (fst ` set (ad_finished S))"
    unfolding 1(1) by (auto split: ad_pc.splits)
  moreover have "fst ` set (ad_finished S) \<subseteq> set ns" using assms(2) by (simp add: ad_ok_def)
  ultimately have fin: "fst ` set (ad_finished S') \<subseteq> set ns" by blast
  have "map fst (ad_threads S') = map fst (ad_threads S)"
    using 1(1-3) by (simp add: map_update list_update_same_conv)
  then have "map fst (ad_threads S') = ns" using assms(2) by (simp add: ad_ok_def)
  with loaded ended seq fin show ?thesis unfolding ad_ok_def by simp
qed

lemma ad_reach_ok: "ad_step\<^sup>*\<^sup>* (ad_start b ns) S \<Longrightarrow> ad_ok b ns S"
proof (induction rule: rtranclp_induct)
  case base
  show ?case by (auto simp: ad_ok_def ad_start_def comp_def)
next
  case (step S S')
  then show ?case by (blast intro: ad_step_ok)
qed

lemma atomic_debit_exact:
  assumes "0 \<le> sint b" and "0 \<le> sint n"
  shows "0 \<le> sint (snd (atomic_debit n b)) \<and>
    sint (snd (atomic_debit n b)) = sint b - (if is_ok (fst (atomic_debit n b)) then sint n else 0)"
  using assms sint_i64_upper [of b] sint_sub_i64 [of b n] by (auto simp: atomic_debit_def i64_simps)

lemma sequential_exact:
  assumes "sequential b l b'" and "0 \<le> sint b" and "\<And>n. n \<in> fst ` set l \<Longrightarrow> 0 \<le> sint n"
  shows "0 \<le> sint b' \<and> sint b' = sint b - sum_list (map (\<lambda>(n, r). if is_ok r then sint n else 0) l)"
  using assms
proof (induction b l b' rule: sequential.induct)
  case (2 b n r l b')
  then show ?case using atomic_debit_exact [of b n] by auto
qed simp

text \<open>
  C33. \<open>atomic_debit\<close> is linearizable. Whatever the interleaving of the loops' loads and
  compare-and-swaps, the calls that have finished have the results, and the balance the value,
  of running those calls one after the other in the order they finished. With an initial
  balance and amounts that are not negative the balance is exactly the initial one less the
  debits that succeeded, and never negative.
\<close>

theorem atomic_debit_linearizable:
  assumes "ad_step\<^sup>*\<^sup>* (ad_start b ns) S"
  shows "sequential b (ad_finished S) (ad_balance S) \<and>
    (\<forall>n r. (n, AdDone r) \<in> set (ad_threads S) \<longrightarrow> (n, r) \<in> set (ad_finished S)) \<and>
    (0 \<le> sint b \<and> (\<forall>n \<in> set ns. 0 \<le> sint n) \<longrightarrow>
       0 \<le> sint (ad_balance S) \<and>
       sint (ad_balance S) = sint b - sum_list (map (\<lambda>(n, r). if is_ok r then sint n else 0) (ad_finished S)))"
proof -
  note ok = ad_reach_ok [OF assms]
  have "0 \<le> sint (ad_balance S) \<and>
      sint (ad_balance S) = sint b - sum_list (map (\<lambda>(n, r). if is_ok r then sint n else 0) (ad_finished S))"
    if "0 \<le> sint b" and "\<forall>n \<in> set ns. 0 \<le> sint n"
    using ok that by (intro sequential_exact) (auto simp: ad_ok_def)
  then show ?thesis using ok unfolding ad_ok_def by (intro conjI impI) blast+
qed

definition ad_demo :: ad_system where
  "ad_demo = \<lparr>ad_balance = 4, ad_threads = [(6, AdDone (Ok 4)), (5, AdDone (Err ''Insufficient funds''))],
     ad_finished = [(6, Ok 4), (5, Err ''Insufficient funds'')]\<rparr>"

text \<open>Both load 10; the second compare-and-swap fails, and the loop finds too little.\<close>

lemma ad_demo_reached: "ad_step\<^sup>*\<^sup>* (ad_start 10 [6, 5]) ad_demo"
proof -
  let ?S = "\<lambda>b p q l. \<lparr>ad_balance = b, ad_threads = [(6, p), (5, q)], ad_finished = l\<rparr>"
  have "ad_step (ad_start 10 [6, 5]) (?S 10 (AdLoaded 10) AdLoop [])"
    using ad_step.intros [of 0 "ad_start 10 [6, 5]" 6 AdLoop] by (simp add: ad_start_def)
  moreover have "ad_step (?S 10 (AdLoaded 10) AdLoop []) (?S 10 (AdLoaded 10) (AdLoaded 10) [])"
    using ad_step.intros [of 1 "?S 10 (AdLoaded 10) AdLoop []" 5 AdLoop] by simp
  moreover have "ad_step (?S 10 (AdLoaded 10) (AdLoaded 10) []) (?S 4 (AdDone (Ok 4)) (AdLoaded 10) [(6, Ok 4)])"
    using ad_step.intros [of 0 "?S 10 (AdLoaded 10) (AdLoaded 10) []" 6 "AdLoaded 10"] by simp
  moreover have "ad_step (?S 4 (AdDone (Ok 4)) (AdLoaded 10) [(6, Ok 4)]) (?S 4 (AdDone (Ok 4)) AdLoop [(6, Ok 4)])"
    using ad_step.intros [of 1 "?S 4 (AdDone (Ok 4)) (AdLoaded 10) [(6, Ok 4)]" 5 "AdLoaded 10"] by simp
  moreover have "ad_step (?S 4 (AdDone (Ok 4)) AdLoop [(6, Ok 4)]) ad_demo"
    using ad_step.intros [of 1 "?S 4 (AdDone (Ok 4)) AdLoop [(6, Ok 4)]" 5 AdLoop] by (simp add: ad_demo_def)
  ultimately show ?thesis by (meson converse_rtranclp_into_rtranclp rtranclp.rtrancl_refl)
qed

theorem atomic_debit_linearizable_witness:
  "sequential 10 (ad_finished ad_demo) (ad_balance ad_demo) \<and> 0 \<le> sint (ad_balance ad_demo)"
  using atomic_debit_linearizable [OF ad_demo_reached] by simp

subsection \<open>The analytics\<close>

lemma sint_abs_as_i64: "sint a \<noteq> i64_min \<Longrightarrow> sint (abs_as_i64 a) = \<bar>sint a\<bar>"
  unfolding abs_as_i64_def
  using sint_i64_lower [of a] sint_i64_upper [of a] by (intro sint_of_int_i64) (auto simp: i64_simps)

definition analytics_of :: "(i64 \<times> i64) list \<Rightarrow> analytics_data" where
  "analytics_of txs = fold (\<lambda>(amount, balance). record_transaction amount balance) txs analytics_default"

lemma record_transaction_fields:
  "an_total_transactions (record_transaction a nb d) = an_total_transactions d + 1"
  "sint (an_total_volume_cents (record_transaction a nb d)) = clamp_i64 (sint (an_total_volume_cents d) + sint (abs_as_i64 a))"
  "sint (an_peak_balance_cents (record_transaction a nb d)) = max (sint (an_peak_balance_cents d)) (sint nb)"
  "sint (an_min_balance_cents (record_transaction a nb d)) =
     (if an_total_transactions d + 1 = 1 then sint nb else min (sint (an_min_balance_cents d)) (sint nb))"
  by (auto simp: record_transaction_def Let_def sint_saturating_add_i64)

lemma analytics_snoc: "analytics_of (txs @ [(a, nb)]) = record_transaction a nb (analytics_of txs)"
  by (simp add: analytics_of_def)

lemma analytics_count: "an_total_transactions (analytics_of txs) = of_nat (length txs)"
  by (induction txs rule: rev_induct)
    (auto simp: analytics_of_def analytics_default_def record_transaction_fields)

lemma clamp_saturated: "0 \<le> v \<Longrightarrow> 0 \<le> a \<Longrightarrow> clamp_i64 (min i64_max v + a) = min i64_max (v + a)"
  by (auto simp: clamp_i64_def i64_simps min_def)

lemma analytics_volume:
  assumes "\<And>a nb. (a, nb) \<in> set txs \<Longrightarrow> sint a \<noteq> i64_min"
  shows "sint (an_total_volume_cents (analytics_of txs)) = min i64_max (sum_list (map (\<lambda>(a, nb). \<bar>sint a\<bar>) txs))"
  using assms
proof (induction txs rule: rev_induct)
  case Nil
  show ?case by (simp add: analytics_of_def analytics_default_def i64_simps)
next
  case (snoc x txs)
  obtain a nb where x: "x = (a, nb)" by fastforce
  let ?v = "sum_list (map (\<lambda>(a, nb). \<bar>sint a\<bar>) txs)"
  have "0 \<le> ?v" by (rule sum_list_nonneg) auto
  moreover have "sint (an_total_volume_cents (analytics_of txs)) = min i64_max ?v"
    using snoc.IH snoc.prems by (metis Un_iff set_append)
  moreover have "sint (abs_as_i64 a) = \<bar>sint a\<bar>" using snoc.prems [of a nb] x by (simp add: sint_abs_as_i64)
  ultimately show ?case
    by (simp add: x analytics_snoc record_transaction_fields clamp_saturated)
qed

lemma analytics_extremes:
  assumes "txs \<noteq> []" and "length txs < 2 ^ 64"
  shows "sint (an_peak_balance_cents (analytics_of txs)) = Max ((sint \<circ> snd) ` set txs) \<and>
    sint (an_min_balance_cents (analytics_of txs)) = Min ((sint \<circ> snd) ` set txs)"
  using assms
proof (induction txs rule: rev_induct)
  case (snoc x txs)
  obtain a nb where x: "x = (a, nb)" by fastforce
  show ?case
  proof (cases "txs = []")
    case True
    then show ?thesis using x sint_i64_lower [of nb]
      by (simp add: analytics_of_def analytics_default_def record_transaction_fields sint_of_int_i64 i64_simps max_def)
  next
    case False
    have "(of_nat (length txs) :: u64) \<noteq> 0"
      using False snoc.prems(2) of_nat_inverse [of "length txs" "0 :: u64"] by (auto simp: unat_eq_0)
    then have "an_total_transactions (analytics_of txs) + 1 \<noteq> 1" by (simp add: analytics_count)
    moreover have "sint (an_peak_balance_cents (analytics_of txs)) = Max ((sint \<circ> snd) ` set txs)"
      "sint (an_min_balance_cents (analytics_of txs)) = Min ((sint \<circ> snd) ` set txs)"
      using snoc.IH snoc.prems(2) False by simp_all
    ultimately show ?thesis
      using False by (simp add: x analytics_snoc record_transaction_fields max.commute min.commute)
  qed
qed simp

text \<open>
  The analytics summarise what was recorded. After fewer than $2^{64}$ transactions, none of
  amount \<open>i64::MIN\<close>, the count is the number of transactions, the volume is the sum of the
  absolute amounts, stopped at \<open>i64::MAX\<close> and never wrapped, and peak and minimum are the
  largest and the smallest balance recorded.
\<close>

theorem analytics_summarise:
  assumes "txs \<noteq> []" and "length txs < 2 ^ 64" and "\<And>a nb. (a, nb) \<in> set txs \<Longrightarrow> sint a \<noteq> i64_min"
  shows "unat (an_total_transactions (analytics_of txs)) = length txs \<and>
    sint (an_total_volume_cents (analytics_of txs)) = min i64_max (sum_list (map (\<lambda>(a, nb). \<bar>sint a\<bar>) txs)) \<and>
    sint (an_peak_balance_cents (analytics_of txs)) = Max ((sint \<circ> snd) ` set txs) \<and>
    sint (an_min_balance_cents (analytics_of txs)) = Min ((sint \<circ> snd) ` set txs)"
proof -
  have "unat (of_nat (length txs) :: u64) = length txs"
    using assms(2) by (simp add: unat_of_nat take_bit_nat_eq_self)
  with analytics_extremes [OF assms(1,2)] analytics_volume [OF assms(3)] analytics_count [of txs]
  show ?thesis by simp
qed

theorem analytics_summarise_witness:
  "sint (an_total_volume_cents (analytics_of [(1000, 5000), (- 500, 4500)])) = 1500 \<and>
   sint (an_min_balance_cents (analytics_of [(1000, 5000), (- 500, 4500)])) = 4500"
proof -
  have "sint a \<noteq> i64_min" if "(a, nb) \<in> set [(1000, 5000), (- 500, 4500)]" for a nb :: i64
    using that by (auto simp: i64_simps)
  from analytics_summarise [of "[(1000, 5000), (- 500, 4500)]", OF _ _ this] show ?thesis by (simp add: i64_simps)
qed

text \<open>An amount of \<open>i64::MIN\<close> has no absolute value in 64 bits: recording it lowers the volume.\<close>

lemma min_amount_lowers_volume:
  assumes "0 \<le> sint (an_total_volume_cents d)"
  shows "sint (an_total_volume_cents (record_transaction (word_of_int i64_min) nb d)) =
    sint (an_total_volume_cents d) - 9223372036854775808"
proof -
  have "sint (abs_as_i64 (word_of_int i64_min)) = - 9223372036854775808" by (simp add: abs_as_i64_def i64_simps)
  with assms sint_i64_upper [of "an_total_volume_cents d"] show ?thesis
    by (simp add: record_transaction_fields clamp_i64_def i64_simps)
qed

end
