(* ===== verification/Store.thy ===== *)
theory Store
  imports Api
begin

section \<open>Persistence\<close>

text \<open>
  \<open>src/store/mod.rs\<close>, and the two functions of \<open>src/api/mod.rs\<close> that use it:
  \<open>persist_after_mutation\<close> and \<open>restore_from_store\<close>. The SurrealDB client is the parameter
  \<open>database\<close>, over a state of its own: one function per query that the store sends. A document
  is the fields bound to a query; a row is what the accessors of \<open>serde_json\<close> read from an
  answer, \<open>None\<close> where a field is missing or of another type. The \<open>uuid\<close> and \<open>chrono\<close> packages'
  texts are the parameter \<open>store_env\<close>. What is asked of them is stated as \<open>document_db\<close> (a
  document that the schema accepts is there afterwards and one that it refuses is not, a
  selection lists all documents, blocks by index, under identifiers without escapes) and
  \<open>faithful_texts\<close> (identifiers and instants survive their texts). What the schema accepts is a
  parameter too; \<open>schema_account\<close> is the table of accounts of \<open>.surreal/schema.surql\<close>.
  The background task that writes is one step; its results are dropped, as in the source.
\<close>

record account_doc =
  doc_account_type :: string
  doc_currency :: string
  doc_balance_cents :: i64
  doc_hold_cents :: i64
  doc_status :: string

record entry_doc =
  doc_transaction_id :: string
  doc_sequence_number :: u64
  doc_description :: string
  doc_legs :: string
  doc_recorded_at :: string

record block_doc =
  doc_index_pos :: u64
  doc_hash :: string
  doc_previous_hash :: string
  doc_data :: string
  doc_timestamp :: string
  doc_nonce :: i64

record account_row =
  row_id :: "string option"
  row_account_type :: "string option"
  row_currency :: "string option"
  row_balance_cents :: "i64 option"

record block_row =
  row_index_pos :: "u64 option"
  row_hash :: "string option"
  row_previous_hash :: "string option"
  row_data :: "string option"
  row_timestamp :: "string option"
  row_nonce :: "u64 option"

text \<open>A selection can fail in the query or in reading its answer.\<close>

datatype select_fault = QueryFault string | AnswerFault string

record 'd database =
  db_upsert_account :: "string \<Rightarrow> account_doc \<Rightarrow> 'd \<Rightarrow> (unit, string) result \<times> 'd"
  db_create_entry :: "entry_doc \<Rightarrow> 'd \<Rightarrow> (unit, string) result \<times> 'd"
  db_upsert_block :: "u64 \<Rightarrow> block_doc \<Rightarrow> 'd \<Rightarrow> (unit, string) result \<times> 'd"
  db_select_accounts :: "'d \<Rightarrow> (account_row list, select_fault) result"
  db_select_blocks :: "'d \<Rightarrow> (block_row list, select_fault) result"

record store_env =
  se_show_uuid :: "uuid \<Rightarrow> string"
  se_parse_uuid :: "string \<Rightarrow> (uuid, string) result"
  se_show_time :: "timestamp \<Rightarrow> string"
  se_parse_time :: "string \<Rightarrow> timestamp option"
  se_legs_json :: "entry_leg list \<Rightarrow> (string, string) result"

subsection \<open>Saving\<close>

definition debug_account_type :: "account_type \<Rightarrow> string" where
  "debug_account_type t =
     (case t of Asset \<Rightarrow> ''Asset'' | Liability \<Rightarrow> ''Liability'' | Equity \<Rightarrow> ''Equity''
      | Revenue \<Rightarrow> ''Revenue'' | Expense \<Rightarrow> ''Expense'')"

definition debug_account_status :: "account_status \<Rightarrow> string" where
  "debug_account_status s = (case s of Open \<Rightarrow> ''Open'' | Frozen \<Rightarrow> ''Frozen'' | Closed \<Rightarrow> ''Closed'')"

definition prefix_error :: "string \<Rightarrow> (unit, string) result \<times> 'd \<Rightarrow> (unit, string) result \<times> 'd" where
  "prefix_error msg r = (case r of (Err e, d) \<Rightarrow> (Err (msg @ e), d) | (Ok u, d) \<Rightarrow> (Ok u, d))"

definition save_account_raw ::
  "'d database \<Rightarrow> string \<Rightarrow> string \<Rightarrow> string \<Rightarrow> i64 \<Rightarrow> i64 \<Rightarrow> string \<Rightarrow> 'd \<Rightarrow> (unit, string) result \<times> 'd"
where
  "save_account_raw db id_text atype cur bal hold status d =
     prefix_error ''save_account: ''
       (db_upsert_account db id_text
          \<lparr>doc_account_type = atype, doc_currency = cur, doc_balance_cents = bal,
           doc_hold_cents = hold, doc_status = status\<rparr> d)"

definition save_account ::
  "store_env \<Rightarrow> 'd database \<Rightarrow> account \<Rightarrow> 'd \<Rightarrow> (unit, string) result \<times> 'd"
where
  "save_account se db a =
     save_account_raw db (se_show_uuid se (acc_id a)) (debug_account_type (acc_type a)) (acc_currency a)
       (balance_cents a) (available_balance_cents a) (debug_account_status (acc_status a))"

definition save_journal_entry ::
  "store_env \<Rightarrow> 'd database \<Rightarrow> journal_entry \<Rightarrow> 'd \<Rightarrow> (unit, string) result \<times> 'd"
where
  "save_journal_entry se db entry d =
     (case se_legs_json se (legs entry) of
        Err e \<Rightarrow> (Err (''serialize legs: '' @ e), d)
      | Ok legs_json \<Rightarrow>
          prefix_error ''save_journal_entry: ''
            (db_create_entry db
               \<lparr>doc_transaction_id = se_show_uuid se (entry_transaction entry),
                doc_sequence_number = sequence_number entry, doc_description = description entry,
                doc_legs = legs_json, doc_recorded_at = se_show_time se (recorded_at entry)\<rparr> d))"

definition block_doc_of :: "store_env \<Rightarrow> hash_link \<Rightarrow> block_doc" where
  "block_doc_of se b =
     \<lparr>doc_index_pos = link_index b, doc_hash = link_hash b, doc_previous_hash = link_previous_hash b,
      doc_data = link_data b, doc_timestamp = se_show_time se (link_timestamp b), doc_nonce = link_nonce b\<rparr>"

text \<open>The loop of \<open>save_hash_chain\<close> stops at the first block that the database refuses.\<close>

fun save_blocks ::
  "store_env \<Rightarrow> 'd database \<Rightarrow> hash_link list \<Rightarrow> 'd \<Rightarrow> (unit, string) result \<times> 'd"
where
  "save_blocks se db [] d = (Ok (), d)"
| "save_blocks se db (b # bs) d =
     (case db_upsert_block db (link_index b) (block_doc_of se b) d of
        (Err e, d') \<Rightarrow> (Err (''save_hash_block '' @ show_nat (unat (link_index b)) @ '': '' @ e), d')
      | (Ok _, d') \<Rightarrow> save_blocks se db bs d')"

definition save_hash_chain ::
  "store_env \<Rightarrow> 'd database \<Rightarrow> hash_chain \<Rightarrow> 'd \<Rightarrow> (unit, string) result \<times> 'd"
where
  "save_hash_chain se db chain = save_blocks se db (blocks chain)"

subsection \<open>Loading\<close>

definition or_else :: "'a option \<Rightarrow> 'a \<Rightarrow> 'a" where
  "or_else x y = (case x of Some v \<Rightarrow> v | None \<Rightarrow> y)"

text \<open>\<open>id_str.split(':').nth(1).unwrap_or(id_str)\<close>\<close>

definition uuid_part :: "string \<Rightarrow> string" where
  "uuid_part s =
     (if CHR '':'' \<in> set s then takeWhile (\<lambda>c. c \<noteq> CHR '':'') (tl (dropWhile (\<lambda>c. c \<noteq> CHR '':'') s)) else s)"

definition read_account_type :: "string option \<Rightarrow> account_type" where
  "read_account_type t =
     (case t of None \<Rightarrow> Asset
      | Some s \<Rightarrow>
          if s = ''Asset'' then Asset else if s = ''Liability'' then Liability
          else if s = ''Equity'' then Equity else if s = ''Revenue'' then Revenue
          else if s = ''Expense'' then Expense else Asset)"

definition load_account ::
  "store_env \<Rightarrow> uuid \<Rightarrow> timestamp \<Rightarrow> timestamp \<Rightarrow> account_row \<Rightarrow> (account, string) result"
where
  "load_account se uid now1 now2 row =
     (case se_parse_uuid se (uuid_part (or_else (row_id row) '''')) of
        Err e \<Rightarrow> Err (''uuid parse: '' @ e)
      | Ok i \<Rightarrow>
          Ok ((account_new uid now1 now2 (read_account_type (row_account_type row))
                (or_else (row_currency row) ''USD'') (or_else (row_balance_cents row) 0) None)\<lparr>acc_id := i\<rparr>))"

text \<open>The loop over the rows; row \<open>i\<close> draws identifier \<open>i\<close> and the instants \<open>2 * i\<close> and \<open>2 * i + 1\<close>.\<close>

fun load_rows :: "store_env \<Rightarrow> call_ctx \<Rightarrow> nat \<Rightarrow> account_row list \<Rightarrow> (account list, string) result" where
  "load_rows se cx i [] = Ok []"
| "load_rows se cx i (row # rows) =
     (case load_account se (fresh cx i) (utc cx (2 * i)) (utc cx (2 * i + 1)) row of
        Err e \<Rightarrow> Err e
      | Ok a \<Rightarrow> (case load_rows se cx (i + 1) rows of Err e \<Rightarrow> Err e | Ok as \<Rightarrow> Ok (a # as)))"

definition load_all_accounts ::
  "store_env \<Rightarrow> 'd database \<Rightarrow> call_ctx \<Rightarrow> 'd \<Rightarrow> (account list, string) result"
where
  "load_all_accounts se db cx d =
     (case db_select_accounts db d of
        Err (QueryFault e) \<Rightarrow> Err (''load_accounts: '' @ e)
      | Err (AnswerFault e) \<Rightarrow> Err (''load_accounts parse: '' @ e)
      | Ok raw \<Rightarrow> load_rows se cx 0 raw)"

definition load_block :: "store_env \<Rightarrow> timestamp \<Rightarrow> block_row \<Rightarrow> hash_link" where
  "load_block se now row =
     \<lparr>link_index = or_else (row_index_pos row) 0, link_hash = or_else (row_hash row) '''',
      link_previous_hash = or_else (row_previous_hash row) '''', link_data = or_else (row_data row) '''',
      link_timestamp = or_else (se_parse_time se (or_else (row_timestamp row) '''')) now,
      link_nonce = or_else (row_nonce row) 0\<rparr>"

definition load_hash_chain ::
  "store_env \<Rightarrow> crypto \<Rightarrow> 'd database \<Rightarrow> timestamp \<Rightarrow> timestamp \<Rightarrow> u8 list \<Rightarrow> 'd \<Rightarrow> (hash_chain, string) result"
where
  "load_hash_chain se cr db now later key d =
     (case db_select_blocks db d of
        Err (QueryFault e) \<Rightarrow> Err (''load_hash_chain: '' @ e)
      | Err (AnswerFault e) \<Rightarrow> Err (''load_hash_chain parse: '' @ e)
      | Ok raw \<Rightarrow>
          let chain = chain_new cr now key;
              loaded = map (load_block se later) (filter (\<lambda>row. or_else (row_index_pos row) 0 \<noteq> 0) raw)
          in Ok (chain\<lparr>blocks := blocks chain @ loaded\<rparr>))"

subsection \<open>The application\<close>

definition ignore_result :: "('d \<Rightarrow> (unit, string) result \<times> 'd) \<Rightarrow> 'd \<Rightarrow> 'd" where
  "ignore_result f d = snd (f d)"

definition save_registered ::
  "store_env \<Rightarrow> 'd database \<Rightarrow> registry \<Rightarrow> uuid \<Rightarrow> 'd \<Rightarrow> 'd"
where
  "save_registered se db svc k =
     (case svc k of
        None \<Rightarrow> id
      | Some a \<Rightarrow> ignore_result
          (save_account_raw db (se_show_uuid se k) (debug_account_type (acc_type a)) (acc_currency a)
            (balance_cents a) (available_balance_cents a) (debug_account_status (acc_status a))))"

text \<open>\<open>order\<close> is the order in which the registry's hash map is iterated.\<close>

definition persist_after_mutation ::
  "store_env \<Rightarrow> 'd database \<Rightarrow> (registry \<Rightarrow> uuid list) \<Rightarrow> app_state \<Rightarrow> 'd \<Rightarrow> 'd"
where
  "persist_after_mutation se db order s d =
     ignore_result (save_hash_chain se db (app_chain s))
       (fold (\<lambda>entry. ignore_result (save_journal_entry se db entry)) (take 10 (rev (app_journal s)))
          (fold (save_registered se db (app_accounts s)) (order (app_accounts s)) d))"

definition persist_if_configured ::
  "store_env \<Rightarrow> ('d database) option \<Rightarrow> account list \<Rightarrow> journal_entry list \<Rightarrow> hash_chain \<Rightarrow> 'd \<Rightarrow> 'd"
where
  "persist_if_configured se store accounts journal chain d =
     (case store of
        None \<Rightarrow> d
      | Some db \<Rightarrow>
          ignore_result (save_hash_chain se db chain)
            (fold (\<lambda>entry. ignore_result (save_journal_entry se db entry)) (take 5 (rev journal))
               (fold (\<lambda>a. ignore_result (save_account se db a)) accounts d)))"

definition restore_from_store ::
  "store_env \<Rightarrow> crypto \<Rightarrow> 'd database \<Rightarrow> call_ctx \<Rightarrow> timestamp \<Rightarrow> timestamp \<Rightarrow> 'd \<Rightarrow> app_state \<Rightarrow> app_state"
where
  "restore_from_store se cr db cx now later d s =
     (let s1 = (case load_all_accounts se db cx d of
                  Ok accounts \<Rightarrow> s\<lparr>app_accounts := fold (\<lambda>a. insert_raw (acc_id a) a) accounts (app_accounts s)\<rparr>
                | Err _ \<Rightarrow> s)
      in case load_hash_chain se cr db now later (as_bytes ''banking-ledger-hmac-key-v1-32b'') d of
           Ok chain \<Rightarrow> if length (blocks chain) > 1 then s1\<lparr>app_chain := chain\<rparr> else s1
         | Err _ \<Rightarrow> s1)"

subsection \<open>What is asked of the packages\<close>

definition faithful_texts :: "store_env \<Rightarrow> bool" where
  "faithful_texts se \<longleftrightarrow>
     (\<forall>u. se_parse_uuid se (se_show_uuid se u) = Ok u \<and> CHR '':'' \<notin> set (se_show_uuid se u)) \<and>
     (\<forall>t. se_parse_time se (se_show_time se t) = Some t)"

definition account_row_of :: "string \<Rightarrow> account_doc \<Rightarrow> account_row" where
  "account_row_of k doc =
     \<lparr>row_id = Some (''account:'' @ k), row_account_type = Some (doc_account_type doc),
      row_currency = Some (doc_currency doc), row_balance_cents = Some (doc_balance_cents doc)\<rparr>"

text \<open>A nonce is stored as a signed number, and a negative one is no \<open>u64\<close>.\<close>

definition block_row_of :: "block_doc \<Rightarrow> block_row" where
  "block_row_of doc =
     \<lparr>row_index_pos = Some (doc_index_pos doc), row_hash = Some (doc_hash doc),
      row_previous_hash = Some (doc_previous_hash doc), row_data = Some (doc_data doc),
      row_timestamp = Some (doc_timestamp doc),
      row_nonce = (if 0 \<le> sint (doc_nonce doc) then Some (doc_nonce doc) else None)\<rparr>"

text \<open>
  \<open>accts\<close> and \<open>blks\<close> read the documents out of a state of the database; \<open>okA\<close> and \<open>okB\<close> say which
  documents the tables accept. What the client answers about a refused document is open: the
  source only looks at failures of the query as a whole.
\<close>

definition document_db ::
  "'d database \<Rightarrow> ('d \<Rightarrow> string \<rightharpoonup> account_doc) \<Rightarrow> ('d \<Rightarrow> u64 \<rightharpoonup> block_doc) \<Rightarrow>
   (account_doc \<Rightarrow> bool) \<Rightarrow> (block_doc \<Rightarrow> bool) \<Rightarrow> bool"
where
  "document_db db accts blks okA okB \<longleftrightarrow>
     (\<forall>k doc d. \<exists>r d'. db_upsert_account db k doc d = (r, d') \<and> (okA doc \<longrightarrow> r = Ok ()) \<and>
        accts d' = (if okA doc then (accts d)(k \<mapsto> doc) else accts d) \<and> blks d' = blks d) \<and>
     (\<forall>i doc d. \<exists>r d'. db_upsert_block db i doc d = (r, d') \<and> (okB doc \<longrightarrow> r = Ok ()) \<and>
        accts d' = accts d \<and> blks d' = (if okB doc then (blks d)(i \<mapsto> doc) else blks d)) \<and>
     (\<forall>doc d. accts (snd (db_create_entry db doc d)) = accts d \<and> blks (snd (db_create_entry db doc d)) = blks d) \<and>
     (\<forall>d. finite (dom (accts d)) \<longrightarrow>
        (\<exists>rows. db_select_accounts db d = Ok rows \<and>
           set rows = {account_row_of k doc | k doc. accts d k = Some doc})) \<and>
     (\<forall>d. finite (dom (blks d)) \<longrightarrow>
        db_select_blocks db d = Ok (map (\<lambda>i. block_row_of (the (blks d i))) (sorted_list_of_set (dom (blks d)))))"

lemma document_db_account:
  assumes "document_db db accts blks okA okB"
  obtains r d' where "db_upsert_account db k doc d = (r, d')"
    "accts d' = (if okA doc then (accts d)(k \<mapsto> doc) else accts d)" "blks d' = blks d"
  using assms unfolding document_db_def by metis

lemma document_db_block:
  assumes "document_db db accts blks okA okB"
  obtains r d' where "db_upsert_block db i doc d = (r, d')" "okB doc \<longrightarrow> r = Ok ()" "accts d' = accts d"
    "blks d' = (if okB doc then (blks d)(i \<mapsto> doc) else blks d)"
  using assms unfolding document_db_def by metis

lemma document_db_selects:
  assumes "document_db db accts blks okA okB"
  shows "finite (dom (accts d)) \<Longrightarrow>
      \<exists>rows. db_select_accounts db d = Ok rows \<and> set rows = {account_row_of k doc | k doc. accts d k = Some doc}"
    and "finite (dom (blks d)) \<Longrightarrow>
      db_select_blocks db d = Ok (map (\<lambda>i. block_row_of (the (blks d i))) (sorted_list_of_set (dom (blks d))))"
  using assms by (simp_all add: document_db_def)

subsection \<open>Accounts across a restart\<close>

lemma uuid_part_account: "CHR '':'' \<notin> set s \<Longrightarrow> uuid_part (''account:'' @ s) = s"
  by (induction s) (auto simp: uuid_part_def)

lemma read_debug_account_type: "read_account_type (Some (debug_account_type t)) = t"
  by (cases t) (simp_all add: read_account_type_def debug_account_type_def)

definition account_doc_of :: "account \<Rightarrow> account_doc" where
  "account_doc_of a =
     \<lparr>doc_account_type = debug_account_type (acc_type a), doc_currency = acc_currency a,
      doc_balance_cents = balance a, doc_hold_cents = available_balance a,
      doc_status = debug_account_status (acc_status a)\<rparr>"

text \<open>What comes back of an account: not its status, its holds or its owner.\<close>

definition reopened :: "uuid \<Rightarrow> account \<Rightarrow> account \<Rightarrow> bool" where
  "reopened k a a' \<longleftrightarrow>
     (\<exists>t1 t2. a' = \<lparr>acc_id = k, acc_type = acc_type a, acc_currency = acc_currency a, balance = balance a,
        available_balance = balance a, acc_status = Open, owner_party_id = None, acc_created_at = t1,
        last_updated = t2\<rparr>)"

lemma load_saved_account:
  assumes "faithful_texts se"
  shows "\<exists>a'. load_account se uid t1 t2 (account_row_of (se_show_uuid se k) (account_doc_of a)) = Ok a' \<and> reopened k a a'"
  using assms
  by (auto simp: faithful_texts_def load_account_def account_row_of_def account_doc_of_def or_else_def
      uuid_part_account [simplified] read_debug_account_type account_new_def reopened_def)

lemma load_rows_total:
  assumes "\<And>uid t1 t2 row. row \<in> set rows \<Longrightarrow> \<exists>a. load_account se uid t1 t2 row = Ok a \<and> P row a"
  shows "\<exists>as. load_rows se cx i rows = Ok as \<and> list_all2 P rows as"
  using assms
proof (induction rows arbitrary: i)
  case (Cons row rows)
  obtain a where a: "load_account se (fresh cx i) (utc cx (2 * i)) (utc cx (2 * i + 1)) row = Ok a" "P row a"
    using Cons.prems [of row] by fastforce
  obtain as where "load_rows se cx (i + 1) rows = Ok as" "list_all2 P rows as" using Cons by fastforce
  with a show ?case by simp
qed simp

lemma fold_insert_raw:
  "fold (\<lambda>a. insert_raw (acc_id a) a) as svc k =
     (if k \<in> acc_id ` set as then Some (last (filter (\<lambda>a. acc_id a = k) as)) else svc k)"
  by (induction as rule: rev_induct) (auto simp: insert_raw_def)

text \<open>The accounts whose documents are accepted.\<close>

definition accepted_accounts :: "(account_doc \<Rightarrow> bool) \<Rightarrow> registry \<Rightarrow> registry" where
  "accepted_accounts okA svc k =
     (case svc k of None \<Rightarrow> None | Some a \<Rightarrow> if okA (account_doc_of a) then Some a else None)"

definition saved_docs ::
  "store_env \<Rightarrow> registry \<Rightarrow> uuid set \<Rightarrow> (string \<rightharpoonup> account_doc) \<Rightarrow> string \<rightharpoonup> account_doc"
where
  "saved_docs se svc K m j =
     (case se_parse_uuid se j of
        Err _ \<Rightarrow> m j
      | Ok k \<Rightarrow> if se_show_uuid se k = j \<and> k \<in> K \<and> svc k \<noteq> None then Some (account_doc_of (the (svc k))) else m j)"

lemma save_registered_docs:
  assumes "document_db db accts blks okA okB" and "faithful_texts se"
  shows "accts (save_registered se db svc k d) = saved_docs se (accepted_accounts okA svc) {k} (accts d) \<and>
    blks (save_registered se db svc k d) = blks d"
proof (cases "svc k")
  case None
  then show ?thesis
    by (auto simp: save_registered_def saved_docs_def accepted_accounts_def fun_eq_iff split: sum.split)
next
  case (Some a)
  obtain r d' where d': "db_upsert_account db (se_show_uuid se k) (account_doc_of a) d = (r, d')"
      "accts d' = (if okA (account_doc_of a) then (accts d)(se_show_uuid se k \<mapsto> account_doc_of a) else accts d)"
      "blks d' = blks d"
    using document_db_account [OF assms(1)] .
  have "save_registered se db svc k d = d'"
    using d'(1) Some by (cases r) (simp_all add: save_registered_def save_account_raw_def ignore_result_def prefix_error_def
        account_doc_of_def balance_cents_def available_balance_cents_def)
  moreover have "(if okA (account_doc_of a) then (accts d)(se_show_uuid se k \<mapsto> account_doc_of a) else accts d) =
      saved_docs se (accepted_accounts okA svc) {k} (accts d)"
    using Some assms(2)
    by (auto simp: saved_docs_def accepted_accounts_def fun_eq_iff faithful_texts_def split: sum.split)
  ultimately show ?thesis using d' by simp
qed

lemma saved_docs_twice: "saved_docs se svc K (saved_docs se svc L m) = saved_docs se svc (K \<union> L) m"
  by (auto simp: saved_docs_def fun_eq_iff split: sum.split)

lemma fold_save_registered:
  assumes "document_db db accts blks okA okB" and "faithful_texts se"
  shows "accts (fold (save_registered se db svc) ks d) = saved_docs se (accepted_accounts okA svc) (set ks) (accts d) \<and>
    blks (fold (save_registered se db svc) ks d) = blks d"
proof (induction ks arbitrary: d)
  case Nil
  show ?case by (auto simp: saved_docs_def fun_eq_iff split: sum.split)
next
  case (Cons k ks)
  then show ?case
    using save_registered_docs [OF assms, of svc k d] by (simp add: saved_docs_twice Un_commute)
qed

lemma fold_save_entries:
  assumes "document_db db accts blks okA okB"
  shows "accts (fold (\<lambda>entry. ignore_result (save_journal_entry se db entry)) es d) = accts d \<and>
    blks (fold (\<lambda>entry. ignore_result (save_journal_entry se db entry)) es d) = blks d"
proof (induction es arbitrary: d)
  case (Cons e es)
  have "accts (ignore_result (save_journal_entry se db e) d) = accts d \<and>
      blks (ignore_result (save_journal_entry se db e) d) = blks d"
    using assms by (auto simp: document_db_def ignore_result_def save_journal_entry_def prefix_error_def
        case_prod_unfold split: sum.split)
  with Cons show ?case by simp
qed simp

subsection \<open>Blocks across a restart\<close>

lemma save_blocks_docs:
  assumes "document_db db accts blks okA okB" and "\<forall>b \<in> set bs. okB (block_doc_of se b)"
  shows "\<exists>d'. save_blocks se db bs d = (Ok (), d') \<and> accts d' = accts d \<and>
    blks d' = blks d ++ map_of (rev (map (\<lambda>b. (link_index b, block_doc_of se b)) bs))"
  using assms(2)
proof (induction bs arbitrary: d)
  case (Cons b bs)
  obtain r d1 where "db_upsert_block db (link_index b) (block_doc_of se b) d = (r, d1)" "r = Ok ()" "accts d1 = accts d"
      "blks d1 = (blks d)(link_index b \<mapsto> block_doc_of se b)"
    using document_db_block [OF assms(1), of "link_index b" "block_doc_of se b" d] Cons.prems by auto
  moreover obtain d' where "save_blocks se db bs d1 = (Ok (), d')" "accts d' = accts d1"
      "blks d' = blks d1 ++ map_of (rev (map (\<lambda>b. (link_index b, block_doc_of se b)) bs))"
    using Cons by fastforce
  ultimately show ?case by simp
qed simp

lemma save_blocks_refused:
  assumes "document_db db accts blks okA okB" and "\<forall>b \<in> set bs. \<not> okB (block_doc_of se b)"
  shows "accts (snd (save_blocks se db bs d)) = accts d \<and> blks (snd (save_blocks se db bs d)) = blks d"
  using assms(2)
proof (induction bs arbitrary: d)
  case (Cons b bs)
  obtain r d1 where d1: "db_upsert_block db (link_index b) (block_doc_of se b) d = (r, d1)" "accts d1 = accts d" "blks d1 = blks d"
    using document_db_block [OF assms(1), of "link_index b" "block_doc_of se b" d] Cons.prems by auto
  then show ?case using Cons by (cases r) simp_all
qed simp

text \<open>
  Everything the task wrote, from an empty database. Whatever happens to the blocks, the
  accounts stay.
\<close>

lemma save_blocks_accounts:
  assumes "document_db db accts blks okA okB"
  shows "accts (snd (save_blocks se db bs d)) = accts d"
proof (induction bs arbitrary: d)
  case (Cons b bs)
  obtain r d1 where "db_upsert_block db (link_index b) (block_doc_of se b) d = (r, d1)" "accts d1 = accts d"
    using document_db_block [OF assms(1)] by metis
  then show ?case using Cons by (cases r) simp_all
qed simp

lemma persisted_docs:
  assumes "document_db db accts blks okA okB" and "faithful_texts se"
    and "accts d = Map.empty" and "blks d = Map.empty" and "set (order (app_accounts s)) = dom (app_accounts s)"
  shows "accts (persist_after_mutation se db order s d) =
      saved_docs se (accepted_accounts okA (app_accounts s)) UNIV Map.empty \<and>
    ((\<forall>b \<in> set (blocks (app_chain s)). okB (block_doc_of se b)) \<longrightarrow>
       blks (persist_after_mutation se db order s d) =
         map_of (rev (map (\<lambda>b. (link_index b, block_doc_of se b)) (blocks (app_chain s))))) \<and>
    ((\<forall>b \<in> set (blocks (app_chain s)). \<not> okB (block_doc_of se b)) \<longrightarrow>
       blks (persist_after_mutation se db order s d) = Map.empty)"
proof -
  let ?a = "accepted_accounts okA (app_accounts s)"
  let ?d1 = "fold (save_registered se db (app_accounts s)) (order (app_accounts s)) d"
  let ?d2 = "fold (\<lambda>entry. ignore_result (save_journal_entry se db entry)) (take 10 (rev (app_journal s))) ?d1"
  have p: "persist_after_mutation se db order s d = snd (save_blocks se db (blocks (app_chain s)) ?d2)"
    by (simp add: persist_after_mutation_def ignore_result_def save_hash_chain_def)
  have "saved_docs se ?a (dom (app_accounts s)) Map.empty = saved_docs se ?a UNIV Map.empty"
    by (auto simp: saved_docs_def accepted_accounts_def fun_eq_iff split: sum.split option.splits)
  then have d2: "accts ?d2 = saved_docs se ?a UNIV Map.empty" "blks ?d2 = Map.empty"
    using fold_save_registered [OF assms(1,2), of "app_accounts s" "order (app_accounts s)" d]
      fold_save_entries [OF assms(1)] assms(3-5) by simp_all
  show ?thesis
    using d2 save_blocks_accounts [OF assms(1)] save_blocks_docs [OF assms(1), of "blocks (app_chain s)" se ?d2]
      save_blocks_refused [OF assms(1), of "blocks (app_chain s)" se ?d2]
    unfolding p by auto
qed

lemma saved_docs_iff:
  assumes "faithful_texts se"
  shows "saved_docs se svc UNIV Map.empty j = Some doc \<longleftrightarrow>
    (\<exists>k a. svc k = Some a \<and> j = se_show_uuid se k \<and> doc = account_doc_of a)"
proof
  assume "saved_docs se svc UNIV Map.empty j = Some doc"
  then show "\<exists>k a. svc k = Some a \<and> j = se_show_uuid se k \<and> doc = account_doc_of a"
    by (cases "se_parse_uuid se j") (auto simp: saved_docs_def split: if_splits)
qed (use assms in \<open>auto simp: saved_docs_def faithful_texts_def\<close>)

lemma list_all2_sets:
  assumes "list_all2 P xs ys"
  shows "x \<in> set xs \<Longrightarrow> \<exists>y. y \<in> set ys \<and> P x y" and "y \<in> set ys \<Longrightarrow> \<exists>x. x \<in> set xs \<and> P x y"
  using assms by (induction rule: list_all2_induct) auto

text \<open>The registry that the loaded accounts fill.\<close>

lemma registry_of_loaded:
  assumes "\<And>a'. a' \<in> set as \<Longrightarrow> \<exists>k b. svc k = Some b \<and> reopened k b a'"
    and "\<And>k a. svc k = Some a \<Longrightarrow> k \<in> acc_id ` set as"
  shows "case svc k of
       None \<Rightarrow> fold (\<lambda>a. insert_raw (acc_id a) a) as Map.empty k = None
     | Some a \<Rightarrow> \<exists>a'. fold (\<lambda>a. insert_raw (acc_id a) a) as Map.empty k = Some a' \<and> reopened k a a'"
proof (cases "svc k")
  case None
  have "acc_id a' \<noteq> k" if "a' \<in> set as" for a' using assms(1) [OF that] None by (auto simp: reopened_def)
  then show ?thesis using None by (auto simp: fold_insert_raw)
next
  case (Some a)
  let ?l = "last (filter (\<lambda>a. acc_id a = k) as)"
  have k: "k \<in> acc_id ` set as" using assms(2) [OF Some] .
  then have "filter (\<lambda>a. acc_id a = k) as \<noteq> []" by (auto simp: filter_empty_conv)
  from last_in_set [OF this] have l: "?l \<in> set as" "acc_id ?l = k" by auto
  from assms(1) [OF l(1)] l(2) Some have "reopened k a ?l" by (auto simp: reopened_def)
  then show ?thesis using Some k by (simp add: fold_insert_raw)
qed

lemma restored_accounts:
  assumes "document_db db accts blks okA okB" and "faithful_texts se"
    and "accts d = saved_docs se svc UNIV Map.empty" and "finite (dom svc)"
  shows "\<exists>as. load_all_accounts se db cx d = Ok as \<and>
    (\<forall>k. case svc k of
       None \<Rightarrow> fold (\<lambda>a. insert_raw (acc_id a) a) as Map.empty k = None
     | Some a \<Rightarrow> \<exists>a'. fold (\<lambda>a. insert_raw (acc_id a) a) as Map.empty k = Some a' \<and> reopened k a a')"
proof -
  let ?P = "\<lambda>row a'. \<exists>k a. svc k = Some a \<and> row = account_row_of (se_show_uuid se k) (account_doc_of a) \<and> reopened k a a'"
  have "dom (accts d) = se_show_uuid se ` dom svc"
    using saved_docs_iff [OF assms(2), of svc] assms(3) by (auto simp: dom_def)
  then obtain rows where rows: "db_select_accounts db d = Ok rows"
      "set rows = {account_row_of k doc | k doc. accts d k = Some doc}"
    using document_db_selects(1) [OF assms(1), of d] assms(4) by auto
  have all: "row \<in> set rows \<longleftrightarrow> (\<exists>k a. svc k = Some a \<and> row = account_row_of (se_show_uuid se k) (account_doc_of a))" for row
    unfolding rows(2) assms(3) using saved_docs_iff [OF assms(2), of svc] by auto
  have "\<exists>a'. load_account se uid t1 t2 row = Ok a' \<and> ?P row a'" if "row \<in> set rows" for uid t1 t2 row
    using that load_saved_account [OF assms(2), of uid t1 t2] unfolding all by blast
  then obtain as where as: "load_rows se cx 0 rows = Ok as" "list_all2 ?P rows as"
    using load_rows_total [of rows se ?P cx 0] by blast
  have into: "\<exists>k b. svc k = Some b \<and> reopened k b a'" if "a' \<in> set as" for a'
    using list_all2_sets(2) [OF as(2) that] by blast
  have onto: "k \<in> acc_id ` set as" if k: "svc k = Some a" for k a
  proof -
    have "account_row_of (se_show_uuid se k) (account_doc_of a) \<in> set rows" using k all by blast
    then obtain a' where a': "a' \<in> set as" "?P (account_row_of (se_show_uuid se k) (account_doc_of a)) a'"
      using list_all2_sets(1) [OF as(2)] by blast
    then have "se_show_uuid se (acc_id a') = se_show_uuid se k" by (auto simp: account_row_of_def reopened_def)
    then have "acc_id a' = k" using assms(2) unfolding faithful_texts_def by (metis sum.inject(2))
    then show ?thesis using a'(1) by blast
  qed
  show ?thesis
    using rows(1) as(1) registry_of_loaded [OF into onto] by (auto simp: load_all_accounts_def)
qed












text \<open>
  The table of accounts in \<open>.surreal/schema.surql\<close>, which is applied when the containers start.
  It knows the status \<open>Active\<close>, which the code never writes, and not \<open>Open\<close>: a database with
  this schema keeps no open account.
\<close>

definition schema_account :: "account_doc \<Rightarrow> bool" where
  "schema_account doc \<longleftrightarrow>
     doc_account_type doc \<in> {''Asset'', ''Liability'', ''Equity'', ''Revenue'', ''Expense''} \<and>
     length (doc_currency doc) = 3 \<and> doc_status doc \<in> {''Active'', ''Frozen'', ''Closed''}"

lemma schema_keeps:
  "accepted_accounts schema_account svc k = Some a \<longleftrightarrow>
     svc k = Some a \<and> acc_status a \<noteq> Open \<and> length (acc_currency a) = 3"
  by (cases "svc k"; cases "acc_type a"; cases "acc_status a")
    (auto simp: accepted_accounts_def schema_account_def account_doc_of_def debug_account_status_def
      debug_account_type_def split: account_status.splits account_type.splits)

lemma schema_loses_open_accounts:
  assumes "document_db db accts blks schema_account okB" and "faithful_texts se"
    and "accts d0 = Map.empty" and "blks d0 = Map.empty"
    and "set (order (app_accounts s)) = dom (app_accounts s)" and "finite (dom (app_accounts s))"
    and "d = persist_after_mutation se db order s d0" and "app_accounts s k = Some a" and "acc_status a = Open"
  shows "\<exists>as. load_all_accounts se db cx d = Ok as \<and> fold (\<lambda>a. insert_raw (acc_id a) a) as Map.empty k = None"
proof -
  let ?svc = "accepted_accounts schema_account (app_accounts s)"
  have "accts d = saved_docs se ?svc UNIV Map.empty" using persisted_docs [OF assms(1,2), of d0 order s] assms(3-5,7) by simp
  moreover have "finite (dom ?svc)"
    using assms(6) by (rule rev_finite_subset) (auto simp: accepted_accounts_def split: option.splits)
  moreover have "?svc k = None" using schema_keeps [of "app_accounts s" k] assms(8,9) by (metis option.exhaust)
  ultimately obtain as where as: "load_all_accounts se db cx d = Ok as"
    "\<forall>j. case ?svc j of None \<Rightarrow> fold (\<lambda>a. insert_raw (acc_id a) a) as Map.empty j = None
       | Some a \<Rightarrow> \<exists>a'. fold (\<lambda>a. insert_raw (acc_id a) a) as Map.empty j = Some a' \<and> reopened j a a'"
    using restored_accounts [OF assms(1,2), of d ?svc cx] by blast
  from spec [OF as(2), of k] have "fold (\<lambda>a. insert_raw (acc_id a) a) as Map.empty k = None"
    unfolding \<open>?svc k = None\<close> by simp
  then show ?thesis using as(1) by blast
qed

text \<open>
  One identifier that the \<open>uuid\<close> package cannot read, for instance one that comes back with
  escapes around it, and no account at all is restored.
\<close>

lemma unreadable_id_restores_nothing:
  assumes "db_select_accounts db d = Ok rows" and "row \<in> set rows"
    and "se_parse_uuid se (uuid_part (or_else (row_id row) [])) = Err e"
  shows "app_accounts (restore_from_store se cr db cx now later d s) = app_accounts s"
proof -
  have "\<exists>e. load_rows se cx i rows = Err e" for i
    using assms(2)
  proof (induction rows arbitrary: i)
    case (Cons x xs)
    show ?case
    proof (cases "load_account se (fresh cx i) (utc cx (2 * i)) (utc cx (2 * i + 1)) x")
      case (Inr a)
      then have "row \<in> set xs" using Cons.prems assms(3) by (auto simp: load_account_def)
      from Cons.IH [OF this, of "i + 1"] Inr show ?thesis by auto
    qed simp
  qed simp
  then obtain e where "load_all_accounts se db cx d = Err e" using assms(1) by (auto simp: load_all_accounts_def)
  then show ?thesis by (simp add: restore_from_store_def Let_def split: sum.split)
qed









end
