(* ===== verification/Rate_Limiter.thy ===== *)
theory Rate_Limiter
  imports Resilience Complex_Main
begin

section \<open>The token bucket, the incident detector and fault injection\<close>

text \<open>
  The parts of \<open>src/service/resilience.rs\<close> that compute in floating point. The type \<open>f64\<close> is a
  parameter: the operations that the code applies to it are the fields of \<open>floats\<close>. A float
  stands for a number, an infinity or no number at all (\<open>fval\<close>), and \<open>float_laws\<close> says what IEEE
  arithmetic promises of the operations: conversions of 32-bit integers are exact, a
  comparison with NaN fails, minima and maxima pass a NaN over, a sum of finite numbers that are
  not negative is at least the first or overflows to infinity, adding zero changes nothing, and
  subtracting one from a number between one and $2^{32}$ is exact. Of the other results,
  infinity times zero for one, nothing is asked. Instants are in nanoseconds;
  \<open>Instant::elapsed\<close> does not go below zero. Random numbers are arguments.
\<close>

record 'f floats =
  fl_zero :: 'f
  fl_one :: 'f
  fl_of_u32 :: "u32 \<Rightarrow> 'f"
  fl_of_u64 :: "u64 \<Rightarrow> 'f"
  fl_secs :: "nat \<Rightarrow> 'f"
  fl_add :: "'f \<Rightarrow> 'f \<Rightarrow> 'f"
  fl_sub :: "'f \<Rightarrow> 'f \<Rightarrow> 'f"
  fl_mul :: "'f \<Rightarrow> 'f \<Rightarrow> 'f"
  fl_div :: "'f \<Rightarrow> 'f \<Rightarrow> 'f"
  fl_max :: "'f \<Rightarrow> 'f \<Rightarrow> 'f"
  fl_min :: "'f \<Rightarrow> 'f \<Rightarrow> 'f"
  fl_ge :: "'f \<Rightarrow> 'f \<Rightarrow> bool"
  fl_lt :: "'f \<Rightarrow> 'f \<Rightarrow> bool"

subsection \<open>The token bucket\<close>

record 'f token_bucket =
  tb_capacity :: u32
  tb_rate :: 'f
  tb_tokens :: 'f
  tb_last_refill :: timestamp

definition bucket_new :: "'f floats \<Rightarrow> timestamp \<Rightarrow> u32 \<Rightarrow> 'f \<Rightarrow> 'f token_bucket" where
  "bucket_new fl now cap rate_per_second =
     \<lparr>tb_capacity = cap, tb_rate = rate_per_second, tb_tokens = fl_of_u32 fl cap, tb_last_refill = now\<rparr>"

definition elapsed :: "timestamp \<Rightarrow> timestamp \<Rightarrow> nat" where
  "elapsed now past = nat (now - past)"

definition refill :: "'f floats \<Rightarrow> timestamp \<Rightarrow> timestamp \<Rightarrow> 'f token_bucket \<Rightarrow> 'f token_bucket" where
  "refill fl now1 now2 b =
     (let new_tokens = fl_mul fl (fl_secs fl (elapsed now1 (tb_last_refill b))) (fl_max fl (tb_rate b) (fl_zero fl))
      in b\<lparr>tb_tokens := fl_min fl (fl_max fl (fl_add fl (tb_tokens b) new_tokens) (fl_zero fl)) (fl_of_u32 fl (tb_capacity b)),
           tb_last_refill := now2\<rparr>)"

definition try_consume :: "'f floats \<Rightarrow> timestamp \<Rightarrow> timestamp \<Rightarrow> 'f token_bucket \<Rightarrow> bool \<times> 'f token_bucket" where
  "try_consume fl now1 now2 b =
     (let b1 = refill fl now1 now2 b
      in if fl_ge fl (tb_tokens b1) (fl_one fl)
         then (True, b1\<lparr>tb_tokens := fl_sub fl (tb_tokens b1) (fl_one fl)\<rparr>)
         else (False, b1))"

text \<open>\<open>clk\<close> lists the instants, two per iteration.\<close>

fun consume_loop :: "'f floats \<Rightarrow> (nat \<Rightarrow> timestamp) \<Rightarrow> nat \<Rightarrow> nat \<Rightarrow> 'f token_bucket \<Rightarrow> bool \<times> 'f token_bucket" where
  "consume_loop fl clk i 0 b = (True, b)"
| "consume_loop fl clk i (Suc n) b =
     (case try_consume fl (clk (2 * i)) (clk (2 * i + 1)) b of
        (False, b') \<Rightarrow> (False, b')
      | (True, b') \<Rightarrow> consume_loop fl clk (Suc i) n b')"

definition try_consume_n :: "'f floats \<Rightarrow> (nat \<Rightarrow> timestamp) \<Rightarrow> u32 \<Rightarrow> 'f token_bucket \<Rightarrow> bool \<times> 'f token_bucket" where
  "try_consume_n fl clk n b = consume_loop fl clk 0 (unat n) b"

subsection \<open>Service levels and the incident detector\<close>

record 'f service_level_objective =
  slo_name :: string
  slo_latency_p99_ms :: u64
  slo_availability :: 'f
  slo_error_rate_max :: 'f
  slo_window :: nat

definition signals_error_rate :: "'f floats \<Rightarrow> signals \<Rightarrow> 'f" where
  "signals_error_rate fl g =
     (if request_count g = 0 then fl_zero fl else fl_div fl (fl_of_u64 fl (error_count g)) (fl_of_u64 fl (request_count g)))"

text \<open>\<open>rank\<close> is the index that the floating-point expression of \<open>latency_percentile\<close> computes.\<close>

definition latency_percentile :: "nat \<Rightarrow> signals \<Rightarrow> int option" where
  "latency_percentile rank g =
     (if latency_samples g = [] then None
      else Some (sort (latency_samples g) ! min rank (length (latency_samples g) - 1)))"

record 'f incident_detector =
  id_slo :: "'f service_level_objective"
  id_signals :: signals
  id_consecutive_failures :: u32
  id_threshold :: u32

text \<open>\<open>as_millis() as u64\<close> of a duration in nanoseconds.\<close>

definition millis :: "int \<Rightarrow> u64" where
  "millis d = word_of_int (d div 1000000)"

definition detector_check :: "'f floats \<Rightarrow> nat \<Rightarrow> 'f incident_detector \<Rightarrow> incident_status \<times> 'f incident_detector" where
  "detector_check fl rank d =
     (let error_high = fl_lt fl (slo_error_rate_max (id_slo d)) (signals_error_rate fl (id_signals d));
          latency_high = (case latency_percentile rank (id_signals d) of
                            None \<Rightarrow> False
                          | Some p99 \<Rightarrow> unat (millis p99) > unat (slo_latency_p99_ms (id_slo d)))
      in case incident_check (id_threshold d) error_high latency_high (id_consecutive_failures d) of
           (status, failures) \<Rightarrow> (status, d\<lparr>id_consecutive_failures := failures\<rparr>))"

subsection \<open>Fault injection\<close>

record 'f chaos_agent =
  ca_latency_probability :: 'f
  ca_latency_duration :: nat
  ca_error_probability :: 'f
  ca_crash_probability :: 'f
  ca_active :: bool

definition chaos_new :: "'f floats \<Rightarrow> 'f chaos_agent" where
  "chaos_new fl =
     \<lparr>ca_latency_probability = fl_zero fl, ca_latency_duration = 100, ca_error_probability = fl_zero fl,
      ca_crash_probability = fl_zero fl, ca_active = False\<rparr>"

definition chaos_enable :: "'f \<Rightarrow> nat \<Rightarrow> 'f \<Rightarrow> 'f \<Rightarrow> 'f chaos_agent \<Rightarrow> 'f chaos_agent" where
  "chaos_enable latency_pct latency_ms error_pct crash_pct c =
     c\<lparr>ca_latency_probability := latency_pct, ca_latency_duration := latency_ms,
       ca_error_probability := error_pct, ca_crash_probability := crash_pct, ca_active := True\<rparr>"

definition chaos_disable :: "'f chaos_agent \<Rightarrow> 'f chaos_agent" where
  "chaos_disable c = c\<lparr>ca_active := False\<rparr>"

text \<open>The outer option is the simulated crash; the first random number only decides about a delay.\<close>

definition chaos_intercept ::
  "'f floats \<Rightarrow> (nat \<Rightarrow> 'f) \<Rightarrow> ('t, string) result \<Rightarrow> 'f chaos_agent \<Rightarrow> ('t, string) result option"
where
  "chaos_intercept fl random res c =
     (if \<not> ca_active c then Some res
      else if fl_lt fl (random 1) (ca_error_probability c) then Some (Err ''CHAOS: injected fault'')
      else if \<not> fl_ge fl (random 2) (ca_crash_probability c) then None
      else Some res)"

subsection \<open>What is asked of the floats\<close>

definition cap_rat :: "u32 \<Rightarrow> rat" where
  "cap_rat n = of_nat (unat n)"

datatype fval = Fin rat | PInf | NInf | NaN

fun fv_ge :: "fval \<Rightarrow> fval \<Rightarrow> bool" where
  "fv_ge (Fin x) (Fin y) = (y \<le> x)"
| "fv_ge NaN _ = False"
| "fv_ge _ NaN = False"
| "fv_ge PInf _ = True"
| "fv_ge _ PInf = False"
| "fv_ge _ NInf = True"
| "fv_ge NInf _ = False"

definition fv_max :: "fval \<Rightarrow> fval \<Rightarrow> fval" where
  "fv_max a b = (if a = NaN then b else if b = NaN \<or> fv_ge a b then a else b)"

definition fv_min :: "fval \<Rightarrow> fval \<Rightarrow> fval" where
  "fv_min a b = (if a = NaN then b else if b = NaN \<or> fv_ge b a then a else b)"

text \<open>A finite number that is at least \<open>x\<close>, or the overflow of one.\<close>

fun fv_above :: "rat \<Rightarrow> fval \<Rightarrow> bool" where
  "fv_above x (Fin y) = (x \<le> y)"
| "fv_above x PInf = True"
| "fv_above x _ = False"

definition float_laws :: "'f floats \<Rightarrow> ('f \<Rightarrow> fval) \<Rightarrow> bool" where
  "float_laws fl val \<longleftrightarrow>
     val (fl_zero fl) = Fin 0 \<and> val (fl_one fl) = Fin 1 \<and> (\<forall>n. val (fl_of_u32 fl n) = Fin (cap_rat n)) \<and>
     (\<forall>a b. fl_ge fl a b \<longleftrightarrow> fv_ge (val a) (val b)) \<and>
     (\<forall>a b. val (fl_max fl a b) = fv_max (val a) (val b)) \<and> (\<forall>a b. val (fl_min fl a b) = fv_min (val a) (val b)) \<and>
     (\<forall>a b x. val a = Fin x \<and> 0 \<le> x \<and> fv_above 0 (val b) \<longrightarrow> fv_above x (val (fl_add fl a b))) \<and>
     (\<forall>a b x. val a = Fin x \<and> val b = Fin 0 \<longrightarrow> val (fl_add fl a b) = Fin x) \<and>
     (\<forall>n a x. val a = Fin x \<and> 0 \<le> x \<longrightarrow> fv_above 0 (val (fl_mul fl (fl_secs fl n) a))) \<and>
     (\<forall>a x. val a = Fin x \<longrightarrow> val (fl_mul fl (fl_secs fl 0) a) = Fin 0) \<and>
     (\<forall>a x. val a = Fin x \<and> 1 \<le> x \<and> x \<le> 2 ^ 32 \<longrightarrow> val (fl_sub fl a (fl_one fl)) = Fin (x - 1))"

lemma float_lawsD:
  assumes "float_laws fl val"
  shows "val (fl_zero fl) = Fin 0" and "val (fl_one fl) = Fin 1" and "val (fl_of_u32 fl n) = Fin (cap_rat n)"
    and "fl_ge fl a b \<longleftrightarrow> fv_ge (val a) (val b)"
    and "val (fl_max fl a b) = fv_max (val a) (val b)" and "val (fl_min fl a b) = fv_min (val a) (val b)"
    and "val a = Fin x \<Longrightarrow> 0 \<le> x \<Longrightarrow> fv_above 0 (val b) \<Longrightarrow> fv_above x (val (fl_add fl a b))"
    and "val a = Fin x \<Longrightarrow> val b = Fin 0 \<Longrightarrow> val (fl_add fl a b) = Fin x"
    and "val a = Fin x \<Longrightarrow> 0 \<le> x \<Longrightarrow> fv_above 0 (val (fl_mul fl (fl_secs fl m) a))"
    and "val a = Fin x \<Longrightarrow> val (fl_mul fl (fl_secs fl 0) a) = Fin 0"
    and "val a = Fin x \<Longrightarrow> 1 \<le> x \<Longrightarrow> x \<le> 2 ^ 32 \<Longrightarrow> val (fl_sub fl a (fl_one fl)) = Fin (x - 1)"
  using assms by (simp_all add: float_laws_def)

subsection \<open>What the bucket admits\<close>

definition whole_tokens :: "('f \<Rightarrow> fval) \<Rightarrow> 'f token_bucket \<Rightarrow> nat" where
  "whole_tokens val b = (case val (tb_tokens b) of Fin x \<Rightarrow> nat \<lfloor>x\<rfloor> | _ \<Rightarrow> 0)"

text \<open>Between zero and the capacity, whatever the rate.\<close>

definition bucket_ok :: "('f \<Rightarrow> fval) \<Rightarrow> u32 \<Rightarrow> 'f token_bucket \<Rightarrow> bool" where
  "bucket_ok val cap b \<longleftrightarrow>
     tb_capacity b = cap \<and> (case val (tb_tokens b) of Fin x \<Rightarrow> 0 \<le> x \<and> x \<le> cap_rat cap | _ \<Rightarrow> False)"

text \<open>The requests of the middleware: one token each.\<close>

fun bucket_run :: "'f floats \<Rightarrow> (timestamp \<times> timestamp) list \<Rightarrow> 'f token_bucket \<Rightarrow> bool list \<times> 'f token_bucket" where
  "bucket_run fl [] b = ([], b)"
| "bucket_run fl ((now1, now2) # ts) b =
     (let (r, b1) = try_consume fl now1 now2 b; (rs, b2) = bucket_run fl ts b1 in (r # rs, b2))"

text \<open>Any calls: \<open>try_consume\<close> with the two instants it reads, \<open>try_consume_n\<close> with all of them.\<close>

datatype bucket_call = TryConsume timestamp timestamp | TryConsumeN "nat \<Rightarrow> timestamp" u32

fun call_bucket :: "'f floats \<Rightarrow> bucket_call \<Rightarrow> 'f token_bucket \<Rightarrow> bool \<times> 'f token_bucket" where
  "call_bucket fl (TryConsume now1 now2) b = try_consume fl now1 now2 b"
| "call_bucket fl (TryConsumeN clk n) b = try_consume_n fl clk n b"

definition bucket_calls :: "'f floats \<Rightarrow> bucket_call list \<Rightarrow> 'f token_bucket \<Rightarrow> 'f token_bucket" where
  "bucket_calls fl cs b = fold (\<lambda>c b. snd (call_bucket fl c b)) cs b"

lemma cap_bound: "0 \<le> cap_rat cap" "cap_rat cap \<le> 2 ^ 32" "nat \<lfloor>cap_rat cap\<rfloor> = unat cap"
proof -
  have "unat cap < 2 ^ LENGTH(32)" by (rule unsigned_less)
  then have "unat cap \<le> 2 ^ 32" by simp
  then have "(of_nat (unat cap) :: rat) \<le> of_nat (2 ^ 32)" by (rule of_nat_mono)
  then show "cap_rat cap \<le> 2 ^ 32" unfolding cap_rat_def by (metis of_nat_numeral of_nat_power)
  show "0 \<le> cap_rat cap" unfolding cap_rat_def by (rule of_nat_0_le_iff)
  show "nat \<lfloor>cap_rat cap\<rfloor> = unat cap" unfolding cap_rat_def floor_of_nat nat_int ..
qed

lemma bucket_okE:
  assumes "bucket_ok val cap b"
  obtains x where "val (tb_tokens b) = Fin x" "0 \<le> x" "x \<le> cap_rat cap" "whole_tokens val b = nat \<lfloor>x\<rfloor>"
    "tb_capacity b = cap"
  using assms by (auto simp: bucket_ok_def whole_tokens_def split: fval.splits)

lemma bucket_new_ok:
  assumes "float_laws fl val"
  shows "bucket_ok val cap (bucket_new fl t0 cap rate)" "whole_tokens val (bucket_new fl t0 cap rate) = unat cap"
  using float_lawsD(3) [OF assms] cap_bound(1,3) by (simp_all add: bucket_ok_def bucket_new_def whole_tokens_def)

text \<open>The clamp gives a number between zero and the capacity even for NaN and the infinities.\<close>

lemma clamp:
  assumes "float_laws fl val"
  shows "\<exists>x. val (fl_min fl (fl_max fl a (fl_zero fl)) (fl_of_u32 fl cap)) = Fin x \<and> 0 \<le> x \<and> x \<le> cap_rat cap \<and>
    (\<forall>y. y \<le> cap_rat cap \<longrightarrow> fv_above y (val a) \<longrightarrow> y \<le> x) \<and>
    (\<forall>y. val a = Fin y \<longrightarrow> 0 \<le> y \<longrightarrow> y \<le> cap_rat cap \<longrightarrow> x = y)"
  using cap_bound(1) [of cap]
  by (cases "val a") (auto simp: float_lawsD(1,3,5,6) [OF assms] fv_max_def fv_min_def)

lemma refill_ok:
  assumes "float_laws fl val" and "tb_capacity b = cap"
  shows "bucket_ok val cap (refill fl now1 now2 b)" "tb_last_refill (refill fl now1 now2 b) = now2"
    "tb_rate (refill fl now1 now2 b) = tb_rate b"
proof -
  let ?n = "fl_mul fl (fl_secs fl (elapsed now1 (tb_last_refill b))) (fl_max fl (tb_rate b) (fl_zero fl))"
  show "bucket_ok val cap (refill fl now1 now2 b)"
    using clamp [OF assms(1), of "fl_add fl (tb_tokens b) ?n" cap] assms(2) by (auto simp: bucket_ok_def refill_def Let_def)
qed (simp_all add: refill_def Let_def)

text \<open>
  With a rate that is not \<open>+\<infinity>\<close> waiting never takes tokens away, and at a standstill nothing
  changes. (An infinite rate times no time at all is NaN, and the clamp makes zero tokens of it.)
\<close>

lemma refill_effect:
  assumes "float_laws fl val" and "bucket_ok val cap b" and "val (tb_rate b) \<noteq> PInf" and "val (tb_tokens b) = Fin x"
  shows "\<exists>y. val (tb_tokens (refill fl now1 now2 b)) = Fin y \<and> x \<le> y \<and>
    (elapsed now1 (tb_last_refill b) = 0 \<longrightarrow> y = x)"
proof -
  let ?r = "fl_max fl (tb_rate b) (fl_zero fl)"
  let ?n = "fl_mul fl (fl_secs fl (elapsed now1 (tb_last_refill b))) ?r"
  have "\<exists>r. val ?r = Fin r \<and> 0 \<le> r"
    using assms(3) by (cases "val (tb_rate b)") (auto simp: float_lawsD(1,5) [OF assms(1)] fv_max_def)
  then obtain r where r: "val ?r = Fin r" "0 \<le> r" by blast
  have x: "0 \<le> x" "x \<le> cap_rat cap" and cap: "tb_capacity b = cap"
    using assms(2,4) by (simp_all add: bucket_ok_def)
  have above: "fv_above x (val (fl_add fl (tb_tokens b) ?n))"
    by (intro float_lawsD(7) [OF assms(1)] assms(4) x(1) float_lawsD(9) [OF assms(1) r])
  moreover have "val (fl_add fl (tb_tokens b) ?n) = Fin x" if "elapsed now1 (tb_last_refill b) = 0"
    using float_lawsD(8) [OF assms(1,4) float_lawsD(10) [OF assms(1) r(1)]] that by simp
  ultimately show ?thesis
    using clamp [OF assms(1), of "fl_add fl (tb_tokens b) ?n" cap] x cap by (auto simp: refill_def Let_def)
qed

lemma consume_effect:
  assumes "float_laws fl val" and "tb_capacity b = cap"
  shows "bucket_ok val cap (snd (try_consume fl now1 now2 b)) \<and>
    tb_last_refill (snd (try_consume fl now1 now2 b)) = now2 \<and> tb_rate (snd (try_consume fl now1 now2 b)) = tb_rate b \<and>
    (\<exists>y. val (tb_tokens (refill fl now1 now2 b)) = Fin y \<and> (fst (try_consume fl now1 now2 b) \<longleftrightarrow> 1 \<le> y) \<and>
       val (tb_tokens (snd (try_consume fl now1 now2 b))) = Fin (y - (if 1 \<le> y then 1 else 0)))"
proof -
  let ?b = "refill fl now1 now2 b"
  note b = refill_ok [OF assms, of now1 now2]
  obtain y where y: "val (tb_tokens ?b) = Fin y" "0 \<le> y" "y \<le> cap_rat cap" using bucket_okE [OF b(1)] by blast
  then have "y \<le> 2 ^ 32" using cap_bound(2) [of cap] by simp
  with y(1) have "1 \<le> y \<Longrightarrow> val (fl_sub fl (tb_tokens ?b) (fl_one fl)) = Fin (y - 1)"
    using float_lawsD(11) [OF assms(1)] by blast
  then show ?thesis
    using b y float_lawsD(2,4) [OF assms(1)] by (simp add: try_consume_def Let_def bucket_ok_def)
qed

lemma consume_loop_ok:
  assumes "float_laws fl val" and "bucket_ok val cap b"
  shows "bucket_ok val cap (snd (consume_loop fl clk i n b)) \<and> tb_rate (snd (consume_loop fl clk i n b)) = tb_rate b"
  using assms(2)
proof (induction n arbitrary: i b)
  case (Suc n)
  obtain r b1 where c: "try_consume fl (clk (2 * i)) (clk (2 * i + 1)) b = (r, b1)" by fastforce
  have "tb_capacity b = cap" using Suc.prems by (simp add: bucket_ok_def)
  from consume_effect [OF assms(1) this, of "clk (2 * i)" "clk (2 * i + 1)"]
  have "bucket_ok val cap b1" "tb_rate b1 = tb_rate b" using c by simp_all
  with Suc.IH [of b1 "Suc i"] c show ?case by (cases r) simp_all
qed simp

lemma bucket_calls_ok:
  assumes "float_laws fl val" and "bucket_ok val cap b"
  shows "bucket_ok val cap (bucket_calls fl cs b) \<and> tb_rate (bucket_calls fl cs b) = tb_rate b"
  using assms(2)
proof (induction cs arbitrary: b)
  case (Cons c cs)
  have "bucket_ok val cap (snd (call_bucket fl c b)) \<and> tb_rate (snd (call_bucket fl c b)) = tb_rate b"
    using consume_effect [OF assms(1)] consume_loop_ok [OF assms(1) Cons.prems] Cons.prems
    by (cases c) (auto simp: try_consume_n_def bucket_ok_def)
  with Cons.IH [of "snd (call_bucket fl c b)"] show ?case by (simp add: bucket_calls_def)
qed (simp add: bucket_calls_def)

text \<open>A request at the instant of the last refill takes a whole token, if there is one.\<close>

lemma consume_still:
  assumes "float_laws fl val" and "bucket_ok val cap b" and "val (tb_rate b) \<noteq> PInf"
    and "try_consume fl (tb_last_refill b) now2 b = (r, b1)"
  shows "bucket_ok val cap b1" "tb_last_refill b1 = now2" "tb_rate b1 = tb_rate b" "r \<longleftrightarrow> 0 < whole_tokens val b"
    "whole_tokens val b1 = whole_tokens val b - 1"
    "val (tb_tokens b) = Fin x \<Longrightarrow> val (tb_tokens b1) = Fin (x - (if r then 1 else 0))"
proof -
  obtain x where x: "val (tb_tokens b) = Fin x" "0 \<le> x" "whole_tokens val b = nat \<lfloor>x\<rfloor>" "tb_capacity b = cap"
    using bucket_okE [OF assms(2)] by blast
  have still: "val (tb_tokens (refill fl (tb_last_refill b) now2 b)) = Fin x"
    using refill_effect [OF assms(1-3) x(1), of "tb_last_refill b" now2] by (auto simp: elapsed_def)
  note e = consume_effect [OF assms(1) x(4), of "tb_last_refill b" now2, unfolded assms(4) still, simplified]
  show "bucket_ok val cap b1" "tb_last_refill b1 = now2" "tb_rate b1 = tb_rate b" using e by simp_all
  show r: "r \<longleftrightarrow> 0 < whole_tokens val b" using e x(3) by simp
  show "val (tb_tokens b) = Fin y \<Longrightarrow> val (tb_tokens b1) = Fin (y - (if r then 1 else 0))" for y
    using e x(1) by auto
  then have "val (tb_tokens b1) = Fin (x - (if r then 1 else 0))" using x(1) by blast
  then show "whole_tokens val b1 = whole_tokens val b - 1"
    using r x(2,3) by (auto simp: whole_tokens_def nat_diff_distrib)
qed

lemma burst:
  assumes "float_laws fl val" and "bucket_ok val cap b" and "val (tb_rate b) \<noteq> PInf"
  shows "fst (bucket_run fl (replicate k (tb_last_refill b, tb_last_refill b)) b) =
    replicate (min k (whole_tokens val b)) True @ replicate (k - whole_tokens val b) False"
  using assms(2,3)
proof (induction k arbitrary: b)
  case (Suc k)
  let ?t = "tb_last_refill b"
  obtain r b1 where c: "try_consume fl ?t ?t b = (r, b1)" by fastforce
  note s = consume_still [OF assms(1) Suc.prems c]
  have run: "fst (bucket_run fl (replicate (Suc k) (?t, ?t)) b) = r # fst (bucket_run fl (replicate k (?t, ?t)) b1)"
    using c by (simp add: case_prod_unfold Let_def)
  have "fst (bucket_run fl (replicate k (?t, ?t)) b1) =
    replicate (min k (whole_tokens val b - 1)) True @ replicate (k - (whole_tokens val b - 1)) False"
    using Suc.IH [OF s(1)] Suc.prems(2) s(2,3,5) by simp
  then show ?case unfolding run using s(4) by (cases "whole_tokens val b") simp_all
qed simp

lemma consume_loop_still:
  assumes "float_laws fl val" and "bucket_ok val cap b" and "val (tb_rate b) \<noteq> PInf" and "val (tb_tokens b) = Fin x"
    and "consume_loop fl (\<lambda>_. tb_last_refill b) i n b = (r, b')"
  shows "(r \<longleftrightarrow> n \<le> whole_tokens val b) \<and> val (tb_tokens b') = Fin (x - of_nat (min n (whole_tokens val b)))"
  using assms(2-)
proof (induction n arbitrary: b i x)
  case (Suc n)
  let ?t = "tb_last_refill b"
  obtain v b1 where c: "try_consume fl ?t ?t b = (v, b1)" by fastforce
  note s = consume_still [OF assms(1) Suc.prems(1,2) c]
  show ?case
  proof (cases v)
    case True
    then have "consume_loop fl (\<lambda>_. tb_last_refill b1) (Suc i) n b1 = (r, b')" using Suc.prems(4) c s(2) by simp
    from Suc.IH [OF s(1) _ s(6) [OF Suc.prems(3)] this] Suc.prems(2) s(3,4,5) True
    show ?thesis by (cases "whole_tokens val b") (simp_all add: min_def)
  next
    case False
    then show ?thesis using Suc.prems(3,4) c s(4) s(6) [OF Suc.prems(3)] by simp
  qed
qed simp

text \<open>
  C34. The token bucket bounds bursts. Whatever calls of \<open>try_consume\<close> and \<open>try_consume_n\<close> at
  whatever instants went before (the clock may even run backwards) and whatever the rate, NaN
  included but not \<open>+\<infinity>\<close>, the bucket holds a finite number of tokens between zero and its capacity,
  all of it when new. Of single requests that arrive in one instant it then admits exactly as
  many as it holds whole tokens and refuses the rest. A request for \<open>n\<close> tokens in that instant is
  granted exactly if it holds that many; granted, it takes \<open>n\<close>, and refused, it takes all the
  whole tokens there are. While it holds a whole token, a single request is admitted at whatever
  instant it comes.
\<close>

theorem token_bucket_bounds_bursts:
  assumes "float_laws fl val" and "val rate \<noteq> PInf" and "b = bucket_calls fl cs (bucket_new fl t0 cap rate)"
    and "whole = whole_tokens val b"
  shows "\<exists>x. val (tb_tokens b) = Fin x \<and> 0 \<le> x \<and> x \<le> cap_rat cap \<and> whole = nat \<lfloor>x\<rfloor> \<and> whole \<le> unat cap \<and>
    (cs = [] \<longrightarrow> whole = unat cap) \<and>
    fst (bucket_run fl (replicate k (tb_last_refill b, tb_last_refill b)) b) =
      replicate (min k whole) True @ replicate (k - whole) False \<and>
    (case try_consume_n fl (\<lambda>_. tb_last_refill b) n b of
       (granted, b') \<Rightarrow> (granted \<longleftrightarrow> unat n \<le> whole) \<and> val (tb_tokens b') = Fin (x - of_nat (min (unat n) whole))) \<and>
    (0 < whole \<longrightarrow> fst (try_consume fl now1 now2 b))"
proof -
  note new = bucket_new_ok [OF assms(1), where cap = cap and ?t0.0 = t0 and rate = rate]
  have ok: "bucket_ok val cap b" and rate: "val (tb_rate b) \<noteq> PInf"
    using bucket_calls_ok [OF assms(1) new(1), of cs] assms(2,3) by (simp_all add: bucket_new_def)
  obtain x where x: "val (tb_tokens b) = Fin x" "0 \<le> x" "x \<le> cap_rat cap" "whole_tokens val b = nat \<lfloor>x\<rfloor>" "tb_capacity b = cap"
    by (rule bucket_okE [OF ok])
  have bound: "whole \<le> unat cap" using x(3,4) cap_bound(3) [of cap] assms(4) by (metis floor_mono nat_mono)
  have full: "cs = [] \<longrightarrow> whole = unat cap" using new(2) assms(3,4) by (simp add: bucket_calls_def)
  have many: "case try_consume_n fl (\<lambda>_. tb_last_refill b) n b of (granted, b') \<Rightarrow>
      (granted \<longleftrightarrow> unat n \<le> whole) \<and> val (tb_tokens b') = Fin (x - of_nat (min (unat n) whole))"
    using consume_loop_still [OF assms(1) ok rate x(1), of 0 "unat n"] assms(4)
    by (auto simp: try_consume_n_def split: prod.split)
  have later: "fst (try_consume fl now1 now2 b)" if "0 < whole"
  proof -
    have "1 \<le> x" using that x(4) assms(4) by simp
    with refill_effect [OF assms(1) ok rate x(1), of now1 now2] consume_effect [OF assms(1) x(5), of now1 now2]
    show ?thesis by auto
  qed
  show ?thesis
    by (intro exI [of _ x] conjI impI x(1-3) bound many later full [rule_format]
        burst [OF assms(1) ok rate, of k, folded assms(4)] x(4) [folded assms(4)])
qed

definition rat_floats :: "rat floats" where
  "rat_floats =
     \<lparr>fl_zero = 0, fl_one = 1, fl_of_u32 = cap_rat, fl_of_u64 = (\<lambda>n. of_nat (unat n)),
      fl_secs = (\<lambda>n. of_nat n / 1000000000), fl_add = (+), fl_sub = (-), fl_mul = (*), fl_div = (/),
      fl_max = max, fl_min = min, fl_ge = (\<lambda>a b. b \<le> a), fl_lt = (<)\<rparr>"

lemma rat_floats_laws: "float_laws rat_floats Fin"
  by (auto simp: float_laws_def rat_floats_def fv_max_def fv_min_def max_def min_def)

text \<open>
  Three tokens: of five requests three are admitted; a request for four is refused and leaves
  none, although there were three.
\<close>

theorem token_bucket_bounds_bursts_witness:
  "fst (bucket_run rat_floats (replicate 5 (0, 0)) (bucket_new rat_floats 0 3 100)) = replicate 3 True @ replicate 2 False \<and>
   (case try_consume_n rat_floats (\<lambda>_. 0) 4 (bucket_new rat_floats 0 3 100) of
      (granted, b') \<Rightarrow> \<not> granted \<and> tb_tokens b' = 0)"
proof -
  let ?b = "bucket_new rat_floats 0 3 100"
  have b: "tb_last_refill ?b = 0" "tb_tokens ?b = 3" "whole_tokens Fin ?b = 3"
    by (simp_all add: bucket_new_def rat_floats_def cap_rat_def whole_tokens_def)
  have four: "min (unat (4 :: u32)) 3 = 3" "\<not> unat (4 :: u32) \<le> 3" by simp_all
  show ?thesis
    using token_bucket_bounds_bursts [OF rat_floats_laws, of 100 ?b "[]" 0 3 3 5 4 0 0]
    unfolding b four by (auto simp: bucket_calls_def b min_def simp del: replicate.simps split: prod.splits)
qed

end
