(* ===== verification/Production.thy ===== *)
theory Production
  imports Account_Service
begin

section \<open>Production hardening\<close>

text \<open>
  \<open>src/service/production.rs\<close>: the post-mortem report, the tuning defaults and recommendations,
  the retry simulation, and the validation of inputs. Texts are lists of UTF-8 bytes; the texts
  of instants are arguments, and so are the random numbers (as the verdict of each attempt, or
  as the number drawn) and whether the \<open>uuid\<close> package parses a text. Sleeping and the latencies
  that are measured have no counterpart, and neither has \<open>setsockopt\<close>.
\<close>

subsection \<open>Post-mortems\<close>

datatype incident_severity = Sev1Critical | Sev2Major | Sev3Minor | Sev4Cosmetic

datatype action_status = Todo | InProgress | ActionDone | WontFix

record timeline_entry =
  te_timestamp :: timestamp
  te_event :: string
  te_actor :: string

record action_item =
  ai_description :: string
  ai_owner :: string
  ai_deadline :: "timestamp option"
  ai_status :: action_status

record post_mortem =
  pm_incident_id :: string
  pm_title :: string
  pm_severity :: incident_severity
  pm_detected_at :: timestamp
  pm_resolved_at :: timestamp
  pm_duration_secs :: nat
  pm_authors :: "string list"
  pm_timeline :: "timeline_entry list"
  pm_root_causes :: "string list"
  pm_what_went_well :: "string list"
  pm_what_went_wrong :: "string list"
  pm_action_items :: "action_item list"
  pm_lessons_learned :: "string list"

definition newline :: string where "newline = [char_of (10 :: nat)]"

definition em_dash :: string where "em_dash = map char_of [226, 128, 148 :: nat]"

definition debug_severity :: "incident_severity \<Rightarrow> string" where
  "debug_severity s =
     (case s of Sev1Critical \<Rightarrow> ''Sev1Critical'' | Sev2Major \<Rightarrow> ''Sev2Major''
      | Sev3Minor \<Rightarrow> ''Sev3Minor'' | Sev4Cosmetic \<Rightarrow> ''Sev4Cosmetic'')"

definition status_label :: "action_status \<Rightarrow> string" where
  "status_label s =
     (case s of
        Todo \<Rightarrow> map char_of [240, 159, 148, 180 :: nat] @ '' TODO''
      | InProgress \<Rightarrow> map char_of [240, 159, 159, 161 :: nat] @ '' IN PROGRESS''
      | ActionDone \<Rightarrow> map char_of [240, 159, 159, 162 :: nat] @ '' DONE''
      | WontFix \<Rightarrow> map char_of [226, 154, 171 :: nat] @ '' WONTFIX'')"

definition timeline_line :: "(timestamp \<Rightarrow> string) \<Rightarrow> timeline_entry \<Rightarrow> string" where
  "timeline_line clock e =
     ''- **'' @ clock (te_timestamp e) @ ''** '' @ em_dash @ '' '' @ te_event e @ '' (by '' @ te_actor e @ '')'' @ newline"

definition cause_line :: "nat \<Rightarrow> string \<Rightarrow> string" where
  "cause_line i cause = show_nat (i + 1) @ ''. '' @ cause @ newline"

definition item_line :: "action_item \<Rightarrow> string" where
  "item_line a =
     ''- ['' @ status_label (ai_status a) @ ''] '' @ ai_description a @ '' '' @ em_dash @ '' Owner: '' @ ai_owner a @ newline"

definition to_markdown :: "(timestamp \<Rightarrow> string) \<Rightarrow> (timestamp \<Rightarrow> string) \<Rightarrow> post_mortem \<Rightarrow> string" where
  "to_markdown show_time clock p =
     ''# Post-Mortem: '' @ pm_title p @ newline @ newline @
     ''- **Incident**: '' @ pm_incident_id p @ newline @
     ''- **Severity**: '' @ debug_severity (pm_severity p) @ newline @
     ''- **Duration**: '' @ show_nat (pm_duration_secs p) @ ''s'' @ newline @
     ''- **Detected**: '' @ show_time (pm_detected_at p) @ newline @
     ''- **Resolved**: '' @ show_time (pm_resolved_at p) @ newline @ newline @
     ''## Timeline'' @ newline @ newline @
     concat (map (timeline_line clock) (pm_timeline p)) @
     newline @ ''## Root Cause Analysis'' @ newline @ newline @
     concat (map (\<lambda>(i, cause). cause_line i cause) (enumerate 0 (pm_root_causes p))) @
     newline @ ''## Action Items'' @ newline @ newline @
     concat (map item_line (pm_action_items p))"

subsection \<open>Tuning\<close>

record performance_tuning =
  pt_cpu_affinity :: "nat list"
  pt_huge_pages :: bool
  pt_memlock :: bool
  pt_reuse_port :: bool
  pt_tcp_nodelay :: bool
  pt_send_buffer_size :: nat
  pt_recv_buffer_size :: nat

definition tuning_default :: performance_tuning where
  "tuning_default =
     \<lparr>pt_cpu_affinity = [0], pt_huge_pages = True, pt_memlock = True, pt_reuse_port = True,
      pt_tcp_nodelay = True, pt_send_buffer_size = 4194304, pt_recv_buffer_size = 4194304\<rparr>"

definition kernel_recommendations :: "performance_tuning \<Rightarrow> string list" where
  "kernel_recommendations t =
     [''# CPU isolation (GRUB)'', ''isolcpus=1-7 nohz_full=1-7 rcu_nocbs=1-7''] @
     (if pt_huge_pages t
      then [''# Transparent Huge Pages'', ''echo always > /sys/kernel/mm/transparent_hugepage/enabled'',
            ''echo defer+madvise > /sys/kernel/mm/transparent_hugepage/defrag''] else []) @
     (if pt_memlock t then [''# Prevent swapping'', ''* soft memlock unlimited''] else []) @
     (if pt_reuse_port t
      then [''# Network tuning'', ''net.core.somaxconn = 65535'', ''net.ipv4.tcp_max_syn_backlog = 65535''] else [])"

subsection \<open>The retry simulation\<close>

record herd_sim =
  hs_num_clients :: nat
  hs_jitter_ms :: u64
  hs_backoff_base_ms :: u64

definition herd_default :: herd_sim where
  "herd_default = \<lparr>hs_num_clients = 1000, hs_jitter_ms = 50, hs_backoff_base_ms = 100\<rparr>"

text \<open>The delay before attempt \<open>attempt\<close>; the product and the power wrap.\<close>

definition retry_delay :: "herd_sim \<Rightarrow> nat \<Rightarrow> u64" where
  "retry_delay h attempt = hs_backoff_base_ms h * 2 ^ attempt"

text \<open>
  One client: the attempts from \<open>attempt\<close> on, \<open>left\<close> of them. \<open>ok\<close> is the verdict of an attempt.
  The result is whether one succeeded, and the delays that were slept.
\<close>

fun client_attempts :: "herd_sim \<Rightarrow> (nat \<Rightarrow> bool) \<Rightarrow> nat \<Rightarrow> nat \<Rightarrow> bool \<times> u64 list" where
  "client_attempts h ok attempt 0 = (False, [])"
| "client_attempts h ok attempt (Suc left) =
     (let slept = (if attempt > 0 then [retry_delay h attempt] else [])
      in if ok attempt then (True, slept)
         else case client_attempts h ok (Suc attempt) left of (r, ds) \<Rightarrow> (r, slept @ ds))"

definition simulate_with_backoff :: "herd_sim \<Rightarrow> (nat \<Rightarrow> nat \<Rightarrow> bool) \<Rightarrow> nat \<Rightarrow> nat \<times> u64 list" where
  "simulate_with_backoff h ok max_retries =
     (let runs = map (\<lambda>i. client_attempts h (ok i) 0 max_retries) [0..<hs_num_clients h]
      in (length (filter fst runs), concat (map snd runs)))"

text \<open>The delay of a client with jitter: a remainder by zero panics.\<close>

definition jitter_delay :: "herd_sim \<Rightarrow> u64 \<Rightarrow> u64 option" where
  "jitter_delay h drawn = (if hs_jitter_ms h = 0 then None else Some (drawn mod hs_jitter_ms h))"

subsection \<open>Input validation\<close>

definition validate_input :: "(string \<Rightarrow> bool) \<Rightarrow> i64 \<Rightarrow> string \<Rightarrow> (unit, string) result" where
  "validate_input parses amount_cents account_id =
     (if sint amount_cents \<le> 0 then Err ''Amount must be positive''
      else if sint amount_cents > 1000000000000 then Err ''Amount exceeds maximum''
      else if \<not> parses account_id then Err ''Invalid account ID format''
      else Ok ())"

record security_hardening =
  sh_input_validation :: bool
  sh_sql_injection_prevention :: bool
  sh_rate_limiting :: bool
  sh_tls_enabled :: bool
  sh_authentication :: bool
  sh_authorization :: bool
  sh_audit_logging :: bool
  sh_secret_rotation :: bool
  sh_dependency_scanning :: bool

definition hardening_default :: security_hardening where
  "hardening_default =
     \<lparr>sh_input_validation = True, sh_sql_injection_prevention = False, sh_rate_limiting = True,
      sh_tls_enabled = False, sh_authentication = False, sh_authorization = False,
      sh_audit_logging = True, sh_secret_rotation = False, sh_dependency_scanning = True\<rparr>"

subsection \<open>What they guarantee\<close>

text \<open>Every item of a post-mortem is in its report, in order.\<close>

lemma markdown_lists_everything:
  "\<exists>pre post. to_markdown show_time clock p =
     pre @ concat (map (timeline_line clock) (pm_timeline p)) @ newline @ ''## Root Cause Analysis'' @ newline @ newline @
     concat (map (\<lambda>(i, cause). cause_line i cause) (enumerate 0 (pm_root_causes p))) @ post @
     concat (map item_line (pm_action_items p))"
  unfolding to_markdown_def
  by (intro exI [of _ "''# Post-Mortem: '' @ pm_title p @ newline @ newline @
     ''- **Incident**: '' @ pm_incident_id p @ newline @
     ''- **Severity**: '' @ debug_severity (pm_severity p) @ newline @
     ''- **Duration**: '' @ show_nat (pm_duration_secs p) @ ''s'' @ newline @
     ''- **Detected**: '' @ show_time (pm_detected_at p) @ newline @
     ''- **Resolved**: '' @ show_time (pm_resolved_at p) @ newline @ newline @
     ''## Timeline'' @ newline @ newline"]
     exI [of _ "newline @ ''## Action Items'' @ newline @ newline"]) simp

lemma client_attempts_spec:
  "fst (client_attempts h ok attempt n) \<longleftrightarrow> (\<exists>k<n. ok (attempt + k))"
proof (induction n arbitrary: attempt)
  case (Suc n)
  have "(\<exists>k<Suc n. ok (attempt + k)) \<longleftrightarrow> ok attempt \<or> (\<exists>k<n. ok (Suc attempt + k))"
    by (auto simp: less_Suc_eq_0_disj)
  then show ?case using Suc [of "Suc attempt"] by (auto simp: Let_def case_prod_unfold split: if_splits)
qed simp

text \<open>
  A client succeeds exactly when one of its first \<open>max_retries\<close> attempts does, and the successes
  counted are the clients that do: never more than there are clients.
\<close>

lemma backoff_counts_clients:
  "fst (simulate_with_backoff h ok max_retries) =
     card {i. i < hs_num_clients h \<and> (\<exists>k<max_retries. ok i k)} \<and>
   fst (simulate_with_backoff h ok max_retries) \<le> hs_num_clients h"
proof -
  have f: "fst (simulate_with_backoff h ok max_retries) =
      length (filter (\<lambda>i. \<exists>k<max_retries. ok i k) [0..<hs_num_clients h])"
    using client_attempts_spec [of h _ 0 max_retries] by (simp add: simulate_with_backoff_def Let_def filter_map comp_def)
  have "set (filter (\<lambda>i. \<exists>k<max_retries. ok i k) [0..<hs_num_clients h]) =
      {i. i < hs_num_clients h \<and> (\<exists>k<max_retries. ok i k)}" by auto
  then have "card {i. i < hs_num_clients h \<and> (\<exists>k<max_retries. ok i k)} =
      length (filter (\<lambda>i. \<exists>k<max_retries. ok i k) [0..<hs_num_clients h])"
    by (metis distinct_card distinct_filter distinct_upt)
  moreover have "length (filter (\<lambda>i. \<exists>k<max_retries. ok i k) [0..<hs_num_clients h]) \<le> hs_num_clients h"
    using length_filter_le [of _ "[0..<hs_num_clients h]"] by simp
  ultimately show ?thesis using f by simp
qed

text \<open>
  Validated amounts are safe. \<open>validate_input\<close> accepts exactly positive amounts of at most
  $10^{12}$ with an account identifier that parses, and names the first rule that is broken;
  and crediting an accepted amount to an open account of up to $9 \times 10^{18}$ that keeps its
  invariant always succeeds, without overflow.
\<close>

theorem validated_amount_is_safe:
  "(validate_input parses n i = Ok () \<longleftrightarrow> 0 < sint n \<and> sint n \<le> 1000000000000 \<and> parses i) \<and>
   (sint n \<le> 0 \<longrightarrow> validate_input parses n i = Err ''Amount must be positive'') \<and>
   (validate_input parses n i = Ok () \<and> account_inv a \<and> acc_status a = Open \<and> sint (balance a) \<le> 9000000000000000000 \<longrightarrow>
      fst (credit a n now) = Ok (balance a + n) \<and> sint (balance a + n) = sint (balance a) + sint n)"
proof -
  have v: "validate_input parses n i = Ok () \<longleftrightarrow> 0 < sint n \<and> sint n \<le> 1000000000000 \<and> parses i"
    by (auto simp: validate_input_def)
  have "fst (credit a n now) = Ok (balance a + n) \<and> sint (balance a + n) = sint (balance a) + sint n"
    if "0 < sint n" "sint n \<le> 1000000000000" "account_inv a" "acc_status a = Open" "sint (balance a) \<le> 9000000000000000000"
  proof -
    have "sint (available_balance a) \<le> sint (balance a)" using that(3) by (simp add: account_inv_def)
    then have "i64_in_range (sint (balance a) + sint n)" "i64_in_range (sint (available_balance a) + sint n)"
      using that sint_i64_lower [of "balance a"] sint_i64_lower [of "available_balance a"] by (simp_all add: i64_simps)
    then show ?thesis using that by (simp add: credit_def Let_def checked_add_i64_def sint_add_i64)
  qed
  with v show ?thesis by (auto simp: validate_input_def)
qed

theorem validated_amount_is_safe_witness:
  "fst (credit (account_new 1 0 0 Asset ''USD'' 50 None) 1000000 0) = Ok 1000050"
  using validated_amount_is_safe [of "\<lambda>_. True" 1000000 "''id''" "account_new 1 0 0 Asset ''USD'' 50 None" 0]
  by (simp add: account_new_def account_inv_def)

end
