(* ===== verification/Json.thy ===== *)
theory Json
  imports Ledger_Prelude
begin

section \<open>JSON values and their schemas\<close>

text \<open>
  The values that the \<open>json!\<close> macro and the derived \<open>Serialize\<close> implementations build
  (\<open>src/api/mod.rs\<close>, \<open>src/extensions.rs\<close>, \<open>src/rbac.rs\<close>). An object is the list of its fields in
  the order the source writes them; floating-point numbers are of the parameter type \<open>'f\<close>. A
  schema says which fields an object has and which values they take: the ranges of the integer
  types and the names of the enumerations included. \<open>has_schema\<close> is the typing relation, and the
  rules below are collected in \<open>schema_rules\<close>.
\<close>

named_theorems schema_rules

datatype 'f json =
    JNull
  | JBool bool
  | JInt int
  | JFloat 'f
  | JStr string
  | JArr "'f json list"
  | JObj "(string \<times> 'f json) list"

datatype schema =
    SBool
  | SRange int int
  | SCount
  | SFloat
  | SText
  | SEnum "string list"
  | SNullable schema
  | SList schema
  | SObject "(string \<times> schema) list"
  | SDict schema

primrec has_schema :: "schema \<Rightarrow> 'f json \<Rightarrow> bool" where
  "has_schema SBool = (\<lambda>j. case j of JBool _ \<Rightarrow> True | _ \<Rightarrow> False)"
| "has_schema (SRange lo hi) = (\<lambda>j. case j of JInt n \<Rightarrow> lo \<le> n \<and> n \<le> hi | _ \<Rightarrow> False)"
| "has_schema SCount = (\<lambda>j. case j of JInt n \<Rightarrow> 0 \<le> n | _ \<Rightarrow> False)"
| "has_schema SFloat = (\<lambda>j. case j of JFloat _ \<Rightarrow> True | _ \<Rightarrow> False)"
| "has_schema SText = (\<lambda>j. case j of JStr _ \<Rightarrow> True | _ \<Rightarrow> False)"
| "has_schema (SEnum names) = (\<lambda>j. case j of JStr t \<Rightarrow> t \<in> set names | _ \<Rightarrow> False)"
| "has_schema (SNullable t) = (\<lambda>j. j = JNull \<or> has_schema t j)"
| "has_schema (SList t) = (\<lambda>j. case j of JArr vs \<Rightarrow> list_all (has_schema t) vs | _ \<Rightarrow> False)"
| "has_schema (SObject fs) =
     (\<lambda>j. case j of
            JObj kvs \<Rightarrow> list_all2 (\<lambda>(k, p) (k', v). k = k' \<and> p v) (map (map_prod id has_schema) fs) kvs
          | _ \<Rightarrow> False)"
| "has_schema (SDict t) = (\<lambda>j. case j of JObj kvs \<Rightarrow> list_all (\<lambda>(_, v). has_schema t v) kvs | _ \<Rightarrow> False)"

subsection \<open>The source's scalar types\<close>

definition j_i64 :: "i64 \<Rightarrow> 'f json" where "j_i64 n = JInt (sint n)"

definition j_u64 :: "u64 \<Rightarrow> 'f json" where "j_u64 n = JInt (uint n)"

definition j_u8 :: "u8 \<Rightarrow> 'f json" where "j_u8 n = JInt (uint n)"

text \<open>A \<open>usize\<close>: lengths of collections, which are below $2^{64}$ on the machine.\<close>

definition j_usize :: "nat \<Rightarrow> 'f json" where "j_usize n = JInt (int n)"

definition j_option :: "('a \<Rightarrow> 'f json) \<Rightarrow> 'a option \<Rightarrow> 'f json" where
  "j_option f x = (case x of None \<Rightarrow> JNull | Some y \<Rightarrow> f y)"

abbreviation s_i64 :: schema where "s_i64 \<equiv> SRange i64_min i64_max"
abbreviation s_u64 :: schema where "s_u64 \<equiv> SRange 0 18446744073709551615"
abbreviation s_u8 :: schema where "s_u8 \<equiv> SRange 0 255"

lemma scalar_schemas [schema_rules]:
  "has_schema s_i64 (j_i64 n)" "has_schema s_u64 (j_u64 m)" "has_schema s_u8 (j_u8 b)"
  "has_schema SCount (j_usize k)"
proof -
  show "has_schema s_i64 (j_i64 n)" using sint_i64_lower [of n] sint_i64_upper [of n] by (simp add: j_i64_def i64_min_def i64_max_def)
  have "uint m < 2 ^ 64" "uint b < 2 ^ 8" using uint_lt2p [of m] uint_lt2p [of b] by simp_all
  then show "has_schema s_u64 (j_u64 m)" "has_schema s_u8 (j_u8 b)" by (simp_all add: j_u64_def j_u8_def)
qed (simp add: j_usize_def)

lemma option_schema [schema_rules]:
  "has_schema (SNullable t) (j_option f x)" if "\<And>y. has_schema t (f y)"
  using that by (simp add: j_option_def split: option.split)

lemma list_schema [schema_rules]:
  "has_schema (SList t) (JArr (map f xs))" if "\<And>x. has_schema t (f x)"
  using that by (simp add: list.pred_map comp_def list_all_iff)

lemma dict_schema [schema_rules]:
  "has_schema (SDict t) (JObj (map (\<lambda>x. (k x, f x)) xs))" if "\<And>x. has_schema t (f x)"
  using that by (simp add: list.pred_map comp_def list_all_iff)

lemma object_schema [schema_rules]:
  "has_schema (SObject []) (JObj [])"
  "has_schema (SObject ((k, t) # fs)) (JObj ((k, v) # kvs)) \<longleftrightarrow> has_schema t v \<and> has_schema (SObject fs) (JObj kvs)"
  by simp_all

lemma text_schema [schema_rules]:
  "has_schema SText (JStr t)" "has_schema SFloat (JFloat x)" "has_schema SBool (JBool b)"
  "has_schema (SEnum names) (JStr t) \<longleftrightarrow> t \<in> set names"
  by simp_all

end
