(* ===== verification/Api_Views.thy ===== *)
theory Api_Views
  imports Api Store Money Saga Chart_Of_Accounts Rate_Limiter Json
begin

section \<open>The answers of the REST API\<close>

text \<open>
  \<open>src/api/mod.rs\<close>: the read-only handlers, the JSON and the status codes of every answer, and the
  table of routes; with the reports that they return, \<open>export_audit\<close> and \<open>permission_matrix\<close> of
  \<open>src/rbac.rs\<close>, \<open>audit_report\<close>, \<open>export_audit_log\<close> and \<open>snapshot\<close> of \<open>src/extensions.rs\<close>. What
  the answers take from packages and from the tables of the standard library is in \<open>view_env\<close>:
  the floats, the decimals, the parser of instants, the escaped form of a text, and the order in
  which hash maps and hash sets yield their elements. \<open>ve_rank\<close> is the index that the
  floating-point expression of \<open>latency_percentile\<close> computes for a percentage and a number of
  samples. A panic is \<open>None\<close>.
\<close>

record ('f, 'd) view_env =
  ve_api :: api_env
  ve_floats :: "'f floats"
  ve_decimals :: "'d decimal_pkg"
  ve_debug_str :: "string \<Rightarrow> string"
  ve_parse_rfc3339 :: "string \<Rightarrow> timestamp option"
  ve_rank :: "nat \<Rightarrow> nat \<Rightarrow> nat"
  ve_uuids :: "uuid set \<Rightarrow> uuid list"
  ve_roles :: "role set \<Rightarrow> role list"
  ve_perms :: "permission set \<Rightarrow> permission list"

subsection \<open>Texts\<close>

definition debug_side :: "entry_side \<Rightarrow> string" where
  "debug_side s = (case s of Debit \<Rightarrow> ''Debit'' | Credit \<Rightarrow> ''Credit'')"

definition debug_circuit :: "circuit_state \<Rightarrow> string" where
  "debug_circuit c =
     (case c of CircuitClosed \<Rightarrow> ''Closed'' | CircuitOpen \<Rightarrow> ''Open'' | CircuitHalfOpen \<Rightarrow> ''HalfOpen'')"

definition debug_party_type :: "('f, 'd) view_env \<Rightarrow> party_type \<Rightarrow> string" where
  "debug_party_type ve t =
     (case t of
        Individual \<Rightarrow> ''Individual'' | Corporation \<Rightarrow> ''Corporation'' | Trust \<Rightarrow> ''Trust''
      | GovernmentAgency \<Rightarrow> ''GovernmentAgency'' | FinancialInstitution \<Rightarrow> ''FinancialInstitution''
      | OtherParty x \<Rightarrow> ''Other('' @ ve_debug_str ve x @ '')'')"

definition debug_party_status :: "party_status \<Rightarrow> string" where
  "debug_party_status s =
     (case s of PartyActive \<Rightarrow> ''Active'' | PartySuspended \<Rightarrow> ''Suspended'' | PartyClosed \<Rightarrow> ''Closed'')"

definition debug_identifier_type :: "('f, 'd) view_env \<Rightarrow> identifier_type \<Rightarrow> string" where
  "debug_identifier_type ve t =
     (case t of
        NationalId \<Rightarrow> ''NationalId'' | PassportNumber \<Rightarrow> ''PassportNumber''
      | TaxIdentificationNumber \<Rightarrow> ''TaxIdentificationNumber''
      | BusinessRegistrationNumber \<Rightarrow> ''BusinessRegistrationNumber''
      | DriversLicense \<Rightarrow> ''DriversLicense'' | Email \<Rightarrow> ''Email'' | Phone \<Rightarrow> ''Phone''
      | OtherIdentifier x \<Rightarrow> ''Other('' @ ve_debug_str ve x @ '')'')"

definition debug_identifier_status :: "identifier_status \<Rightarrow> string" where
  "debug_identifier_status s =
     (case s of IdentifierActive \<Rightarrow> ''Active'' | IdentifierInactive \<Rightarrow> ''Inactive''
      | IdentifierExpired \<Rightarrow> ''Expired'' | PendingVerification \<Rightarrow> ''PendingVerification'')"

definition debug_saga_status :: "saga_status \<Rightarrow> string" where
  "debug_saga_status s =
     (case s of SagaPending \<Rightarrow> ''Pending'' | SagaInProgress \<Rightarrow> ''InProgress'' | SagaCompleted \<Rightarrow> ''Completed''
      | SagaCompensating \<Rightarrow> ''Compensating'' | SagaFailed \<Rightarrow> ''Failed'' | SagaTimedOut \<Rightarrow> ''TimedOut'')"

definition debug_coa_category :: "coa_category \<Rightarrow> string" where
  "debug_coa_category c =
     (case c of coa_category.Asset \<Rightarrow> ''Asset'' | coa_category.Liability \<Rightarrow> ''Liability''
      | coa_category.Equity \<Rightarrow> ''Equity'' | coa_category.Revenue \<Rightarrow> ''Revenue''
      | coa_category.Expense \<Rightarrow> ''Expense'')"

definition debug_normal_balance :: "normal_balance \<Rightarrow> string" where
  "debug_normal_balance b = (case b of NormalDebit \<Rightarrow> ''Debit'' | NormalCredit \<Rightarrow> ''Credit'')"

definition debug_coa_status :: "coa_status \<Rightarrow> string" where
  "debug_coa_status s =
     (case s of CoaActive \<Rightarrow> ''Active'' | CoaInactive \<Rightarrow> ''Inactive'' | CoaProposed \<Rightarrow> ''Proposed'')"

definition debug_role :: "role \<Rightarrow> string" where
  "debug_role r =
     (case r of Admin \<Rightarrow> ''Admin'' | Auditor \<Rightarrow> ''Auditor'' | Teller \<Rightarrow> ''Teller''
      | Customer \<Rightarrow> ''Customer'' | System \<Rightarrow> ''System'' | Compliance \<Rightarrow> ''Compliance'')"

definition debug_permission :: "permission \<Rightarrow> string" where
  "debug_permission p =
     (case p of
        ReadAnyAccount \<Rightarrow> ''ReadAnyAccount'' | ReadOwnAccount \<Rightarrow> ''ReadOwnAccount''
      | CreateAccount \<Rightarrow> ''CreateAccount'' | UpdateAccountStatus \<Rightarrow> ''UpdateAccountStatus''
      | CloseAccount \<Rightarrow> ''CloseAccount'' | InitiateTransfer \<Rightarrow> ''InitiateTransfer''
      | InitiateOwnTransfer \<Rightarrow> ''InitiateOwnTransfer'' | ViewAnyTransaction \<Rightarrow> ''ViewAnyTransaction''
      | ViewOwnTransaction \<Rightarrow> ''ViewOwnTransaction'' | ViewAuditLog \<Rightarrow> ''ViewAuditLog''
      | VerifyChainIntegrity \<Rightarrow> ''VerifyChainIntegrity'' | ExportAuditReport \<Rightarrow> ''ExportAuditReport''
      | ViewTrialBalance \<Rightarrow> ''ViewTrialBalance'' | ManageUsers \<Rightarrow> ''ManageUsers''
      | ManageRoles \<Rightarrow> ''ManageRoles'' | ConfigureLimits \<Rightarrow> ''ConfigureLimits''
      | ViewSystemMetrics \<Rightarrow> ''ViewSystemMetrics'' | RedactPii \<Rightarrow> ''RedactPii''
      | ExportUserData \<Rightarrow> ''ExportUserData'' | GenerateSarReport \<Rightarrow> ''GenerateSarReport''
      | SagaOrchestrate \<Rightarrow> ''SagaOrchestrate'' | AutoReconcile \<Rightarrow> ''AutoReconcile'' | CronJob \<Rightarrow> ''CronJob'')"

definition show_int :: "int \<Rightarrow> string" where
  "show_int n = (if n < 0 then CHR ''-'' # show_nat (nat (- n)) else show_nat (nat n))"

fun join_with :: "string \<Rightarrow> string list \<Rightarrow> string" where
  "join_with sep [] = []"
| "join_with sep [x] = x"
| "join_with sep (x # y # xs) = x @ sep @ join_with sep (y # xs)"

text \<open>\<open>{:?}\<close> of a vector of numbers.\<close>

definition debug_u64s :: "u64 list \<Rightarrow> string" where
  "debug_u64s ns = ''['' @ join_with '', '' (map (\<lambda>n. show_nat (unat n)) ns) @ '']''"

subsection \<open>Errors\<close>

text \<open>The derived \<open>Debug\<close> texts and the \<open>Display\<close> texts that the error answers print.\<close>

definition named_i64s :: "string \<Rightarrow> (string \<times> i64) list \<Rightarrow> string" where
  "named_i64s name kvs =
     name @ '' { '' @
     join_with '', '' (map (\<lambda>(k, v). k @ '': '' @ show_int (sint v)) kvs) @ '' }''"

definition debug_debit_error :: "(uuid \<Rightarrow> string) \<Rightarrow> debit_error \<Rightarrow> string" where
  "debug_debit_error show_uuid e =
     (case e of
        DebitAccountNotFound i \<Rightarrow> ''AccountNotFound('' @ show_uuid i @ '')''
      | DebitInvalidAmount \<Rightarrow> ''InvalidAmount''
      | DebitAccountNotOpen st \<Rightarrow> ''AccountNotOpen('' @ debug_account_status st @ '')''
      | DebitInsufficientFunds a r \<Rightarrow> named_i64s ''InsufficientFunds'' [(''available'', a), (''requested'', r)])"

definition debug_credit_error :: "(uuid \<Rightarrow> string) \<Rightarrow> credit_error \<Rightarrow> string" where
  "debug_credit_error show_uuid e =
     (case e of
        CreditAccountNotFound i \<Rightarrow> ''AccountNotFound('' @ show_uuid i @ '')''
      | CreditInvalidAmount \<Rightarrow> ''InvalidAmount''
      | CreditAccountNotOpen st \<Rightarrow> ''AccountNotOpen('' @ debug_account_status st @ '')''
      | CreditOverflow \<Rightarrow> ''Overflow'')"

definition debug_hold_error :: "(uuid \<Rightarrow> string) \<Rightarrow> hold_error \<Rightarrow> string" where
  "debug_hold_error show_uuid e =
     (case e of
        HoldAccountNotFound i \<Rightarrow> ''AccountNotFound('' @ show_uuid i @ '')''
      | HoldAccountNotOpen st \<Rightarrow> ''AccountNotOpen('' @ debug_account_status st @ '')''
      | HoldInvalidAmount \<Rightarrow> ''InvalidAmount''
      | HoldInsufficientFunds a h \<Rightarrow> named_i64s ''InsufficientFunds'' [(''available'', a), (''hold'', h)]
      | ReleaseExceedsHeld a b r \<Rightarrow>
          named_i64s ''ReleaseExceedsHeld'' [(''available'', a), (''balance'', b), (''attempted_release'', r)])"

definition show_status_error :: "account_status_error \<Rightarrow> string" where
  "show_status_error e =
     (case e of
        ClosedAccount \<Rightarrow> ''Cannot modify closed account''
      | InvalidTransition a b \<Rightarrow>
          ''Invalid status transition from '' @ debug_account_status a @ '' to '' @ debug_account_status b)"

definition show_journal_error :: "journal_error \<Rightarrow> string" where
  "show_journal_error e =
     (case e of
        NotEnoughLegs \<Rightarrow> ''Journal entry must have at least 2 legs''
      | MissingSide \<Rightarrow> ''Journal entry must have at least one debit and one credit''
      | Unbalanced d c \<Rightarrow>
          ''Journal entry unbalanced: debits='' @ show_int (sint d) @ '', credits='' @ show_int (sint c))"

definition show_identity_error :: "(uuid \<Rightarrow> string) \<Rightarrow> identity_error \<Rightarrow> string" where
  "show_identity_error show_uuid e =
     (case e of
        PartyNotFound i \<Rightarrow> ''Party not found: '' @ show_uuid i
      | PartyNotActive i \<Rightarrow> ''Party not active: '' @ show_uuid i
      | IdentifierNotFound i \<Rightarrow> ''Identifier not found: '' @ show_uuid i)"

definition fault_prefix :: "api_request \<Rightarrow> fault \<Rightarrow> string" where
  "fault_prefix req f =
     (case (req, f) of
        (ReqTransfer _, DebitFault _) \<Rightarrow> ''Debit failed: ''
      | (ReqTransfer _, CreditFault _) \<Rightarrow> ''Credit failed: ''
      | (ReqSetStatus _ _, StatusFault _) \<Rightarrow> ''Invalid status transition: ''
      | (ReqCoaDeactivate _, StatusFault _) \<Rightarrow> ''Cannot close account: ''
      | _ \<Rightarrow> [])"

definition fault_text :: "(uuid \<Rightarrow> string) \<Rightarrow> fault \<Rightarrow> string" where
  "fault_text show_uuid f =
     (case f of
        InvalidAccountType \<Rightarrow> ''Invalid account type''
      | InvalidStatus \<Rightarrow> ''Invalid status''
      | DebitFault e \<Rightarrow> debug_debit_error show_uuid e
      | CreditFault e \<Rightarrow> debug_credit_error show_uuid e
      | HoldFault e \<Rightarrow> debug_hold_error show_uuid e
      | StatusFault e \<Rightarrow> show_status_error e
      | JournalFault e \<Rightarrow> ''Journal error: '' @ show_journal_error e
      | SerializeFault e \<Rightarrow> ''Serialize error: '' @ e
      | ReversalFault e \<Rightarrow> ''Cannot reverse journal entry: '' @ show_journal_error e
      | ReversalPostFault (PostDebit e) \<Rightarrow> ''Reversal debit failed: '' @ debug_debit_error show_uuid e
      | ReversalPostFault (PostCredit e) \<Rightarrow> ''Reversal credit failed: '' @ debug_credit_error show_uuid e
      | RedactionFault e \<Rightarrow> e
      | IdentityFault e \<Rightarrow> show_identity_error show_uuid e)"

text \<open>An answer: the status code and the body, which is JSON or plain text.\<close>

datatype 'f body = BodyJson "'f json" | BodyText string

type_synonym 'f response = "nat \<times> 'f body"

definition ok_json :: "'f json \<Rightarrow> 'f response" where
  "ok_json j = (200, BodyJson j)"

definition into_response :: "(fault \<Rightarrow> string) \<Rightarrow> app_error \<Rightarrow> 'f response" where
  "into_response msg e =
     (let (status, message) =
            (case e of
               NotFound \<Rightarrow> (404, ''Not found'')
             | BadRequest f \<Rightarrow> (400, msg f)
             | ServiceUnavailable \<Rightarrow> (503, ''Circuit breaker open''))
      in (status, BodyJson (JObj [(''error'', JStr message)])))"

text \<open>The refusal of \<open>require_permission\<close>, and the one of \<open>bind_role\<close> for an unknown role.\<close>

definition authz_response :: "('f, 'd) view_env \<Rightarrow> app_state \<Rightarrow> authz_failure \<Rightarrow> 'f response" where
  "authz_response ve s e =
     (case e of
        Forbidden perm subject \<Rightarrow>
          (403, BodyJson (JObj [(''error'', JStr ''Permission denied''),
                                (''required'', JStr (debug_permission perm)),
                                (''subject'', JStr (ae_show_uuid (ve_api ve) subject)),
                                (''roles'', JArr (map (\<lambda>r. JStr (debug_role r)) (ve_roles ve (roles_for subject (app_rbac s)))))]))
      | UnknownRole t \<Rightarrow> (400, BodyJson (JObj [(''error'', JStr (''Unknown role: '' @ t))])))"

subsection \<open>Accounts and transfers\<close>

abbreviation j_uuid :: "('f, 'd) view_env \<Rightarrow> uuid \<Rightarrow> 'f json" where
  "j_uuid ve i \<equiv> JStr (ae_show_uuid (ve_api ve) i)"

abbreviation j_time :: "('f, 'd) view_env \<Rightarrow> timestamp \<Rightarrow> 'f json" where
  "j_time ve t \<equiv> JStr (to_rfc3339 (ae_crypto (ve_api ve)) t)"

definition account_json :: "('f, 'd) view_env \<Rightarrow> account_response \<Rightarrow> 'f json" where
  "account_json ve r =
     JObj [(''id'', j_uuid ve (ar_id r)),
           (''account_type'', JStr (debug_account_type (ar_type r))),
           (''currency'', JStr (ar_currency r)),
           (''balance_cents'', j_i64 (ar_balance r)),
           (''available_balance_cents'', j_i64 (ar_available r)),
           (''status'', JStr (debug_account_status (ar_status r))),
           (''balance_formatted'', JStr (ar_formatted r)),
           (''balance_decimal'', JStr (ar_decimal r)),
           (''currency_symbol'', JStr (ar_symbol r)),
           (''currency_decimals'', j_u8 (ar_decimals r))]"

definition transfer_json :: "('f, 'd) view_env \<Rightarrow> transfer_response \<Rightarrow> 'f json" where
  "transfer_json ve r =
     JObj [(''transaction_id'', j_uuid ve (tp_transaction_id r)),
           (''journal_entry_id'', j_uuid ve (tp_journal_entry_id r)),
           (''from_balance'', j_i64 (tp_from_balance r)),
           (''to_balance'', j_i64 (tp_to_balance r)),
           (''chain_index'', j_u64 (tp_chain_index r)),
           (''chain_hash'', JStr (tp_chain_hash r)),
           (''amount_formatted'', JStr (tp_amount_formatted r)),
           (''amount_decimal'', JStr (tp_amount_decimal r))]"

text \<open>\<open>label\<close> is \<open>hold_amount\<close> or \<open>released_amount\<close>.\<close>

definition hold_json :: "('f, 'd) view_env \<Rightarrow> string \<Rightarrow> hold_response \<Rightarrow> 'f json" where
  "hold_json ve label r =
     JObj [(''id'', j_uuid ve (hr_id r)),
           (''balance_cents'', j_i64 (hr_balance r)),
           (''available_balance_cents'', j_i64 (hr_available r)),
           (label, j_i64 (hr_amount r))]"

definition snapshot_json :: "('f, 'd) view_env \<Rightarrow> account \<Rightarrow> currency \<Rightarrow> 'f json option" where
  "snapshot_json ve a cur =
     map_option (\<lambda>display.
       JObj [(''id'', j_uuid ve (acc_id a)),
             (''account_type'', JStr (debug_account_type (acc_type a))),
             (''currency'', JStr (currency_code cur)),
             (''balance_cents'', j_i64 (balance_cents a)),
             (''available_balance_cents'', j_i64 (available_balance_cents a)),
             (''balance_display'', JStr display),
             (''status'', JStr (debug_account_status (acc_status a))),
             (''can_close'', JBool (can_close a))])
       (balance_display (ve_decimals ve) a cur)"

text \<open>The answer of a handler that fails with an \<open>AppError\<close>.\<close>

definition answer ::
  "('f, 'd) view_env \<Rightarrow> (fault \<Rightarrow> string) \<Rightarrow> ('r \<Rightarrow> 'f json) \<Rightarrow> ('r, app_error) result \<Rightarrow> 'f response"
where
  "answer ve prefix j r =
     (case r of
        Err e \<Rightarrow> into_response (\<lambda>f. prefix f @ fault_text (ae_show_uuid (ve_api ve)) f) e
      | Ok x \<Rightarrow> ok_json (j x))"

definition account_snapshot :: "('f, 'd) view_env \<Rightarrow> uuid \<Rightarrow> app_state \<Rightarrow> 'f response option" where
  "account_snapshot ve i s =
     (case get_account i (app_accounts s) of
        None \<Rightarrow> Some (answer ve (\<lambda>_. []) id (Err NotFound))
      | Some a \<Rightarrow> map_option ok_json (snapshot_json ve a (resolve_currency (ve_api ve) (acc_currency a))))"

subsection \<open>Health and metrics\<close>

definition health_handler :: "('f, 'd) view_env \<Rightarrow> app_state \<Rightarrow> 'f json" where
  "health_handler ve s =
     JObj [(''status'', JStr ''healthy''),
           (''uptime_seconds'', j_u64 0),
           (''circuit_state'', JStr (debug_circuit (cb_state (app_breaker s)))),
           (''error_rate'', JFloat (signals_error_rate (ve_floats ve) (app_metrics s)))]"

definition percentile_of :: "('f, 'd) view_env \<Rightarrow> nat \<Rightarrow> app_state \<Rightarrow> 'f json" where
  "percentile_of ve pct s =
     j_option (\<lambda>d. j_u64 (millis d))
       (latency_percentile (ve_rank ve pct (length (latency_samples (app_metrics s)))) (app_metrics s))"

definition metrics_handler :: "('f, 'd) view_env \<Rightarrow> app_state \<Rightarrow> 'f json" where
  "metrics_handler ve s =
     JObj [(''total_requests'', j_u64 (total_requests (app_metrics s))),
           (''error_rate'', JFloat (signals_error_rate (ve_floats ve) (app_metrics s))),
           (''latency_p50_ms'', percentile_of ve 50 s),
           (''latency_p99_ms'', percentile_of ve 99 s),
           (''circuit_state'', JStr (debug_circuit (cb_state (app_breaker s)))),
           (''accounts_count'', j_usize (card (dom (app_accounts s)))),
           (''journal_entries'', j_usize (length (app_journal s))),
           (''chain_length'', j_usize (chain_len (app_chain s)))]"

subsection \<open>Journal and audit trail\<close>

definition leg_json :: "('f, 'd) view_env \<Rightarrow> entry_leg \<Rightarrow> 'f json" where
  "leg_json ve l =
     JObj [(''account_id'', j_uuid ve (leg_account l)),
           (''side'', JStr (debug_side (leg_side l))),
           (''amount_cents'', j_i64 (leg_amount l))]"

definition listed_entry :: "('f, 'd) view_env \<Rightarrow> journal_entry \<Rightarrow> 'f json" where
  "listed_entry ve e =
     JObj [(''id'', j_uuid ve (entry_id e)),
           (''transaction_id'', j_uuid ve (entry_transaction e)),
           (''sequence_number'', j_u64 (sequence_number e)),
           (''legs'', JArr (map (leg_json ve) (legs e))),
           (''description'', JStr (description e)),
           (''recorded_at'', j_time ve (recorded_at e)),
           (''reverses'', j_option (j_uuid ve) (reverses e))]"

definition list_journal :: "('f, 'd) view_env \<Rightarrow> app_state \<Rightarrow> 'f json" where
  "list_journal ve s = JArr (map (listed_entry ve) (app_journal s))"

definition account_entry :: "('f, 'd) view_env \<Rightarrow> journal_entry \<Rightarrow> 'f json" where
  "account_entry ve e =
     JObj [(''id'', j_uuid ve (entry_id e)),
           (''transaction_id'', j_uuid ve (entry_transaction e)),
           (''sequence_number'', j_u64 (sequence_number e)),
           (''description'', JStr (description e)),
           (''recorded_at'', j_time ve (recorded_at e)),
           (''legs'', JArr (map (leg_json ve) (legs e)))]"

definition entries_for_account :: "('f, 'd) view_env \<Rightarrow> uuid \<Rightarrow> app_state \<Rightarrow> 'f json" where
  "entries_for_account ve i s = JArr (map (account_entry ve) (api_entries_for_account i s))"

definition verify_chain_json :: "('f, 'd) view_env \<Rightarrow> app_state \<Rightarrow> 'f json option" where
  "verify_chain_json ve s =
     map_option (\<lambda>((valid, tampered), len).
       JObj [(''valid'', JBool valid),
             (''chain_length'', j_usize len),
             (''tampered_indices'', JArr (map j_u64 tampered))])
       (api_verify_chain (ve_api ve) s)"

definition proof_json :: "('f, 'd) view_env \<Rightarrow> chain_proof \<Rightarrow> 'f json" where
  "proof_json ve p =
     JObj [(''index'', j_u64 (link_index (proof_block p))),
           (''hash'', JStr (link_hash (proof_block p))),
           (''previous_hash'', JStr (link_previous_hash (proof_block p))),
           (''data'', JStr (link_data (proof_block p))),
           (''timestamp'', j_time ve (link_timestamp (proof_block p))),
           (''previous_block_hash'', j_option JStr (previous_block_hash p)),
           (''next_block_hash'', j_option JStr (next_block_hash p))]"

definition trial_balance_json :: "('f, 'd) view_env \<Rightarrow> app_state \<Rightarrow> 'f json" where
  "trial_balance_json ve s =
     (let balances = api_trial_balance s
      in JObj (map (\<lambda>i. (ae_show_uuid (ve_api ve) i,
                         case the (balances i) of
                           (debits, credits, net) \<Rightarrow>
                             JObj [(''debits'', j_i64 debits), (''credits'', j_i64 credits), (''net'', j_i64 net)]))
                (ve_uuids ve (dom balances))))"

definition validate_json :: "('f, 'd) view_env \<Rightarrow> app_state \<Rightarrow> 'f json" where
  "validate_json ve s =
     (case api_validate_entries s of
        (valid, n, invalid) \<Rightarrow>
          JObj [(''valid'', JBool valid),
                (''total_entries'', j_usize n),
                (''invalid_entry_ids'', JArr (map (j_uuid ve) invalid))])"

text \<open>
  A Rust string is the list of its UTF-8 bytes. A slice \<open>[..n]\<close> panics beyond the end and inside a
  character, that is before a continuation byte.
\<close>

definition continuation_byte :: "char \<Rightarrow> bool" where
  "continuation_byte c = (let n = of_char c :: nat in 128 \<le> n \<and> n < 192)"

definition str_prefix :: "nat \<Rightarrow> string \<Rightarrow> string option" where
  "str_prefix n t =
     (if n = length t \<or> n < length t \<and> \<not> continuation_byte (t ! n) then Some (take n t) else None)"

definition utf8 :: "nat list \<Rightarrow> string" where "utf8 = map char_of"

definition line_break :: string where "line_break = [char_of (10 :: nat)]"

definition report_line :: "hash_link \<Rightarrow> string option" where
  "report_line b =
     Option.bind (str_prefix 12 (link_hash b)) (\<lambda>h.
     Option.bind (if length (link_data b) > 60 then map_option (\<lambda>d. d @ ''...'') (str_prefix 57 (link_data b))
                  else Some (link_data b)) (\<lambda>data.
     Option.bind (str_prefix 12 (link_previous_hash b)) (\<lambda>p.
       Some (''['' @ show_nat (unat (link_index b)) @ ''] '' @ h @ '' | data: '' @ data @ '' | prev: '' @ p @ line_break))))"

fun report_lines :: "hash_link list \<Rightarrow> string option" where
  "report_lines [] = Some []"
| "report_lines (b # bs) =
     Option.bind (report_line b) (\<lambda>l. map_option (\<lambda>rest. l @ rest) (report_lines bs))"

definition audit_report :: "crypto \<Rightarrow> timestamp \<Rightarrow> timestamp \<Rightarrow> hash_chain \<Rightarrow> string option" where
  "audit_report cr t_from t_to c =
     (let bs = query_by_time t_from t_to c;
          head = ''=== AUDIT REPORT ==='' @ line_break @ ''Period: '' @ to_rfc3339 cr t_from @ '' '' @
                 utf8 [226, 134, 146] @ '' '' @ to_rfc3339 cr t_to @ line_break @
                 ''Blocks: '' @ show_nat (length bs) @ line_break @ line_break
      in Option.bind (report_lines bs) (\<lambda>body.
         Option.bind (verify_chain cr c) (\<lambda>(valid, tampered).
           Some (head @ body @ line_break @ ''Integrity: '' @
                 (if valid then utf8 [226, 156, 133] @ '' VERIFIED'' else utf8 [226, 157, 140] @ '' TAMPERED'') @
                 '' | Tampered: '' @ debug_u64s tampered @ line_break))))"

text \<open>Without a readable parameter the period is the last day.\<close>

definition day :: int where "day = 24 * 3600 * 1000000000"

definition audit_report_handler ::
  "('f, 'd) view_env \<Rightarrow> call_ctx \<Rightarrow> (string \<rightharpoonup> string) \<Rightarrow> app_state \<Rightarrow> string option"
where
  "audit_report_handler ve cx params s =
     (let t_from = (case Option.bind (params ''from'') (ve_parse_rfc3339 ve) of None \<Rightarrow> utc cx 0 - day | Some t \<Rightarrow> t);
          t_to = (case Option.bind (params ''to'') (ve_parse_rfc3339 ve) of None \<Rightarrow> utc cx 1 | Some t \<Rightarrow> t)
      in audit_report (ae_crypto (ve_api ve)) t_from t_to (app_chain s))"

definition block_json :: "('f, 'd) view_env \<Rightarrow> hash_link \<Rightarrow> 'f json" where
  "block_json ve b =
     JObj [(''index'', j_u64 (link_index b)),
           (''hash'', JStr (link_hash b)),
           (''previous_hash'', JStr (link_previous_hash b)),
           (''data'', JStr (link_data b)),
           (''timestamp'', j_time ve (link_timestamp b)),
           (''nonce'', j_u64 (link_nonce b))]"

definition export_audit_log :: "('f, 'd) view_env \<Rightarrow> hash_chain \<Rightarrow> 'f json list" where
  "export_audit_log ve c = map (block_json ve) (blocks c)"

definition export_audit_handler :: "('f, 'd) view_env \<Rightarrow> app_state \<Rightarrow> 'f json" where
  "export_audit_handler ve s =
     JObj [(''chain_length'', j_usize (chain_len (app_chain s))),
           (''blocks'', JArr (export_audit_log ve (app_chain s)))]"

subsection \<open>Roles and permissions\<close>

definition export_audit :: "('f, 'd) view_env \<Rightarrow> rbac_engine \<Rightarrow> 'f json" where
  "export_audit ve e =
     JObj [(''total_subjects'', j_usize (card (dom (role_bindings e)))),
           (''bindings'', JArr (map (\<lambda>subject.
              JObj [(''subject'', j_uuid ve subject),
                    (''roles'', JArr (map (\<lambda>r. JStr (debug_role r)) (ve_roles ve (roles_for subject e)))),
                    (''effective_permissions'',
                     JArr (map (\<lambda>p. JStr (debug_permission p)) (ve_perms ve (permissions_for subject e))))])
              (ve_uuids ve (dom (role_bindings e)))))]"

text \<open>Padding counts characters: continuation bytes do not count.\<close>

definition char_count :: "string \<Rightarrow> nat" where
  "char_count t = length (filter (\<lambda>c. \<not> continuation_byte c) t)"

definition pad_left :: "nat \<Rightarrow> string \<Rightarrow> string" where
  "pad_left n t = replicate (n - char_count t) (CHR '' '') @ t"

definition pad_right :: "nat \<Rightarrow> string \<Rightarrow> string" where
  "pad_right n t = t @ replicate (n - char_count t) (CHR '' '')"

definition matrix_mark :: "rbac_engine \<Rightarrow> role \<Rightarrow> permission \<Rightarrow> string" where
  "matrix_mark e r p =
     (if (case role_permissions e r of None \<Rightarrow> False | Some ps \<Rightarrow> p \<in> ps) then utf8 [226, 156, 147] else ''-'')"

definition matrix_row :: "rbac_engine \<Rightarrow> role \<Rightarrow> string" where
  "matrix_row e r =
     pad_right 16 (debug_role r) @ '' | '' @
     pad_left 7 (matrix_mark e r ReadAnyAccount) @ '' | '' @
     pad_left 9 (matrix_mark e r CreateAccount) @ '' | '' @
     pad_left 8 (matrix_mark e r InitiateTransfer) @ '' | '' @
     pad_left 7 (matrix_mark e r ViewAnyTransaction) @ '' | '' @
     pad_left 5 (matrix_mark e r ViewAuditLog) @ '' | '' @
     pad_left 6 (matrix_mark e r RedactPii) @ line_break"

definition permission_matrix :: "rbac_engine \<Rightarrow> string" where
  "permission_matrix e =
     ''Role             | ReadAcc | CreateAcc | Transfer | ViewTxn | Audit | Redact'' @ line_break @
     replicate 80 (CHR ''-'') @ line_break @
     concat (map (matrix_row e) [Admin, Auditor, Teller, Customer, System, Compliance])"

definition described_permissions :: "(string \<times> string) list" where
  "described_permissions =
     [(''read_any_account'', ''View any account details and balance''),
      (''read_own_account'', ''View own account details only''),
      (''create_account'', ''Create new accounts''),
      (''update_account_status'', ''Freeze/unfreeze/close accounts''),
      (''close_account'', ''Permanently close an account''),
      (''initiate_transfer'', ''Create transfers between any accounts''),
      (''initiate_own_transfer'', ''Transfer from own accounts only''),
      (''view_any_transaction'', ''View all transactions''),
      (''view_own_transaction'', ''View own transactions only''),
      (''view_audit_log'', ''Access audit trail and hash chain''),
      (''verify_chain_integrity'', ''Run hash chain verification''),
      (''export_audit_report'', ''Download audit report''),
      (''view_trial_balance'', ''View trial balance''),
      (''manage_users'', ''Create/modify/delete subjects''),
      (''manage_roles'', ''Bind/unbind roles to subjects''),
      (''configure_limits'', ''Change rate limits, thresholds''),
      (''view_system_metrics'', ''Access /admin/metrics''),
      (''redact_pii'', ''Redact personally identifiable information''),
      (''export_user_data'', ''GDPR data export''),
      (''generate_sar_report'', ''Suspicious Activity Report'')]"

definition permissions_json :: "('f, 'd) view_env \<Rightarrow> uuid \<Rightarrow> 'f json" where
  "permissions_json ve subject =
     JObj [(''requested_by'', j_uuid ve subject),
           (''permissions'', JArr (map (\<lambda>(code, desc). JObj [(''code'', JStr code), (''description'', JStr desc)])
              described_permissions))]"

text \<open>What stands behind \<open>require_permission\<close>.\<close>

definition permitted ::
  "('f, 'd) view_env \<Rightarrow> uuid option \<Rightarrow> permission \<Rightarrow> (uuid \<Rightarrow> 'f response) \<Rightarrow> app_state \<Rightarrow> 'f response"
where
  "permitted ve header perm view s =
     (case require_permission header perm s of
        Err (p, i) \<Rightarrow> authz_response ve s (Forbidden p i)
      | Ok subject \<Rightarrow> view subject)"

definition list_rbac_permissions :: "('f, 'd) view_env \<Rightarrow> uuid option \<Rightarrow> app_state \<Rightarrow> 'f response" where
  "list_rbac_permissions ve header s =
     permitted ve header ManageRoles (\<lambda>subject. ok_json (permissions_json ve subject)) s"

definition subject_roles_json :: "('f, 'd) view_env \<Rightarrow> uuid \<Rightarrow> role set \<times> permission set \<Rightarrow> 'f json" where
  "subject_roles_json ve i rp =
     JObj [(''subject'', j_uuid ve i),
           (''roles'', JArr (map (\<lambda>r. JStr (debug_role r)) (ve_roles ve (fst rp)))),
           (''effective_permissions'', JArr (map (\<lambda>p. JStr (debug_permission p)) (ve_perms ve (snd rp)))),
           (''permission_count'', j_usize (card (snd rp)))]"

definition rbac_audit_export :: "('f, 'd) view_env \<Rightarrow> uuid option \<Rightarrow> app_state \<Rightarrow> 'f response" where
  "rbac_audit_export ve header s =
     permitted ve header ViewAuditLog (\<lambda>_. ok_json (export_audit ve (app_rbac s))) s"

definition rbac_matrix :: "('f, 'd) view_env \<Rightarrow> uuid option \<Rightarrow> app_state \<Rightarrow> 'f response" where
  "rbac_matrix ve header s =
     permitted ve header ViewAuditLog (\<lambda>_. (200, BodyText (permission_matrix (app_rbac s)))) s"

definition bound_json :: "('f, 'd) view_env \<Rightarrow> uuid \<Rightarrow> string \<Rightarrow> permission set \<Rightarrow> 'f json" where
  "bound_json ve subject role_text perms =
     JObj [(''bound'', JBool True),
           (''subject'', j_uuid ve subject),
           (''role'', JStr role_text),
           (''effective_permissions'', JArr (map (\<lambda>p. JStr (debug_permission p)) (ve_perms ve perms)))]"

subsection \<open>Parties, identifiers, sagas\<close>

definition party_json :: "('f, 'd) view_env \<Rightarrow> party \<Rightarrow> 'f json" where
  "party_json ve p =
     JObj [(''id'', j_uuid ve (party_id p)),
           (''legal_name'', JStr (party_legal_name p)),
           (''party_type'', JStr (debug_party_type ve (party_type_of p))),
           (''status'', JStr (debug_party_status (party_status_of p))),
           (''created_at'', j_time ve (party_created_at p))]"

definition list_parties :: "('f, 'd) view_env \<Rightarrow> app_state \<Rightarrow> 'f json" where
  "list_parties ve s =
     (let ps = List.map_filter (parties (app_identity s)) (ve_uuids ve (dom (parties (app_identity s))))
      in JObj [(''parties'', JArr (map (party_json ve) ps)), (''count'', j_usize (length ps))])"

definition get_party_handler :: "('f, 'd) view_env \<Rightarrow> uuid \<Rightarrow> app_state \<Rightarrow> 'f response" where
  "get_party_handler ve i s =
     answer ve (\<lambda>_. []) (party_json ve)
       (case get_party i (app_identity s) of None \<Rightarrow> Err NotFound | Some p \<Rightarrow> Ok p)"

definition identifier_json :: "('f, 'd) view_env \<Rightarrow> party_identifier \<Rightarrow> 'f json" where
  "identifier_json ve d =
     JObj [(''id'', j_uuid ve (ident_id d)),
           (''party_id'', j_uuid ve (ident_party d)),
           (''identifier_type'', JStr (debug_identifier_type ve (ident_type d))),
           (''value'', JStr (ident_value d)),
           (''status'', JStr (debug_identifier_status (ident_status d))),
           (''issuing_country'', j_option JStr (ident_country d)),
           (''effective_from'', j_time ve (ident_from d)),
           (''effective_to'', j_option (j_time ve) (ident_to d))]"

definition list_identifiers :: "('f, 'd) view_env \<Rightarrow> uuid \<Rightarrow> app_state \<Rightarrow> 'f json" where
  "list_identifiers ve p s =
     (let ds = api_list_identifiers p s
      in JObj [(''identifiers'', JArr (map (identifier_json ve) ds)), (''count'', j_usize (length ds))])"

definition added_json :: "('f, 'd) view_env \<Rightarrow> party_identifier \<Rightarrow> 'f json" where
  "added_json ve d =
     JObj [(''id'', j_uuid ve (ident_id d)),
           (''party_id'', j_uuid ve (ident_party d)),
           (''identifier_type'', JStr (debug_identifier_type ve (ident_type d))),
           (''status'', JStr (debug_identifier_status (ident_status d)))]"

definition verified_json :: "('f, 'd) view_env \<Rightarrow> uuid \<Rightarrow> party_identifier \<Rightarrow> 'f json" where
  "verified_json ve i d =
     JObj [(''id'', j_uuid ve (ident_id d)),
           (''status'', JStr (debug_identifier_status (ident_status d))),
           (''verified_at'', j_option (j_time ve) (ident_verified_at d)),
           (''replaces'', j_uuid ve i)]"

definition replaced_json :: "('f, 'd) view_env \<Rightarrow> uuid \<Rightarrow> party_identifier \<Rightarrow> 'f json" where
  "replaced_json ve i d =
     JObj [(''old_id'', j_uuid ve i),
           (''new_id'', j_uuid ve (ident_id d)),
           (''new_value'', JStr (ident_value d)),
           (''status'', JStr (debug_identifier_status (ident_status d))),
           (''replaces'', j_uuid ve i)]"

definition saga_status_handler :: "('f, 'd) view_env \<Rightarrow> orchestrator \<Rightarrow> uuid \<Rightarrow> 'f response" where
  "saga_status_handler ve sagas i =
     answer ve (\<lambda>_. []) (\<lambda>st. JObj [(''saga_id'', j_uuid ve i), (''status'', JStr (debug_saga_status st))])
       (case get_status i sagas of None \<Rightarrow> Err NotFound | Some st \<Rightarrow> Ok st)"

subsection \<open>The chart of accounts\<close>

definition chart_category :: "account_type \<Rightarrow> coa_category \<times> string" where
  "chart_category t =
     (case t of
        account_type.Asset \<Rightarrow> (coa_category.Asset, ''1000'')
      | account_type.Liability \<Rightarrow> (coa_category.Liability, ''2000'')
      | account_type.Equity \<Rightarrow> (coa_category.Equity, ''3000'')
      | account_type.Revenue \<Rightarrow> (coa_category.Revenue, ''4000'')
      | account_type.Expense \<Rightarrow> (coa_category.Expense, ''5000''))"

text \<open>The chart that both handlers build anew from the registry; \<open>k\<close> counts the identifiers drawn.\<close>

definition chart_entry :: "('f, 'd) view_env \<Rightarrow> call_ctx \<Rightarrow> registry \<Rightarrow> nat \<times> uuid \<Rightarrow> coa_account" where
  "chart_entry ve cx svc ki =
     (let a = the (svc (snd ki)); (cat, code) = chart_category (acc_type a)
      in coa_account_new (fresh cx (fst ki)) (code @ ''_'' @ ae_show_uuid (ve_api ve) (snd ki))
           (debug_account_type (acc_type a)) cat None 1)"

definition registry_chart :: "('f, 'd) view_env \<Rightarrow> call_ctx \<Rightarrow> registry \<Rightarrow> chart" where
  "registry_chart ve cx svc =
     fold (\<lambda>ki c. snd (add_account (chart_entry ve cx svc ki) c))
       (enumerate 0 (ve_uuids ve (dom svc))) (chart_new 1)"

definition coa_summary :: "('f, 'd) view_env \<Rightarrow> call_ctx \<Rightarrow> app_state \<Rightarrow> 'f json" where
  "coa_summary ve cx s =
     (let accounts = active_accounts (registry_chart ve cx (app_accounts s))
      in JObj [(''chart_of_accounts'', JArr (map (\<lambda>a.
                  JObj [(''code'', JStr (coa_code a)),
                        (''name'', JStr (coa_name a)),
                        (''category'', JStr (debug_coa_category (coa_category_of a))),
                        (''normal_balance'', JStr (debug_normal_balance (coa_normal_balance a)))]) accounts)),
               (''total_count'', j_usize (length accounts))])"

definition coa_by_code :: "('f, 'd) view_env \<Rightarrow> call_ctx \<Rightarrow> string \<Rightarrow> app_state \<Rightarrow> 'f response" where
  "coa_by_code ve cx code s =
     answer ve (\<lambda>_. []) (\<lambda>a.
         JObj [(''code'', JStr (coa_code a)),
               (''name'', JStr (coa_name a)),
               (''category'', JStr (debug_coa_category (coa_category_of a))),
               (''normal_balance'', JStr (debug_normal_balance (coa_normal_balance a))),
               (''status'', JStr (debug_coa_status (coa_status_of a)))])
       (case find_by_code code (registry_chart ve cx (app_accounts s)) of None \<Rightarrow> Err NotFound | Some a \<Rightarrow> Ok a)"

subsection \<open>The read-only routes\<close>

datatype view_request =
    VHealth | VMetrics | VJournal | VVerify | VProof u64 | VTrialBalance | VEntries uuid | VValidate
  | VAuditReport "string \<rightharpoonup> string" | VAuditExport | VSnapshot uuid | VParties | VParty uuid | VIdentifiers uuid
  | VSaga uuid | VCoa | VCoaByCode string | VPermissions "uuid option" | VSubject "uuid option" uuid
  | VRbacAudit "uuid option" | VRbacMatrix "uuid option" | VNewTransaction string

definition transaction_json :: "('f, 'd) view_env \<Rightarrow> transaction \<Rightarrow> 'f json" where
  "transaction_json ve t =
     JObj [(''transaction_id'', j_uuid ve (txn_id t)),
           (''reference'', JStr (txn_reference t)),
           (''status'', JStr ''Pending''),
           (''created_at'', j_time ve (txn_created_at t))]"

definition view ::
  "('f, 'd) view_env \<Rightarrow> call_ctx \<Rightarrow> orchestrator \<Rightarrow> view_request \<Rightarrow> app_state \<Rightarrow> 'f response option"
where
  "view ve cx sagas req s =
     (case req of
        VHealth \<Rightarrow> Some (ok_json (health_handler ve s))
      | VMetrics \<Rightarrow> Some (ok_json (metrics_handler ve s))
      | VJournal \<Rightarrow> Some (ok_json (list_journal ve s))
      | VVerify \<Rightarrow> map_option ok_json (verify_chain_json ve s)
      | VProof i \<Rightarrow> Some (answer ve (\<lambda>_. []) (proof_json ve) (api_chain_proof i s))
      | VTrialBalance \<Rightarrow> Some (ok_json (trial_balance_json ve s))
      | VEntries i \<Rightarrow> Some (ok_json (entries_for_account ve i s))
      | VValidate \<Rightarrow> Some (ok_json (validate_json ve s))
      | VAuditReport params \<Rightarrow> map_option (\<lambda>t. (200, BodyText t)) (audit_report_handler ve cx params s)
      | VAuditExport \<Rightarrow> Some (ok_json (export_audit_handler ve s))
      | VSnapshot i \<Rightarrow> account_snapshot ve i s
      | VParties \<Rightarrow> Some (ok_json (list_parties ve s))
      | VParty i \<Rightarrow> Some (get_party_handler ve i s)
      | VIdentifiers i \<Rightarrow> Some (ok_json (list_identifiers ve i s))
      | VSaga i \<Rightarrow> Some (saga_status_handler ve sagas i)
      | VCoa \<Rightarrow> Some (ok_json (coa_summary ve cx s))
      | VCoaByCode code \<Rightarrow> Some (coa_by_code ve cx code s)
      | VPermissions header \<Rightarrow> Some (list_rbac_permissions ve header s)
      | VSubject header i \<Rightarrow>
          Some (case api_subject_roles header i s of
                  Err e \<Rightarrow> authz_response ve s e
                | Ok rp \<Rightarrow> ok_json (subject_roles_json ve i rp))
      | VRbacAudit header \<Rightarrow> Some (rbac_audit_export ve header s)
      | VRbacMatrix header \<Rightarrow> Some (rbac_matrix ve header s)
      | VNewTransaction reference \<Rightarrow> Some (ok_json (transaction_json ve (api_create_transaction cx reference))))"

subsection \<open>The answers of the routes that change the state\<close>

definition reversal_json :: "('f, 'd) view_env \<Rightarrow> uuid \<Rightarrow> journal_entry \<Rightarrow> 'f json" where
  "reversal_json ve eid r =
     JObj [(''reversal_id'', j_uuid ve (entry_id r)),
           (''reverses'', j_uuid ve eid),
           (''transaction_id'', j_uuid ve (entry_transaction r)),
           (''sequence_number'', j_u64 (sequence_number r)),
           (''legs'', JArr (map (leg_json ve) (legs r)))]"

definition redact_json :: "redact_response \<Rightarrow> 'f json" where
  "redact_json r =
     JObj [(''redacted_index'', j_u64 (rr_index r)),
           (''new_chain_head'', JStr (rr_head r)),
           (''chain_length'', j_usize (rr_length r))]"

definition closed_transaction_json :: "('f, 'd) view_env \<Rightarrow> string \<Rightarrow> timestamp \<Rightarrow> uuid \<Rightarrow> 'f json" where
  "closed_transaction_json ve status now txn =
     JObj [(''transaction_id'', j_uuid ve txn),
           (''status'', JStr status),
           (''completed_at'', j_time ve now)]"

definition named_json :: "('f, 'd) view_env \<Rightarrow> string \<Rightarrow> uuid \<Rightarrow> 'f json" where
  "named_json ve status i = JObj [(''id'', j_uuid ve i), (''status'', JStr status)]"

definition answered ::
  "('f, 'd) view_env \<Rightarrow> api_request \<Rightarrow> ('r \<Rightarrow> 'f json) \<Rightarrow> ('r, app_error) result \<times> app_state \<Rightarrow> 'f response \<times> app_state"
where
  "answered ve req j = apfst (answer ve (fault_prefix req) j)"

definition respond ::
  "('f, 'd) view_env \<Rightarrow> call_ctx \<Rightarrow> api_request \<Rightarrow> app_state \<Rightarrow> ('f response \<times> app_state) option"
where
  "respond ve cx req s =
     (let ev = ve_api ve
      in case req of
           ReqCreateAccount ty cur n \<Rightarrow> Some (answered ve req (account_json ve) (api_create_account ev cx ty cur n s))
         | ReqGetAccount i \<Rightarrow> Some (answered ve req (account_json ve) (api_get_account ev cx i s))
         | ReqDebit i n \<Rightarrow> Some (answered ve req (account_json ve) (api_debit ev cx i n s))
         | ReqCredit i n \<Rightarrow> Some (answered ve req (account_json ve) (api_credit ev cx i n s))
         | ReqSetStatus i t \<Rightarrow> Some (answered ve req (account_json ve) (api_set_status ev cx i t s))
         | ReqPlaceHold i n \<Rightarrow> Some (answered ve req (hold_json ve ''hold_amount'') (api_place_hold cx i n s))
         | ReqReleaseHold i n \<Rightarrow>
             Some (answered ve req (hold_json ve ''released_amount'') (api_release_hold cx i n s))
         | ReqTransfer r \<Rightarrow> map_option (answered ve req (transfer_json ve)) (api_transfer ev cx r s)
         | ReqReverse i \<Rightarrow> map_option (answered ve req (reversal_json ve i)) (api_reverse ev cx i s)
         | ReqRedact index \<Rightarrow> Some (answered ve req redact_json (api_redact ev index s))
         | ReqCommit txn \<Rightarrow>
             map_option (apfst (\<lambda>t. ok_json (closed_transaction_json ve ''Committed'' (utc cx 1) t)))
               (api_commit_transaction ev cx txn s)
         | ReqReject txn \<Rightarrow>
             map_option (apfst (\<lambda>t. ok_json (closed_transaction_json ve ''Rejected'' (utc cx 1) t)))
               (api_reject_transaction ev cx txn s)
         | ReqCoaDeactivate i \<Rightarrow>
             map_option (answered ve req (named_json ve ''Deactivated'')) (api_coa_deactivate ev cx i s)
         | ReqBindRole header i t \<Rightarrow>
             Some (apfst (\<lambda>r. case r of Err e \<Rightarrow> authz_response ve s e | Ok perms \<Rightarrow> ok_json (bound_json ve i t perms))
               (api_bind_role ev header i t s))
         | ReqCreateParty ty name \<Rightarrow>
             Some (apfst (\<lambda>i. ok_json (named_json ve ''Active'' i)) (api_create_party ev cx ty name s))
         | ReqAddIdentifier p ty v c \<Rightarrow>
             Some (answered ve req (added_json ve) (api_add_identifier ev cx p ty v c s))
         | ReqVerifyIdentifier ps i \<Rightarrow>
             Some (answered ve req (verified_json ve i) (api_verify_identifier cx ps i s))
         | ReqReplaceIdentifier ps i v \<Rightarrow>
             Some (answered ve req (replaced_json ve i) (api_replace_identifier cx ps i v s)))"

text \<open>
  The middleware: without a token the request is answered before any handler. An answer here is
  the status and the body; the header \<open>X-RateLimit-Remaining\<close> that the code adds to an admitted
  one has the constant value 100 and is left out.
\<close>

definition rate_limit_middleware ::
  "'f floats \<Rightarrow> timestamp \<Rightarrow> timestamp \<Rightarrow> (app_state \<Rightarrow> ('f response \<times> app_state) option) \<Rightarrow>
   'f token_bucket \<times> app_state \<Rightarrow> ('f response \<times> 'f token_bucket \<times> app_state) option"
where
  "rate_limit_middleware fl now1 now2 next bs =
     (case try_consume fl now1 now2 (fst bs) of
        (True, b) \<Rightarrow> map_option (\<lambda>(r, s). (r, b, s)) (next (snd bs))
      | (False, b) \<Rightarrow> Some ((429, BodyText []), b, snd bs))"

subsection \<open>The table of routes\<close>

datatype http_method = Get | Post

definition build_router :: "(http_method \<times> string \<times> string) list" where
  "build_router =
     [(Get, ''/health'', ''health_handler''),
      (Post, ''/accounts'', ''create_account''),
      (Get, ''/accounts/{id}'', ''get_account''),
      (Post, ''/accounts/{id}/debit'', ''debit_account''),
      (Post, ''/accounts/{id}/credit'', ''credit_account''),
      (Post, ''/accounts/{id}/status'', ''set_account_status''),
      (Post, ''/accounts/{id}/hold'', ''place_hold''),
      (Post, ''/accounts/{id}/release'', ''release_hold''),
      (Post, ''/transfers'', ''transfer''),
      (Get, ''/admin/metrics'', ''metrics_handler''),
      (Get, ''/journal'', ''list_journal''),
      (Get, ''/journal/verify'', ''verify_chain''),
      (Get, ''/journal/proof/{index}'', ''chain_proof''),
      (Get, ''/journal/trial-balance'', ''trial_balance''),
      (Get, ''/journal/account/{id}'', ''entries_for_account''),
      (Post, ''/journal/validate'', ''validate_entries''),
      (Get, ''/audit/report'', ''audit_report''),
      (Get, ''/audit/export'', ''export_audit_log''),
      (Post, ''/audit/redact/{index}'', ''redact_block''),
      (Get, ''/accounts/{id}/snapshot'', ''account_snapshot''),
      (Post, ''/parties'', ''create_party''),
      (Get, ''/parties'', ''list_parties''),
      (Get, ''/parties/{id}'', ''get_party''),
      (Post, ''/parties/{id}/identifiers'', ''add_identifier''),
      (Get, ''/parties/{id}/identifiers'', ''list_identifiers''),
      (Post, ''/identifiers/{id}/verify'', ''verify_identifier''),
      (Get, ''/sagas/{id}'', ''get_saga_status''),
      (Get, ''/coa'', ''coa_summary''),
      (Get, ''/rbac/permissions'', ''list_rbac_permissions''),
      (Post, ''/rbac/bind'', ''bind_role''),
      (Get, ''/rbac/subject/{id}'', ''get_subject_roles''),
      (Get, ''/rbac/audit'', ''rbac_audit_export''),
      (Get, ''/rbac/matrix'', ''rbac_matrix''),
      (Post, ''/identifiers/{id}/replace'', ''replace_identifier''),
      (Post, ''/journal/entries/{id}/reverse'', ''reverse_journal_entry''),
      (Post, ''/transactions'', ''create_transaction''),
      (Post, ''/transactions/{id}/commit'', ''commit_transaction''),
      (Post, ''/transactions/{id}/reject'', ''reject_transaction''),
      (Get, ''/coa/by-code/{code}'', ''coa_by_code''),
      (Post, ''/coa/deactivate/{id}'', ''coa_deactivate'')]"

end
