(* ===== verification/Api_Contract.thy ===== *)
theory Api_Contract
  imports Api_Views
begin

section \<open>The contract of the REST API\<close>

text \<open>
  What a client may rely on: the schema of every answer of every route, with the status codes it
  may carry; that the answers belong to the transitions of theory Api; that requests find one
  handler; and that the rate limiter in front admits at most a full bucket at once.
\<close>

subsection \<open>Schemas\<close>

definition s_account_type :: schema where
  "s_account_type = SEnum [''Asset'', ''Liability'', ''Equity'', ''Revenue'', ''Expense'']"

definition s_account_status :: schema where
  "s_account_status = SEnum [''Open'', ''Frozen'', ''Closed'']"

definition s_circuit :: schema where
  "s_circuit = SEnum [''Closed'', ''Open'', ''HalfOpen'']"

definition s_party_status :: schema where
  "s_party_status = SEnum [''Active'', ''Suspended'', ''Closed'']"

definition s_identifier_status :: schema where
  "s_identifier_status = SEnum [''Active'', ''Inactive'', ''Expired'', ''PendingVerification'']"

definition s_saga_status :: schema where
  "s_saga_status = SEnum [''Pending'', ''InProgress'', ''Completed'', ''Compensating'', ''Failed'', ''TimedOut'']"

definition s_side :: schema where
  "s_side = SEnum [''Debit'', ''Credit'']"

definition s_role :: schema where
  "s_role = SEnum (map debug_role [Admin, Auditor, Teller, Customer, System, Compliance])"

definition s_coa_status :: schema where
  "s_coa_status = SEnum [''Active'', ''Inactive'', ''Proposed'']"

definition all_permissions :: "permission list" where
  "all_permissions =
     [ReadAnyAccount, ReadOwnAccount, CreateAccount, UpdateAccountStatus, CloseAccount,
      InitiateTransfer, InitiateOwnTransfer, ViewAnyTransaction, ViewOwnTransaction,
      ViewAuditLog, VerifyChainIntegrity, ExportAuditReport, ViewTrialBalance,
      ManageUsers, ManageRoles, ConfigureLimits, ViewSystemMetrics,
      RedactPii, ExportUserData, GenerateSarReport, SagaOrchestrate, AutoReconcile, CronJob]"

definition s_permission :: schema where
  "s_permission = SEnum (map debug_permission all_permissions)"

definition s_error :: schema where
  "s_error = SObject [(''error'', SText)]"

definition s_forbidden :: schema where
  "s_forbidden = SObject [(''error'', SEnum [''Permission denied'']), (''required'', s_permission),
     (''subject'', SText), (''roles'', SList s_role)]"

definition s_account :: schema where
  "s_account = SObject
     [(''id'', SText), (''account_type'', s_account_type), (''currency'', SText), (''balance_cents'', s_i64),
      (''available_balance_cents'', s_i64), (''status'', s_account_status), (''balance_formatted'', SText),
      (''balance_decimal'', SText), (''currency_symbol'', SText), (''currency_decimals'', s_u8)]"

definition s_transfer :: schema where
  "s_transfer = SObject
     [(''transaction_id'', SText), (''journal_entry_id'', SText), (''from_balance'', s_i64), (''to_balance'', s_i64),
      (''chain_index'', s_u64), (''chain_hash'', SText), (''amount_formatted'', SText), (''amount_decimal'', SText)]"

definition s_hold :: "string \<Rightarrow> schema" where
  "s_hold label = SObject
     [(''id'', SText), (''balance_cents'', s_i64), (''available_balance_cents'', s_i64), (label, s_i64)]"

definition s_snapshot :: schema where
  "s_snapshot = SObject
     [(''id'', SText), (''account_type'', s_account_type), (''currency'', SText), (''balance_cents'', s_i64),
      (''available_balance_cents'', s_i64), (''balance_display'', SText), (''status'', s_account_status),
      (''can_close'', SBool)]"

definition s_leg :: schema where
  "s_leg = SObject [(''account_id'', SText), (''side'', s_side), (''amount_cents'', s_i64)]"

definition s_listed_entry :: schema where
  "s_listed_entry = SObject
     [(''id'', SText), (''transaction_id'', SText), (''sequence_number'', s_u64), (''legs'', SList s_leg),
      (''description'', SText), (''recorded_at'', SText), (''reverses'', SNullable SText)]"

definition s_account_entry :: schema where
  "s_account_entry = SObject
     [(''id'', SText), (''transaction_id'', SText), (''sequence_number'', s_u64), (''description'', SText),
      (''recorded_at'', SText), (''legs'', SList s_leg)]"

definition s_block :: schema where
  "s_block = SObject
     [(''index'', s_u64), (''hash'', SText), (''previous_hash'', SText), (''data'', SText), (''timestamp'', SText),
      (''nonce'', s_u64)]"

definition s_party :: schema where
  "s_party = SObject
     [(''id'', SText), (''legal_name'', SText), (''party_type'', SText), (''status'', s_party_status),
      (''created_at'', SText)]"

definition s_identifier :: schema where
  "s_identifier = SObject
     [(''id'', SText), (''party_id'', SText), (''identifier_type'', SText), (''value'', SText),
      (''status'', s_identifier_status), (''issuing_country'', SNullable SText), (''effective_from'', SText),
      (''effective_to'', SNullable SText)]"

definition s_binding :: schema where
  "s_binding = SObject
     [(''subject'', SText), (''roles'', SList s_role), (''effective_permissions'', SList s_permission)]"

lemmas enum_schemas = s_account_type_def s_account_status_def s_circuit_def s_party_status_def
  s_identifier_status_def s_saga_status_def s_side_def s_role_def s_coa_status_def s_permission_def all_permissions_def

lemmas debug_defs = debug_account_type_def debug_account_status_def debug_circuit_def debug_party_status_def
  debug_identifier_status_def debug_saga_status_def debug_side_def debug_role_def debug_coa_status_def
  debug_permission_def debug_coa_category_def debug_normal_balance_def

lemma enum_texts [schema_rules]:
  "has_schema s_account_type (JStr (debug_account_type ty))"
  "has_schema s_account_status (JStr (debug_account_status st))"
  "has_schema s_circuit (JStr (debug_circuit cs))"
  "has_schema s_party_status (JStr (debug_party_status ps))"
  "has_schema s_identifier_status (JStr (debug_identifier_status ids))"
  "has_schema s_saga_status (JStr (debug_saga_status ss))"
  "has_schema s_side (JStr (debug_side sd))"
  "has_schema s_coa_status (JStr (debug_coa_status cst))"
  "has_schema s_account_type (JStr (debug_coa_category cat))"
  "has_schema s_side (JStr (debug_normal_balance nb))"
  by (simp_all add: enum_schemas debug_defs split: account_type.split account_status.split circuit_state.split
      party_status.split identifier_status.split saga_status.split entry_side.split coa_status.split
      coa_category.split normal_balance.split)

lemma role_text [schema_rules]: "has_schema s_role (JStr (debug_role r))"
  by (cases r) (simp_all add: s_role_def)

lemma all_permissions_complete: "p \<in> set all_permissions"
  by (cases p) (simp_all add: all_permissions_def)

lemma permission_text [schema_rules]: "has_schema s_permission (JStr (debug_permission p))"
  using all_permissions_complete by (simp add: s_permission_def)

lemma part_schemas [schema_rules]:
  "has_schema s_account (account_json ve r)" "has_schema s_transfer (transfer_json ve tr)"
  "has_schema (s_hold label) (hold_json ve label h)" "has_schema s_leg (leg_json ve l)"
  by (simp_all add: s_account_def account_json_def s_transfer_def transfer_json_def s_hold_def hold_json_def
      s_leg_def leg_json_def schema_rules del: has_schema.simps)

lemma record_schemas [schema_rules]:
  "has_schema s_listed_entry (listed_entry ve e)" "has_schema s_account_entry (account_entry ve e)"
  "has_schema s_block (block_json ve b)" "has_schema s_party (party_json ve p)"
  "has_schema s_identifier (identifier_json ve d)"
  by (simp_all add: s_listed_entry_def listed_entry_def s_account_entry_def account_entry_def s_block_def
      block_json_def s_party_def party_json_def s_identifier_def identifier_json_def schema_rules
      del: has_schema.simps)

subsection \<open>The schema of every route\<close>

text \<open>An answer with status 200 has the shape of its route; other statuses have the shape of an error.\<close>

datatype shape = JsonShape schema | TextShape

fun has_shape :: "shape \<Rightarrow> 'f body \<Rightarrow> bool" where
  "has_shape (JsonShape t) (BodyJson j) = has_schema t j"
| "has_shape TextShape (BodyText _) = True"
| "has_shape _ _ = False"

definition answer_ok :: "nat set \<Rightarrow> shape \<Rightarrow> 'f response \<Rightarrow> bool" where
  "answer_ok codes sh r =
     (if fst r = 200 then has_shape sh (snd r)
      else fst r \<in> codes \<and> has_shape (JsonShape (if fst r = 403 then s_forbidden else s_error)) (snd r))"

definition view_shape :: "view_request \<Rightarrow> shape" where
  "view_shape v =
     (case v of
        VHealth \<Rightarrow> JsonShape (SObject [(''status'', SEnum [''healthy'']), (''uptime_seconds'', s_u64),
          (''circuit_state'', s_circuit), (''error_rate'', SFloat)])
      | VMetrics \<Rightarrow> JsonShape (SObject [(''total_requests'', s_u64), (''error_rate'', SFloat),
          (''latency_p50_ms'', SNullable s_u64), (''latency_p99_ms'', SNullable s_u64),
          (''circuit_state'', s_circuit), (''accounts_count'', SCount), (''journal_entries'', SCount),
          (''chain_length'', SCount)])
      | VJournal \<Rightarrow> JsonShape (SList s_listed_entry)
      | VVerify \<Rightarrow> JsonShape (SObject [(''valid'', SBool), (''chain_length'', SCount), (''tampered_indices'', SList s_u64)])
      | VProof _ \<Rightarrow> JsonShape (SObject [(''index'', s_u64), (''hash'', SText), (''previous_hash'', SText),
          (''data'', SText), (''timestamp'', SText), (''previous_block_hash'', SNullable SText),
          (''next_block_hash'', SNullable SText)])
      | VTrialBalance \<Rightarrow> JsonShape (SDict (SObject [(''debits'', s_i64), (''credits'', s_i64), (''net'', s_i64)]))
      | VEntries _ \<Rightarrow> JsonShape (SList s_account_entry)
      | VValidate \<Rightarrow> JsonShape (SObject [(''valid'', SBool), (''total_entries'', SCount), (''invalid_entry_ids'', SList SText)])
      | VAuditReport _ \<Rightarrow> TextShape
      | VAuditExport \<Rightarrow> JsonShape (SObject [(''chain_length'', SCount), (''blocks'', SList s_block)])
      | VSnapshot _ \<Rightarrow> JsonShape s_snapshot
      | VParties \<Rightarrow> JsonShape (SObject [(''parties'', SList s_party), (''count'', SCount)])
      | VParty _ \<Rightarrow> JsonShape s_party
      | VIdentifiers _ \<Rightarrow> JsonShape (SObject [(''identifiers'', SList s_identifier), (''count'', SCount)])
      | VSaga _ \<Rightarrow> JsonShape (SObject [(''saga_id'', SText), (''status'', s_saga_status)])
      | VCoa \<Rightarrow> JsonShape (SObject [(''chart_of_accounts'', SList (SObject [(''code'', SText), (''name'', SText),
          (''category'', s_account_type), (''normal_balance'', s_side)])), (''total_count'', SCount)])
      | VCoaByCode _ \<Rightarrow> JsonShape (SObject [(''code'', SText), (''name'', SText), (''category'', s_account_type),
          (''normal_balance'', s_side), (''status'', s_coa_status)])
      | VPermissions _ \<Rightarrow> JsonShape (SObject [(''requested_by'', SText),
          (''permissions'', SList (SObject [(''code'', SText), (''description'', SText)]))])
      | VSubject _ _ \<Rightarrow> JsonShape (SObject [(''subject'', SText), (''roles'', SList s_role),
          (''effective_permissions'', SList s_permission), (''permission_count'', SCount)])
      | VRbacAudit _ \<Rightarrow> JsonShape (SObject [(''total_subjects'', SCount), (''bindings'', SList s_binding)])
      | VRbacMatrix _ \<Rightarrow> TextShape
      | VNewTransaction _ \<Rightarrow> JsonShape (SObject [(''transaction_id'', SText), (''reference'', SText),
          (''status'', SEnum [''Pending'']), (''created_at'', SText)]))"

definition view_codes :: "view_request \<Rightarrow> nat set" where
  "view_codes v =
     (case v of
        VProof _ \<Rightarrow> {404} | VSnapshot _ \<Rightarrow> {404} | VParty _ \<Rightarrow> {404} | VSaga _ \<Rightarrow> {404} | VCoaByCode _ \<Rightarrow> {404}
      | VPermissions _ \<Rightarrow> {403} | VSubject _ _ \<Rightarrow> {403} | VRbacAudit _ \<Rightarrow> {403} | VRbacMatrix _ \<Rightarrow> {403}
      | _ \<Rightarrow> {})"

definition request_shape :: "api_request \<Rightarrow> schema" where
  "request_shape req =
     (case req of
        ReqCreateAccount _ _ _ \<Rightarrow> s_account | ReqGetAccount _ \<Rightarrow> s_account
      | ReqDebit _ _ \<Rightarrow> s_account | ReqCredit _ _ \<Rightarrow> s_account | ReqSetStatus _ _ \<Rightarrow> s_account
      | ReqPlaceHold _ _ \<Rightarrow> s_hold ''hold_amount'' | ReqReleaseHold _ _ \<Rightarrow> s_hold ''released_amount''
      | ReqTransfer _ \<Rightarrow> s_transfer
      | ReqReverse _ \<Rightarrow> SObject [(''reversal_id'', SText), (''reverses'', SText), (''transaction_id'', SText),
          (''sequence_number'', s_u64), (''legs'', SList s_leg)]
      | ReqRedact _ \<Rightarrow> SObject [(''redacted_index'', s_u64), (''new_chain_head'', SText), (''chain_length'', SCount)]
      | ReqCommit _ \<Rightarrow> SObject [(''transaction_id'', SText), (''status'', SEnum [''Committed'']), (''completed_at'', SText)]
      | ReqReject _ \<Rightarrow> SObject [(''transaction_id'', SText), (''status'', SEnum [''Rejected'']), (''completed_at'', SText)]
      | ReqCoaDeactivate _ \<Rightarrow> SObject [(''id'', SText), (''status'', SEnum [''Deactivated''])]
      | ReqBindRole _ _ _ \<Rightarrow> SObject [(''bound'', SBool), (''subject'', SText), (''role'', SText),
          (''effective_permissions'', SList s_permission)]
      | ReqCreateParty _ _ \<Rightarrow> SObject [(''id'', SText), (''status'', SEnum [''Active''])]
      | ReqAddIdentifier _ _ _ _ \<Rightarrow> SObject [(''id'', SText), (''party_id'', SText), (''identifier_type'', SText),
          (''status'', s_identifier_status)]
      | ReqVerifyIdentifier _ _ \<Rightarrow> SObject [(''id'', SText), (''status'', s_identifier_status),
          (''verified_at'', SNullable SText), (''replaces'', SText)]
      | ReqReplaceIdentifier _ _ _ \<Rightarrow> SObject [(''old_id'', SText), (''new_id'', SText), (''new_value'', SText),
          (''status'', s_identifier_status), (''replaces'', SText)])"

definition request_codes :: "api_request \<Rightarrow> nat set" where
  "request_codes req =
     (case req of
        ReqGetAccount _ \<Rightarrow> {404}
      | ReqReverse _ \<Rightarrow> {400, 404} | ReqCoaDeactivate _ \<Rightarrow> {400, 404}
      | ReqVerifyIdentifier _ _ \<Rightarrow> {400, 404} | ReqReplaceIdentifier _ _ _ \<Rightarrow> {400, 404}
      | ReqRedact _ \<Rightarrow> {400} | ReqAddIdentifier _ _ _ _ \<Rightarrow> {400}
      | ReqBindRole _ _ _ \<Rightarrow> {400, 403}
      | ReqCommit _ \<Rightarrow> {} | ReqReject _ \<Rightarrow> {} | ReqCreateParty _ _ \<Rightarrow> {}
      | ReqCreateAccount _ _ _ \<Rightarrow> {400, 503}
      | _ \<Rightarrow> {400, 404, 503})"

lemma answer_ok_json [schema_rules]: "answer_ok codes (JsonShape t) (ok_json j) \<longleftrightarrow> has_schema t j"
  by (simp add: answer_ok_def ok_json_def)

lemma answer_ok_text [schema_rules]: "answer_ok codes TextShape (200, BodyText t)"
  by (simp add: answer_ok_def)

lemma forbidden_ok [schema_rules]: "403 \<in> codes \<Longrightarrow> answer_ok codes sh (authz_response ve s (Forbidden p i))"
  by (simp add: answer_ok_def authz_response_def s_forbidden_def schema_rules del: has_schema.simps)

lemma unknown_role_ok [schema_rules]: "400 \<in> codes \<Longrightarrow> answer_ok codes sh (authz_response ve s (UnknownRole t))"
  by (simp add: answer_ok_def authz_response_def s_error_def schema_rules del: has_schema.simps)

lemma permitted_ok [schema_rules]:
  "answer_ok {403} sh (permitted ve header perm f s)" if "\<And>subject. answer_ok {403} sh (f subject)"
  using that by (simp add: permitted_def schema_rules split: sum.split prod.split)

fun error_code :: "app_error \<Rightarrow> nat" where
  "error_code NotFound = 404"
| "error_code (BadRequest _) = 400"
| "error_code ServiceUnavailable = 503"

text \<open>The answer to a result whose errors are among the given codes.\<close>

lemma answer_ok_result [schema_rules]:
  assumes "\<And>e. r = Err e \<Longrightarrow> error_code e \<in> codes" and "\<And>x. r = Ok x \<Longrightarrow> has_schema t (j x)"
  shows "answer_ok codes (JsonShape t) (answer ve prefix j r)"
  using assms by (cases r; cases "projl r")
    (auto simp: answer_def answer_ok_def into_response_def ok_json_def s_error_def schema_rules simp del: has_schema.simps)

subsection \<open>Every answer has the shape of its route\<close>

lemma system_views_ok:
  "has_schema (SNullable s_u64) (percentile_of ve pct s)"
  "answer_ok {} (view_shape VHealth) (ok_json (health_handler ve s))"
  "answer_ok {} (view_shape VMetrics) (ok_json (metrics_handler ve s))"
proof -
  show pct: "has_schema (SNullable s_u64) (percentile_of ve pct s)" for pct
    unfolding percentile_of_def by (rule option_schema) (rule scalar_schemas)
  show "answer_ok {} (view_shape VHealth) (ok_json (health_handler ve s))"
    "answer_ok {} (view_shape VMetrics) (ok_json (metrics_handler ve s))"
    by (simp_all add: view_shape_def health_handler_def metrics_handler_def pct schema_rules del: has_schema.simps)
qed

lemma journal_views_ok:
  "answer_ok {} (view_shape VJournal) (ok_json (list_journal ve s))"
  "answer_ok {} (view_shape (VEntries i)) (ok_json (entries_for_account ve i s))"
  "answer_ok {} (view_shape VValidate) (ok_json (validate_json ve s))"
  "answer_ok {} (view_shape VTrialBalance) (ok_json (trial_balance_json ve s))"
  "answer_ok {404} (view_shape (VProof n)) (answer ve (\<lambda>_. []) (proof_json ve) (api_chain_proof n s))"
  "answer_ok {} (view_shape VAuditExport) (ok_json (export_audit_handler ve s))"
proof -
  have net: "has_schema (SObject [(''debits'', s_i64), (''credits'', s_i64), (''net'', s_i64)])
     (case x of (d, c, n) \<Rightarrow> JObj [(''debits'', j_i64 d), (''credits'', j_i64 c), (''net'', j_i64 n)])" for x
    by (simp add: schema_rules del: has_schema.simps split: prod.split)
  then show "answer_ok {} (view_shape VTrialBalance) (ok_json (trial_balance_json ve s))"
    unfolding view_shape_def trial_balance_json_def Let_def view_request.case answer_ok_json by (rule dict_schema)
  show "answer_ok {404} (view_shape (VProof n)) (answer ve (\<lambda>_. []) (proof_json ve) (api_chain_proof n s))"
    unfolding view_shape_def view_request.case
    by (rule answer_ok_result)
      (auto simp: api_chain_proof_def proof_json_def schema_rules simp del: has_schema.simps split: option.splits)
qed (simp_all add: view_shape_def list_journal_def entries_for_account_def validate_json_def export_audit_handler_def
      export_audit_log_def schema_rules del: has_schema.simps split: prod.split)

lemma party_views_ok:
  "answer_ok {} (view_shape VParties) (ok_json (list_parties ve s))"
  "answer_ok {} (view_shape (VIdentifiers i)) (ok_json (list_identifiers ve i s))"
  "answer_ok {404} (view_shape (VParty i)) (get_party_handler ve i s)"
  "answer_ok {404} (view_shape (VSaga i)) (saga_status_handler ve sagas i)"
proof -
  show "answer_ok {404} (view_shape (VParty i)) (get_party_handler ve i s)"
    unfolding view_shape_def view_request.case get_party_handler_def
    by (rule answer_ok_result) (auto simp: schema_rules split: option.splits)
  show "answer_ok {404} (view_shape (VSaga i)) (saga_status_handler ve sagas i)"
    unfolding view_shape_def view_request.case saga_status_handler_def
    by (rule answer_ok_result) (auto simp: schema_rules simp del: has_schema.simps split: option.splits)
qed (simp_all add: view_shape_def list_parties_def list_identifiers_def Let_def schema_rules del: has_schema.simps)

lemma chart_views_ok:
  "answer_ok {} (view_shape VCoa) (ok_json (coa_summary ve cx s))"
  "answer_ok {404} (view_shape (VCoaByCode code)) (coa_by_code ve cx code s)"
proof -
  show "answer_ok {404} (view_shape (VCoaByCode code)) (coa_by_code ve cx code s)"
    unfolding view_shape_def view_request.case coa_by_code_def
    by (rule answer_ok_result) (auto simp: schema_rules simp del: has_schema.simps split: option.splits)
qed (simp add: view_shape_def coa_summary_def Let_def schema_rules del: has_schema.simps)

lemma rbac_views_ok:
  "answer_ok {403} (view_shape (VPermissions h)) (list_rbac_permissions ve h s)"
  "answer_ok {403} (view_shape (VRbacAudit h)) (rbac_audit_export ve h s)"
  "answer_ok {403} (view_shape (VRbacMatrix h)) (rbac_matrix ve h s)"
  "has_schema (SObject [(''subject'', SText), (''roles'', SList s_role),
     (''effective_permissions'', SList s_permission), (''permission_count'', SCount)]) (subject_roles_json ve i rp)"
proof -
  have code: "has_schema (SObject [(''code'', SText), (''description'', SText)])
     (case cd of (code, desc) \<Rightarrow> JObj [(''code'', JStr code), (''description'', JStr desc)])" for cd
    by (simp add: schema_rules del: has_schema.simps split: prod.split)
  show "answer_ok {403} (view_shape (VPermissions h)) (list_rbac_permissions ve h s)"
    by (simp add: list_rbac_permissions_def view_shape_def permissions_json_def schema_rules code
        del: has_schema.simps)
  show "answer_ok {403} (view_shape (VRbacAudit h)) (rbac_audit_export ve h s)"
    by (simp add: rbac_audit_export_def view_shape_def export_audit_def s_binding_def schema_rules del: has_schema.simps)
qed (simp_all add: rbac_matrix_def view_shape_def subject_roles_json_def schema_rules del: has_schema.simps)

lemma view_conforms: "view ve cx sagas v s = Some r \<Longrightarrow> answer_ok (view_codes v) (view_shape v) r"
proof (cases v)
  case VVerify
  assume "view ve cx sagas v s = Some r"
  with VVerify show ?thesis
    by (auto simp: view_def view_codes_def view_shape_def verify_chain_json_def schema_rules simp del: has_schema.simps)
next
  case (VAuditReport ps)
  assume "view ve cx sagas v s = Some r"
  with VAuditReport show ?thesis by (auto simp: view_def view_codes_def view_shape_def schema_rules)
next
  case (VSnapshot i)
  assume "view ve cx sagas v s = Some r"
  with VSnapshot show ?thesis
    by (auto simp: view_def view_codes_def view_shape_def account_snapshot_def snapshot_json_def s_snapshot_def schema_rules
        simp del: has_schema.simps split: option.splits intro!: answer_ok_result)
next
  case (VSubject h i)
  assume "view ve cx sagas v s = Some r"
  with VSubject rbac_views_ok(4) [of ve i] show ?thesis
    by (auto simp: view_def view_codes_def view_shape_def api_subject_roles_def schema_rules
        simp del: has_schema.simps split: sum.splits prod.splits)
next
  case (VNewTransaction t)
  assume "view ve cx sagas v s = Some r"
  with VNewTransaction show ?thesis
    by (auto simp: view_def view_codes_def view_shape_def transaction_json_def schema_rules simp del: has_schema.simps)
qed (use system_views_ok journal_views_ok party_views_ok chart_views_ok rbac_views_ok in
    \<open>auto simp: view_def view_codes_def schema_rules simp del: has_schema.simps\<close>)

text \<open>The error codes of the handlers that change the state.\<close>

definition codes_ok :: "nat set \<Rightarrow> ('r, app_error) result \<times> app_state \<Rightarrow> bool" where
  "codes_ok codes r \<longleftrightarrow> (\<forall>e. fst r = Err e \<longrightarrow> error_code e \<in> codes)"

lemma codes_ok_simps [simp]:
  "codes_ok codes (Ok x, s)" "codes_ok codes (Err e, s) \<longleftrightarrow> error_code e \<in> codes"
  by (simp_all add: codes_ok_def)

lemma answered_ok:
  "codes_ok codes r \<Longrightarrow> (\<And>x. fst r = Ok x \<Longrightarrow> has_schema t (j x)) \<Longrightarrow>
   answer_ok codes (JsonShape t) (fst (answered ve req j r))"
  by (auto simp: answered_def codes_ok_def intro: answer_ok_result)

lemma guarded_codes:
  "codes_ok codes (guarded cx handler s)" if "\<And>s. codes_ok codes (handler s)" "503 \<in> codes"
  using that by (simp add: guarded_def split: prod.split)

lemma account_answer_codes [simp]: "404 \<in> codes \<Longrightarrow> codes_ok codes (account_answer f cx i s)"
  by (simp add: account_answer_def split: option.split)

lemma account_codes:
  "codes_ok {400, 503} (api_create_account ev cx ty cur n s)"
  "codes_ok {404} (api_get_account ev cx i s)"
  "codes_ok {400, 404, 503} (api_debit ev cx i n s)" "codes_ok {400, 404, 503} (api_credit ev cx i n s)"
  "codes_ok {400, 404, 503} (api_set_status ev cx i st s)"
  "codes_ok {400, 404, 503} (api_place_hold cx i n s)" "codes_ok {400, 404, 503} (api_release_hold cx i n s)"
  unfolding api_create_account_def api_get_account_def api_debit_def api_credit_def api_set_status_def
    api_place_hold_def api_release_hold_def
  by (auto intro!: guarded_codes split: option.split prod.split sum.split)

lemma transfer_codes:
  "api_transfer ev cx req s = Some r \<Longrightarrow> codes_ok {400, 404, 503} r"
  "api_reverse ev cx i s = Some r' \<Longrightarrow> codes_ok {400, 404} r'"
  "api_coa_deactivate ev cx i s = Some r'' \<Longrightarrow> codes_ok {400, 404} r''"
  by (auto simp: api_transfer_def run_transfer_def settle_transfer_def api_reverse_def api_coa_deactivate_def Let_def
      split: if_splits option.splits prod.splits sum.splits)

lemma identity_codes:
  "codes_ok {400} (api_redact ev n s)" "codes_ok {400} (api_add_identifier ev cx p ty v c s)"
  "codes_ok {400, 404} (api_verify_identifier cx ps i s)" "codes_ok {400, 404} (api_replace_identifier cx ps i v s)"
  by (auto simp: api_redact_def api_add_identifier_def api_verify_identifier_def api_replace_identifier_def
      split: option.split prod.split sum.split)

lemma snd_answered [simp]: "snd (answered ve req j r) = snd r"
  by (simp add: answered_def)

lemma respond_step: "map_option snd (respond ve cx req s) = api_step (ve_api ve) cx req s"
  by (cases req) (simp_all add: respond_def Let_def option.map_comp comp_def)

lemma request_parts:
  "has_schema (request_shape (ReqReverse i)) (reversal_json ve i e)"
  "has_schema (request_shape (ReqRedact n)) (redact_json rr)"
  "has_schema (request_shape (ReqCommit t)) (closed_transaction_json ve ''Committed'' now k)"
  "has_schema (request_shape (ReqReject t)) (closed_transaction_json ve ''Rejected'' now k)"
  "has_schema (request_shape (ReqCoaDeactivate i)) (named_json ve ''Deactivated'' k)"
  "has_schema (request_shape (ReqCreateParty ty nm)) (named_json ve ''Active'' i)"
  "has_schema (request_shape (ReqBindRole h i rt)) (bound_json ve i rt perms)"
  "has_schema (request_shape (ReqAddIdentifier p ty v c)) (added_json ve d)"
  "has_schema (request_shape (ReqVerifyIdentifier ps i)) (verified_json ve i d)"
  "has_schema (request_shape (ReqReplaceIdentifier ps i v)) (replaced_json ve i d)"
  by (simp_all add: request_shape_def reversal_json_def redact_json_def closed_transaction_json_def named_json_def
      bound_json_def added_json_def verified_json_def replaced_json_def schema_rules del: has_schema.simps)

lemma bind_role_codes:
  "api_bind_role ev h i t s = (Err e, s') \<Longrightarrow> answer_ok {400, 403} sh (authz_response ve s e)"
  by (auto simp: api_bind_role_def Let_def schema_rules split: sum.splits prod.splits option.splits)

lemma answered_conforms:
  "answered ve req j x = (r, s') \<Longrightarrow> codes_ok codes x \<Longrightarrow> (\<And>y. has_schema t (j y)) \<Longrightarrow> answer_ok codes (JsonShape t) r"
  using answered_ok [of codes x t j ve req] by simp

lemma account_shapes:
  "request_shape (ReqCreateAccount ty cur n) = s_account" "request_shape (ReqGetAccount i) = s_account"
  "request_shape (ReqDebit i n) = s_account" "request_shape (ReqCredit i n) = s_account"
  "request_shape (ReqSetStatus i st) = s_account" "request_shape (ReqTransfer tr) = s_transfer"
  "request_shape (ReqPlaceHold i n) = s_hold ''hold_amount''"
  "request_shape (ReqReleaseHold i n) = s_hold ''released_amount''"
  by (simp_all add: request_shape_def)

lemma request_codes_simps:
  "request_codes (ReqCreateAccount ty cur n) = {400, 503}" "request_codes (ReqGetAccount i) = {404}"
  "request_codes (ReqDebit i n) = {400, 404, 503}" "request_codes (ReqCredit i n) = {400, 404, 503}"
  "request_codes (ReqSetStatus i st) = {400, 404, 503}" "request_codes (ReqPlaceHold i n) = {400, 404, 503}"
  "request_codes (ReqReleaseHold i n) = {400, 404, 503}" "request_codes (ReqTransfer tr) = {400, 404, 503}"
  "request_codes (ReqReverse i) = {400, 404}" "request_codes (ReqRedact k) = {400}"
  "request_codes (ReqCoaDeactivate i) = {400, 404}" "request_codes (ReqBindRole h i rt) = {400, 403}"
  "request_codes (ReqAddIdentifier p ty v c) = {400}" "request_codes (ReqVerifyIdentifier ps i) = {400, 404}"
  "request_codes (ReqReplaceIdentifier ps i v) = {400, 404}"
  by (simp_all add: request_codes_def)

lemmas conform_rules = account_shapes request_codes_simps account_codes identity_codes part_schemas request_parts

lemma answered_some:
  assumes "map_option (answered ve req j) o_x = Some (r, s')" and "\<And>x. o_x = Some x \<Longrightarrow> codes_ok (request_codes req) x"
    and "\<And>y. has_schema (request_shape req) (j y)"
  shows "answer_ok (request_codes req) (JsonShape (request_shape req)) r"
  using assms by (auto intro: answered_conforms)

lemma respond_conforms:
  assumes "respond ve cx req s = Some (r, s')"
  shows "answer_ok (request_codes req) (JsonShape (request_shape req)) r"
proof (cases req)
  case (ReqBindRole h i t)
  with assms show ?thesis
    by (auto simp: respond_def Let_def apfst_def map_prod_def conform_rules answer_ok_json
        simp del: has_schema.simps split: sum.splits prod.splits dest: bind_role_codes)
next
  case (ReqTransfer tr)
  show ?thesis
    by (rule answered_some [of ve req "transfer_json ve" "api_transfer (ve_api ve) cx tr s"])
      (use assms ReqTransfer transfer_codes(1) in \<open>simp_all add: respond_def conform_rules del: has_schema.simps\<close>)
next
  case (ReqReverse i)
  show ?thesis
    by (rule answered_some [of ve req "reversal_json ve i" "api_reverse (ve_api ve) cx i s"])
      (use assms ReqReverse transfer_codes(2) in \<open>simp_all add: respond_def conform_rules del: has_schema.simps\<close>)
next
  case (ReqCoaDeactivate i)
  show ?thesis
    by (rule answered_some [of ve req "named_json ve ''Deactivated''" "api_coa_deactivate (ve_api ve) cx i s"])
      (use assms ReqCoaDeactivate transfer_codes(3) in \<open>simp_all add: respond_def conform_rules del: has_schema.simps\<close>)
next
  case (ReqCommit t)
  with assms show ?thesis
    by (auto simp: respond_def apfst_def map_prod_def conform_rules answer_ok_json simp del: has_schema.simps)
next
  case (ReqReject t)
  with assms show ?thesis
    by (auto simp: respond_def apfst_def map_prod_def conform_rules answer_ok_json simp del: has_schema.simps)
next
  case (ReqCreateParty ty nm)
  with assms show ?thesis
    by (auto simp: respond_def apfst_def map_prod_def conform_rules answer_ok_json simp del: has_schema.simps
        split: prod.splits)
qed (use assms in \<open>auto simp: respond_def Let_def conform_rules simp del: has_schema.simps
    elim!: answered_conforms\<close>)

subsection \<open>Every request is answered\<close>

text \<open>Only the audit report and the snapshot, which cut texts and divide decimals, may panic.\<close>

definition may_panic :: "view_request \<Rightarrow> bool" where
  "may_panic v \<longleftrightarrow> (case v of VAuditReport _ \<Rightarrow> True | VSnapshot _ \<Rightarrow> True | _ \<Rightarrow> False)"

lemma view_answers:
  assumes "books_ok (ve_api ve) s" and "\<not> may_panic v"
  shows "\<exists>r. view ve cx sagas v s = Some r"
proof (cases v)
  case VVerify
  have "blocks (app_chain s) \<noteq> []" using assms(1) chain_ok_nonempty by (auto simp: books_ok_def)
  then obtain ts where "verify_chain (ae_crypto (ve_api ve)) (app_chain s) = Some (ts = [], ts)"
    using verify_chain_total by blast
  with VVerify show ?thesis by (simp add: view_def verify_chain_json_def api_verify_chain_def)
qed (use assms(2) in \<open>simp_all add: view_def may_panic_def\<close>)

text \<open>
  C19. Every answer of the API has the shape of its route. In a state with its books in order, a
  request on a route that changes the state is answered, with 200 and an object of the route's
  schema (field names, integer ranges and enumeration names included) or with one of the route's
  error codes and an error object: \<open>{"error": text}\<close>, at 403 also with the required permission, the
  subject and its roles. The state it leaves is the transition's, with its books in order. A
  read-only route is answered the same way, except that two of them, the audit report and the
  account snapshot, may panic.
\<close>

theorem answers_conform:
  assumes "books_ok (ve_api ve) s"
  shows "(\<exists>r s'. respond ve cx req s = Some (r, s') \<and>
            answer_ok (request_codes req) (JsonShape (request_shape req)) r \<and>
            api_step (ve_api ve) cx req s = Some s' \<and> books_ok (ve_api ve) s') \<and>
         (\<forall>r. view ve cx sagas v s = Some r \<longrightarrow> answer_ok (view_codes v) (view_shape v) r) \<and>
         (\<not> may_panic v \<longrightarrow> view ve cx sagas v s \<noteq> None)"
proof -
  obtain s' where step: "api_step (ve_api ve) cx req s = Some s'" and books: "books_step (ve_api ve) s s'"
    using api_step_books [OF assms] by blast
  moreover obtain r where "respond ve cx req s = Some (r, s')"
    using respond_step [of ve cx req s] step by auto
  ultimately show ?thesis
    using respond_conforms [of ve cx req s r s'] view_conforms view_answers [OF assms, of v cx sagas]
    by (auto simp: books_step_def)
qed

definition demo_views :: "(rat, rat) view_env" where
  "demo_views =
     \<lparr>ve_api = demo_env, ve_floats = rat_floats, ve_decimals = rat_pkg, ve_debug_str = (\<lambda>t. t),
      ve_parse_rfc3339 = (\<lambda>_. None), ve_rank = (\<lambda>pct n. (n - 1) * pct div 100),
      ve_uuids = sorted_list_of_set,
      ve_roles = (\<lambda>rs. filter (\<lambda>r. r \<in> rs) [Admin, Auditor, Teller, Customer, System, Compliance]),
      ve_perms = (\<lambda>ps. filter (\<lambda>p. p \<in> ps) all_permissions)\<rparr>"

lemma demo_views_api [simp]: "ve_api demo_views = demo_env"
  by (simp add: demo_views_def)

theorem answers_conform_witness:
  "(\<exists>r s'. respond demo_views (demo_ctx 1) (ReqDebit 1 50) demo_app = Some (r, s') \<and>
      answer_ok {400, 404, 503} (JsonShape s_account) r \<and> books_ok demo_env s') \<and>
   view demo_views (demo_ctx 1) orchestrator_new VVerify demo_app \<noteq> None"
proof -
  have "books_ok (ve_api demo_views) demo_app" using demo_app_books by simp
  from answers_conform [OF this, of "demo_ctx 1" "ReqDebit 1 50" orchestrator_new VVerify]
  show ?thesis by (simp add: conform_rules may_panic_def) blast
qed

subsection \<open>Routing\<close>

text \<open>
  A path matches a pattern segment by segment; a segment in braces matches any segment that is
  not empty.
\<close>

fun segments :: "string \<Rightarrow> string list" where
  "segments [] = [[]]"
| "segments (c # cs) =
     (if c = CHR ''/'' then [] # segments cs
      else case segments cs of [] \<Rightarrow> [[c]] | x # xs \<Rightarrow> (c # x) # xs)"

definition is_param :: "string \<Rightarrow> bool" where
  "is_param seg \<longleftrightarrow> (case seg of [] \<Rightarrow> False | c # _ \<Rightarrow> c = CHR ''{'')"

definition segment_matches :: "string \<Rightarrow> string \<Rightarrow> bool" where
  "segment_matches pat seg = (if is_param pat then seg \<noteq> [] else seg = pat)"

definition route_matches :: "http_method \<Rightarrow> string \<Rightarrow> http_method \<times> string \<times> string \<Rightarrow> bool" where
  "route_matches m path route =
     (case route of (m', pat, _) \<Rightarrow> m' = m \<and> list_all2 segment_matches (segments pat) (segments path))"

definition overlapping :: "string list \<Rightarrow> string list \<Rightarrow> bool" where
  "overlapping ps qs = list_all2 (\<lambda>p q. is_param p \<or> is_param q \<or> p = q) ps qs"

lemma match_both_overlap:
  "list_all2 segment_matches ps xs \<Longrightarrow> list_all2 segment_matches qs xs \<Longrightarrow> overlapping ps qs"
  unfolding overlapping_def
proof (induction ps xs arbitrary: qs rule: list_all2_induct)
  case (Cons p ps x xs)
  then obtain q qs' where "qs = q # qs'" by (cases qs) auto
  with Cons show ?case by (auto simp: segment_matches_def split: if_splits)
qed simp

lemma routes_apart:
  "sorted_wrt (\<lambda>(m, ps) (m', qs). m = m' \<longrightarrow> \<not> overlapping ps qs)
     (map (\<lambda>(m, pat, h). (m, segments pat)) build_router)"
  by code_simp

lemma routes_disjoint:
  assumes "i < j" and "j < length build_router"
    and "route_matches m path (build_router ! i)" and "route_matches m path (build_router ! j)"
  shows False
proof -
  obtain m1 p1 h1 m2 p2 h2 where r: "build_router ! i = (m1, p1, h1)" "build_router ! j = (m2, p2, h2)"
    by (metis prod_cases3)
  then have "m1 = m2 \<longrightarrow> \<not> overlapping (segments p1) (segments p2)"
    using sorted_wrt_nth_less [OF routes_apart assms(1)] assms(1,2) by simp
  with assms(3,4) r match_both_overlap show False by (auto simp: route_matches_def)
qed

text \<open>
  A request finds at most one handler: no two routes match the same method and path, whatever
  the path, so the order in which the routes are added does not matter; and no handler is
  installed twice.
\<close>

theorem requests_find_one_handler:
  "(r1 \<in> set build_router \<and> r2 \<in> set build_router \<and> route_matches m path r1 \<and> route_matches m path r2 \<longrightarrow> r1 = r2) \<and>
   distinct (map (\<lambda>(_, _, h). h) build_router)"
proof
  show "r1 \<in> set build_router \<and> r2 \<in> set build_router \<and> route_matches m path r1 \<and> route_matches m path r2 \<longrightarrow> r1 = r2"
  proof (intro impI, elim conjE)
    assume "r1 \<in> set build_router" "r2 \<in> set build_router" and m: "route_matches m path r1" "route_matches m path r2"
    then obtain i j where ij: "i < length build_router" "j < length build_router" "r1 = build_router ! i" "r2 = build_router ! j"
      by (metis in_set_conv_nth)
    with m routes_disjoint [of i j m path] routes_disjoint [of j i m path] show "r1 = r2" by (metis nat_neq_iff)
  qed
  show "distinct (map (\<lambda>(_, _, h). h) build_router)" by code_simp
qed

theorem requests_find_one_handler_witness:
  "route_matches Post ''/accounts/7/hold'' (Post, ''/accounts/{id}/hold'', ''place_hold'') \<and>
   \<not> route_matches Post ''/accounts/7/hold'' (Post, ''/accounts/{id}/release'', ''release_hold'')"
proof -
  have hit: "route_matches Post ''/accounts/7/hold'' (Post, ''/accounts/{id}/hold'', ''place_hold'')" by code_simp
  moreover have "(Post, ''/accounts/{id}/hold'', ''place_hold'') \<in> set build_router"
    "(Post, ''/accounts/{id}/release'', ''release_hold'') \<in> set build_router" by (simp_all add: build_router_def)
  ultimately show ?thesis
    using requests_find_one_handler [of "(Post, ''/accounts/{id}/hold'', ''place_hold'')"
        "(Post, ''/accounts/{id}/release'', ''release_hold'')" Post "''/accounts/7/hold''"] by auto
qed

subsection \<open>Overload\<close>

text \<open>Requests through the middleware, each with the two instants its token bucket reads.\<close>

fun serve_all ::
  "('f, 'd) view_env \<Rightarrow> (timestamp \<times> timestamp) list \<Rightarrow> (call_ctx \<times> api_request) list \<Rightarrow>
   'f token_bucket \<times> app_state \<Rightarrow> ('f response list \<times> 'f token_bucket \<times> app_state) option"
where
  "serve_all ve ((t1, t2) # ts) ((cx, req) # reqs) bs =
     Option.bind (rate_limit_middleware (ve_floats ve) t1 t2 (respond ve cx req) bs)
       (\<lambda>(r, bs1). map_option (apfst (Cons r)) (serve_all ve ts reqs bs1))"
| "serve_all ve _ _ bs = Some ([], bs)"

fun respond_all ::
  "('f, 'd) view_env \<Rightarrow> (call_ctx \<times> api_request) list \<Rightarrow> app_state \<Rightarrow> ('f response list \<times> app_state) option"
where
  "respond_all ve [] s = Some ([], s)"
| "respond_all ve ((cx, req) # reqs) s =
     Option.bind (respond ve cx req s) (\<lambda>(r, s1). map_option (apfst (Cons r)) (respond_all ve reqs s1))"

lemma respond_books:
  assumes "books_ok (ve_api ve) s"
  obtains r s' where "respond ve cx req s = Some (r, s')" "books_ok (ve_api ve) s'"
proof -
  obtain s' where s': "api_step (ve_api ve) cx req s = Some s'" "books_step (ve_api ve) s s'"
    using api_step_books [OF assms] by blast
  then obtain r where "respond ve cx req s = Some (r, s')" using respond_step [of ve cx req s] by auto
  with that s'(2) show thesis by (simp add: books_step_def)
qed

text \<open>With no token the requests are refused one after the other and nothing changes.\<close>

lemma serve_refused:
  assumes "fst (bucket_run (ve_floats ve) ts b) = replicate (length reqs) False" and "length ts = length reqs"
  shows "\<exists>b'. serve_all ve ts reqs (b, s) = Some (replicate (length reqs) (429, BodyText []), b', s)"
  using assms
proof (induction ts reqs arbitrary: b rule: list_induct2')
  case (4 t ts q reqs)
  obtain t1 t2 cx req where t: "t = (t1, t2)" "q = (cx, req)" by (metis surj_pair)
  obtain v b1 where c: "try_consume (ve_floats ve) t1 t2 b = (v, b1)" by fastforce
  with 4(2) t have v: "\<not> v" and rest: "fst (bucket_run (ve_floats ve) ts b1) = replicate (length reqs) False"
    by (auto split: prod.splits)
  from 4(1) [OF rest] 4(3) obtain b' where
    "serve_all ve ts reqs (b1, s) = Some (replicate (length reqs) (429, BodyText []), b', s)" by auto
  with v c t show ?case by (simp add: rate_limit_middleware_def)
qed simp_all

lemma serve_admitted:
  assumes "fst (bucket_run (ve_floats ve) ts b) = replicate m True @ replicate (length reqs - m) False"
    and "length ts = length reqs" and "m \<le> length reqs" and "books_ok (ve_api ve) s"
  shows "\<exists>rs b' s'. respond_all ve (take m reqs) s = Some (rs, s') \<and> length rs = m \<and>
    serve_all ve ts reqs (b, s) = Some (rs @ replicate (length reqs - m) (429, BodyText []), b', s')"
  using assms
proof (induction m arbitrary: ts b reqs s)
  case 0
  then show ?case using serve_refused [of ve ts b reqs s] by simp
next
  case (Suc m)
  then obtain t1 t2 ts' cx req reqs' where t: "ts = (t1, t2) # ts'" "reqs = (cx, req) # reqs'"
    by (cases ts; cases reqs) auto
  obtain v b1 where c: "try_consume (ve_floats ve) t1 t2 b = (v, b1)" by fastforce
  have v: "v" and rest: "fst (bucket_run (ve_floats ve) ts' b1) = replicate m True @ replicate (length reqs' - m) False"
    using Suc(2) t c by (auto split: prod.splits)
  obtain r s1 where r: "respond ve cx req s = Some (r, s1)" "books_ok (ve_api ve) s1"
    using respond_books [OF Suc(5)] by blast
  from Suc(1) [OF rest _ _ r(2)] Suc(3,4) t obtain rs b' s' where
    "respond_all ve (take m reqs') s1 = Some (rs, s')" "length rs = m"
    "serve_all ve ts' reqs' (b1, s1) = Some (rs @ replicate (length reqs' - m) (429, BodyText []), b', s')" by auto
  with v c t r show ?case by (simp add: rate_limit_middleware_def)
qed

text \<open>
  C22. Overload is refused in front of the handlers. There is one bucket for all routes, so the
  requests may go to any of them. After whatever calls on the bucket of capacity \<open>cap\<close> (the
  server's is 100, with a rate of 100), of the requests that arrive in one instant exactly as
  many are handled as the bucket holds whole tokens, never more than \<open>cap\<close>: the first ones, in
  order and with the answers they have without a limiter. All later ones are answered 429 and
  leave the state as it is. The rate is not \<open>+\<infinity>\<close>.
\<close>

theorem overload_is_refused:
  assumes "float_laws (ve_floats ve) val" and "val rate \<noteq> PInf" and "books_ok (ve_api ve) s"
    and "b = bucket_calls (ve_floats ve) cs (bucket_new (ve_floats ve) t0 cap rate)"
    and "m = min (length reqs) (whole_tokens val b)"
  shows "m \<le> unat cap \<and>
    (\<exists>rs b' s'. respond_all ve (take m reqs) s = Some (rs, s') \<and> length rs = m \<and>
       serve_all ve (replicate (length reqs) (tb_last_refill b, tb_last_refill b)) reqs (b, s) =
         Some (rs @ replicate (length reqs - m) (429, BodyText []), b', s'))"
proof -
  have ok: "bucket_ok val cap b" and rate: "val (tb_rate b) \<noteq> PInf"
    using bucket_calls_ok [OF assms(1) bucket_new_ok(1) [OF assms(1)]] assms(2,4) by (simp_all add: bucket_new_def)
  have "whole_tokens val b \<le> unat cap"
    using bucket_okE [OF ok] cap_bound(3) [of cap] by (metis floor_mono nat_mono)
  moreover have "fst (bucket_run (ve_floats ve) (replicate (length reqs) (tb_last_refill b, tb_last_refill b)) b) =
     replicate m True @ replicate (length reqs - m) False"
    using burst [OF assms(1) ok rate, of "length reqs"] assms(5) by (simp add: min_def)
  ultimately show ?thesis
    using serve_admitted [of ve "replicate (length reqs) (tb_last_refill b, tb_last_refill b)" b m reqs s] assms(3,5)
    by auto
qed

theorem overload_is_refused_witness:
  "\<exists>rs b' s'. respond_all demo_views [(demo_ctx 1, ReqDebit 1 50)] demo_app = Some (rs, s') \<and>
     serve_all demo_views [(0, 0), (0, 0)] [(demo_ctx 1, ReqDebit 1 50), (demo_ctx 2, ReqDebit 1 50)]
       (bucket_new rat_floats 0 1 100, demo_app) = Some (rs @ [(429, BodyText [])], b', s')"
proof -
  have fl: "float_laws (ve_floats demo_views) Fin" using rat_floats_laws by (simp add: demo_views_def)
  have "whole_tokens Fin (bucket_new rat_floats 0 1 100) = 1"
    by (simp add: bucket_new_def rat_floats_def cap_rat_def whole_tokens_def)
  then show ?thesis
    using overload_is_refused [OF fl, of 100 demo_app "bucket_new rat_floats 0 1 100" "[]" 0 1 1
        "[(demo_ctx 1, ReqDebit 1 50), (demo_ctx 2, ReqDebit 1 50)]"] demo_app_books
    by (simp add: demo_views_def bucket_new_def bucket_calls_def numeral_2_eq_2 del: respond_all.simps serve_all.simps) blast
qed

subsection \<open>The audit reports\<close>

text \<open>An auditor's reading of an exported block, given a parser of instants.\<close>

definition field :: "string \<Rightarrow> 'f json \<Rightarrow> 'f json option" where
  "field k j = (case j of JObj kvs \<Rightarrow> map_of kvs k | _ \<Rightarrow> None)"

definition read_block :: "(string \<Rightarrow> timestamp option) \<Rightarrow> 'f json \<Rightarrow> hash_link option" where
  "read_block parse j =
     (case (field ''index'' j, field ''hash'' j, field ''previous_hash'' j, field ''data'' j, field ''timestamp'' j,
            field ''nonce'' j) of
        (Some (JInt i), Some (JStr h), Some (JStr p), Some (JStr d), Some (JStr t), Some (JInt n)) \<Rightarrow>
          map_option (\<lambda>now. \<lparr>link_index = word_of_int i, link_hash = h, link_previous_hash = p, link_data = d,
                             link_timestamp = now, link_nonce = word_of_int n\<rparr>) (parse t)
      | _ \<Rightarrow> None)"

lemma read_exported_block:
  assumes "\<And>t. parse (to_rfc3339 (ae_crypto (ve_api ve)) t) = Some t"
  shows "read_block parse (block_json ve b) = Some b"
  using assms by (simp add: read_block_def field_def block_json_def j_u64_def)

text \<open>The export is complete: read back, it is the chain, and verifies like the chain.\<close>

lemma export_reverifies:
  assumes "\<And>t. parse (to_rfc3339 (ae_crypto (ve_api ve)) t) = Some t"
  shows "map (read_block parse) (export_audit_log ve c) = map Some (blocks c)"
    and "verify_chain cr (c\<lparr>blocks := List.map_filter (read_block parse) (export_audit_log ve c)\<rparr>) = verify_chain cr c"
proof -
  show "map (read_block parse) (export_audit_log ve c) = map Some (blocks c)"
    using read_exported_block [of parse ve, OF assms] by (simp add: export_audit_log_def)
  have "List.map_filter (read_block parse) (export_audit_log ve c) = blocks c"
    using read_exported_block [of parse ve, OF assms]
    by (simp add: export_audit_log_def List.map_filter_def comp_def filter_map)
  then show "verify_chain cr (c\<lparr>blocks := List.map_filter (read_block parse) (export_audit_log ve c)\<rparr>) = verify_chain cr c"
    by simp
qed

definition ascii :: "string \<Rightarrow> bool" where
  "ascii t \<longleftrightarrow> (\<forall>c \<in> set t. (of_char c :: nat) < 128)"

definition printable_block :: "hash_link \<Rightarrow> bool" where
  "printable_block b \<longleftrightarrow> ascii (link_hash b) \<and> 12 \<le> length (link_hash b) \<and> ascii (link_previous_hash b) \<and>
     12 \<le> length (link_previous_hash b) \<and> (length (link_data b) > 60 \<longrightarrow> ascii (link_data b))"

lemma str_prefix_ascii: "ascii t \<Longrightarrow> n \<le> length t \<Longrightarrow> str_prefix n t = Some (take n t)"
proof (cases "n < length t")
  case True
  moreover assume "ascii t"
  ultimately have "(of_char (t ! n) :: nat) < 128" by (simp add: ascii_def)
  with True show ?thesis by (simp add: str_prefix_def continuation_byte_def)
qed (simp add: str_prefix_def)

lemma report_lines_some:
  assumes "\<forall>b \<in> set bs. printable_block b"
  shows "\<exists>t. report_lines bs = Some t"
  using assms by (induction bs) (auto simp: printable_block_def report_line_def str_prefix_ascii)

text \<open>
  The report is written whenever the hashes are ASCII texts of at least 12 characters, as
  hexadecimal digests are, and long data is ASCII. A character of several bytes across byte 57
  of a block makes it panic.
\<close>

lemma audit_report_written:
  assumes "\<forall>b \<in> set (blocks c). printable_block b" and "blocks c \<noteq> []"
  shows "\<exists>t. audit_report cr t_from t_to c = Some t"
proof -
  obtain body where "report_lines (query_by_time t_from t_to c) = Some body"
    using report_lines_some [of "query_by_time t_from t_to c"] assms(1) by (auto simp: query_by_time_def)
  moreover obtain ts where "verify_chain cr c = Some (ts = [], ts)" using verify_chain_total [OF assms(2)] by blast
  ultimately show ?thesis by (simp add: audit_report_def)
qed

lemma audit_report_cuts_character:
  "report_line \<lparr>link_index = 1, link_hash = zero_hash, link_previous_hash = zero_hash,
     link_data = replicate 56 (CHR ''a'') @ utf8 [195, 169] @ ''bcd'', link_timestamp = 0, link_nonce = 0\<rparr> = None"
  by code_simp

text \<open>The list of permissions that the API describes leaves out three of them.\<close>

lemma permissions_not_described:
  "length described_permissions = 20 \<and> distinct (map fst described_permissions) \<and>
   length all_permissions = 23 \<and> distinct all_permissions \<and> (\<forall>p. p \<in> set all_permissions)"
  using all_permissions_complete by (simp add: described_permissions_def all_permissions_def)

text \<open>No route starts a saga, so the status of a saga is never found.\<close>

lemma saga_status_not_found: "fst (saga_status_handler ve orchestrator_new i) = 404"
  by (simp add: saga_status_handler_def get_status_def orchestrator_new_def answer_def into_response_def)

end
