(* ===== verification/Lock_Order.thy ===== *)
theory Lock_Order
  imports Ledger_Prelude
begin

section \<open>Threads that take locks in order\<close>

text \<open>
  The general argument behind theory Locking: threads run scripts of lock and unlock events.
  When every script takes locks in the order of a ranking, some thread can always go on, and
  every run ends with all scripts run. The contract is the locale \<open>lock_discipline\<close>.
\<close>

subsection \<open>Threads that take locks\<close>

datatype lock_mode = Shared | Exclusive

datatype 'l lock_event = Lock 'l lock_mode | Unlock 'l

text \<open>A thread: the locks it holds, and what is left of its script.\<close>

type_synonym 'l lock_thread = "('l \<times> lock_mode) list \<times> 'l lock_event list"

definition held_by :: "'l lock_thread \<Rightarrow> 'l set" where
  "held_by t = fst ` set (fst t)"

definition is_free :: "'l \<Rightarrow> 'l lock_thread list \<Rightarrow> bool" where
  "is_free l ts \<longleftrightarrow> (\<forall>t \<in> set ts. l \<notin> held_by t)"

text \<open>An exclusive lock needs a free lock, a shared one only that no thread holds it exclusively.\<close>

definition compatible :: "'l \<Rightarrow> lock_mode \<Rightarrow> 'l lock_thread list \<Rightarrow> bool" where
  "compatible l m ts \<longleftrightarrow>
     (case m of Exclusive \<Rightarrow> is_free l ts | Shared \<Rightarrow> \<forall>t \<in> set ts. (l, Exclusive) \<notin> set (fst t))"

inductive lock_step :: "'l lock_thread list \<Rightarrow> 'l lock_thread list \<Rightarrow> bool" where
  take_lock: "i < length ts \<Longrightarrow> ts ! i = (held, Lock l m # rest) \<Longrightarrow> compatible l m ts \<Longrightarrow>
    lock_step ts (ts[i := ((l, m) # held, rest)])"
| drop_lock: "i < length ts \<Longrightarrow> ts ! i = (held, Unlock l # rest) \<Longrightarrow> List.find (\<lambda>h. fst h = l) held = Some h \<Longrightarrow>
    lock_step ts (ts[i := (remove1 h held, rest)])"

definition start_threads :: "'l lock_event list list \<Rightarrow> 'l lock_thread list" where
  "start_threads scripts = map (Pair []) scripts"

text \<open>
  A move that no scheduling of readers and writers can refuse: releasing a lock, or taking one
  that no thread holds.
\<close>

definition can_move :: "'l lock_thread list \<Rightarrow> nat \<Rightarrow> bool" where
  "can_move ts i \<longleftrightarrow>
     (case snd (ts ! i) of [] \<Rightarrow> False | Unlock _ # _ \<Rightarrow> True | Lock l _ # _ \<Rightarrow> is_free l ts)"

fun well_ordered :: "('l \<Rightarrow> nat) \<Rightarrow> 'l list \<Rightarrow> 'l lock_event list \<Rightarrow> bool" where
  "well_ordered rank held [] \<longleftrightarrow> held = []"
| "well_ordered rank held (Lock l m # es) \<longleftrightarrow> (\<forall>h \<in> set held. rank h < rank l) \<and> well_ordered rank (l # held) es"
| "well_ordered rank held (Unlock l # es) \<longleftrightarrow> l \<in> set held \<and> well_ordered rank (remove1 l held) es"

definition thread_ok :: "('l \<Rightarrow> nat) \<Rightarrow> 'l lock_thread \<Rightarrow> bool" where
  "thread_ok rank t \<longleftrightarrow> well_ordered rank (map fst (fst t)) (snd t)"

definition remaining :: "'l lock_thread list \<Rightarrow> nat" where
  "remaining ts = sum_list (map (length \<circ> snd) ts)"

lemma map_fst_remove1_find:
  "List.find (\<lambda>h. fst h = l) xs = Some h \<Longrightarrow> map fst (remove1 h xs) = remove1 l (map fst xs)"
proof (induction xs)
  case (Cons x xs)
  show ?case
  proof (cases "fst x = l")
    case False
    moreover from False Cons(2) have "fst h = l" by (auto simp: find_Some_iff)
    ultimately show ?thesis using Cons by auto
  qed (use Cons in simp)
qed simp

lemma find_held: "l \<in> fst ` set xs \<Longrightarrow> \<exists>h. List.find (\<lambda>h. fst h = l) xs = Some h"
  by (induction xs) auto

lemma thread_ok_step:
  assumes "lock_step ts ts'" and "\<forall>t \<in> set ts. thread_ok rank t"
  shows "\<forall>t \<in> set ts'. thread_ok rank t"
  using assms
proof (induction rule: lock_step.induct)
  case (take_lock i ts held l m rest)
  then have "thread_ok rank (held, Lock l m # rest)" using nth_mem by metis
  then have "thread_ok rank ((l, m) # held, rest)" by (simp add: thread_ok_def)
  with take_lock show ?case by (auto dest!: set_update_subset_insert [THEN subsetD])
next
  case (drop_lock i ts held l rest h)
  then have "thread_ok rank (held, Unlock l # rest)" using nth_mem by metis
  then have "thread_ok rank (remove1 h held, rest)"
    using map_fst_remove1_find [OF drop_lock(3)] by (simp add: thread_ok_def)
  with drop_lock show ?case by (auto dest!: set_update_subset_insert [THEN subsetD])
qed

lemma remaining_update:
  assumes "i < length ts" and "length (snd (ts ! i)) = Suc (length (snd t))"
  shows "remaining (ts[i := t]) < remaining ts"
  using assms
proof (induction ts arbitrary: i)
  case (Cons x ts)
  then show ?case by (cases i) (auto simp: remaining_def)
qed simp

lemma lock_step_remaining: "lock_step ts ts' \<Longrightarrow> remaining ts' < remaining ts"
  by (induction rule: lock_step.induct) (simp_all add: remaining_update)

text \<open>Some thread can move: take one that waits for the lock of the highest rank.\<close>

lemma some_thread_moves:
  assumes ok: "\<forall>t \<in> set ts. thread_ok rank t" and unfinished: "\<exists>t \<in> set ts. snd t \<noteq> []"
  shows "\<exists>i < length ts. can_move ts i"
proof (rule ccontr)
  assume none: "\<not> ?thesis"
  define want where "want t = (case snd t of Lock l _ # _ \<Rightarrow> rank l | _ \<Rightarrow> 0)" for t :: "'a lock_thread"
  have waits: "\<exists>l m rest. snd t = Lock l m # rest \<and> \<not> is_free l ts" if t: "t \<in> set ts" "snd t \<noteq> []" for t
  proof -
    obtain i where "i < length ts" "ts ! i = t" using t(1) by (metis in_set_conv_nth)
    then have "\<not> can_move ts i" using none by blast
    moreover obtain e rest where e: "snd t = e # rest" using t(2) by (cases "snd t") auto
    ultimately show ?thesis using \<open>ts ! i = t\<close> by (cases e) (simp_all add: can_move_def)
  qed
  define W where "W = {t \<in> set ts. snd t \<noteq> []}"
  have fin: "finite W" by (simp add: W_def)
  have ne: "W \<noteq> {}" using unfinished by (simp add: W_def Bex_def)
  obtain t where t: "t \<in> W" and max: "Max (want ` W) = want t"
    using fin ne by (rule obtains_MAX [of W want])
  have top: "want u \<le> want t" if "u \<in> W" for u using max [symmetric] fin that by simp
  from t have "t \<in> set ts" "snd t \<noteq> []" by (simp_all add: W_def)
  from waits [OF this] obtain l m rest where l: "snd t = Lock l m # rest" "\<not> is_free l ts" by metis
  then obtain u where u: "u \<in> set ts" "l \<in> held_by u" by (auto simp: is_free_def)
  have oku: "thread_ok rank u" using ok u(1) by simp
  have un: "snd u \<noteq> []" using oku u(2) by (auto simp: thread_ok_def held_by_def)
  obtain l' m' rest' where l': "snd u = Lock l' m' # rest'" using waits [OF u(1) un] by metis
  have "rank l < rank l'" using oku u(2) l' by (auto simp: thread_ok_def held_by_def)
  moreover have "want u \<le> want t" using top u(1) un by (simp add: W_def)
  ultimately show False by (simp add: want_def l l')
qed

subsection \<open>The contract\<close>

text \<open>The scripts of a program and a ranking that they respect.\<close>

locale lock_discipline =
  fixes rank :: "'l \<Rightarrow> nat" and scripts :: "'l lock_event list set"
  assumes ordered: "es \<in> scripts \<Longrightarrow> well_ordered rank [] es"
begin

lemma started_ok: "set reqs \<subseteq> scripts \<Longrightarrow> \<forall>t \<in> set (start_threads reqs). thread_ok rank t"
  using ordered by (auto simp: start_threads_def thread_ok_def)

lemma reached_ok:
  assumes "lock_step\<^sup>*\<^sup>* (start_threads reqs) ts" and "set reqs \<subseteq> scripts"
  shows "\<forall>t \<in> set ts. thread_ok rank t"
  using assms by (induction rule: rtranclp_induct) (use started_ok thread_ok_step in blast)+

lemma no_deadlock:
  assumes "lock_step\<^sup>*\<^sup>* (start_threads reqs) ts" and "set reqs \<subseteq> scripts" and "\<exists>t \<in> set ts. snd t \<noteq> []"
  shows "\<exists>i < length ts. can_move ts i"
  using some_thread_moves reached_ok [OF assms(1,2)] assms(3) by blast

lemma move_is_step:
  assumes "\<forall>t \<in> set ts. thread_ok rank t" and "i < length ts" and "can_move ts i"
  shows "\<exists>ts'. lock_step ts ts'"
proof -
  obtain hs es where t: "ts ! i = (hs, es)" by fastforce
  have ok: "thread_ok rank (hs, es)" using assms(1,2) t nth_mem by metis
  obtain e rest where e: "es = e # rest" using assms(3) t by (cases es) (auto simp: can_move_def)
  show ?thesis
  proof (cases e)
    case (Lock l m)
    then have "is_free l ts" using assms(3) t e by (simp add: can_move_def)
    then have "compatible l m ts"
      by (cases m) (force simp: compatible_def is_free_def held_by_def)+
    with Lock t e assms(2) show ?thesis using take_lock by metis
  next
    case (Unlock l)
    then have "l \<in> fst ` set hs" using ok e by (simp add: thread_ok_def)
    then obtain h where "List.find (\<lambda>h. fst h = l) hs = Some h" using find_held by metis
    with Unlock t e assms(2) show ?thesis using drop_lock by metis
  qed
qed

text \<open>No run is longer than the scripts together, and a run that cannot go on has run them all.\<close>

lemma run_ends: "wfP (\<lambda>ts' ts. lock_step ts ts')"
  by (rule wfp_if_convertible_to_nat [of _ remaining]) (rule lock_step_remaining)

lemma stopped_is_finished:
  assumes "lock_step\<^sup>*\<^sup>* (start_threads reqs) ts" and "set reqs \<subseteq> scripts" and "\<nexists>ts'. lock_step ts ts'"
  shows "\<forall>t \<in> set ts. t = ([], [])"
proof -
  have ok: "\<forall>t \<in> set ts. thread_ok rank t" using reached_ok [OF assms(1,2)] .
  have "\<forall>t \<in> set ts. snd t = []"
    using no_deadlock [OF assms(1,2)] move_is_step [OF ok] assms(3) by blast
  with ok show ?thesis by (auto simp: thread_ok_def)
qed

end

end
