(* ===== verification/Locking.thy ===== *)
theory Locking
  imports Api_Views Lock_Order
begin

section \<open>The locks of the REST API\<close>

text \<open>
  Which locks a request takes and in which order. A script is the sequence of lock and unlock
  events on one path through a handler of \<open>src/api/mod.rs\<close>, with the locks that the services under
  it take (\<open>src/service/resilience.rs\<close>, \<open>src/service/account_service.rs\<close>,
  \<open>src/service/identity_service.rs\<close>, \<open>src/domain/account.rs\<close>). A guard in a temporary is released at
  the end of its statement, a guard in a variable at its \<open>drop\<close> or at the end of its block, the
  last one first. Every branch counts as possible, so the scripts include the paths of the code.
  The account registry (a \<open>DashMap\<close>) has one lock per shard: \<open>sh\<close> is the shard of an account, and
  \<open>regs\<close> lists the shards with their accounts in the order of an iteration. The fields of an account
  that another thread cannot see yet are left out.
\<close>

datatype api_lock =
    LTokens | LRefill | LBreaker | LFailure | LRbac | LIdentity | LParties | LPartyIds | LIdents | LSaga
  | LSeq | LChain | LJournal | LShard nat | LStatus uuid | LUpdated uuid | LBuckets | LSamples

fun lock_rank :: "api_lock \<Rightarrow> nat" where
  "lock_rank LTokens = 0" | "lock_rank LRefill = 1" | "lock_rank LBreaker = 2" | "lock_rank LFailure = 3"
| "lock_rank LRbac = 4" | "lock_rank LIdentity = 5" | "lock_rank LParties = 6" | "lock_rank LPartyIds = 7"
| "lock_rank LIdents = 8" | "lock_rank LSaga = 9" | "lock_rank LSeq = 10" | "lock_rank LChain = 11"
| "lock_rank LJournal = 12" | "lock_rank (LShard _) = 13" | "lock_rank (LStatus _) = 14"
| "lock_rank (LUpdated _) = 15" | "lock_rank LBuckets = 16" | "lock_rank LSamples = 17"

type_synonym script = "api_lock lock_event list"

definition holding :: "api_lock \<Rightarrow> lock_mode \<Rightarrow> script \<Rightarrow> script" where
  "holding l m es = Lock l m # es @ [Unlock l]"

abbreviation locked :: "api_lock \<Rightarrow> script" where "locked l \<equiv> holding l Exclusive []"
abbreviation reading :: "api_lock \<Rightarrow> script" where "reading l \<equiv> holding l Shared []"

text \<open>One after the other; and the same where the first part may be the last (an early return).\<close>

definition and_then :: "script list \<Rightarrow> script list \<Rightarrow> script list" where
  "and_then ps qs = concat (map (\<lambda>p. map (\<lambda>q. p @ q) qs) ps)"

definition and_maybe :: "script list \<Rightarrow> script list \<Rightarrow> script list" where
  "and_maybe ps qs = ps @ and_then ps qs"

subsection \<open>The services\<close>

definition consume_locks :: "script list" where
  "consume_locks = [holding LTokens Exclusive (locked LRefill)]"

definition allow_locks :: "script list" where
  "allow_locks = [locked LBreaker, holding LBreaker Exclusive (locked LFailure)]"

definition success_locks :: "script list" where
  "success_locks = [locked LBreaker]"

definition failure_locks :: "script list" where
  "failure_locks = and_maybe [locked LFailure] [locked LBreaker]"

definition record_locks :: "script list" where
  "record_locks = [reading LBuckets @ locked LSamples]"

text \<open>A call on an account of the registry: not found, refused before the status, after it, done.\<close>

definition balance_locks :: "(uuid \<Rightarrow> nat) \<Rightarrow> uuid \<Rightarrow> script list" where
  "balance_locks sh i = map (holding (LShard (sh i)) Shared)
     [[], locked (LStatus i), locked (LStatus i) @ locked (LUpdated i)]"

definition clone_locks :: "(uuid \<Rightarrow> nat) \<Rightarrow> uuid \<Rightarrow> script list" where
  "clone_locks sh i = map (holding (LShard (sh i)) Shared)
     [[], holding (LStatus i) Exclusive (locked (LUpdated i))]"

definition set_status_locks :: "(uuid \<Rightarrow> nat) \<Rightarrow> uuid \<Rightarrow> script list" where
  "set_status_locks sh i = map (holding (LShard (sh i)) Shared)
     [[], locked (LStatus i), holding (LStatus i) Exclusive (locked (LUpdated i))]"

definition each_account :: "(nat \<times> uuid list) list \<Rightarrow> script" where
  "each_account regs = concat (map (\<lambda>(k, ids). holding (LShard k) Shared (concat (map (\<lambda>i. locked (LStatus i)) ids))) regs)"

text \<open>The background write reads everything first; without a store it does nothing.\<close>

definition persist_locks :: "bool \<Rightarrow> (nat \<times> uuid list) list \<Rightarrow> script list" where
  "persist_locks store regs =
     [if store then each_account regs @ reading LJournal @ locked LChain else []]"

definition active_locks :: script where
  "active_locks = holding LPartyIds Shared (reading LIdents)"

definition scan_locks :: "nat \<Rightarrow> script" where
  "scan_locks n = holding LParties Shared (concat (replicate n active_locks))"

definition replace_locks :: "script list" where
  "replace_locks = and_maybe [locked LIdents] [locked LPartyIds]"

subsection \<open>The handlers\<close>

text \<open>\<open>n\<close> is the number of parties that a scan visits.\<close>

definition change_locks ::
  "bool \<Rightarrow> (nat \<times> uuid list) list \<Rightarrow> (uuid \<Rightarrow> nat) \<Rightarrow> uuid \<Rightarrow> script list \<Rightarrow> script list"
where
  "change_locks store regs sh i call =
     and_maybe allow_locks (and_maybe call
       (failure_locks @ and_maybe (clone_locks sh i)
          (and_then record_locks (and_then success_locks (persist_locks store regs)))))"

definition transfer_locks ::
  "bool \<Rightarrow> (nat \<times> uuid list) list \<Rightarrow> (uuid \<Rightarrow> nat) \<Rightarrow> uuid \<Rightarrow> uuid \<Rightarrow> script list"
where
  "transfer_locks store regs sh from to =
     and_maybe allow_locks (and_maybe (clone_locks sh from) (and_maybe [locked LSeq]
       (and_then [locked LChain @ locked LJournal]
         (and_then (balance_locks sh from)
           (failure_locks @ and_then (balance_locks sh to)
              (and_then (balance_locks sh from) failure_locks @
               and_maybe (clone_locks sh from) (and_maybe (clone_locks sh to)
                 (and_then record_locks (and_then success_locks (persist_locks store regs))))))))))"

definition reverse_locks ::
  "bool \<Rightarrow> (nat \<times> uuid list) list \<Rightarrow> (uuid \<Rightarrow> nat) \<Rightarrow> uuid list \<Rightarrow> script list"
where
  "reverse_locks store regs sh accts =
     and_maybe [reading LJournal] (and_maybe [locked LSeq]
       (foldr (\<lambda>i rest. and_maybe (balance_locks sh i) rest) accts
          (and_then [locked LChain @ locked LJournal] (persist_locks store regs))))"

fun request_locks ::
  "bool \<Rightarrow> (nat \<times> uuid list) list \<Rightarrow> (uuid \<Rightarrow> nat) \<Rightarrow> nat \<Rightarrow> uuid list \<Rightarrow> api_request \<Rightarrow> script list"
where
  "request_locks store regs sh n accts (ReqCreateAccount _ _ _) =
     and_maybe allow_locks (concat (map (\<lambda>(k, _).
       and_then [locked (LShard k)] (and_then record_locks (and_then success_locks (persist_locks store regs)))) regs))"
| "request_locks store regs sh n accts (ReqGetAccount i) = and_maybe (clone_locks sh i) record_locks"
| "request_locks store regs sh n accts (ReqDebit i _) = change_locks store regs sh i (balance_locks sh i)"
| "request_locks store regs sh n accts (ReqCredit i _) = change_locks store regs sh i (balance_locks sh i)"
| "request_locks store regs sh n accts (ReqSetStatus i _) = change_locks store regs sh i (set_status_locks sh i)"
| "request_locks store regs sh n accts (ReqPlaceHold i _) = change_locks False regs sh i (balance_locks sh i)"
| "request_locks store regs sh n accts (ReqReleaseHold i _) = change_locks False regs sh i (balance_locks sh i)"
| "request_locks store regs sh n accts (ReqTransfer r) = transfer_locks store regs sh (tr_from r) (tr_to r)"
| "request_locks store regs sh n accts (ReqReverse _) = reverse_locks store regs sh accts"
| "request_locks store regs sh n accts (ReqRedact _) =
     locked LChain # map (holding LChain Exclusive) (persist_locks store regs)"
| "request_locks store regs sh n accts (ReqCommit _) = [locked LChain]"
| "request_locks store regs sh n accts (ReqReject _) = [locked LChain]"
| "request_locks store regs sh n accts (ReqCoaDeactivate i) =
     and_maybe (set_status_locks sh i) (and_then [locked LChain] (persist_locks store regs))"
| "request_locks store regs sh n accts (ReqBindRole _ _ _) = and_maybe [reading LRbac] [locked LRbac]"
| "request_locks store regs sh n accts (ReqCreateParty _ _) = [holding LIdentity Shared (locked LParties)]"
| "request_locks store regs sh n accts (ReqAddIdentifier _ _ _ _) =
     [holding LIdentity Exclusive (reading LParties),
      holding LIdentity Exclusive (reading LParties @ locked LIdents @ locked LPartyIds)]"
| "request_locks store regs sh n accts (ReqVerifyIdentifier _ _) =
     and_maybe [holding LIdentity Shared (scan_locks n)] (map (holding LIdentity Exclusive) replace_locks)"
| "request_locks store regs sh n accts (ReqReplaceIdentifier _ _ _) =
     and_maybe [holding LIdentity Shared (scan_locks n)] (map (holding LIdentity Exclusive) replace_locks)"

definition view_locks :: "(nat \<times> uuid list) list \<Rightarrow> (uuid \<Rightarrow> nat) \<Rightarrow> view_request \<Rightarrow> script list" where
  "view_locks regs sh v =
     (case v of
        VHealth \<Rightarrow> [locked LBreaker]
      | VMetrics \<Rightarrow> [locked LSamples @ locked LSamples @ locked LBreaker @
          concat (map (\<lambda>(k, _). reading (LShard k)) regs) @ reading LJournal @ locked LChain]
      | VJournal \<Rightarrow> [reading LJournal] | VEntries _ \<Rightarrow> [reading LJournal]
      | VTrialBalance \<Rightarrow> [reading LJournal] | VValidate \<Rightarrow> [reading LJournal]
      | VVerify \<Rightarrow> [locked LChain] | VProof _ \<Rightarrow> [locked LChain]
      | VAuditReport _ \<Rightarrow> [locked LChain] | VAuditExport \<Rightarrow> [locked LChain]
      | VSnapshot i \<Rightarrow> clone_locks sh i
      | VParties \<Rightarrow> [holding LIdentity Shared (reading LParties)]
      | VParty _ \<Rightarrow> [holding LIdentity Shared (reading LParties)]
      | VIdentifiers _ \<Rightarrow> [holding LIdentity Shared active_locks]
      | VSaga _ \<Rightarrow> [reading LSaga]
      | VCoa \<Rightarrow> [each_account (map (\<lambda>(k, _). (k, [])) regs)]
      | VCoaByCode _ \<Rightarrow> [each_account (map (\<lambda>(k, _). (k, [])) regs)]
      | VPermissions _ \<Rightarrow> [reading LRbac]
      | VSubject _ _ \<Rightarrow> and_maybe [reading LRbac] [reading LRbac]
      | VRbacAudit _ \<Rightarrow> and_maybe [reading LRbac] [reading LRbac]
      | VRbacMatrix _ \<Rightarrow> and_maybe [reading LRbac] [reading LRbac]
      | VNewTransaction _ \<Rightarrow> [[]])"

text \<open>The rate limiter comes first, for every route, and may be the end of it.\<close>

definition is_redaction :: "api_request \<Rightarrow> bool" where
  "is_redaction req \<longleftrightarrow> (case req of ReqRedact _ \<Rightarrow> True | _ \<Rightarrow> False)"

definition change_scripts :: "bool \<Rightarrow> (nat \<times> uuid list) list \<Rightarrow> (uuid \<Rightarrow> nat) \<Rightarrow> api_request \<Rightarrow> script set" where
  "change_scripts store regs sh req =
     {p. \<exists>n accts. p \<in> set (and_maybe consume_locks (request_locks store regs sh n accts req))}"

definition read_scripts :: "(nat \<times> uuid list) list \<Rightarrow> (uuid \<Rightarrow> nat) \<Rightarrow> script set" where
  "read_scripts regs sh = {p. \<exists>v. p \<in> set (and_maybe consume_locks (view_locks regs sh v))}"

definition api_scripts :: "bool \<Rightarrow> (nat \<times> uuid list) list \<Rightarrow> (uuid \<Rightarrow> nat) \<Rightarrow> script set" where
  "api_scripts store regs sh =
     read_scripts regs sh \<union> (\<Union>req \<in> {req. store \<longrightarrow> \<not> is_redaction req}. change_scripts store regs sh req)"

subsection \<open>The order of the locks\<close>

definition above :: "api_lock \<Rightarrow> script \<Rightarrow> bool" where
  "above l es \<longleftrightarrow> (\<forall>e \<in> set es. case e of Lock l' _ \<Rightarrow> lock_rank l < lock_rank l' | Unlock _ \<Rightarrow> True)"

definition all_ordered :: "script list \<Rightarrow> bool" where
  "all_ordered ps \<longleftrightarrow> (\<forall>p \<in> set ps. well_ordered lock_rank [] p)"

lemma well_ordered_append:
  "well_ordered rank hs p \<Longrightarrow> well_ordered rank [] q \<Longrightarrow> well_ordered rank hs (p @ q)"
  by (induction rank hs p rule: well_ordered.induct) simp_all

lemma well_ordered_under:
  "well_ordered lock_rank hs es \<Longrightarrow> above l es \<Longrightarrow> well_ordered lock_rank (hs @ [l]) (es @ [Unlock l])"
  by (induction lock_rank hs es rule: well_ordered.induct) (auto simp: above_def remove1_append)

lemma above_simps [simp]:
  "above l []" "above l (p @ q) \<longleftrightarrow> above l p \<and> above l q"
  "above l (holding l' m es) \<longleftrightarrow> lock_rank l < lock_rank l' \<and> above l es"
  "above l (concat ps) \<longleftrightarrow> (\<forall>p \<in> set ps. above l p)"
  by (auto simp: above_def holding_def)

lemma script_ok [simp]:
  "well_ordered lock_rank [] es \<Longrightarrow> above l es \<Longrightarrow> well_ordered lock_rank [] (holding l m es)"
  "well_ordered lock_rank [] p \<Longrightarrow> well_ordered lock_rank [] q \<Longrightarrow> well_ordered lock_rank [] (p @ q)"
  using well_ordered_under [of "[]" es l] by (simp_all add: holding_def well_ordered_append)

lemma concat_ok [simp]: "(\<And>p. p \<in> set ps \<Longrightarrow> well_ordered lock_rank [] p) \<Longrightarrow> well_ordered lock_rank [] (concat ps)"
  by (induction ps) simp_all

lemma closed_simps [simp]:
  "all_ordered []" "all_ordered (p # ps) \<longleftrightarrow> well_ordered lock_rank [] p \<and> all_ordered ps" "all_ordered (ps @ qs) \<longleftrightarrow> all_ordered ps \<and> all_ordered qs"
  "all_ordered (concat pss) \<longleftrightarrow> (\<forall>ps \<in> set pss. all_ordered ps)"
  by (auto simp: all_ordered_def)

lemma closed_then [simp]:
  "all_ordered ps \<Longrightarrow> all_ordered qs \<Longrightarrow> all_ordered (and_then ps qs)" "all_ordered ps \<Longrightarrow> all_ordered qs \<Longrightarrow> all_ordered (and_maybe ps qs)"
  by (auto simp: and_then_def and_maybe_def all_ordered_def)

lemma closed_holding: "all_ordered ps \<Longrightarrow> (\<And>p. p \<in> set ps \<Longrightarrow> above l p) \<Longrightarrow> all_ordered (map (holding l m) ps)"
  by (auto simp: all_ordered_def)

lemma service_scripts_ok [simp]:
  "well_ordered lock_rank [] (each_account regs)" "well_ordered lock_rank [] active_locks"
  "above LParties active_locks" "well_ordered lock_rank [] (scan_locks n)"
proof -
  show "well_ordered lock_rank [] (each_account regs)"
    unfolding each_account_def by (rule concat_ok) (auto intro!: script_ok(1) concat_ok)
  show active: "well_ordered lock_rank [] active_locks" "above LParties active_locks" by (simp_all add: active_locks_def)
  show "well_ordered lock_rank [] (scan_locks n)"
    unfolding scan_locks_def using active by (intro script_ok(1) concat_ok) auto
qed

lemma service_locks_closed [simp]:
  "all_ordered consume_locks" "all_ordered allow_locks" "all_ordered success_locks" "all_ordered failure_locks" "all_ordered record_locks"
  "all_ordered (balance_locks sh i)" "all_ordered (clone_locks sh i)" "all_ordered (set_status_locks sh i)"
  "all_ordered (persist_locks store regs)" "all_ordered replace_locks"
  by (simp_all add: consume_locks_def allow_locks_def success_locks_def failure_locks_def record_locks_def
      balance_locks_def clone_locks_def set_status_locks_def persist_locks_def replace_locks_def)

lemma reverse_locks_closed: "all_ordered (reverse_locks store regs sh accts)"
proof -
  have "all_ordered (foldr (\<lambda>i rest. and_maybe (balance_locks sh i) rest) accts qs)" if "all_ordered qs" for qs
    using that by (induction accts) simp_all
  then show ?thesis by (simp add: reverse_locks_def)
qed

lemma identity_locks_closed:
  "all_ordered (and_maybe [holding LIdentity Shared (scan_locks n)] (map (holding LIdentity Exclusive) replace_locks))"
proof -
  have "above LIdentity (scan_locks n)" by (simp add: scan_locks_def active_locks_def)
  moreover have "all_ordered (map (holding LIdentity Exclusive) replace_locks)"
    by (rule closed_holding) (auto simp: replace_locks_def and_maybe_def and_then_def)
  ultimately show ?thesis by simp
qed

lemma request_locks_closed:
  assumes "store \<longrightarrow> \<not> is_redaction req"
  shows "all_ordered (request_locks store regs sh n accts req)"
proof (cases req)
  case (ReqRedact k)
  with assms show ?thesis by (simp add: is_redaction_def persist_locks_def)
next
  case (ReqReverse i)
  then show ?thesis by (simp add: reverse_locks_closed)
next
  case (ReqVerifyIdentifier ps i)
  then show ?thesis by (simp add: identity_locks_closed)
next
  case (ReqReplaceIdentifier ps i v)
  then show ?thesis by (simp add: identity_locks_closed)
qed (auto simp: change_locks_def transfer_locks_def intro!: closed_then(2))

lemma view_locks_closed: "all_ordered (view_locks regs sh v)"
  by (cases v) (auto simp: view_locks_def active_locks_def intro!: script_ok(2) concat_ok)

lemma api_scripts_ordered:
  assumes "es \<in> api_scripts store regs sh"
  shows "well_ordered lock_rank [] es"
proof -
  have view: "well_ordered lock_rank [] p" if "p \<in> set (and_maybe consume_locks (view_locks regs sh v))" for p v
    using closed_then(2) [OF service_locks_closed(1) view_locks_closed, of regs sh v] that by (simp add: all_ordered_def)
  have change: "well_ordered lock_rank [] p"
    if "store \<longrightarrow> \<not> is_redaction req" "p \<in> set (and_maybe consume_locks (request_locks store regs sh n accts req))"
    for p req n accts
    using closed_then(2) [OF service_locks_closed(1) request_locks_closed [OF that(1), of regs sh n accts]] that(2)
    by (simp add: all_ordered_def)
  from assms view change show ?thesis unfolding api_scripts_def read_scripts_def change_scripts_def by blast
qed

interpretation api_locks: lock_discipline lock_rank "api_scripts store regs sh" for store regs sh
  by unfold_locales (rule api_scripts_ordered)

subsection \<open>Requests do not block each other for ever\<close>

text \<open>
  C17. The API does not deadlock. Any requests run at the same time, interleaved in any way; as
  long as one of them is not done, one can go on, whatever the policy of the reader-writer locks.
  Every run is finite, and one that cannot go on has finished every request and released every
  lock. This holds for all routes without a store, and for all but the redaction with one.
\<close>

theorem api_does_not_deadlock:
  assumes "set reqs \<subseteq> api_scripts store regs sh" and "lock_step\<^sup>*\<^sup>* (start_threads reqs) ts"
  shows "((\<exists>t \<in> set ts. snd t \<noteq> []) \<longrightarrow> (\<exists>i < length ts. can_move ts i)) \<and>
    ((\<nexists>ts'. lock_step ts ts') \<longrightarrow> (\<forall>t \<in> set ts. t = ([], []))) \<and>
    wfP (\<lambda>ts' ts :: api_lock lock_thread list. lock_step ts ts')"
  using api_locks.no_deadlock [OF assms(2,1)] api_locks.stopped_is_finished [OF assms(2,1)] api_locks.run_ends by blast

theorem api_does_not_deadlock_witness:
  "\<exists>i < 2. can_move (start_threads
     [holding LTokens Exclusive (locked LRefill) @ locked LChain, holding LTokens Exclusive (locked LRefill) @ reading LJournal]) i"
proof -
  let ?c = "holding LTokens Exclusive (locked LRefill)"
  have "?c @ locked LChain \<in> change_scripts True [] (\<lambda>_. 0) (ReqCommit 1)"
    "?c @ reading LJournal \<in> read_scripts [] (\<lambda>_. 0)"
    by (auto simp: change_scripts_def read_scripts_def and_maybe_def and_then_def consume_locks_def view_locks_def
        intro: exI [of _ VJournal])
  then have "set [?c @ locked LChain, ?c @ reading LJournal] \<subseteq> api_scripts True [] (\<lambda>_. 0)"
    by (auto simp: api_scripts_def is_redaction_def intro: exI [of _ "ReqCommit 1"])
  from api_does_not_deadlock [OF this rtranclp.rtrancl_refl] show ?thesis
    by (simp add: start_threads_def holding_def numeral_2_eq_2)
qed

subsection \<open>A redaction with a store waits for itself\<close>

text \<open>A thread alone runs any ordered part of its script, above what it holds already.\<close>

lemma solo_run:
  assumes "well_ordered lock_rank (map fst hs) es" and "\<forall>b \<in> set base. above (fst b) es"
    and "\<forall>t \<in> set ts. fst t = []"
  shows "lock_step\<^sup>*\<^sup>* ((hs @ base, es @ rest) # ts) ((base, rest) # ts)"
  using assms(1,2)
proof (induction es arbitrary: hs)
  case (Cons e es)
  show ?case
  proof (cases e)
    case (Lock l m)
    have "l \<notin> fst ` set (hs @ base)"
      using Cons(2,3) Lock by (fastforce simp: above_def)
    then have "is_free l ((hs @ base, Lock l m # es @ rest) # ts)"
      using assms(3) by (auto simp: is_free_def held_by_def)
    then have "compatible l m ((hs @ base, Lock l m # es @ rest) # ts)"
      by (cases m) (force simp: compatible_def is_free_def held_by_def)+
    from take_lock [of 0, OF _ _ this] Lock
    have "lock_step ((hs @ base, (e # es) @ rest) # ts) ((((l, m) # hs) @ base, es @ rest) # ts)" by simp
    moreover have "lock_step\<^sup>*\<^sup>* ((((l, m) # hs) @ base, es @ rest) # ts) ((base, rest) # ts)"
      using Cons(2,3) Lock by (intro Cons(1)) (auto simp: above_def)
    ultimately show ?thesis by (rule converse_rtranclp_into_rtranclp)
  next
    case (Unlock l)
    then have "l \<in> fst ` set hs" using Cons(2) by simp
    then obtain h where h: "List.find (\<lambda>h. fst h = l) hs = Some h" using find_held by metis
    then have "h \<in> set hs" by (auto simp: find_Some_iff)
    have "List.find (\<lambda>h. fst h = l) (hs @ base) = Some h" using h by (induction hs) auto
    with drop_lock [of 0 "(hs @ base, Unlock l # es @ rest) # ts" "hs @ base" l "es @ rest" h] Unlock \<open>h \<in> set hs\<close>
    have "lock_step ((hs @ base, (e # es) @ rest) # ts) ((remove1 h hs @ base, es @ rest) # ts)"
      by (simp add: remove1_append)
    moreover have "lock_step\<^sup>*\<^sup>* ((remove1 h hs @ base, es @ rest) # ts) ((base, rest) # ts)"
      using Cons(2,3) Unlock map_fst_remove1_find [OF h] by (intro Cons(1)) (auto simp: above_def)
    ultimately show ?thesis by (rule converse_rtranclp_into_rtranclp)
  qed
qed simp

text \<open>A thread that asks for a lock it holds keeps waiting, and nobody else gets the lock.\<close>

lemma self_wait_forever:
  assumes "lock_step\<^sup>*\<^sup>* ts ts'" and "ts ! 0 = (hs, Lock l Exclusive # rest)" and "(l, Exclusive) \<in> set hs" and "ts \<noteq> []"
  shows "ts' ! 0 = (hs, Lock l Exclusive # rest) \<and> ts' \<noteq> [] \<and> \<not> compatible l m ts'"
  using assms(1)
proof (induction rule: rtranclp_induct)
  case base
  have "(hs, Lock l Exclusive # rest) \<in> set ts" using assms(2,4) nth_mem [of 0 ts] by simp
  with assms show ?case by (cases m) (force simp: compatible_def is_free_def held_by_def)+
next
  case (step us vs)
  have held: "(hs, Lock l Exclusive # rest) \<in> set us" using step(3) nth_mem [of 0 us] by auto
  then have "\<not> is_free l us" using assms(3) by (force simp: is_free_def held_by_def)
  with step(2,3) have keep: "vs ! 0 = (hs, Lock l Exclusive # rest) \<and> vs \<noteq> []"
    by (cases rule: lock_step.cases) (auto simp: nth_list_update compatible_def)
  then have "(hs, Lock l Exclusive # rest) \<in> set vs" using nth_mem [of 0 vs] by auto
  with keep assms(3) show ?case by (cases m) (force simp: compatible_def is_free_def held_by_def)+
qed

text \<open>
  A redaction hangs when a store is configured. The handler holds the lock of the chain while
  it prepares the write to the store, which takes that lock: on a server without other requests
  the thread waits for itself; and whatever requests come then, it keeps waiting and no request
  gets the chain again.
\<close>

theorem redaction_with_store_hangs:
  "\<exists>p \<in> change_scripts True regs sh (ReqRedact k). \<exists>ts.
     lock_step\<^sup>*\<^sup>* (start_threads (p # reqs)) ts \<and>
     (\<forall>ts'. lock_step\<^sup>*\<^sup>* ts ts' \<longrightarrow> snd (ts' ! 0) \<noteq> [] \<and> (\<forall>m. \<not> compatible LChain m ts'))"
proof -
  define mid where "mid = each_account regs @ reading LJournal"
  let ?c = "holding LTokens Exclusive (locked LRefill)" and ?w = "[Lock LChain Exclusive, Unlock LChain, Unlock LChain]"
  let ?p = "?c @ Lock LChain Exclusive # mid @ ?w" and ?others = "map (Pair []) reqs"
  have p: "?p \<in> change_scripts True regs sh (ReqRedact k)"
    by (auto simp: change_scripts_def and_maybe_def and_then_def consume_locks_def persist_locks_def mid_def holding_def)
  have mid: "well_ordered lock_rank [] mid" "above LChain mid"
    by (simp_all add: mid_def) (auto simp: each_account_def)
  have "lock_step\<^sup>*\<^sup>* (([] @ [], ?p) # ?others) (([], Lock LChain Exclusive # mid @ ?w) # ?others)"
    by (rule solo_run) simp_all
  moreover have "lock_step (([], Lock LChain Exclusive # mid @ ?w) # ?others) (([(LChain, Exclusive)], mid @ ?w) # ?others)"
    using take_lock [of 0 "([], Lock LChain Exclusive # mid @ ?w) # ?others" "[]" LChain Exclusive "mid @ ?w"]
    by (auto simp: compatible_def is_free_def held_by_def)
  moreover have "lock_step\<^sup>*\<^sup>* (([] @ [(LChain, Exclusive)], mid @ ?w) # ?others) (([(LChain, Exclusive)], ?w) # ?others)"
    using mid by (intro solo_run) auto
  ultimately have run: "lock_step\<^sup>*\<^sup>* (start_threads (?p # reqs)) (([(LChain, Exclusive)], ?w) # ?others)"
    by (auto simp: start_threads_def intro: rtranclp.rtrancl_into_rtrancl rtranclp_trans)
  have "snd (ts' ! 0) \<noteq> [] \<and> (\<forall>m. \<not> compatible LChain m ts')"
    if "lock_step\<^sup>*\<^sup>* (([(LChain, Exclusive)], ?w) # ?others) ts'" for ts'
    using self_wait_forever [OF that, of "[(LChain, Exclusive)]" LChain] by auto
  with p run show ?thesis by blast
qed

theorem redaction_with_store_hangs_witness:
  "\<exists>p \<in> change_scripts True [] (\<lambda>_. 0) (ReqRedact 1). \<exists>ts.
     lock_step\<^sup>*\<^sup>* (start_threads [p, locked LChain]) ts \<and> snd (ts ! 0) \<noteq> [] \<and> \<not> compatible LChain Exclusive ts"
proof -
  obtain p ts where "p \<in> change_scripts True [] (\<lambda>_. 0) (ReqRedact 1)" "lock_step\<^sup>*\<^sup>* (start_threads [p, locked LChain]) ts"
    "\<forall>ts'. lock_step\<^sup>*\<^sup>* ts ts' \<longrightarrow> snd (ts' ! 0) \<noteq> [] \<and> (\<forall>m. \<not> compatible LChain m ts')"
    using redaction_with_store_hangs [of "[]" "\<lambda>_. 0" 1 "[locked LChain]"] by auto
  then show ?thesis by blast
qed

end
