(* ===== verification/Stress.thy ===== *)
theory Stress
  imports Ring_Buffer Account
begin

section \<open>Load generation and its measurements\<close>

text \<open>
  The rest of \<open>src/log/ring_buffer.rs\<close> (the end of a buffer's life, percentiles, timers) and what
  drives load: \<open>src/service/thundering_herd.rs\<close>, \<open>src/service/stress_test.rs\<close> and
  \<open>src/service/affinity.rs\<close>. Instants, in nanoseconds, and random draws are arguments; the system calls of the affinity
  module are parameters. Where the source computes a rank in floating point, the rank is an
  argument.
\<close>

subsection \<open>Dropping a ring buffer\<close>

text \<open>Every slot between the sequences is dropped; dropping one that was never written is undefined.\<close>

definition ring_drop :: "'a ring \<Rightarrow> 'a list option" where
  "ring_drop r =
     those (map (\<lambda>s. slots r ! slot_index (word_of_nat s) r)
       [unat (consumer_sequence r)..<unat (producer_sequence r)])"

text \<open>A buffer that ran as a queue drops its unread elements, each once.\<close>

lemma those_Some: "(\<And>x. x \<in> set xs \<Longrightarrow> f x \<noteq> None) \<Longrightarrow> those (map f xs) = Some (map (the \<circ> f) xs)"
  by (induction xs) (fastforce split: option.split)+

lemma ring_drop_unread:
  assumes "ring_ok n r"
  shows "ring_drop r = Some (ring_contents r)"
proof -
  let ?c = "unat (consumer_sequence r)" and ?p = "unat (producer_sequence r)"
  have p: "?p < 2 ^ 64" and full: "\<forall>s \<in> {?c..<?p}. slots r ! (s mod unat (capacity r)) \<noteq> None"
    using assms by (simp_all add: ring_ok_def Let_def)
  have idx: "slot_index (word_of_nat s) r = s mod unat (capacity r)" if "s < ?p" for s
    using slot_index_mod [OF assms, of "word_of_nat s"] that p by (simp add: unat_of_nat)
  have "those (map (\<lambda>s. slots r ! (s mod unat (capacity r))) [?c..<?p]) =
     Some (map (the \<circ> (\<lambda>s. slots r ! (s mod unat (capacity r)))) [?c..<?p])"
    using full by (intro those_Some) auto
  moreover have "map (\<lambda>s. slots r ! slot_index (word_of_nat s) r) [?c..<?p] =
     map (\<lambda>s. slots r ! (s mod unat (capacity r))) [?c..<?p]"
    by (rule map_cong) (simp_all add: idx)
  ultimately show ?thesis unfolding ring_drop_def ring_contents_def comp_def by metis
qed

subsection \<open>Percentiles and timers\<close>

text \<open>The upper end of a bucket in nanoseconds; the shift count is taken modulo the width.\<close>

definition bucket_top :: "nat \<Rightarrow> u64" where
  "bucket_top i = (if i = 0 then 1000 else push_bit (i mod 64) 1 * 1000)"

fun percentile_loop :: "usize \<Rightarrow> usize \<Rightarrow> nat \<Rightarrow> usize list \<Rightarrow> u64 option" where
  "percentile_loop target cumulative i [] = None"
| "percentile_loop target cumulative i (b # bs) =
     (let cumulative' = cumulative + b
      in if cumulative' \<ge> target then Some (bucket_top i) else percentile_loop target cumulative' (Suc i) bs)"

text \<open>\<open>in_range\<close> says that the percentage is between 0 and 100, \<open>target\<close> is the rank of it.\<close>

definition hist_percentile :: "bool \<Rightarrow> usize \<Rightarrow> histogram \<Rightarrow> u64 option" where
  "hist_percentile in_range target h =
     (if \<not> in_range then None
      else if hist_total_count h = 0 then None
      else case percentile_loop target 0 0 (hist_buckets h) of
             Some v \<Rightarrow> Some v
           | None \<Rightarrow> Some (push_bit (unat (hist_num_buckets h - 1) mod 64) 1 * 1000))"

record latency_timer =
  lt_histogram :: histogram
  lt_start :: timestamp

definition timer_start :: "timestamp \<Rightarrow> histogram \<Rightarrow> latency_timer" where
  "timer_start now h = \<lparr>lt_histogram = h, lt_start = now\<rparr>"

definition timer_stop :: "timestamp \<Rightarrow> latency_timer \<Rightarrow> (u64 \<times> histogram) option" where
  "timer_stop now t =
     (let elapsed = word_of_int (max 0 (now - lt_start t))
      in map_option (Pair elapsed) (hist_record elapsed (lt_histogram t)))"

text \<open>The samples in the buckets below \<open>k\<close>.\<close>

definition below :: "u64 list \<Rightarrow> histogram \<Rightarrow> nat \<Rightarrow> nat" where
  "below xs h k = length (filter (\<lambda>x. bucket_for x h < k) xs)"

lemma below_Suc: "below xs h (Suc k) = below xs h k + length (filter (\<lambda>x. bucket_for x h = k) xs)"
proof -
  have "length (filter (\<lambda>x. bucket_for x h < Suc k) ys) =
     length (filter (\<lambda>x. bucket_for x h < k) ys) + length (filter (\<lambda>x. bucket_for x h = k) ys)" for ys
    by (induction ys) auto
  then show ?thesis by (simp add: below_def)
qed

lemma percentile_loop_finds:
  assumes "hist_holds xs h" and "length xs < 2 ^ 64" and "i + m = length (hist_buckets h)"
    and "unat target \<le> below xs h (i + m)" and "below xs h i < unat target \<or> i = 0" and "0 < m"
  shows "\<exists>j. i \<le> j \<and> j < i + m \<and> unat target \<le> below xs h (Suc j) \<and>
    percentile_loop target (word_of_nat (below xs h i)) i (drop i (hist_buckets h)) = Some (bucket_top j)"
  using assms(3-6)
proof (induction m arbitrary: i)
  case (Suc m)
  have small: "below xs h k < 2 ^ 64" for k
    using assms(2) length_filter_le [of "\<lambda>x. bucket_for x h < k" xs] unfolding below_def by linarith
  have i: "i < length (hist_buckets h)" using Suc(2) by simp
  have b: "hist_buckets h ! i = word_of_nat (length (filter (\<lambda>x. bucket_for x h = i) xs))"
    using assms(1) i by (simp add: hist_holds_def)
  have cum: "word_of_nat (below xs h i) + hist_buckets h ! i = (word_of_nat (below xs h (Suc i)) :: usize)"
    by (simp add: b below_Suc)
  have ge: "target \<le> word_of_nat (below xs h (Suc i)) \<longleftrightarrow> unat target \<le> below xs h (Suc i)"
    using small [of "Suc i"] by (simp add: word_le_nat_alt unat_of_nat)
  have drop: "drop i (hist_buckets h) = hist_buckets h ! i # drop (Suc i) (hist_buckets h)"
    using i by (simp add: Cons_nth_drop_Suc)
  show ?case
  proof (cases "unat target \<le> below xs h (Suc i)")
    case True
    then show ?thesis using drop cum ge by (intro exI [of _ i]) simp
  next
    case False
    then have "0 < m" using Suc(3) by (cases m) auto
    with False Suc(1) [of "Suc i"] Suc(2,3) obtain j where
      "Suc i \<le> j" "j < i + Suc m" "unat target \<le> below xs h (Suc j)"
      "percentile_loop target (word_of_nat (below xs h (Suc i))) (Suc i) (drop (Suc i) (hist_buckets h)) = Some (bucket_top j)"
      by auto
    then show ?thesis using False drop cum ge by (intro exI [of _ j]) auto
  qed
qed simp

lemma unat_small: "m < 2 ^ 64 \<Longrightarrow> unat (word_of_nat m :: u64) = m"
  by (subst unat_of_nat) simp

lemma length_filter_imp: "(\<And>x. P x \<Longrightarrow> Q x) \<Longrightarrow> length (filter P xs) \<le> length (filter Q xs)"
  by (induction xs) (auto simp: le_SucI)

lemma unat_bucket_top: "i < 54 \<Longrightarrow> unat (bucket_top i) = 2 ^ i * 1000"
proof -
  assume "i < 54"
  then have small: "(2 :: nat) ^ i \<le> 2 ^ 53" by (intro power_increasing) simp_all
  have "bucket_top i = word_of_nat (2 ^ i * 1000)" using \<open>i < 54\<close> by (simp add: bucket_top_def push_bit_eq_mult)
  moreover have "(2 :: nat) ^ i * 1000 < 2 ^ 64" using small by simp
  ultimately show ?thesis using unat_small by metis
qed

text \<open>
  A percentile of the histogram bounds the samples. After recording any samples into a
  histogram of up to 54 buckets, the value for a rank of at most their number is the top of a
  bucket, and unless that is the last bucket, at least that many of the samples are below it.
\<close>

theorem percentile_bounds_samples:
  assumes "0 < n" and "n \<le> 54" and "xs \<noteq> []" and "length xs < 2 ^ 64" and "unat target \<le> length xs"
  shows "\<exists>h j. hist_records xs (histogram_new n) = Some h \<and> j < n \<and> hist_percentile True target h = Some (bucket_top j) \<and>
    (j < n - 1 \<longrightarrow> unat target \<le> length (filter (\<lambda>x. x < bucket_top j) xs))"
proof -
  from hist_records_holds [OF histogram_new_holds, of n xs] assms(1,2) obtain h where
    h: "hist_records xs (histogram_new n) = Some h" "hist_holds xs h" "length (hist_buckets h) = n"
    by (auto simp: histogram_new_def)
  have all: "below xs h n = length xs"
    using bucket_for_in_range [OF h(2)] h(3) by (simp add: below_def)
  have "hist_total_count h \<noteq> 0"
    using h(2) assms(3,4) by (simp add: hist_holds_def word_of_nat_eq_0_iff nat_dvd_not_less)
  moreover obtain j where j: "j < n" "unat target \<le> below xs h (Suc j)" "percentile_loop target 0 0 (hist_buckets h) = Some (bucket_top j)"
    using percentile_loop_finds [OF h(2) assms(4), of 0 n target] h(3) all assms(1,5) by (auto simp: below_def)
  ultimately have val: "hist_percentile True target h = Some (bucket_top j)" by (simp add: hist_percentile_def)
  have "x < bucket_top j" if "bucket_for x h < Suc j" "j < n - 1" for x
  proof -
    have b: "bucket_for x h \<le> j" "bucket_for x h < n" using that by simp_all
    then have "unat x div 1000 < 2 ^ bucket_for x h"
      using bucket_for_iff [OF h(2), of "bucket_for x h" x] h(3) that by (auto simp: in_bucket_def Let_def)
    also have "\<dots> \<le> 2 ^ j" using b(1) by simp
    finally have "unat x < 2 ^ j * 1000" by (simp add: div_less_iff_less_mult)
    then show ?thesis using unat_bucket_top [of j] that(2) assms(2) by (simp add: word_less_nat_alt)
  qed
  then have "below xs h (Suc j) \<le> length (filter (\<lambda>x. x < bucket_top j) xs)" if "j < n - 1"
    unfolding below_def using that by (intro length_filter_imp) blast
  then have "j < n - 1 \<longrightarrow> unat target \<le> length (filter (\<lambda>x. x < bucket_top j) xs)" using j(2) le_trans by blast
  with h(1) j(1) val show ?thesis by blast
qed

theorem percentile_bounds_samples_witness:
  "\<exists>h j. hist_records [500, 1500, 2500, 9000000] (histogram_new 20) = Some h \<and> j < 20 \<and>
     hist_percentile True 2 h = Some (bucket_top j) \<and>
     (j < 19 \<longrightarrow> 2 \<le> length (filter (\<lambda>x. x < bucket_top j) [500, 1500, 2500, 9000000 :: u64]))"
  using percentile_bounds_samples [of 20 "[500, 1500, 2500, 9000000]" 2] by simp

subsection \<open>The thundering herd\<close>

record herd_result =
  hr_total_workers :: nat
  hr_successful :: nat
  hr_timed_out :: nat
  hr_concurrent_limit :: nat
  hr_duration :: int
  hr_wall_time :: int

record herd_simulation =
  th_num_workers :: nat
  th_concurrent_limit :: nat
  th_work_duration :: int
  th_acquire_timeout :: int

definition herd_simulation_new :: "nat \<Rightarrow> nat \<Rightarrow> herd_simulation" where
  "herd_simulation_new num_workers concurrent_limit =
     \<lparr>th_num_workers = num_workers, th_concurrent_limit = concurrent_limit,
      th_work_duration = 50 * 1000000, th_acquire_timeout = 200 * 1000000\<rparr>"

definition herd_work_duration :: "int \<Rightarrow> herd_simulation \<Rightarrow> herd_simulation" where
  "herd_work_duration d h = h\<lparr>th_work_duration := d\<rparr>"

definition herd_acquire_timeout :: "int \<Rightarrow> herd_simulation \<Rightarrow> herd_simulation" where
  "herd_acquire_timeout d h = h\<lparr>th_acquire_timeout := d\<rparr>"

datatype herd_outcome = HerdSuccess | HerdTimeout | HerdGaveUp

text \<open>
  One worker from iteration \<open>backoff\<close> on, \<open>left\<close> iterations to go: \<open>clk\<close> is the instant that an
  iteration reads after its sleep, \<open>finished\<close> the flag that it reads before. The result is whether
  the worker acquired, or that it timed out.
\<close>

fun herd_loop :: "(nat \<Rightarrow> bool) \<Rightarrow> (nat \<Rightarrow> timestamp) \<Rightarrow> timestamp \<Rightarrow> nat \<Rightarrow> nat \<Rightarrow> bool option" where
  "herd_loop finished clk deadline backoff 0 = Some False"
| "herd_loop finished clk deadline backoff (Suc left) =
     (if finished backoff then Some False
      else if clk backoff > deadline then None
      else if backoff > 50 then Some True
      else herd_loop finished clk deadline (Suc backoff) left)"

definition herd_worker :: "(nat \<Rightarrow> bool) \<Rightarrow> (nat \<Rightarrow> timestamp) \<Rightarrow> timestamp \<Rightarrow> herd_outcome" where
  "herd_worker finished clk deadline =
     (case herd_loop finished clk deadline 0 1000 of
        None \<Rightarrow> HerdTimeout
      | Some acquired \<Rightarrow> if acquired \<or> \<not> finished 1000 then HerdSuccess else HerdGaveUp)"

text \<open>
  A run: worker \<open>w\<close> starts at \<open>start w\<close> and reads \<open>clk w\<close>. The flag is set only after all workers
  are joined, so they read it unset.
\<close>

definition herd_run :: "(nat \<Rightarrow> timestamp) \<Rightarrow> (nat \<Rightarrow> nat \<Rightarrow> timestamp) \<Rightarrow> int \<Rightarrow> herd_simulation \<Rightarrow> herd_result" where
  "herd_run start clk wall h =
     (let outcomes = map (\<lambda>w. herd_worker (\<lambda>_. False) (clk w) (start w + th_acquire_timeout h)) [0..<th_num_workers h]
      in \<lparr>hr_total_workers = th_num_workers h,
          hr_successful = length (filter (\<lambda>r. r = HerdSuccess) outcomes),
          hr_timed_out = length (filter (\<lambda>r. r = HerdTimeout) outcomes),
          hr_concurrent_limit = th_concurrent_limit h, hr_duration = wall, hr_wall_time = wall\<rparr>)"

lemma herd_loop_in_time:
  assumes "b + left = 1000" and "b \<le> 51"
  shows "herd_loop (\<lambda>_. False) clk deadline b left = (if \<exists>k \<in> {b..51}. clk k > deadline then None else Some True)"
  using assms
proof (induction left arbitrary: b)
  case (Suc left)
  have "{b..51} = insert b {Suc b..51}" using Suc(3) by auto
  show ?case
  proof (cases "b = 51")
    case False
    then have "herd_loop (\<lambda>_. False) clk deadline (Suc b) left =
       (if \<exists>k \<in> {Suc b..51}. clk k > deadline then None else Some True)"
      using Suc by (intro Suc(1)) simp_all
    with False Suc(3) \<open>{b..51} = _\<close> show ?thesis by auto
  qed simp
qed simp

lemma herd_worker_outcome:
  "herd_worker (\<lambda>_. False) clk deadline = (if \<exists>k \<le> 51. clk k > deadline then HerdTimeout else HerdSuccess)"
  using herd_loop_in_time [of 0 1000 clk deadline] by (auto simp: herd_worker_def)

text \<open>
  Every worker is counted once, as a success or as timed out; a worker times out exactly when one of its
  first 52 readings of the clock is past its deadline. The limit of the simulation plays no part.
\<close>

lemma herd_counts_workers:
  "hr_successful (herd_run start clk wall h) + hr_timed_out (herd_run start clk wall h) = th_num_workers h"
  "hr_timed_out (herd_run start clk wall h) =
     length (filter (\<lambda>w. \<exists>k \<le> 51. clk w k > start w + th_acquire_timeout h) [0..<th_num_workers h])"
  "hr_successful (herd_run start clk wall (h\<lparr>th_concurrent_limit := l\<rparr>)) = hr_successful (herd_run start clk wall h)"
proof -
  let ?late = "\<lambda>w. \<exists>k \<le> 51. clk w k > start w + th_acquire_timeout h"
  show t: "hr_timed_out (herd_run start clk wall h) = length (filter ?late [0..<th_num_workers h])"
    by (simp add: herd_run_def Let_def herd_worker_outcome filter_map comp_def cong: filter_cong if_cong)
  have "hr_successful (herd_run start clk wall h) = length (filter (\<lambda>w. \<not> ?late w) [0..<th_num_workers h])"
    by (simp add: herd_run_def Let_def herd_worker_outcome filter_map comp_def cong: filter_cong if_cong)
  with t show "hr_successful (herd_run start clk wall h) + hr_timed_out (herd_run start clk wall h) = th_num_workers h"
    using sum_length_filter_compl [of ?late "[0..<th_num_workers h]"] by simp
qed (simp add: herd_run_def Let_def)

subsection \<open>The stress runs\<close>

datatype chaos_type = ChaosLatency | ChaosError | ChaosDrop

text \<open>
  The probability of chaos is a float; whether an operation draws it is an argument of the run. The
  times, the throughput and the histogram text of a report are left out.
\<close>

record stress_config =
  sc_workers :: nat
  sc_total_ops :: nat
  sc_max_duration :: "int option"
  sc_chaos_types :: "chaos_type list"
  sc_chaos_latency_max_us :: u64

record stress_report =
  sr_total_ops :: nat
  sr_successful :: nat
  sr_failed :: nat
  sr_chaos_injected :: nat

record stress_worker =
  sw_next :: nat
  sw_produced :: nat
  sw_chaos_hits :: nat
  sw_stopped :: bool

definition stress_default :: stress_config where
  "stress_default =
     \<lparr>sc_workers = 8, sc_total_ops = 100000, sc_max_duration = Some (30 * 1000000000),
      sc_chaos_types = [ChaosLatency, ChaosError], sc_chaos_latency_max_us = 100\<rparr>"

text \<open>
  One iteration of a worker: \<open>elapsed\<close> is the time since the start, \<open>chaos_on\<close> the draw, \<open>x\<close> the
  value that the generator gives. A dropped operation is skipped.
\<close>

definition stress_iteration ::
  "stress_config \<Rightarrow> int \<Rightarrow> bool \<Rightarrow> 'a \<Rightarrow> stress_worker \<times> 'a ring \<Rightarrow> stress_worker \<times> 'a ring"
where
  "stress_iteration cfg elapsed chaos_on x wr =
     (case wr of (w, r) \<Rightarrow>
        if (case sc_max_duration cfg of None \<Rightarrow> False | Some d \<Rightarrow> elapsed > d) then (w\<lparr>sw_stopped := True\<rparr>, r)
        else
          let w1 = w\<lparr>sw_next := Suc (sw_next w), sw_chaos_hits := sw_chaos_hits w + (if chaos_on then 1 else 0)\<rparr>
          in if chaos_on \<and> ChaosDrop \<in> set (sc_chaos_types cfg) then (w1, r)
             else (case try_push x r of
                     (Ok _, r1) \<Rightarrow> (w1\<lparr>sw_produced := Suc (sw_produced w1)\<rparr>, r1)
                   | (Err _, r1) \<Rightarrow>
                       (if chaos_on \<and> ChaosError \<in> set (sc_chaos_types cfg)
                        then w1\<lparr>sw_chaos_hits := Suc (sw_chaos_hits w1)\<rparr> else w1, r1)))"

text \<open>
  The workers interleave: a schedule lists which worker does its next iteration, with what the
  iteration reads and draws. A worker that stopped or has done its share does nothing. A push
  claims its slot in one step, so whole iterations are interleaved.
\<close>

fun stress_schedule ::
  "stress_config \<Rightarrow> nat \<Rightarrow> (nat \<Rightarrow> 'a) \<Rightarrow> (nat \<times> int \<times> bool) list \<Rightarrow> stress_worker list \<times> 'a ring \<Rightarrow>
   stress_worker list \<times> 'a ring"
where
  "stress_schedule cfg share gen [] st = st"
| "stress_schedule cfg share gen ((k, elapsed, chaos_on) # sched) (ws, r) =
     (if k < length ws \<and> \<not> sw_stopped (ws ! k) \<and> sw_next (ws ! k) < share
      then case stress_iteration cfg elapsed chaos_on (gen (k * share + sw_next (ws ! k))) (ws ! k, r) of
             (w, r1) \<Rightarrow> stress_schedule cfg share gen sched (ws[k := w], r1)
      else stress_schedule cfg share gen sched (ws, r))"

text \<open>Without workers the division of the operations among them panics.\<close>

definition stress_ring_buffer ::
  "stress_config \<Rightarrow> (nat \<Rightarrow> 'a) \<Rightarrow> (nat \<times> int \<times> bool) list \<Rightarrow> (stress_report \<times> 'a ring) option"
where
  "stress_ring_buffer cfg gen sched =
     (if sc_workers cfg = 0 then None
      else
        let cap = next_power_of_two (sc_workers cfg * 1024);
            share = sc_total_ops cfg div sc_workers cfg;
            idle = \<lparr>sw_next = 0, sw_produced = 0, sw_chaos_hits = 0, sw_stopped = False\<rparr>
        in case stress_schedule cfg share gen sched (replicate (sc_workers cfg) idle, ring_new cap) of
             (ws, r) \<Rightarrow>
               let produced = sum_list (map sw_produced ws)
               in Some (\<lparr>sr_total_ops = sc_total_ops cfg, sr_successful = produced,
                         sr_failed = sc_total_ops cfg - produced,
                         sr_chaos_injected = sum_list (map sw_chaos_hits ws)\<rparr>, r))"

lemma sum_list_nat_update:
  fixes f :: "'a \<Rightarrow> nat"
  assumes "i < length xs"
  shows "sum_list (map f (xs[i := x])) + f (xs ! i) = sum_list (map f xs) + f x"
  using assms
proof (induction xs arbitrary: i)
  case (Cons y ys)
  then show ?case by (cases i) auto
qed simp

text \<open>The buffer is never read, so it holds what the workers counted.\<close>

definition stress_ok :: "nat \<Rightarrow> nat \<Rightarrow> stress_worker list \<times> 'a ring \<Rightarrow> bool" where
  "stress_ok cap n st \<longleftrightarrow> ring_ok n (snd st) \<and> unat (capacity (snd st)) = cap \<and>
     sum_list (map sw_produced (fst st)) = length (ring_contents (snd st)) \<and> length (ring_contents (snd st)) \<le> cap"

lemma try_push_ring_push:
  "ring_push x r = (True, r') \<Longrightarrow> \<exists>s. try_push x r = (Ok s, r')" "ring_push x r = (False, r') \<Longrightarrow> \<exists>e. try_push x r = (Err e, r')"
  by (cases "fst (try_push x r)"; auto simp: ring_push_def split: prod.splits)+

lemma stress_iteration_ok:
  assumes "stress_ok cap (Suc n) (ws, r)" and "k < length ws" and "stress_iteration cfg t chaos_on x (ws ! k, r) = (w, r')"
  shows "stress_ok cap n (ws[k := w], r')"
proof -
  have ok: "ring_ok (Suc n) r" "unat (capacity r) = cap" "sum_list (map sw_produced ws) = length (ring_contents r)"
    "length (ring_contents r) \<le> cap"
    using assms(1) by (simp_all add: stress_ok_def)
  have same: ?thesis if "r' = r" "sw_produced w = sw_produced (ws ! k)"
    using sum_list_nat_update [OF assms(2), of sw_produced w] ring.inv_weaken [OF ok(1)] ok(2-4) that
    by (simp add: stress_ok_def)
  show ?thesis
  proof (cases "length (ring_contents r) < cap")
    case True
    then obtain r1 where p: "ring_push x r = (True, r1)" "ring_ok n r1" "unat (capacity r1) = cap"
      "ring_contents r1 = ring_contents r @ [x]"
      using ring_push_accepts [OF ok(1)] ok(2) by metis
    obtain s where "try_push x r = (Ok s, r1)" using try_push_ring_push(1) [OF p(1)] by blast
    then have "r' = r \<and> sw_produced w = sw_produced (ws ! k) \<or> r' = r1 \<and> sw_produced w = Suc (sw_produced (ws ! k))"
      using assms(3) by (auto simp: stress_iteration_def Let_def split: if_splits)
    with same p(2-4) True ok(3) sum_list_nat_update [OF assms(2), of sw_produced w] show ?thesis
      by (auto simp: stress_ok_def)
  next
    case False
    then have "ring_push x r = (False, r)" using ring.push_full [OF ok(1)] ok(2) by simp
    from try_push_ring_push(2) [OF this] obtain e where "try_push x r = (Err e, r)" by blast
    then show ?thesis using same assms(3) by (auto simp: stress_iteration_def Let_def split: if_splits)
  qed
qed

lemma stress_schedule_ok:
  "stress_ok cap (length sched) st \<Longrightarrow> stress_ok cap 0 (stress_schedule cfg share gen sched st)"
proof (induction cfg share gen sched st rule: stress_schedule.induct)
  case (2 cfg share gen k elapsed chaos_on sched ws r)
  show ?case
  proof (cases "k < length ws \<and> \<not> sw_stopped (ws ! k) \<and> sw_next (ws ! k) < share")
    case True
    obtain w r1 where it: "stress_iteration cfg elapsed chaos_on (gen (k * share + sw_next (ws ! k))) (ws ! k, r) = (w, r1)"
      by fastforce
    have "stress_ok cap (length sched) (ws[k := w], r1)"
      by (rule stress_iteration_ok [OF _ _ it]) (use 2(3) True in simp_all)
    with 2(1) [OF True it [symmetric]] it True show ?thesis by simp
  next
    case False
    have "stress_ok cap (length sched) (ws, r)" using 2(3) ring.inv_weaken by (auto simp: stress_ok_def)
    with 2(2) [OF False] False show ?thesis by auto
  qed
qed simp

text \<open>
  The stress run fills the buffer and no more. With at least one worker, whatever the
  interleaving, the time limit and the chaos, the run returns; the successes that it reports are
  the elements in the buffer, at most its capacity, since nothing is read; and what it reports as
  failed is the rest of the requested operations, dropped and never attempted ones included.
\<close>

theorem stress_fills_buffer:
  assumes "0 < sc_workers cfg" and "next_power_of_two (sc_workers cfg * 1024) \<le> 2 ^ 63" and "length sched < 2 ^ 64"
  shows "\<exists>rep r. stress_ring_buffer cfg gen sched = Some (rep, r) \<and> sr_successful rep = length (ring_contents r) \<and>
    sr_successful rep \<le> next_power_of_two (next_power_of_two (sc_workers cfg * 1024)) \<and>
    sr_failed rep = sc_total_ops cfg - sr_successful rep"
proof -
  let ?cap = "next_power_of_two (sc_workers cfg * 1024)" and ?share = "sc_total_ops cfg div sc_workers cfg"
  let ?idle = "\<lparr>sw_next = 0, sw_produced = 0, sw_chaos_hits = 0, sw_stopped = False\<rparr>"
  let ?start = "(replicate (sc_workers cfg) ?idle, ring_new ?cap)"
  have "stress_ok (next_power_of_two ?cap) (length sched) ?start"
    by (simp add: stress_ok_def sum_list_replicate ring_new_ok [OF assms(2,3)])
  then have "stress_ok (next_power_of_two ?cap) 0 (stress_schedule cfg ?share gen sched ?start)"
    by (rule stress_schedule_ok)
  then show ?thesis using assms(1)
    by (cases "stress_schedule cfg ?share gen sched ?start") (auto simp: stress_ring_buffer_def Let_def stress_ok_def)
qed

theorem stress_fills_buffer_witness:
  "\<exists>rep r. stress_ring_buffer (stress_default\<lparr>sc_workers := 1\<rparr>) (\<lambda>i. i) [(0, 0, False), (0, 1, True)] = Some (rep, r) \<and>
     sr_successful rep = length (ring_contents r) \<and> sr_failed rep = 100000 - sr_successful rep"
proof -
  have "next_power_of_two 1024 \<le> 2 ^ 63"
    using next_power_of_two_spec [of 1024] by auto
  then show ?thesis
    using stress_fills_buffer [of "stress_default\<lparr>sc_workers := 1\<rparr>" "[(0, 0, False), (0, 1, True)]" "\<lambda>i. i"]
    by (auto simp: stress_default_def)
qed

text \<open>Credit and debit of one cent on a shared account, under its mutex, any number of times.\<close>

definition stress_op :: "timestamp \<times> timestamp \<Rightarrow> account \<Rightarrow> account" where
  "stress_op ts a = snd (debit (snd (credit a 1 (fst ts))) 1 (snd ts))"

definition stress_account_concurrent ::
  "uuid \<Rightarrow> timestamp \<Rightarrow> (nat \<Rightarrow> timestamp \<times> timestamp) \<Rightarrow> nat \<Rightarrow> nat \<Rightarrow> stress_report \<times> account"
where
  "stress_account_concurrent uid now clk workers ops_per_worker =
     (let total_ops = workers * ops_per_worker
      in (\<lparr>sr_total_ops = total_ops, sr_successful = total_ops, sr_failed = 0, sr_chaos_injected = 0\<rparr>,
          fold (\<lambda>k. stress_op (clk k)) [0..<total_ops] (account_new uid now now Asset ''USD'' 10000000 None)))"

lemma stress_op_restores:
  assumes "acc_status a = Open" and "balance a = 10000000" and "available_balance a = 10000000"
  shows "acc_status (stress_op ts a) = Open \<and> balance (stress_op ts a) = 10000000 \<and>
    available_balance (stress_op ts a) = 10000000"
  using assms by (simp add: stress_op_def credit_def debit_def checked_add_i64_def i64_in_range_def i64_min_def i64_max_def)

text \<open>The account ends with the balance it started with.\<close>

lemma stress_account_restores:
  "balance (snd (stress_account_concurrent uid now clk workers n)) = 10000000"
  "available_balance (snd (stress_account_concurrent uid now clk workers n)) = 10000000"
proof -
  have "acc_status (fold (\<lambda>k. stress_op (clk k)) ks a) = Open \<and> balance (fold (\<lambda>k. stress_op (clk k)) ks a) = 10000000 \<and>
     available_balance (fold (\<lambda>k. stress_op (clk k)) ks a) = 10000000"
    if "acc_status a = Open" "balance a = 10000000" "available_balance a = 10000000" for ks a
    using that by (induction ks arbitrary: a) (simp_all add: stress_op_restores)
  then show "balance (snd (stress_account_concurrent uid now clk workers n)) = 10000000"
    "available_balance (snd (stress_account_concurrent uid now clk workers n)) = 10000000"
    by (simp_all add: stress_account_concurrent_def Let_def account_new_def)
qed

subsection \<open>Core affinity\<close>

text \<open>
  \<open>set_bits\<close> is the size of a \<open>cpu_set_t\<close> in bits, \<open>set_affinity\<close> the system call with the core whose bit is
  set. The quotient of the core number is computed and not used.
\<close>

definition pin_to_core :: "nat \<Rightarrow> (nat \<Rightarrow> int) \<Rightarrow> nat \<Rightarrow> bool" where
  "pin_to_core set_bits set_affinity core_id \<longleftrightarrow> set_affinity (core_id mod set_bits) = 0"

definition current_core :: "int \<Rightarrow> nat option" where
  "current_core cpu = (if cpu \<ge> 0 then Some (nat cpu) else None)"

text \<open>The names and cores of the workers that are spawned.\<close>

definition spawn_pinned_workers :: "nat \<Rightarrow> nat \<Rightarrow> string \<Rightarrow> (string \<times> nat \<times> nat) list" where
  "spawn_pinned_workers count start_core name_prefix =
     map (\<lambda>i. (name_prefix @ ''-'' @ show_nat i, start_core + i, i)) [0..<count]"

text \<open>Core numbers beyond the set wrap around: the call succeeds and pins to another core.\<close>

lemma pin_wraps: "pin_to_core 1024 set_affinity (1024 + k) = pin_to_core 1024 set_affinity k"
  by (simp add: pin_to_core_def)

lemma workers_distinct: "distinct (map fst (spawn_pinned_workers n start_core name_prefix))"
  by (auto simp: spawn_pinned_workers_def comp_def distinct_map inj_on_def)

end
