(* ===== verification/Benchmark.thy ===== *)
theory Benchmark
  imports Production Stress Rate_Limiter Handler_Bus "HOL-Library.Multiset"
begin

section \<open>Counting runs and the measurements around them\<close>

text \<open>
  \<open>race_test\<close> of \<open>src/service/concurrency.rs\<close> and \<open>StressTest\<close>, the herd simulations, the socket
  tuning and the reports of \<open>src/service/production.rs\<close>; jitter and report of the latency window of
  \<open>src/service/advanced.rs\<close>. Threads are interleaved, one access to the
  shared counter or one call of the operation per step; a schedule lists whose turn it is. What
  the clock measures is an argument, a duration is a number of nanoseconds. The type \<open>f64\<close> is the
  parameter of \<open>Rate_Limiter\<close>, with a few more operations and the formatting of its numbers.
\<close>

subsection \<open>Threads that count\<close>

text \<open>\<open>bt_mid\<close>: the thread has done the first of the two accesses of its iteration.\<close>

record bench_thread =
  bt_left :: nat
  bt_mid :: bool

text \<open>One access of a thread of \<open>race_test\<close>: the counter first, then the function.\<close>

definition race_step ::
  "('w \<Rightarrow> 'w) \<Rightarrow> nat \<Rightarrow> bench_thread list \<times> i64 \<times> 'w \<Rightarrow> bench_thread list \<times> i64 \<times> 'w"
where
  "race_step f i st =
     (case st of (ts, c, w) \<Rightarrow>
        if i < length ts
        then (let t = ts ! i
              in if bt_mid t then (ts[i := \<lparr>bt_left = bt_left t - 1, bt_mid = False\<rparr>], c, f w)
                 else if bt_left t > 0 then (ts[i := t\<lparr>bt_mid := True\<rparr>], c + 1, w)
                 else (ts, c, w))
        else (ts, c, w))"

text \<open>One access of a thread of \<open>run_benchmark\<close>: the operation first, then the counter.\<close>

definition bench_step ::
  "('w \<Rightarrow> 'w) \<Rightarrow> nat \<Rightarrow> bench_thread list \<times> u64 \<times> 'w \<Rightarrow> bench_thread list \<times> u64 \<times> 'w"
where
  "bench_step operation i st =
     (case st of (ts, c, w) \<Rightarrow>
        if i < length ts
        then (let t = ts ! i
              in if bt_mid t then (ts[i := \<lparr>bt_left = bt_left t - 1, bt_mid = False\<rparr>], c + 1, w)
                 else if bt_left t > 0 then (ts[i := t\<lparr>bt_mid := True\<rparr>], c, operation w)
                 else (ts, c, w))
        else (ts, c, w))"

definition bench_start :: "nat \<Rightarrow> nat \<Rightarrow> bench_thread list" where
  "bench_start num_threads ops = replicate num_threads \<lparr>bt_left = ops, bt_mid = False\<rparr>"

definition bench_finished :: "bench_thread list \<Rightarrow> bool" where
  "bench_finished ts = list_all (\<lambda>t. bt_left t = 0 \<and> \<not> bt_mid t) ts"

text \<open>The counter and the expected count, with the state the calls leave; none while a thread is still running.\<close>

definition race_test :: "nat \<Rightarrow> nat \<Rightarrow> ('w \<Rightarrow> 'w) \<Rightarrow> nat list \<Rightarrow> 'w \<Rightarrow> ((i64 \<times> i64) \<times> 'w) option" where
  "race_test num_threads ops_per_thread f schedule w =
     (case fold (race_step f) schedule (bench_start num_threads ops_per_thread, 0, w) of
        (ts, c, w') \<Rightarrow>
          if bench_finished ts then Some ((c, word_of_nat num_threads * word_of_nat ops_per_thread), w') else None)"

record stress_test =
  sx_num_accounts :: nat
  sx_num_threads :: nat
  sx_ops_per_thread :: nat
  sx_report_interval_ms :: u64

definition stress_test_default :: stress_test where
  "stress_test_default =
     \<lparr>sx_num_accounts = 10000, sx_num_threads = 16, sx_ops_per_thread = 100000, sx_report_interval_ms = 1000\<rparr>"

record 'f stress_test_result =
  sr_total_ops :: u64
  sr_duration :: nat
  sr_throughput_rps :: 'f
  sr_avg_latency :: nat

text \<open>A duration divided by a 32-bit number: division by zero panics.\<close>

definition duration_div :: "nat \<Rightarrow> 32 word \<Rightarrow> nat option" where
  "duration_div d n = (if n = 0 then None else Some (d div unat n))"

text \<open>The average over the number of operations, which is cut to 32 bits before it divides.\<close>

definition benchmark_result :: "('f, 'z) floats_scheme \<Rightarrow> nat \<Rightarrow> u64 \<Rightarrow> 'f stress_test_result option" where
  "benchmark_result fl took total_ops =
     (case (if total_ops > 0 then duration_div took (ucast total_ops) else Some 0) of
        None \<Rightarrow> None
      | Some avg \<Rightarrow> Some \<lparr>sr_total_ops = total_ops, sr_duration = took,
                          sr_throughput_rps = fl_div fl (fl_of_u64 fl total_ops) (fl_secs fl took), sr_avg_latency = avg\<rparr>)"

datatype 'a bench_outcome = Running | Panicked | Finished 'a

definition run_benchmark ::
  "('f, 'z) floats_scheme \<Rightarrow> stress_test \<Rightarrow> ('w \<Rightarrow> 'w) \<Rightarrow> nat list \<Rightarrow> nat \<Rightarrow> 'w \<Rightarrow>
   ('f stress_test_result \<times> 'w) bench_outcome"
where
  "run_benchmark fl st operation schedule took w =
     (case fold (bench_step operation) schedule (bench_start (sx_num_threads st) (sx_ops_per_thread st), 0, w) of
        (ts, c, w') \<Rightarrow>
          if bench_finished ts
          then (case benchmark_result fl took c of None \<Rightarrow> Panicked | Some r \<Rightarrow> Finished (r, w'))
          else Running)"


subsection \<open>Runs of two accesses per iteration\<close>

definition thread_ok :: "bench_thread \<Rightarrow> bool" where
  "thread_ok t \<longleftrightarrow> (bt_mid t \<longrightarrow> bt_left t > 0)"

text \<open>The first accesses, and all accesses, that a thread has left.\<close>

definition firsts_left :: "bench_thread \<Rightarrow> nat" where
  "firsts_left t = bt_left t - (if bt_mid t then 1 else 0)"

definition accesses_left :: "bench_thread \<Rightarrow> nat" where
  "accesses_left t = bt_left t + firsts_left t"

lemmas thread_defs = thread_ok_def firsts_left_def accesses_left_def

lemma bench_finished_iff:
  "\<forall>t \<in> set ts. thread_ok t \<Longrightarrow> bench_finished ts \<longleftrightarrow> (\<forall>t \<in> set ts. accesses_left t = 0)"
  by (auto simp: bench_finished_def list_all_iff thread_defs)

text \<open>
  Threads whose iterations make two accesses to a shared state, in any interleaving. The accesses
  commute, so that only their numbers matter.
\<close>

locale two_phase =
  fixes step :: "nat \<Rightarrow> bench_thread list \<times> 's \<Rightarrow> bench_thread list \<times> 's"
    and one two :: "'s \<Rightarrow> 's"
  assumes turn: "step i (ts, x) =
      (if i < length ts \<and> bt_mid (ts ! i)
       then (ts[i := \<lparr>bt_left = bt_left (ts ! i) - 1, bt_mid = False\<rparr>], two x)
       else if i < length ts \<and> bt_left (ts ! i) > 0 then (ts[i := (ts ! i)\<lparr>bt_mid := True\<rparr>], one x)
       else (ts, x))"
    and commute: "one (two x) = two (one x)"
begin

definition counted :: "nat \<Rightarrow> 's \<Rightarrow> bench_thread list \<times> 's \<Rightarrow> bool" where
  "counted n x0 st \<longleftrightarrow>
     (\<forall>t \<in> set (fst st). thread_ok t) \<and>
     (\<exists>a b. snd st = (one ^^ a) ((two ^^ b) x0) \<and>
        a + sum_list (map firsts_left (fst st)) = n \<and> b + sum_list (map bt_left (fst st)) = n)"

lemma countedI:
  assumes "\<forall>t \<in> set ts. thread_ok t" and "x = (one ^^ a) ((two ^^ b) x0)"
    and "a + sum_list (map firsts_left ts) = n" and "b + sum_list (map bt_left ts) = n"
  shows "counted n x0 (ts, x)"
  using assms by (auto simp: counted_def)

lemma commute_pow: "two ((one ^^ a) x) = (one ^^ a) (two x)"
  by (induction a) (simp_all add: commute [symmetric])

lemma step_counted:
  assumes "counted n x0 (ts, x)"
  shows "counted n x0 (step i (ts, x))"
proof -
  from assms obtain a b where ab: "x = (one ^^ a) ((two ^^ b) x0)" "a + sum_list (map firsts_left ts) = n"
      "b + sum_list (map bt_left ts) = n" and ok: "\<forall>t \<in> set ts. thread_ok t"
    by (auto simp: counted_def)
  have keep: "\<forall>t' \<in> set (ts[i := t]). thread_ok t'" if "thread_ok t" for t
    using ok that by (auto dest: subsetD [OF set_update_subset_insert])
  consider (two) "i < length ts" "bt_mid (ts ! i)" | (one) "i < length ts" "\<not> bt_mid (ts ! i)" "bt_left (ts ! i) > 0"
    | (none) "step i (ts, x) = (ts, x)" by (fastforce simp: turn)
  then show ?thesis
  proof cases
    case two
    let ?t = "\<lparr>bt_left = bt_left (ts ! i) - 1, bt_mid = False\<rparr>"
    have left: "bt_left (ts ! i) > 0" using two ok by (auto simp: thread_ok_def)
    have "firsts_left ?t = firsts_left (ts ! i)" "bt_left ?t + 1 = bt_left (ts ! i)" "thread_ok ?t"
      using two left by (simp_all add: thread_defs)
    then have "counted n x0 (ts[i := ?t], two x)"
      using ab keep sum_list_nat_update [OF two(1), of firsts_left ?t] sum_list_nat_update [OF two(1), of bt_left ?t]
      by (intro countedI [of _ _ a "Suc b"]) (simp_all add: commute_pow)
    then show ?thesis using two by (simp add: turn)
  next
    case one
    let ?t = "(ts ! i)\<lparr>bt_mid := True\<rparr>"
    have "firsts_left ?t + 1 = firsts_left (ts ! i)" "bt_left ?t = bt_left (ts ! i)" "thread_ok ?t"
      using one by (simp_all add: thread_defs)
    then have "counted n x0 (ts[i := ?t], one x)"
      using ab keep sum_list_nat_update [OF one(1), of firsts_left ?t] sum_list_nat_update [OF one(1), of bt_left ?t]
      by (intro countedI [of _ _ "Suc a" b]) simp_all
    then show ?thesis using one by (simp add: turn)
  next
    case none
    then show ?thesis using assms by simp
  qed
qed

text \<open>When all threads have finished, each access was made once per iteration.\<close>

lemma run_counted:
  assumes "fold step schedule (bench_start n k, x0) = (ts, x)"
  shows "\<forall>t \<in> set ts. thread_ok t" and "bench_finished ts \<Longrightarrow> x = (one ^^ (n * k)) ((two ^^ (n * k)) x0)"
proof -
  have start: "counted (n * k) x0 (bench_start n k, x0)"
    by (rule countedI [of _ _ 0 0]) (simp_all add: bench_start_def thread_defs sum_list_replicate)
  have "counted (n * k) x0 (fold step schedule st)" if "counted (n * k) x0 st" for st
    using that
  proof (induction schedule arbitrary: st)
    case (Cons i schedule)
    obtain ts' x' where "st = (ts', x')" by fastforce
    with Cons.prems step_counted have "counted (n * k) x0 (step i st)" by simp
    then show ?case by (simp add: Cons.IH)
  qed simp
  from this [OF start] have c: "counted (n * k) x0 (ts, x)" by (simp add: assms)
  then show "\<forall>t \<in> set ts. thread_ok t" by (simp add: counted_def)
  show "x = (one ^^ (n * k)) ((two ^^ (n * k)) x0)" if "bench_finished ts"
  proof -
    obtain a b where ab: "x = (one ^^ a) ((two ^^ b) x0)" "a + sum_list (map firsts_left ts) = n * k"
      "b + sum_list (map bt_left ts) = n * k" using c by (auto simp: counted_def)
    moreover have "sum_list (map firsts_left ts) = 0" "sum_list (map bt_left ts) = 0"
      using that by (auto simp: bench_finished_def list_all_iff thread_defs)
    ultimately show ?thesis by (metis add_0_right)
  qed
qed

text \<open>Every turn of a thread uses up one of its accesses.\<close>

lemma run_progress:
  assumes "\<forall>t \<in> set ts. thread_ok t" and "i < length ts"
  shows "length (fst (fold step schedule (ts, x))) = length ts \<and>
    accesses_left (fst (fold step schedule (ts, x)) ! i) = accesses_left (ts ! i) - count_list schedule i"
  using assms
proof (induction schedule arbitrary: ts x)
  case (Cons j schedule)
  obtain ts1 x1 where s: "step j (ts, x) = (ts1, x1)" by fastforce
  have ok: "thread_ok (ts ! k)" if "k < length ts" for k using Cons.prems(1) that by simp
  have "length ts1 = length ts" "\<forall>t \<in> set ts1. thread_ok t"
    "accesses_left (ts1 ! i) = accesses_left (ts ! i) - (if j = i then 1 else 0)"
    using s Cons.prems ok [OF Cons.prems(2)]
    by (auto simp: turn thread_defs nth_list_update split: if_splits dest!: subsetD [OF set_update_subset_insert])
  with Cons.IH [of ts1 x1] Cons.prems(2) s show ?case by simp
qed simp

lemma run_finishes:
  assumes "\<forall>i < n. 2 * k \<le> count_list schedule i"
  shows "bench_finished (fst (fold step schedule (bench_start n k, x)))"
proof -
  obtain ts x' where r: "fold step schedule (bench_start n k, x) = (ts, x')" by fastforce
  have start: "\<forall>t \<in> set (bench_start n k). thread_ok t" "length (bench_start n k) = n"
    by (simp_all add: bench_start_def thread_defs)
  have "accesses_left (ts ! i) = 0" if "i < n" for i
    using run_progress [OF start(1), of i schedule x] start(2) that assms [rule_format, OF that] r
    by (simp add: bench_start_def thread_defs)
  moreover have "length ts = n" if "0 < n"
    using run_progress [OF start(1), of 0 schedule x] start(2) that r by simp
  moreover have "ts = []" if "n = 0"
  proof -
    have "fold step sch ([], y) = ([], y)" for sch y by (induction sch) (simp_all add: turn)
    with r that show ?thesis by (simp add: bench_start_def)
  qed
  ultimately have "\<forall>t \<in> set ts. accesses_left t = 0" by (cases "n = 0") (auto simp: in_set_conv_nth)
  then show ?thesis using run_counted(1) [OF r] by (simp add: r bench_finished_iff)
qed

end


text \<open>Both runs are of this kind.\<close>

definition count_up :: "'n::len word \<times> 'w \<Rightarrow> 'n word \<times> 'w" where
  "count_up x = (fst x + 1, snd x)"

definition call_on :: "('w \<Rightarrow> 'w) \<Rightarrow> 'n::len word \<times> 'w \<Rightarrow> 'n word \<times> 'w" where
  "call_on f x = (fst x, f (snd x))"

lemma count_up_pow: "(count_up ^^ n) x = (fst x + word_of_nat n, snd x)"
  by (induction n) (simp_all add: count_up_def algebra_simps)

lemma call_on_pow: "(call_on f ^^ n) x = (fst x, (f ^^ n) (snd x))"
  by (induction n) (simp_all add: call_on_def)

interpretation race: two_phase "race_step f" count_up "call_on f"
  by unfold_locales (auto simp: race_step_def count_up_def call_on_def Let_def)

interpretation bench: two_phase "bench_step f" "call_on f" count_up
  by unfold_locales (auto simp: bench_step_def count_up_def call_on_def Let_def)

text \<open>
  The race test ends under every schedule that gives each thread its turns, and then it has called
  the function once per operation; but the two numbers it returns are equal whatever the function
  does: the counter is its own, so that they cannot show a race in the function.
\<close>

theorem race_test_counts_itself:
  "(\<forall>i < n. 2 * k \<le> count_list schedule i) \<Longrightarrow> race_test n k f schedule w \<noteq> None"
  "race_test n k f schedule w = Some ((actual, expected), w') \<Longrightarrow>
     actual = expected \<and> w' = (f ^^ (n * k)) w"
proof -
  obtain ts c v where r: "fold (race_step f) schedule (bench_start n k, 0, w) = (ts, c, v)" by (metis prod_cases3)
  show "race_test n k f schedule w \<noteq> None" if "\<forall>i < n. 2 * k \<le> count_list schedule i"
    using race.run_finishes [OF that, of f "(0, w)"] r by (simp add: race_test_def)
  assume "race_test n k f schedule w = Some ((actual, expected), w')"
  then have "bench_finished ts" "actual = c" "expected = word_of_nat n * word_of_nat k" "w' = v"
    using r by (auto simp: race_test_def split: if_splits)
  then show "actual = expected \<and> w' = (f ^^ (n * k)) w"
    using race.run_counted(2) [OF r] by (simp add: count_up_pow call_on_pow)
qed

text \<open>
  A benchmark reports the number of operations that were run, and it divides by that number cut
  to 32 bits: it panics when the number is a positive multiple of $2^{32}$, and otherwise its
  average is exact below $2^{32}$ operations.
\<close>

lemma benchmark_result_cases:
  "benchmark_result fl took total_ops =
     (if total_ops \<noteq> 0 \<and> unat total_ops mod 2 ^ 32 = 0 then None
      else Some \<lparr>sr_total_ops = total_ops, sr_duration = took,
                 sr_throughput_rps = fl_div fl (fl_of_u64 fl total_ops) (fl_secs fl took),
                 sr_avg_latency = (if total_ops = 0 then 0 else took div (unat total_ops mod 2 ^ 32))\<rparr>)"
proof -
  have c: "unat (ucast total_ops :: 32 word) = unat total_ops mod 2 ^ 32"
    by (simp add: unsigned_ucast_eq take_bit_eq_mod)
  then have "(ucast total_ops :: 32 word) = 0 \<longleftrightarrow> unat total_ops mod 2 ^ 32 = 0" by (metis unat_eq_zero)
  with c show ?thesis by (auto simp: benchmark_result_def duration_div_def word_gt_0)
qed

theorem benchmark_counts_operations:
  assumes "sx_num_threads st * sx_ops_per_thread st < 2 ^ 64"
    and "\<forall>i < sx_num_threads st. 2 * sx_ops_per_thread st \<le> count_list schedule i"
  defines "n \<equiv> sx_num_threads st * sx_ops_per_thread st"
  shows "run_benchmark fl st operation schedule took w =
     (if 0 < n \<and> n mod 2 ^ 32 = 0 then Panicked
      else Finished (\<lparr>sr_total_ops = word_of_nat n, sr_duration = took,
                      sr_throughput_rps = fl_div fl (fl_of_u64 fl (word_of_nat n)) (fl_secs fl took),
                      sr_avg_latency = (if n = 0 then 0 else took div (n mod 2 ^ 32))\<rparr>,
                     (operation ^^ n) w))"
proof -
  obtain ts c v where r: "fold (bench_step operation) schedule
      (bench_start (sx_num_threads st) (sx_ops_per_thread st), 0, w) = (ts, c, v)" by (metis prod_cases3)
  have fin: "bench_finished ts" using bench.run_finishes [OF assms(2), of operation "(0, w)"] r by simp
  have cv: "c = word_of_nat n" "v = (operation ^^ n) w"
    using bench.run_counted(2) [OF r fin] by (simp_all add: count_up_pow call_on_pow n_def)
  have "unat c = n" unfolding cv(1) using assms(1) by (intro unat_small) (simp add: n_def)
  moreover from this have "c = 0 \<longleftrightarrow> n = 0" by (metis unat_eq_zero)
  ultimately show ?thesis
    using fin r cv by (simp add: run_benchmark_def benchmark_result_cases)
qed


subsection \<open>The herd simulations\<close>

text \<open>
  The average and the largest of the measured latencies. A sum of durations beyond $2^{64}$ seconds
  panics, and so does the division when the number of latencies is a multiple of $2^{32}$.
\<close>

definition latency_summary :: "nat list \<Rightarrow> (nat \<times> nat) option" where
  "latency_summary ls =
     (case (if ls = [] then Some 0
            else if sum_list ls \<ge> 2 ^ 64 * 10 ^ 9 then None
            else duration_div (sum_list ls) (word_of_nat (length ls))) of
        None \<Rightarrow> None
      | Some avg \<Rightarrow> Some (avg, foldl max 0 ls))"

text \<open>\<open>measured i\<close> is the latency of client \<open>i\<close>, \<open>drawn i\<close> its random number. The success rate of both is the constant 1.\<close>

definition simulate_synchronized :: "herd_sim \<Rightarrow> (nat \<Rightarrow> nat) \<Rightarrow> (nat \<times> nat) option" where
  "simulate_synchronized h measured = latency_summary (map measured [0..<hs_num_clients h])"

definition simulate_with_jitter :: "herd_sim \<Rightarrow> (nat \<Rightarrow> u64) \<Rightarrow> (nat \<Rightarrow> nat) \<Rightarrow> ((nat \<times> nat) \<times> u64 list) option" where
  "simulate_with_jitter h drawn measured =
     (case those (map (\<lambda>i. jitter_delay h (drawn i)) [0..<hs_num_clients h]) of
        None \<Rightarrow> None
      | Some delays \<Rightarrow>
          (case latency_summary (map measured [0..<hs_num_clients h]) of
             None \<Rightarrow> None
           | Some s \<Rightarrow> Some (s, delays)))"

lemma foldl_max_lower: "(m :: nat) \<le> foldl max m ls"
proof (induction ls arbitrary: m)
  case (Cons y ys)
  from Cons [of "max m y"] show ?case by simp
qed simp

lemma foldl_max_upper: "x \<in> set ls \<Longrightarrow> x \<le> foldl max (m :: nat) ls"
proof (induction ls arbitrary: m)
  case (Cons y ys)
  from Cons foldl_max_lower [of "max m y" ys] show ?case by auto
qed simp

lemma foldl_max_in: "foldl max m ls = (m :: nat) \<or> foldl max m ls \<in> set ls"
proof (induction ls arbitrary: m)
  case (Cons y ys)
  from this [of "max m y"] show ?case by (auto simp: max_def split: if_splits)
qed simp

text \<open>The summary of fewer than $2^{32}$ latencies of a sane size exists, and its average is between them.\<close>

lemma latency_summary_bounds:
  assumes "ls \<noteq> []" and "length ls < 2 ^ 32" and "sum_list ls < 2 ^ 64 * 10 ^ 9"
  shows "\<exists>avg m. latency_summary ls = Some (avg, m) \<and> avg \<le> m \<and> m \<in> insert 0 (set ls) \<and> (\<forall>x \<in> set ls. x \<le> m) \<and>
    avg * length ls \<le> sum_list ls \<and> sum_list ls < (avg + 1) * length ls"
proof -
  let ?n = "length ls" and ?m = "foldl max 0 ls"
  have n: "unat (word_of_nat ?n :: 32 word) = ?n" "0 < ?n"
    using assms(1,2) by (simp_all add: unsigned_of_nat take_bit_eq_mod)
  then have nz: "(word_of_nat ?n :: 32 word) \<noteq> 0" by (metis unat_0 less_irrefl)
  have "sum_list ls \<le> ?m * ?n"
    using sum_list_mono [of ls "\<lambda>x. x" "\<lambda>_. ?m"] foldl_max_upper [of _ ls 0]
    by (simp add: sum_list_triv mult.commute)
  then have "sum_list ls div ?n \<le> ?m" using n(2) by (metis div_le_mono nonzero_mult_div_cancel_right less_irrefl)
  moreover have "latency_summary ls = Some (sum_list ls div ?n, ?m)"
    using assms(1,3) nz n(1) by (simp add: latency_summary_def duration_div_def)
  moreover have "sum_list ls < (sum_list ls div ?n + 1) * ?n"
    using n(2) by (metis add.commute dividend_less_div_times mult.commute mult_Suc plus_1_eq_Suc)
  ultimately show ?thesis using foldl_max_upper [of _ ls 0] foldl_max_in [of 0 ls] by auto
qed

text \<open>Without a jitter range every client with jitter panics; with one, each delay is below it.\<close>

lemma those_map_cases:
  "those (map f xs) = (if \<exists>x \<in> set xs. f x = None then None else Some (map (\<lambda>x. the (f x)) xs))"
  by (induction xs) (auto split: option.splits)

lemma jitter_needs_range:
  "hs_jitter_ms h = 0 \<Longrightarrow> hs_num_clients h > 0 \<Longrightarrow> simulate_with_jitter h drawn measured = None"
  "simulate_with_jitter h drawn measured = Some (s, delays) \<Longrightarrow>
     length delays = hs_num_clients h \<and> (\<forall>d \<in> set delays. d < hs_jitter_ms h)"
proof -
  show "simulate_with_jitter h drawn measured = None" if "hs_jitter_ms h = 0" "hs_num_clients h > 0"
    using that by (auto simp: simulate_with_jitter_def those_map_cases jitter_delay_def)
  assume a: "simulate_with_jitter h drawn measured = Some (s, delays)"
  then have t: "those (map (\<lambda>i. jitter_delay h (drawn i)) [0..<hs_num_clients h]) = Some delays"
    by (auto simp: simulate_with_jitter_def split: option.splits)
  then have "length delays = hs_num_clients h" by (auto simp: those_map_cases split: if_splits)
  moreover have "d < hs_jitter_ms h" if "d \<in> set delays" for d
    using t that by (auto simp: those_map_cases jitter_delay_def word_mod_less_divisor word_gt_0 split: if_splits)
  ultimately show "length delays = hs_num_clients h \<and> (\<forall>d \<in> set delays. d < hs_jitter_ms h)" by simp
qed


subsection \<open>Socket tuning\<close>

datatype socket_call = SetNoDelay | SetReusePort "32 word" | SetSendBuffer "32 word"

text \<open>
  The calls made on a socket, in order, and the result. \<open>nodelay\<close> is the answer of the first call;
  the answers of the others are ignored. A size is cut to the 32 bits of a C integer.
\<close>

definition apply_to_socket ::
  "performance_tuning \<Rightarrow> (unit, 'e) result \<Rightarrow> (unit, 'e) result \<times> socket_call list"
where
  "apply_to_socket t nodelay =
     (let first = (if pt_tcp_nodelay t then [SetNoDelay] else []);
          others = (if pt_reuse_port t then [SetReusePort 1] else []) @
                   (if pt_send_buffer_size t > 0 then [SetSendBuffer (word_of_nat (pt_send_buffer_size t))] else [])
      in case (if pt_tcp_nodelay t then nodelay else Ok ()) of
           Err e \<Rightarrow> (Err e, first)
         | Ok _ \<Rightarrow> (Ok (), first @ others))"

text \<open>
  The receive buffer is never set; and a send buffer of 2 GB or more is asked for as a negative
  number of bytes, or as one without its high bits.
\<close>

lemma receive_buffer_ignored:
  "apply_to_socket (t\<lparr>pt_recv_buffer_size := n\<rparr>) nodelay = apply_to_socket t nodelay"
  by (simp add: apply_to_socket_def Let_def split: sum.split)

lemma send_buffer_cut:
  assumes "snd (apply_to_socket t (Ok ())) = cs" and "SetSendBuffer sz \<in> set cs"
  shows "unat sz = pt_send_buffer_size t mod 2 ^ 32 \<and>
    (pt_send_buffer_size t < 2 ^ 31 \<longleftrightarrow> sint sz = int (pt_send_buffer_size t))"
proof -
  have sz: "sz = word_of_nat (pt_send_buffer_size t)"
    using assms by (auto simp: apply_to_socket_def Let_def split: if_splits)
  have "unat sz = pt_send_buffer_size t mod 2 ^ 32" by (simp add: sz unsigned_of_nat take_bit_eq_mod)
  moreover have "sint sz = int (pt_send_buffer_size t)" if "pt_send_buffer_size t < 2 ^ 31"
    using that by (simp add: sz signed_of_nat signed_take_bit_int_eq_self)
  moreover have "sint sz < 2 ^ 31" using sint_less [of sz] by simp
  ultimately show ?thesis by auto
qed

subsection \<open>The security report\<close>

text \<open>Texts are UTF-8 bytes. \<open>box c\<close> is a box-drawing character by the last byte of its encoding.\<close>

definition box :: "nat \<Rightarrow> string" where
  "box c = map char_of [226, 148, c]"

definition checkmark :: "bool \<Rightarrow> string" where
  "checkmark v = map char_of (if v then [226, 156, 133 :: nat] else [226, 157, 140])"

definition ruler :: "nat \<Rightarrow> nat \<Rightarrow> nat \<Rightarrow> string" where
  "ruler l m r = box l @ concat (replicate 26 (box 128)) @ box m @ concat (replicate 8 (box 128)) @ box r"

text \<open>A line of the table: the name padded to 24 characters, the mark (one character) to 6.\<close>

definition report_line :: "string \<Rightarrow> string \<Rightarrow> string" where
  "report_line name mark =
     box 130 @ '' '' @ name @ replicate (24 - length name) (CHR '' '') @ '' '' @ box 130 @
     '' '' @ replicate 5 (CHR '' '') @ mark @ '' '' @ box 130 @ newline"

definition security_report :: "security_hardening \<Rightarrow> string" where
  "security_report h =
     ''Security Hardening Status:'' @ newline @
     ruler 140 172 144 @ newline @
     box 130 @ '' '' @ ''Check'' @ replicate 20 (CHR '' '') @ box 130 @ '' Status '' @ box 130 @ newline @
     ruler 156 188 164 @ newline @
     report_line ''Input Validation'' (checkmark (sh_input_validation h)) @
     report_line ''Rate Limiting'' (checkmark (sh_rate_limiting h)) @
     report_line ''TLS (HTTPS)'' (checkmark (sh_tls_enabled h)) @
     report_line ''Audit Logging'' (checkmark (sh_audit_logging h)) @
     report_line ''Dependency Scanning'' (checkmark (sh_dependency_scanning h)) @
     report_line ''Secret Rotation'' (checkmark (sh_secret_rotation h)) @
     report_line ''RBAC Authorization'' (checkmark (sh_authorization h)) @
     ruler 148 180 152"

text \<open>The line that an audited action writes; \<open>now\<close> is the text of the instant.\<close>

definition audit_line :: "string \<Rightarrow> string \<Rightarrow> string \<Rightarrow> string \<Rightarrow> string" where
  "audit_line now action actor details =
     ''[AUDIT '' @ now @ ''] '' @ action @ '' | '' @ actor @ '' | '' @ details @ newline"


text \<open>The report tells exactly the seven flags that it names.\<close>

lemma checkmark_inject: "checkmark v = checkmark w \<longleftrightarrow> v = w"
  by (simp add: checkmark_def)

lemma checkmark_length: "length (checkmark v) = 3"
  by (simp add: checkmark_def)

lemma report_line_inject:
  "report_line name (checkmark v) @ xs = report_line name (checkmark w) @ ys \<longleftrightarrow> v = w \<and> xs = ys"
  by (auto simp: report_line_def checkmark_length checkmark_inject)

lemma security_report_tells:
  "security_report g = security_report h \<longleftrightarrow>
     sh_input_validation g = sh_input_validation h \<and> sh_rate_limiting g = sh_rate_limiting h \<and>
     sh_tls_enabled g = sh_tls_enabled h \<and> sh_audit_logging g = sh_audit_logging h \<and>
     sh_dependency_scanning g = sh_dependency_scanning h \<and> sh_secret_rotation g = sh_secret_rotation h \<and>
     sh_authorization g = sh_authorization h"
  unfolding security_report_def same_append_eq report_line_inject by auto


subsection \<open>Statistics and texts over floating point\<close>

text \<open>
  More operations on \<open>f64\<close>: conversion from a natural number, square root, rounding up, the saturating
  conversion to an integer, and the texts of numbers and durations; \<open>fl_show p x\<close> has \<open>p\<close> places,
  \<open>fl_show_duration p d\<close> is the debug text of a duration.
\<close>

record 'f stat_floats = "'f floats" +
  fl_nat :: "nat \<Rightarrow> 'f"
  fl_sqrt :: "'f \<Rightarrow> 'f"
  fl_ceil :: "'f \<Rightarrow> 'f"
  fl_trunc :: "'f \<Rightarrow> u64"
  fl_show :: "nat \<Rightarrow> 'f \<Rightarrow> string"
  fl_show_duration :: "nat \<Rightarrow> nat \<Rightarrow> string"

definition lw_jitter :: "'f stat_floats \<Rightarrow> latency_window \<Rightarrow> nat option" where
  "lw_jitter fl w =
     (if length (lw_samples w) < 2 then None
      else (case lw_mean w of
              None \<Rightarrow> None
            | Some m \<Rightarrow>
                (let mean = fl_nat fl m;
                     squares = map (\<lambda>d. let diff = fl_sub fl (fl_nat fl d) mean in fl_mul fl diff diff) (lw_samples w);
                     variance = fl_div fl (foldl (fl_add fl) (fl_zero fl) squares) (fl_nat fl (length (lw_samples w) - 1))
                 in Some (unat (fl_trunc fl (fl_sqrt fl variance))))))"

text \<open>The rank of a percentage, given as a float.\<close>

definition lw_rank :: "'f stat_floats \<Rightarrow> 'f \<Rightarrow> latency_window \<Rightarrow> nat" where
  "lw_rank fl pct w =
     unat (fl_trunc fl (fl_div fl (fl_mul fl (fl_nat fl (length (lw_samples w) - 1)) pct) (fl_nat fl 100)))"

definition micros :: "nat option \<Rightarrow> string" where
  "micros d = (case d of None \<Rightarrow> ''N/A'' | Some n \<Rightarrow> show_nat (n div 1000) @ map char_of [194, 181 :: nat] @ ''s'')"

definition lw_report :: "'f stat_floats \<Rightarrow> latency_window \<Rightarrow> string \<times> latency_window" where
  "lw_report fl w =
     (case lw_percentile (lw_rank fl (fl_nat fl 50) w) w of
        (p50, w1) \<Rightarrow>
          (case lw_percentile (lw_rank fl (fl_nat fl 99) w1) w1 of
             (p99, w2) \<Rightarrow>
               (case lw_percentile (lw_rank fl (fl_div fl (fl_nat fl 999) (fl_nat fl 10)) w2) w2 of
                  (p999, w3) \<Rightarrow>
                    (''Latency['' @ show_nat (length (lw_samples w3)) @ '' samples]: min='' @ micros (lw_min w3) @
                     '' max='' @ micros (lw_max w3) @ '' mean='' @ micros (lw_mean w3) @ '' p50='' @ micros p50 @
                     '' p99='' @ micros p99 @ '' p999='' @ micros p999 @ '' jitter='' @ micros (lw_jitter fl w3), w3))))"

definition project_100m_rps :: "'f stat_floats \<Rightarrow> 'f \<Rightarrow> string" where
  "project_100m_rps fl current_throughput =
     (let needed = fl_div fl (fl_nat fl 100000000) current_throughput
      in ''100M RPS Projection:'' @ newline @
         ''Current: '' @ fl_show fl 0 current_throughput @ '' ops/sec'' @ newline @
         ''To reach 100M RPS: need '' @ fl_show fl 0 needed @ ''x more throughput'' @ newline @
         ''Options: shard across '' @ fl_show fl 0 (fl_ceil fl needed) @ '' nodes, or optimize '' @
         fl_show fl 1 (fl_sqrt fl needed) @ ''x per node'')"

text \<open>Padding counts characters: a byte that continues one is not counted.\<close>

definition chars :: "string \<Rightarrow> nat" where
  "chars s = length (filter (\<lambda>c. (of_char c :: nat) div 64 \<noteq> 2) s)"

definition pad_left :: "nat \<Rightarrow> string \<Rightarrow> string" where
  "pad_left n s = replicate (n - chars s) (CHR '' '') @ s"

definition double_rule :: "nat \<Rightarrow> string" where
  "double_rule n = concat (replicate n (map char_of [226, 149, 144 :: nat]))"

definition capstone_text :: "'f stat_floats \<Rightarrow> string \<Rightarrow> 'f stress_test_result \<Rightarrow> string" where
  "capstone_text fl name r =
     double_rule 3 @ '' CAPSTONE: '' @ name @ '' '' @ double_rule 3 @ newline @
     ''Total Operations:  '' @ pad_left 12 (show_nat (unat (sr_total_ops r))) @ newline @
     ''Duration:          '' @ pad_left 12 (fl_show_duration fl 2 (sr_duration r)) @ newline @
     ''Throughput:        '' @ pad_left 12 (fl_show fl 0 (sr_throughput_rps r)) @ '' ops/sec'' @ newline @
     ''Avg Latency:       '' @ pad_left 12 (fl_show_duration fl 2 (sr_avg_latency r)) @ newline @
     newline @ project_100m_rps fl (sr_throughput_rps r) @ newline @ double_rule 31"

definition capstone_demo ::
  "'f stat_floats \<Rightarrow> stress_test \<Rightarrow> string \<Rightarrow> ('w \<Rightarrow> 'w) \<Rightarrow> nat list \<Rightarrow> nat \<Rightarrow> 'w \<Rightarrow> (string \<times> 'w) bench_outcome"
where
  "capstone_demo fl st name operation schedule took w =
     (case run_benchmark fl st operation schedule took w of
        Running \<Rightarrow> Running
      | Panicked \<Rightarrow> Panicked
      | Finished (r, w') \<Rightarrow> Finished (capstone_text fl name r, w'))"

text \<open>The clients that succeed with backoff: their latencies, and their share.\<close>

definition backoff_summary ::
  "'f stat_floats \<Rightarrow> herd_sim \<Rightarrow> (nat \<Rightarrow> nat \<Rightarrow> bool) \<Rightarrow> nat \<Rightarrow> (nat \<Rightarrow> nat) \<Rightarrow> ((nat \<times> nat) \<times> 'f) option"
where
  "backoff_summary fl h ok max_retries measured =
     (let served = filter (\<lambda>i. fst (client_attempts h (ok i) 0 max_retries)) [0..<hs_num_clients h]
      in case latency_summary (map measured served) of
           None \<Rightarrow> None
         | Some s \<Rightarrow> Some (s, fl_div fl (fl_nat fl (length served)) (fl_nat fl (hs_num_clients h))))"

definition herd_ruler :: "nat \<Rightarrow> nat \<Rightarrow> nat \<Rightarrow> string" where
  "herd_ruler l m r =
     box l @ concat (replicate 17 (box 128)) @ box m @ concat (replicate 14 (box 128)) @ box m @
     concat (replicate 14 (box 128)) @ box r @ newline"

definition herd_line :: "'f stat_floats \<Rightarrow> string \<Rightarrow> nat \<times> nat \<Rightarrow> string" where
  "herd_line fl name s =
     box 130 @ name @ box 130 @ '' '' @ pad_left 12 (fl_show_duration fl 1 (fst s)) @ '' '' @ box 130 @ '' '' @
     pad_left 12 (fl_show_duration fl 1 (snd s)) @ '' '' @ box 130 @ newline"

definition herd_table :: "'f stat_floats \<Rightarrow> herd_sim \<Rightarrow> nat \<times> nat \<Rightarrow> nat \<times> nat \<Rightarrow> nat \<times> nat \<Rightarrow> 'f \<Rightarrow> string" where
  "herd_table fl h sync jit bo bo_rate =
     ''Thundering Herd ('' @ show_nat (hs_num_clients h) @ '' clients):'' @ newline @
     herd_ruler 140 172 144 @
     box 130 @ '' Strategy        '' @ box 130 @ '' Avg Latency  '' @ box 130 @ '' Max Latency  '' @ box 130 @ newline @
     herd_ruler 156 188 164 @
     herd_line fl '' Synchronized    '' sync @
     herd_line fl ('' Jitter ('' @ show_nat (unat (hs_jitter_ms h)) @ ''ms)  '') jit @
     herd_line fl '' Backoff (70% SR)'' bo @
     herd_ruler 148 180 152 @
     ''Backoff success rate: '' @ fl_show fl 1 (fl_mul fl bo_rate (fl_nat fl 100)) @ ''%''"

text \<open>\<open>measured j i\<close> is the latency that the run \<open>j\<close> of the three measures of client \<open>i\<close>.\<close>

definition compare_strategies ::
  "'f stat_floats \<Rightarrow> herd_sim \<Rightarrow> (nat \<Rightarrow> u64) \<Rightarrow> (nat \<Rightarrow> nat \<Rightarrow> bool) \<Rightarrow> (nat \<Rightarrow> nat \<Rightarrow> nat) \<Rightarrow> string option"
where
  "compare_strategies fl h drawn ok measured =
     (case simulate_synchronized h (measured 0) of
        None \<Rightarrow> None
      | Some sync \<Rightarrow>
          (case simulate_with_jitter h drawn (measured 1) of
             None \<Rightarrow> None
           | Some (jit, _) \<Rightarrow>
               (case backoff_summary fl h ok 5 (measured 2) of
                  None \<Rightarrow> None
                | Some (bo, bo_rate) \<Rightarrow> Some (herd_table fl h sync jit bo bo_rate))))"

text \<open>
  The comparison is printed for every number of clients below $2^{32}$ with latencies below a bound,
  as long as there is a jitter range; without one it panics.
\<close>

lemma latency_summary_defined:
  assumes "length ls < 2 ^ 32" and "\<forall>x \<in> set ls. x < 2 ^ 32"
  shows "latency_summary ls \<noteq> None"
proof (cases "ls = []")
  case False
  have "sum_list ls \<le> length ls * 2 ^ 32"
    using sum_list_mono [of ls "\<lambda>x. x" "\<lambda>_. 2 ^ 32"] assms(2) by (simp add: sum_list_triv less_imp_le)
  then have "sum_list ls < 2 ^ 64 * 10 ^ 9" using assms(1) by simp
  then show ?thesis using latency_summary_bounds [OF False assms(1)] by auto
qed (simp add: latency_summary_def)

lemma comparison_needs_jitter:
  assumes "0 < hs_num_clients h" and "hs_num_clients h < 2 ^ 32" and "\<And>j i. measured j i < 2 ^ 32"
  shows "compare_strategies fl h drawn ok measured = None \<longleftrightarrow> hs_jitter_ms h = 0"
proof (cases "hs_jitter_ms h = 0")
  case True
  then show ?thesis using jitter_needs_range(1) [OF True assms(1)] by (simp add: compare_strategies_def split: option.split)
next
  case False
  have all: "latency_summary (map (measured j) [0..<hs_num_clients h]) \<noteq> None" for j
    using assms(2,3) by (intro latency_summary_defined) auto
  then have "simulate_with_jitter h drawn (measured 1) \<noteq> None"
    using False by (auto simp: simulate_with_jitter_def those_map_cases jitter_delay_def split: option.split)
  moreover have "latency_summary (map (measured 2) (filter P [0..<hs_num_clients h])) \<noteq> None" for P
    using assms(2,3) le_less_trans [OF length_filter_le, of "[0..<hs_num_clients h]" "2 ^ 32" P]
    by (intro latency_summary_defined) auto
  then have "backoff_summary fl h ok 5 (measured 2) \<noteq> None" by (auto simp: backoff_summary_def Let_def split: option.split)
  ultimately show ?thesis
    using all [of 0] False by (auto simp: compare_strategies_def simulate_synchronized_def split: option.split)
qed

text \<open>
  A report leaves the window sorted with the samples it had, and the reported ranks are those of
  one and the same sorted window; of an empty window it says so.
\<close>

lemma lw_percentile_ensured:
  "snd (lw_percentile rank w) = (if lw_samples w = [] then w else ensure_sorted w)"
  by (simp add: lw_percentile_def Let_def)

lemma ensure_sorted_idem: "ensure_sorted (ensure_sorted w) = ensure_sorted w"
  by (simp add: ensure_sorted_def)

lemma lw_report_window:
  assumes "window_ok w"
  shows "snd (lw_report fl w) = (if lw_samples w = [] then w else ensure_sorted w) \<and>
    mset (lw_samples (snd (lw_report fl w))) = mset (lw_samples w) \<and> window_ok (snd (lw_report fl w))"
proof -
  have "length (lw_samples (ensure_sorted w)) = length (lw_samples w)" by (simp add: ensure_sorted_def)
  then have ne: "lw_samples (ensure_sorted w) = [] \<longleftrightarrow> lw_samples w = []" by (metis length_0_conv)
  have "snd (lw_report fl w) = (if lw_samples w = [] then w else ensure_sorted w)"
    using lw_percentile_ensured ensure_sorted_idem ne
    by (auto simp: lw_report_def case_prod_unfold)
  then show ?thesis using assms ensure_sorted_def [of w] by (auto simp: window_ok_def)
qed

lemma lw_report_empty:
  "fst (lw_report fl (lw_new n)) = ''Latency[0 samples]: min=N/A max=N/A mean=N/A p50=N/A p99=N/A p999=N/A jitter=N/A''"
  by (simp add: lw_report_def lw_new_def lw_percentile_def lw_min_def lw_max_def lw_mean_def lw_jitter_def micros_def
      show_nat.simps [of 0] char_of_def bit_Suc_0_iff)

text \<open>Latencies that do not vary have no jitter; what is asked of \<open>f64\<close> holds of every finite number.\<close>

definition steady_laws :: "'f stat_floats \<Rightarrow> bool" where
  "steady_laws fl \<longleftrightarrow>
     (\<forall>n. fl_sub fl (fl_nat fl n) (fl_nat fl n) = fl_zero fl) \<and> fl_mul fl (fl_zero fl) (fl_zero fl) = fl_zero fl \<and>
     fl_add fl (fl_zero fl) (fl_zero fl) = fl_zero fl \<and> (\<forall>n > 0. fl_div fl (fl_zero fl) (fl_nat fl n) = fl_zero fl) \<and>
     fl_sqrt fl (fl_zero fl) = fl_zero fl \<and> fl_trunc fl (fl_zero fl) = 0"

lemma steady_has_no_jitter:
  assumes "steady_laws fl" and "lw_samples w = replicate n d" and "2 \<le> n" and "d < 2 ^ 64"
  shows "lw_jitter fl w = Some 0"
proof -
  have m: "lw_mean w = Some d" using assms(2-4) by (simp add: lw_mean_def sum_list_replicate)
  have "foldl (fl_add fl) (fl_zero fl) (replicate k (fl_zero fl)) = fl_zero fl" for k
    using assms(1) by (induction k) (simp_all add: steady_laws_def)
  with assms m show ?thesis by (simp add: lw_jitter_def steady_laws_def Let_def)
qed

end
