(* ===== verification/Startup.thy ===== *)
theory Startup
  imports Store
begin

section \<open>Process start\<close>

text \<open>
  \<open>src/main.rs\<close>, \<open>serve\<close> of \<open>src/api/mod.rs\<close> and \<open>connect\<close> of \<open>src/store/mod.rs\<close>: what the environment
  configures, the connection to the database with its fallback to memory, and the state in which
  the server starts to listen. The environment, the calls of the database client and the binding
  of the port are arguments; messages on the console have no counterpart.
\<close>

subsection \<open>The port\<close>

text \<open>A text parsed as an unsigned 16-bit number, as the standard library does: an overflow is an error.\<close>

definition is_decimal :: "char \<Rightarrow> bool" where
  "is_decimal c \<longleftrightarrow> 48 \<le> (of_char c :: nat) \<and> (of_char c :: nat) \<le> 57"

fun parse_digits :: "nat \<Rightarrow> string \<Rightarrow> nat option" where
  "parse_digits v [] = Some v"
| "parse_digits v (c # cs) =
     (if is_decimal c
      then (let v' = 10 * v + (of_char c - 48) in if v' < 2 ^ 16 then parse_digits v' cs else None)
      else None)"

definition parse_u16 :: "string \<Rightarrow> (16 word) option" where
  "parse_u16 s =
     (if s = [] \<or> s = ''+'' \<or> s = ''-'' then None
      else map_option word_of_nat (parse_digits 0 (if hd s = CHR ''+'' then tl s else s)))"

definition main_port :: "(string \<Rightarrow> string option) \<Rightarrow> 16 word" where
  "main_port env =
     (let text = (case env ''API_PORT'' of None \<Rightarrow> ''3001'' | Some t \<Rightarrow> t)
      in case parse_u16 text of None \<Rightarrow> 3001 | Some p \<Rightarrow> p)"

subsection \<open>The connection to the database\<close>

text \<open>The calls of the client; each returns the connection or the text of its error.\<close>

record 'c surreal =
  su_new :: "string \<Rightarrow> ('c, string) result"
  su_signin :: "string \<Rightarrow> string \<Rightarrow> 'c \<Rightarrow> ('c, string) result"
  su_use_ns :: "string \<Rightarrow> 'c \<Rightarrow> ('c, string) result"
  su_use_db :: "string \<Rightarrow> 'c \<Rightarrow> ('c, string) result"

definition connect :: "'c surreal \<Rightarrow> string \<Rightarrow> string \<Rightarrow> string \<Rightarrow> string \<Rightarrow> string \<Rightarrow> ('c, string) result" where
  "connect su url ns db_name user pass =
     (case su_new su url of
        Err e \<Rightarrow> Err (''SurrealDB connect '' @ url @ '': '' @ e)
      | Ok c0 \<Rightarrow>
          (case su_signin su user pass c0 of
             Err e \<Rightarrow> Err (''SurrealDB signin: '' @ e)
           | Ok c1 \<Rightarrow>
               (case su_use_ns su ns c1 of
                  Err e \<Rightarrow> Err (''SurrealDB use_ns('' @ ns @ ''): '' @ e)
                | Ok c2 \<Rightarrow>
                    (case su_use_db su db_name c2 of
                       Err e \<Rightarrow> Err (''SurrealDB use_db('' @ db_name @ ''): '' @ e)
                     | Ok c3 \<Rightarrow> Ok c3))))"

definition env_or :: "(string \<Rightarrow> string option) \<Rightarrow> string \<Rightarrow> string \<Rightarrow> string" where
  "env_or env name fallback = (case env name of None \<Rightarrow> fallback | Some v \<Rightarrow> v)"

definition main_store :: "'c surreal \<Rightarrow> (string \<Rightarrow> string option) \<Rightarrow> 'c option" where
  "main_store su env =
     (let surreal_url = env_or env ''SURREAL_URL'' ''''
      in if surreal_url = '''' then None
         else (case connect su surreal_url (env_or env ''SURREAL_NS'' ''banking_ledger'') (env_or env ''SURREAL_DB'' ''ledger'')
                      (env_or env ''SURREAL_USER'' ''root'') (env_or env ''SURREAL_PASS'' ''root'') of
                 Ok store \<Rightarrow> Some store
               | Err _ \<Rightarrow> None))"

subsection \<open>The server\<close>

text \<open>What the start takes from outside: the packages, a call context and the instants it reads.\<close>

record ('l, 'x) start_env =
  st_api :: api_env
  st_store :: store_env
  st_bind :: "16 word \<Rightarrow> ('l, 'x) result"
  st_ctx :: call_ctx
  st_now0 :: timestamp
  st_now1 :: timestamp
  st_now2 :: timestamp

text \<open>The state and the listener with which requests are served; the failure to bind is returned.\<close>

definition serve ::
  "('l, 'x) start_env \<Rightarrow> 16 word \<Rightarrow> ('d database \<times> 'd) option \<Rightarrow> ('l \<times> app_state, 'x) result"
where
  "serve se port store =
     (let s0 = app_new (st_api se) (st_now0 se);
          s = (case store of
                 None \<Rightarrow> s0
               | Some (db, d) \<Rightarrow>
                   restore_from_store (st_store se) (ae_crypto (st_api se)) db (st_ctx se) (st_now1 se) (st_now2 se) d s0)
      in case st_bind se port of Err e \<Rightarrow> Err e | Ok l \<Rightarrow> Ok (l, s))"

text \<open>The process; a server that cannot listen makes it panic.\<close>

definition main ::
  "('l, 'x) start_env \<Rightarrow> ('d database \<times> 'd) surreal \<Rightarrow> (string \<Rightarrow> string option) \<Rightarrow> ('l \<times> app_state) option"
where
  "main se su env =
     (let store = main_store su env; port = main_port env
      in case serve se port store of Err _ \<Rightarrow> None | Ok r \<Rightarrow> Some r)"

subsection \<open>Which ports are accepted\<close>

definition decimal_value :: "nat \<Rightarrow> string \<Rightarrow> nat" where
  "decimal_value = foldl (\<lambda>a c. 10 * a + (of_char c - 48))"

lemma decimal_value_simps [simp]:
  "decimal_value v [] = v" "decimal_value v (c # cs) = decimal_value (10 * v + (of_char c - 48)) cs"
  by (simp_all add: decimal_value_def)

lemma decimal_value_lower: "v \<le> decimal_value v s"
proof (induction s arbitrary: v)
  case (Cons c cs)
  from Cons [of "10 * v + (of_char c - 48)"] show ?case by simp
qed simp

lemma parse_digits_iff:
  "v < 2 ^ 16 \<Longrightarrow>
   parse_digits v s = (if list_all is_decimal s \<and> decimal_value v s < 2 ^ 16 then Some (decimal_value v s) else None)"
proof (induction s arbitrary: v)
  case (Cons c cs)
  let ?v = "10 * v + (of_char c - 48)"
  show ?case using Cons.IH [of ?v] decimal_value_lower [of ?v cs] by (auto simp: Let_def)
qed simp


lemma show_nat_decimal: "list_all is_decimal (show_nat n)"
  by (simp add: list_all_iff is_decimal_def show_nat_chars)

lemma hd_decimal: "list_all is_decimal s \<Longrightarrow> s \<noteq> [] \<Longrightarrow> hd s \<noteq> CHR ''+'' \<and> s \<noteq> ''+'' \<and> s \<noteq> ''-''"
  by (cases s) (auto simp: is_decimal_def)

lemma parse_u16_digits:
  assumes "list_all is_decimal s" and "s \<noteq> []"
  shows "parse_u16 s = (if decimal_value 0 s < 2 ^ 16 then Some (word_of_nat (decimal_value 0 s)) else None)"
  using hd_decimal [OF assms] assms by (simp add: parse_u16_def parse_digits_iff)

text \<open>
  A port written in decimal is the port that is used when it fits into 16 bits; any other number,
  and any text that is no number, gives 3001.
\<close>

lemma configured_port:
  assumes "env ''API_PORT'' = Some (show_nat n)"
  shows "main_port env = (if n < 2 ^ 16 then word_of_nat n else 3001)"
proof -
  have "decimal_value 0 (show_nat n) = n" using read_show_nat [of n] by (simp add: decimal_value_def read_digit_def)
  then show ?thesis
    using parse_u16_digits [OF show_nat_decimal show_nat_nonempty, of n] by (simp add: main_port_def assms)
qed

lemma default_port: "env ''API_PORT'' = None \<Longrightarrow> main_port env = 3001"
  by (simp add: main_port_def parse_u16_def is_decimal_def)

lemma rejected_port:
  assumes "env ''API_PORT'' = Some s" and "\<exists>c \<in> set (tl s). \<not> is_decimal c"
  shows "main_port env = 3001"
proof -
  have "parse_u16 s = None" using assms(2) by (cases s) (auto simp: parse_u16_def parse_digits_iff list_all_iff)
  then show ?thesis by (simp add: main_port_def assms(1))
qed

subsection \<open>The start always leads to a server\<close>

text \<open>A store is used exactly when a location is configured and every call of the client succeeds.\<close>

lemma main_store_iff:
  "main_store su env = Some c3 \<longleftrightarrow>
     env_or env ''SURREAL_URL'' '''' \<noteq> '''' \<and>
     (\<exists>c0 c1 c2. su_new su (env_or env ''SURREAL_URL'' '''') = Ok c0 \<and>
        su_signin su (env_or env ''SURREAL_USER'' ''root'') (env_or env ''SURREAL_PASS'' ''root'') c0 = Ok c1 \<and>
        su_use_ns su (env_or env ''SURREAL_NS'' ''banking_ledger'') c1 = Ok c2 \<and>
        su_use_db su (env_or env ''SURREAL_DB'' ''ledger'') c2 = Ok c3)"
  by (auto simp: main_store_def connect_def Let_def split: sum.splits)

lemma restore_keeps_rest [simp]:
  "app_journal (restore_from_store se cr db cx now later d s) = app_journal s"
  "app_journal_seq (restore_from_store se cr db cx now later d s) = app_journal_seq s"
  "app_rbac (restore_from_store se cr db cx now later d s) = app_rbac s"
  "app_breaker (restore_from_store se cr db cx now later d s) = app_breaker s"
  "app_identity (restore_from_store se cr db cx now later d s) = app_identity s"
  by (simp_all add: restore_from_store_def Let_def split: sum.splits)

text \<open>
  Whatever the environment says and the database answers, the process serves requests as soon as
  its port can be bound, and panics otherwise. Without a connected database the books are sound
  and empty; with one only accounts and chain are restored, never the journal, its counter, the
  roles or the parties.
\<close>

theorem start_serves:
  "main se su env =
     (case st_bind se (main_port env) of
        Err _ \<Rightarrow> None
      | Ok l \<Rightarrow> (case main_store su env of
           None \<Rightarrow> Some (l, app_new (st_api se) (st_now0 se))
         | Some (db, d) \<Rightarrow> Some (l, restore_from_store (st_store se) (ae_crypto (st_api se)) db (st_ctx se)
                                      (st_now1 se) (st_now2 se) d (app_new (st_api se) (st_now0 se))))) \<and>
   (main se su env = Some (l, s) \<longrightarrow>
      app_journal s = [] \<and> app_journal_seq s = 0 \<and> app_identity s = identity_new \<and>
      app_rbac s = rbac_bind default_auditor Auditor (rbac_bind default_admin Admin rbac_new) \<and>
      (main_store su env = None \<longrightarrow> books_ok (st_api se) s \<and> app_accounts s = Map.empty))"
proof -
  let ?s0 = "app_new (st_api se) (st_now0 se)"
  have m: "main se su env =
     (case st_bind se (main_port env) of
        Err _ \<Rightarrow> None
      | Ok l \<Rightarrow> (case main_store su env of
           None \<Rightarrow> Some (l, ?s0)
         | Some (db, d) \<Rightarrow> Some (l, restore_from_store (st_store se) (ae_crypto (st_api se)) db (st_ctx se)
                                      (st_now1 se) (st_now2 se) d ?s0)))"
    by (simp add: main_def serve_def Let_def split: sum.split option.split)
  have s0: "app_journal ?s0 = []" "app_journal_seq ?s0 = 0" "app_identity ?s0 = identity_new" "app_accounts ?s0 = Map.empty"
    "app_rbac ?s0 = rbac_bind default_auditor Auditor (rbac_bind default_admin Admin rbac_new)" "books_ok (st_api se) ?s0"
    by (simp_all add: app_new_books(1)) (simp_all add: app_new_def service_new_def)
  show ?thesis
    by (intro conjI impI m) (auto simp: m s0 split: sum.splits option.splits)
qed

text \<open>A database that refuses the sign-in: the process starts on the port of the environment, in memory.\<close>

theorem start_serves_witness:
  "\<exists>s. main \<lparr>st_api = demo_env, st_store = demo_texts, st_bind = (\<lambda>p. Ok p :: (16 word, unit) result), st_ctx = demo_ctx 1,
             st_now0 = 5, st_now1 = 6, st_now2 = 7\<rparr>
         \<lparr>su_new = (\<lambda>_. Ok (demo_db (\<lambda>_. True) (\<lambda>_. True), ([], []))), su_signin = (\<lambda>_ _ _. Err ''denied''), su_use_ns = (\<lambda>_ c. Ok c), su_use_db = (\<lambda>_ c. Ok c)\<rparr>
         (Map.empty(''API_PORT'' \<mapsto> ''8080'', ''SURREAL_URL'' \<mapsto> ''localhost:8000'')) = Some (8080, s) \<and>
       app_journal s = [] \<and> books_ok demo_env s"
proof -
  let ?se = "\<lparr>st_api = demo_env, st_store = demo_texts, st_bind = (\<lambda>p. Ok p :: (16 word, unit) result), st_ctx = demo_ctx 1,
             st_now0 = 5, st_now1 = 6, st_now2 = 7\<rparr>"
  let ?su = "\<lparr>su_new = (\<lambda>_. Ok (demo_db (\<lambda>_. True) (\<lambda>_. True), ([], []))), su_signin = (\<lambda>_ _ _. Err ''denied''), su_use_ns = (\<lambda>_ c. Ok c), su_use_db = (\<lambda>_ c. Ok c)\<rparr>"
  let ?env = "Map.empty(''API_PORT'' \<mapsto> ''8080'', ''SURREAL_URL'' \<mapsto> ''localhost:8000'')"
  have p: "main_port ?env = 8080" by (simp add: main_port_def parse_u16_def is_decimal_def)
  have n: "main_store ?su ?env = None" by (simp add: main_store_def connect_def env_or_def)
  show ?thesis
    using start_serves [of ?se ?su ?env 8080 "app_new demo_env 5"] by (simp add: p n)
qed

end
