(* ===== verification/Error_Texts.thy ===== *)
theory Error_Texts
  imports Api_Views Ledger_Service Production
begin

section \<open>The texts of errors\<close>

text \<open>
  The \<open>Display\<close> texts of the errors of accounts (\<open>src/domain/account.rs\<close>), of the ledger service, the
  sagas, the chart of accounts and the authorization checks: what a log or an answer prints of
  them. The text of a UUID is a parameter. The texts tell the errors apart.
\<close>

subsection \<open>Display\<close>

definition show_debit_error :: "(uuid \<Rightarrow> string) \<Rightarrow> debit_error \<Rightarrow> string" where
  "show_debit_error show_uuid e =
     (case e of
        DebitAccountNotFound i \<Rightarrow> ''account not found: '' @ show_uuid i
      | DebitInvalidAmount \<Rightarrow> ''debit amount must be positive''
      | DebitAccountNotOpen st \<Rightarrow> ''cannot debit account with status '' @ debug_account_status st
      | DebitInsufficientFunds a r \<Rightarrow>
          ''insufficient funds: available='' @ show_int (sint a) @ '', requested='' @ show_int (sint r))"

definition show_credit_error :: "(uuid \<Rightarrow> string) \<Rightarrow> credit_error \<Rightarrow> string" where
  "show_credit_error show_uuid e =
     (case e of
        CreditAccountNotFound i \<Rightarrow> ''account not found: '' @ show_uuid i
      | CreditInvalidAmount \<Rightarrow> ''credit amount must be positive''
      | CreditAccountNotOpen st \<Rightarrow> ''cannot credit account with status '' @ debug_account_status st
      | CreditOverflow \<Rightarrow> ''credit overflow: balance + amount would exceed i64::MAX'')"

definition show_hold_error :: "(uuid \<Rightarrow> string) \<Rightarrow> hold_error \<Rightarrow> string" where
  "show_hold_error show_uuid e =
     (case e of
        HoldAccountNotFound i \<Rightarrow> ''account not found: '' @ show_uuid i
      | HoldAccountNotOpen st \<Rightarrow> ''account is '' @ debug_account_status st @ '' '' @ em_dash @ '' must be Open''
      | HoldInvalidAmount \<Rightarrow> ''hold amount must be positive''
      | HoldInsufficientFunds a h \<Rightarrow>
          ''insufficient funds for hold: available='' @ show_int (sint a) @ '', hold='' @ show_int (sint h)
      | ReleaseExceedsHeld a b r \<Rightarrow>
          ''release exceeds held amount: available='' @ show_int (sint a) @ '', balance='' @ show_int (sint b) @
          '', attempted_release='' @ show_int (sint r))"

definition show_ledger_error :: "(uuid \<Rightarrow> string) \<Rightarrow> ledger_error \<Rightarrow> string" where
  "show_ledger_error show_uuid e =
     (case e of
        LedgerJournalError j \<Rightarrow> ''Journal error: '' @ show_journal_error j
      | LedgerAccountNotFound i \<Rightarrow> ''Account not found: '' @ show_uuid i
      | LedgerDebitError i d \<Rightarrow> ''Debit error on '' @ show_uuid i @ '': '' @ debug_debit_error show_uuid d
      | LedgerCreditError i c \<Rightarrow> ''Credit error on '' @ show_uuid i @ '': '' @ debug_credit_error show_uuid c
      | LedgerEntryNotFound i \<Rightarrow> ''Journal entry not found: '' @ show_uuid i)"

definition show_saga_error :: "(uuid \<Rightarrow> string) \<Rightarrow> saga_error \<Rightarrow> string" where
  "show_saga_error show_uuid e =
     (case e of
        UnknownDefinition name \<Rightarrow> ''Unknown saga definition: '' @ name
      | NoSteps \<Rightarrow> ''Saga definition has no steps''
      | SagaNotFound i \<Rightarrow> ''Saga not found: '' @ show_uuid i
      | SagaNotActive status \<Rightarrow> ''Saga is not active: '' @ debug_saga_status status
      | AllStepsCompleted \<Rightarrow> ''All saga steps already completed'')"

definition show_coa_error :: "(uuid \<Rightarrow> string) \<Rightarrow> coa_error \<Rightarrow> string" where
  "show_coa_error show_uuid e =
     (case e of
        CoaNotFound i \<Rightarrow> ''COA account not found: '' @ show_uuid i
      | CircularReference i \<Rightarrow> ''Circular reference detected for: '' @ show_uuid i)"

definition show_authz_error :: "authz_error \<Rightarrow> string" where
  "show_authz_error e =
     ''Permission denied: requires '' @ debug_permission (authz_required e) @ '' '' @ em_dash @ '' '' @ authz_reason e"

subsection \<open>Texts determine errors\<close>

text \<open>What is asked of the texts of UUIDs: they are different, and have no colon.\<close>

definition uuid_texts :: "(uuid \<Rightarrow> string) \<Rightarrow> bool" where
  "uuid_texts show_uuid \<longleftrightarrow> inj show_uuid \<and> (\<forall>i. CHR '':'' \<notin> set (show_uuid i))"

lemma uuid_texts_eq: "uuid_texts show_uuid \<Longrightarrow> show_uuid i = show_uuid j \<longleftrightarrow> i = j"
  by (auto simp: uuid_texts_def inj_def)

lemma show_int_chars: "CHR '','' \<notin> set (show_int n)" "CHR '' '' \<notin> set (show_int n)"
  using show_nat_chars [of "CHR '',''" "nat (- n)"] show_nat_chars [of "CHR '',''" "nat n"]
    show_nat_chars [of "CHR '' ''" "nat (- n)"] show_nat_chars [of "CHR '' ''" "nat n"]
  by (auto simp: show_int_def)

lemma show_int_inject [simp]: "show_int m = show_int n \<longleftrightarrow> m = n"
proof -
  have "CHR ''-'' # xs \<noteq> show_nat k" "show_nat k \<noteq> CHR ''-'' # xs" for xs k
    using show_nat_chars [of "CHR ''-''" k] by (auto dest: sym)
  then show ?thesis by (auto simp: show_int_def)
qed

lemma sint_inject_i64: "sint (a :: i64) = sint b \<longleftrightarrow> a = b"
  by (auto intro: signed_word_eqI)

lemmas text_injects = cut_at show_int_chars sint_inject_i64

lemma debug_account_status_inject [simp]: "debug_account_status a = debug_account_status b \<longleftrightarrow> a = b"
  by (cases a; cases b) (simp_all add: debug_account_status_def)

lemma debug_saga_status_inject [simp]: "debug_saga_status a = debug_saga_status b \<longleftrightarrow> a = b"
  by (cases a; cases b) (simp_all add: debug_saga_status_def)

lemma debug_permission_chars: "CHR '' '' \<notin> set (debug_permission p)"
  by (cases p) (simp_all add: debug_permission_def)

lemma debug_permission_inject [simp]: "debug_permission p = debug_permission q \<longleftrightarrow> p = q"
  by (cases p; cases q) (simp_all add: debug_permission_def)

lemma show_journal_error_inject: "show_journal_error a = show_journal_error b \<longleftrightarrow> a = b"
  by (cases a; cases b) (auto simp: show_journal_error_def text_injects)

lemma debug_debit_error_inject:
  "uuid_texts show_uuid \<Longrightarrow> debug_debit_error show_uuid a = debug_debit_error show_uuid b \<longleftrightarrow> a = b"
  by (cases a; cases b) (auto simp: debug_debit_error_def named_i64s_def uuid_texts_eq text_injects)

lemma debug_credit_error_inject:
  "uuid_texts show_uuid \<Longrightarrow> debug_credit_error show_uuid a = debug_credit_error show_uuid b \<longleftrightarrow> a = b"
  by (cases a; cases b) (auto simp: debug_credit_error_def uuid_texts_eq)

lemma show_debit_error_inject:
  "uuid_texts show_uuid \<Longrightarrow> show_debit_error show_uuid a = show_debit_error show_uuid b \<longleftrightarrow> a = b"
  by (cases a; cases b) (auto simp: show_debit_error_def uuid_texts_eq text_injects)

lemma show_credit_error_inject:
  "uuid_texts show_uuid \<Longrightarrow> show_credit_error show_uuid a = show_credit_error show_uuid b \<longleftrightarrow> a = b"
  by (cases a; cases b) (auto simp: show_credit_error_def uuid_texts_eq)

lemma show_hold_error_inject:
  "uuid_texts show_uuid \<Longrightarrow> show_hold_error show_uuid a = show_hold_error show_uuid b \<longleftrightarrow> a = b"
  by (cases a; cases b) (auto simp: show_hold_error_def uuid_texts_eq text_injects)

lemma show_saga_error_inject:
  "uuid_texts show_uuid \<Longrightarrow> show_saga_error show_uuid a = show_saga_error show_uuid b \<longleftrightarrow> a = b"
  by (cases a; cases b) (auto simp: show_saga_error_def uuid_texts_eq)

lemma show_coa_error_inject:
  "uuid_texts show_uuid \<Longrightarrow> show_coa_error show_uuid a = show_coa_error show_uuid b \<longleftrightarrow> a = b"
  by (cases a; cases b) (auto simp: show_coa_error_def uuid_texts_eq)

lemma show_authz_error_inject: "show_authz_error a = show_authz_error b \<longleftrightarrow> a = b"
  using cut_at [OF debug_permission_chars [of "authz_required a"] debug_permission_chars [of "authz_required b"]]
  by (auto simp: show_authz_error_def)

lemma show_ledger_error_inject:
  assumes "uuid_texts show_uuid"
  shows "show_ledger_error show_uuid a = show_ledger_error show_uuid b \<longleftrightarrow> a = b"
proof -
  have colon: "CHR '':'' \<notin> set (show_uuid i)" for i using assms by (simp add: uuid_texts_def)
  show ?thesis
    by (cases a; cases b)
      (auto simp: show_ledger_error_def uuid_texts_eq [OF assms] cut_at colon show_journal_error_inject
        debug_debit_error_inject [OF assms] debug_credit_error_inject [OF assms])
qed

text \<open>
  The text that is printed of a failure of the ledger tells which one it was, with all its data: an
  account or entry that is missing, the journal's own check with its totals, a refused debit with
  the available and the requested amount.
\<close>

theorem ledger_errors_told_apart:
  assumes "uuid_texts show_uuid"
  shows "inj (show_ledger_error show_uuid)" and "inj (show_debit_error show_uuid)" and "inj (show_credit_error show_uuid)"
    and "inj (show_hold_error show_uuid)" and "inj (show_saga_error show_uuid)" and "inj (show_coa_error show_uuid)"
    and "inj show_authz_error"
  by (simp_all add: inj_def show_ledger_error_inject [OF assms] show_debit_error_inject [OF assms]
      show_credit_error_inject [OF assms] show_hold_error_inject [OF assms] show_saga_error_inject [OF assms]
      show_coa_error_inject [OF assms] show_authz_error_inject)

text \<open>Decimal numbers are such texts.\<close>

lemma decimal_uuid_texts: "uuid_texts (\<lambda>i. show_nat (unat i))"
proof -
  have "CHR '':'' \<notin> set (show_nat n)" for n using show_nat_chars [of "CHR '':''" n] by auto
  then show ?thesis by (auto simp: uuid_texts_def inj_def intro: unsigned_word_eqI)
qed

end
