(* ===== verification/Unit_Testing.thy ===== *)
theory Unit_Testing
  imports Ledger_Prelude "HOL-Library.Monad_Syntax"
begin

section \<open>Unit tests as computations\<close>

text \<open>
  The unit tests of the repository, run on the model: a test is a computation in the option monad
  that ends in \<open>Some ()\<close>, or in \<open>None\<close> when an assertion fails, an \<open>unwrap\<close> meets an error or the
  code panics. Identifiers that a test draws and instants that it reads are its arguments.
\<close>

definition assert :: "bool \<Rightarrow> unit option" where
  "assert b = (if b then Some () else None)"

definition unwrap :: "('a, 'e) result \<Rightarrow> 'a option" where
  "unwrap r = (case r of Ok x \<Rightarrow> Some x | Err _ \<Rightarrow> None)"

text \<open>The value and the new state of an operation that has to succeed.\<close>

definition expect :: "('a, 'e) result \<times> 's \<Rightarrow> ('a \<times> 's) option" where
  "expect p = (case p of (Ok x, s) \<Rightarrow> Some (x, s) | (Err _, s) \<Rightarrow> None)"

text \<open>The body of a loop over a list, which threads a state.\<close>

fun each :: "('a \<Rightarrow> 's \<Rightarrow> 's option) \<Rightarrow> 'a list \<Rightarrow> 's \<Rightarrow> 's option" where
  "each f [] s = Some s"
| "each f (x # xs) s = Option.bind (f x s) (each f xs)"

definition passes :: "unit option \<Rightarrow> bool" where
  "passes t \<longleftrightarrow> t = Some ()"

lemmas test_simps = assert_def unwrap_def expect_def passes_def is_ok_def

end
