(* ===== verification/Log_Tests.thy ===== *)
theory Log_Tests
  imports Unit_Testing Stress Event_Bus Event_Log Idempotency
begin

section \<open>The unit tests of the logs\<close>

text \<open>
  The tests of \<open>src/log/ring_buffer.rs\<close>, \<open>src/log/event_log.rs\<close>, \<open>src/log/event_bus.rs\<close>,
  \<open>src/service/event_bus_wiring.rs\<close> and \<open>src/event_bus_edge_cases.rs\<close>, assertion by assertion, on
  the definitions of the model. That they pass relates the model to what the authors of the code
  say of it. A test that starts threads, or sleeps, is stated for every schedule or every clock.
\<close>

subsection \<open>The ring buffer\<close>

definition push_each :: "'a list \<Rightarrow> 'a ring \<Rightarrow> 'a ring option" where
  "push_each = each (\<lambda>x rb. map_option snd (expect (try_push x rb)))"

definition pop_each :: "'a list \<Rightarrow> 'a ring \<Rightarrow> 'a ring option" where
  "pop_each = each (\<lambda>x rb. do { (v, rb) \<leftarrow> try_pop rb; assert (v = Some x); Some rb })"

definition test_ring_buffer_push_pop :: "unit option" where
  "test_ring_buffer_push_pop = do {
     let rb = ring_new 8;
     assert (ring_is_empty rb);
     (_, rb) \<leftarrow> expect (try_push (42 :: int) rb);
     assert (ring_len rb = 1);
     (v, rb) \<leftarrow> try_pop rb;
     assert (v = Some 42);
     assert (ring_is_empty rb)
   }"

definition test_ring_buffer_full :: "unit option" where
  "test_ring_buffer_full = do {
     rb \<leftarrow> push_each [0..<4] (ring_new 4);
     assert (ring_is_full rb);
     assert (\<not> is_ok (fst (try_push 99 rb)))
   }"

definition test_ring_buffer_wrap_around :: "unit option" where
  "test_ring_buffer_wrap_around = do {
     rb \<leftarrow> push_each (map (\<lambda>i. i * 10) [0..<4]) (ring_new 4);
     rb \<leftarrow> pop_each (map (\<lambda>i. i * 10) [0..<4]) rb;
     rb \<leftarrow> push_each (map (\<lambda>i. i * 100) [0..<4]) rb;
     _ \<leftarrow> pop_each (map (\<lambda>i. i * 100) [0..<4]) rb;
     Some ()
   }"

definition test_batch_consume :: "unit option" where
  "test_batch_consume = do {
     rb \<leftarrow> push_each [0..<6] (ring_new 8);
     (batch, rb) \<leftarrow> batch_consume 3 rb;
     assert (batch = [0, 1, 2]);
     assert (ring_len rb = 3);
     (batch2, rb) \<leftarrow> batch_consume 10 rb;
     assert (batch2 = [3, 4, 5]);
     assert (ring_is_empty rb)
   }"

definition test_dependency_graph :: "unit option" where
  "test_dependency_graph = do {
     let dg = graph_new 4;
     dg \<leftarrow> add_dependency 3 0 dg;
     dg \<leftarrow> add_dependency 3 1 dg;
     dg \<leftarrow> add_dependency 3 2 dg;
     b \<leftarrow> all_dependencies_done 3 dg;
     assert (\<not> b);
     dg \<leftarrow> node_complete 0 dg;
     b \<leftarrow> all_dependencies_done 3 dg;
     assert (\<not> b);
     dg \<leftarrow> node_complete 1 dg;
     dg \<leftarrow> node_complete 2 dg;
     b \<leftarrow> all_dependencies_done 3 dg;
     assert b
   }"

text \<open>The loop of the test is that of \<open>pop_wait\<close>; \<open>clk k\<close> is the instant that iteration \<open>k\<close> reads.\<close>

definition test_wait_strategy_spin :: "timestamp \<Rightarrow> (nat \<Rightarrow> timestamp) \<Rightarrow> unit option" where
  "test_wait_strategy_spin now clk = do {
     (v, _) \<leftarrow> pop_wait Spin 100000000 (\<lambda>_. False) (\<lambda>_ rb. rb) now clk (ring_new 4 :: int ring);
     assert (v = None)
   }"

definition record_each :: "u64 list \<Rightarrow> histogram \<Rightarrow> histogram option" where
  "record_each = each hist_record"

definition test_histogram_empty :: "unit option" where
  "test_histogram_empty = do {
     let h = histogram_new 20;
     assert (hist_total_count h = 0);
     assert (hist_mean_ns h = None);
     assert (hist_min h = None);
     assert (hist_max h = None);
     assert (hist_percentile True 0 h = None)
   }"

definition test_histogram_single_record :: "unit option" where
  "test_histogram_single_record = do {
     h \<leftarrow> hist_record 5000 (histogram_new 20);
     assert (hist_total_count h = 1);
     assert (hist_mean_ns h = Some 5000);
     assert (hist_min h = Some 5000);
     assert (hist_max h = Some 5000)
   }"

text \<open>The ranks of the percentages 50 and 99 among 100 samples are 50 and 99.\<close>

definition test_histogram_percentiles :: "unit option" where
  "test_histogram_percentiles = do {
     h \<leftarrow> record_each (replicate 10 1000 @ replicate 20 10000 @ replicate 30 100000 @ replicate 40 1000000)
            (histogram_new 20);
     assert (hist_total_count h = 100);
     p50 \<leftarrow> hist_percentile True 50 h;
     assert (p50 \<ge> 1000 \<and> p50 \<le> 1000000);
     p99 \<leftarrow> hist_percentile True 99 h;
     assert (p99 \<ge> 1000000)
   }"

definition test_histogram_reset :: "unit option" where
  "test_histogram_reset = do {
     h \<leftarrow> hist_record 42000 (histogram_new 20);
     assert (hist_total_count h = 1);
     let h = hist_reset h;
     assert (hist_total_count h = 0);
     assert (hist_mean_ns h = None)
   }"

text \<open>The sleep of 500 microseconds between the two instants takes at least that long.\<close>

definition test_latency_timer :: "timestamp \<Rightarrow> timestamp \<Rightarrow> unit option" where
  "test_latency_timer started stopped = do {
     let timer = timer_start started (histogram_new 20);
     (elapsed, h) \<leftarrow> timer_stop stopped timer;
     assert (elapsed \<ge> 400000);
     assert (hist_total_count h = 1);
     mean \<leftarrow> hist_mean_ns h;
     assert (mean \<ge> 400000)
   }"

definition test_histogram_negative_percentile_returns_none :: "usize \<Rightarrow> usize \<Rightarrow> unit option" where
  "test_histogram_negative_percentile_returns_none rank1 rank2 = do {
     h \<leftarrow> hist_record 1000 (histogram_new 20);
     assert (hist_percentile False rank1 h = None);
     assert (hist_percentile False rank2 h = None)
   }"

lemma ring_buffer_tests_pass:
  "passes test_ring_buffer_push_pop" "passes test_ring_buffer_full" "passes test_ring_buffer_wrap_around"
  "passes test_batch_consume" "passes test_dependency_graph"
  by code_simp+

lemmas histogram_defs = histogram_new_def hist_record_def hist_mean_ns_def hist_min_def hist_max_def
  hist_reset_def hist_percentile_def bucket_for_def bit_len.simps Let_def

lemma histogram_tests_pass:
  "passes test_histogram_empty" "passes test_histogram_single_record" "passes test_histogram_reset"
  "passes (test_histogram_negative_percentile_returns_none rank1 rank2)"
  by (simp_all add: test_histogram_empty_def test_histogram_single_record_def test_histogram_reset_def
      test_histogram_negative_percentile_returns_none_def histogram_defs test_simps)

text \<open>The histogram of a list of samples, bucket by bucket.\<close>

lemma each_hist_record: "each hist_record ns h = hist_records ns h"
proof (induction ns arbitrary: h)
  case (Cons n ns)
  have "each hist_record ns = hist_records ns" using Cons by (rule ext)
  then show ?case by simp
qed simp

lemma recorded_buckets:
  assumes "hist_holds xs h"
  shows "hist_buckets h =
    map (\<lambda>b. word_of_nat (length (filter (\<lambda>x. bucket_for x h = b) xs))) [0..<length (hist_buckets h)]"
  using assms by (auto simp: hist_holds_def intro!: nth_equalityI)

lemma percentiles_test_passes: "passes test_histogram_percentiles"
proof -
  let ?xs = "replicate 10 1000 @ replicate 20 10000 @ replicate 30 100000 @ replicate 40 1000000 :: u64 list"
  obtain h where r: "record_each ?xs (histogram_new 20) = Some h" and h: "hist_holds ?xs h"
      and len: "length (hist_buckets h) = 20"
    using hist_records_holds [OF histogram_new_holds [of 20], of ?xs]
    by (auto simp: record_each_def each_hist_record histogram_new_def)
  have n: "hist_num_buckets h = 20" "hist_total_count h = 100" using h len by (simp_all add: hist_holds_def)
  have "bucket_for 1000 h = 1" "bucket_for 10000 h = 4" "bucket_for 100000 h = 7" "bucket_for 1000000 h = 10"
    by (simp_all add: bucket_for_def n bit_len.simps)
  then have b: "hist_buckets h = map (\<lambda>b. if b = 1 then 10 else if b = 4 then 20 else if b = 7 then 30 else if b = 10 then 40 else 0) [0..<20]"
    by (intro trans [OF recorded_buckets [OF h]]) (auto simp: len intro!: map_cong)
  have twenty: "[0..<20] = [0, 1, 2, 3, 4, 5, 6, 7, 8, 9, 10, 11, 12, 13, 14, 15, 16, 17, 18, 19]" by code_simp
  have "percentile_loop 50 0 0 (hist_buckets h) = Some 128000" "percentile_loop 99 0 0 (hist_buckets h) = Some 1024000"
    unfolding b twenty by (simp_all add: bucket_top_def)
  then show ?thesis by (simp add: test_histogram_percentiles_def r n test_simps hist_percentile_def)
qed

lemma timer_test_passes:
  assumes "400000 \<le> stopped - started" and "stopped - started < 2 ^ 64"
  shows "passes (test_latency_timer started stopped)"
proof -
  define d where "d = (word_of_int (stopped - started) :: u64)"
  have d: "uint d = stopped - started" using assms unfolding d_def by (subst unsigned_of_int) (simp add: take_bit_int_eq_self)
  obtain h where h: "hist_record d (histogram_new 20) = Some h" "hist_holds [d] h"
    using hist_record_holds [OF histogram_new_holds [of 20], of d] by auto
  have "hist_total_count h = 1" "hist_total_ns h = d" using h(2) by (simp_all add: hist_holds_def samples_total_def)
  moreover have "400000 \<le> d" using d assms(1) by (simp add: word_le_def)
  ultimately show ?thesis
    using h(1) assms(1) by (simp add: test_latency_timer_def timer_start_def timer_stop_def test_simps hist_mean_ns_def d_def Let_def)
qed

lemma spin_test_passes:
  assumes "clk n > now + 100000000"
  shows "passes (test_wait_strategy_spin now clk)"
proof -
  have "\<exists>r'. pop_wait_loop Spin (\<lambda>_. False) (\<lambda>_ rb. rb) clk (now + 100000000) k (ring_new 4 :: int ring) = Some (None, r')"
    if "k \<le> n" for k
    using that
  proof (induction "n - k" arbitrary: k)
    case 0
    with assms show ?case by (subst pop_wait_loop.simps) (simp add: try_pop_def ring_new_def Let_def)
  next
    case (Suc m)
    then show ?case using Suc(1) [of "Suc k"]
      by (subst pop_wait_loop.simps) (simp add: try_pop_def ring_new_def Let_def wait_apply_def)
  qed
  from this [of 0] show ?thesis by (auto simp: test_wait_strategy_spin_def pop_wait_def test_simps Let_def)
qed

subsection \<open>The event log\<close>

definition test_wal_append_and_replay :: "wal_codec \<Rightarrow> uuid \<Rightarrow> uuid \<Rightarrow> uuid \<Rightarrow> (nat \<Rightarrow> timestamp) \<Rightarrow> unit option" where
  "test_wal_append_and_replay js i1 i2 aggregate clk = do {
     let wal = wal_create [];
     let event1 = event_new i1 (clk 0) ''FundsDeposited'' aggregate ''{\"amount_cents\": 1000}'' 1;
     let (_, wal) = wal_append js (clk 1) event1 wal;
     let event2 = event_new i2 (clk 2) ''FundsWithdrawn'' (ev_aggregate_id event1) ''{\"amount_cents\": 500}'' 2;
     let (_, wal) = wal_append js (clk 3) event2 wal;
     let result = wal_replay js (wal_lines wal);
     assert (length (replay_entries result) = 2);
     assert (wal_sequence (replay_entries result ! 0) = 1);
     assert (wal_sequence (replay_entries result ! 1) = 2);
     assert (replay_corrupted result = 0)
   }"

definition test_event_sourcing_replay ::
  "'j payload_json \<Rightarrow> uuid \<Rightarrow> uuid \<Rightarrow> uuid \<Rightarrow> uuid \<Rightarrow> uuid \<Rightarrow> (nat \<Rightarrow> timestamp) \<Rightarrow> unit option"
where
  "test_event_sourcing_replay js account i1 i2 c1 c2 clk = do {
     let e1 = event_new i1 (clk 0) ''FundsDeposited'' account ''{\"account_id\":\"...\",\"amount_cents\":10000}'' 1;
     let store = store_append e1 c1 store_new;
     let e2 = event_new i2 (clk 1) ''FundsWithdrawn'' account ''{\"account_id\":\"...\",\"amount_cents\":3000}'' 2;
     let store = store_append e2 c2 store;
     let events = events_for_aggregate account store;
     let _ = rebuild js events;
     assert (length events = 2)
   }"

definition test_idempotent_command :: "uuid \<Rightarrow> uuid \<Rightarrow> uuid \<Rightarrow> timestamp \<Rightarrow> unit option" where
  "test_idempotent_command cid aggregate i now = do {
     let cmd = \<lparr>cmd_id = cid, cmd_type = ''Deposit'', cmd_aggregate_id = aggregate,
                cmd_payload = ''{\"amount_cents\":1000}'', cmd_expected_version = None\<rparr>;
     let handler = (\<lambda>c. [event_new i now ''FundsDeposited'' (cmd_aggregate_id c) (cmd_payload c) 1]);
     let (events, store) = process_command_idempotent cmd handler store_new;
     assert (length events = 1);
     let (events2, store) = process_command_idempotent cmd handler store;
     assert (length events2 = 1);
     assert (length (stored_events store) = 1)
   }"

text \<open>\<open>entry sq\<close> is a log entry with the number \<open>sq\<close>; the tests build theirs with other checksums.\<close>

definition test_async_flush_buffer :: "(u64 \<Rightarrow> wal_entry) \<Rightarrow> unit option" where
  "test_async_flush_buffer entry = do {
     let (r, buf) = flush_add (entry 1) (flush_new 3);
     assert (r = None);
     let (r, buf) = flush_add (entry 2) buf;
     assert (r = None);
     let (r, buf) = flush_add (entry 3) buf;
     batch \<leftarrow> r;
     assert (length batch = 3)
   }"

definition test_snapshot_frequency :: "unit option" where
  "test_snapshot_frequency = do {
     let store = snapshots_new 5;
     assert (\<not> should_snapshot 1 store);
     assert (\<not> should_snapshot 4 store);
     assert (should_snapshot 5 store);
     assert (should_snapshot 10 store);
     assert (\<not> should_snapshot 11 store)
   }"

lemma event_log_tests_pass:
  "passes (test_event_sourcing_replay js account i1 i2 c1 c2 clk)"
  "passes (test_idempotent_command cid aggregate i now)"
  "passes (test_async_flush_buffer entry)"
  "passes test_snapshot_frequency"
  by (simp_all add: test_event_sourcing_replay_def test_idempotent_command_def test_async_flush_buffer_def
      test_snapshot_frequency_def test_simps event_new_def store_append_def store_new_def events_for_aggregate_def
      process_command_idempotent_def command_is_duplicate_def flush_add_def flush_new_def should_snapshot_def
      snapshots_new_def Let_def)

text \<open>As for \<open>wal_replay_recovers\<close>, the texts of entries have to be read back and not be blank.\<close>

lemma wal_test_passes:
  assumes "\<And>e. entry_from_json js (entry_to_json js e) = Some e" and "\<And>e. \<not> is_blank (entry_to_json js e)"
  shows "passes (test_wal_append_and_replay js i1 i2 aggregate clk)"
  using assms
  by (simp add: test_wal_append_and_replay_def test_simps wal_append_def wal_create_def wal_replay_def replay_line_def Let_def)


subsection \<open>The event bus\<close>

definition test_shard_router_consistency :: "u8 list \<Rightarrow> unit option" where
  "test_shard_router_consistency uid = do {
     a \<leftarrow> shard_for 16 uid;
     b \<leftarrow> shard_for 16 uid;
     assert (a = b)
   }"

definition test_partitioned_bus_produce_consume :: "timestamp \<Rightarrow> unit option" where
  "test_partitioned_bus_produce_consume now = do {
     let (offset, bus) = bus_produce now ''account:A'' ''{\"amount\":100}'' ''p1'' 1 (bus_new 4);
     assert (offset = 0);
     msgs \<leftarrow> bus_consume (unat offset mod 4) 0 bus;
     assert (length msgs = 1)
   }"

definition test_idempotent_producer_dedup :: "timestamp \<Rightarrow> timestamp \<Rightarrow> unit option" where
  "test_idempotent_producer_dedup now1 now2 = do {
     let (sq, producer) = ip_next_sequence (ip_new ''prod-1'');
     let (r1, producer, bus) = ip_produce now1 ''key1'' ''data'' sq (producer, bus_new 1);
     assert (r1 \<noteq> None);
     let (r2, _) = ip_produce now2 ''key1'' ''data'' sq (producer, bus);
     assert (r2 = None)
   }"

definition test_fencing_token_zombie_rejection :: "unit option" where
  "test_fencing_token_zombie_rejection = do {
     let (epoch1, f) = register_producer ''prod-A'' fencing_new;
     assert (fence_is_valid ''prod-A'' epoch1 f);
     let (epoch2, f) = register_producer ''prod-A'' f;
     assert (\<not> fence_is_valid ''prod-A'' epoch1 f);
     assert (fence_is_valid ''prod-A'' epoch2 f)
   }"

text \<open>\<open>num_seconds\<close> is the whole seconds of a duration: not negative when the clock did not go back.\<close>

definition test_consumer_group_rebalance :: "(int \<Rightarrow> int) \<Rightarrow> (nat \<Rightarrow> timestamp) \<Rightarrow> unit option" where
  "test_consumer_group_rebalance num_seconds clk = do {
     let g = register_consumer (clk 0) ''c1'' [0, 1] (group_new ''ledger-consumers'');
     let g = register_consumer (clk 1) ''c2'' [2, 3] g;
     let (dead, _) = rebalance num_seconds (clk 2) 0 g;
     assert (length dead = 2)
   }"

definition test_transactional_producer_commit :: "(nat \<Rightarrow> timestamp) \<Rightarrow> unit option" where
  "test_transactional_producer_commit clk = do {
     let p = tp_begin (tp_new ''tx-prod'');
     let p = tp_send ''account:A'' ''debit:100'' p;
     let p = tp_send ''account:B'' ''credit:100'' p;
     let (r, _) = tp_commit clk (p, bus_new 2);
     offsets \<leftarrow> unwrap r;
     assert (length offsets = 2)
   }"

lemmas bus_defs = bus_new_def bus_produce_def bus_consume_def partition_for_def key_bytes_def hash31_def
  ip_new_def ip_next_sequence_def ip_produce_def is_duplicate_def acknowledge_def
  fencing_new_def register_producer_def fence_is_valid_def fence_def
  tp_new_def tp_begin_def tp_send_def tp_commit_def tp_abort_def
  wired_new_def produce_idempotent_def begin_produce_def send_in_transaction_def commit_produce_def abort_produce_def

lemma event_bus_tests_pass:
  "passes (test_shard_router_consistency uid)"
  "passes (test_partitioned_bus_produce_consume now)"
  "passes (test_idempotent_producer_dedup now1 now2)"
  "passes test_fencing_token_zombie_rejection"
  "passes (test_transactional_producer_commit clk)"
  by (simp_all add: test_shard_router_consistency_def shard_for_def test_partitioned_bus_produce_consume_def
      test_idempotent_producer_dedup_def test_fencing_token_zombie_rejection_def test_transactional_producer_commit_def
      bus_defs test_simps Let_def)

lemma rebalance_test_passes:
  assumes "\<And>d. 0 \<le> d \<Longrightarrow> 0 \<le> num_seconds d" and "clk 0 \<le> clk 2" and "clk 1 \<le> clk 2"
  shows "passes (test_consumer_group_rebalance num_seconds clk)"
  using assms(1) [of "clk 2 - clk 0"] assms(1) [of "clk 2 - clk 1"] assms(2,3)
  by (simp add: test_consumer_group_rebalance_def register_consumer_def group_new_def rebalance_def test_simps Let_def)

subsection \<open>The wired bus\<close>

definition test_wired_bus_idempotent_produce :: "timestamp \<Rightarrow> unit option" where
  "test_wired_bus_idempotent_produce now = do {
     let (result, _) = produce_idempotent now ''account:alice'' ''{\"amount\":100}'' (wired_new ''test-producer'' 4);
     assert (is_ok result);
     (sq, epoch) \<leftarrow> unwrap result;
     assert (sq = 1);
     assert (epoch > 0)
   }"

definition test_wired_bus_transactional :: "(nat \<Rightarrow> timestamp) \<Rightarrow> unit option" where
  "test_wired_bus_transactional clk = do {
     let bus = begin_produce (wired_new ''tx-producer'' 4);
     let bus = send_in_transaction ''key1'' ''payload1'' bus;
     let bus = send_in_transaction ''key2'' ''payload2'' bus;
     (offsets, _) \<leftarrow> expect (commit_produce clk bus);
     assert (length offsets = 2)
   }"

definition test_wired_bus_fencing_prevents_duplicate :: "timestamp \<Rightarrow> unit option" where
  "test_wired_bus_fencing_prevents_duplicate now = do {
     let (r1, bus) = produce_idempotent now ''key'' ''first'' (wired_new ''fence-test'' 2);
     assert (is_ok r1);
     let (new_epoch, _) = fence ''default'' (wb_fencing bus);
     assert (new_epoch > 1)
   }"

definition test_wired_bus_abort_transaction :: "unit option" where
  "test_wired_bus_abort_transaction = do {
     let bus = begin_produce (wired_new ''abort-test'' 2);
     let bus = send_in_transaction ''key'' ''should-be-discarded'' bus;
     let bus = abort_produce bus;
     msgs \<leftarrow> bus_consume 0 0 (wb_bus bus);
     assert (msgs = [])
   }"

lemma wired_bus_tests_pass:
  "passes (test_wired_bus_idempotent_produce now)"
  "passes (test_wired_bus_transactional clk)"
  "passes (test_wired_bus_fencing_prevents_duplicate now)"
  "passes test_wired_bus_abort_transaction"
  by (simp_all add: test_wired_bus_idempotent_produce_def test_wired_bus_transactional_def
      test_wired_bus_fencing_prevents_duplicate_def test_wired_bus_abort_transaction_def bus_defs test_simps Let_def)


subsection \<open>Edge cases\<close>

definition test_async_flush_buffer_zero_capacity_immediate_flush :: "(u64 \<Rightarrow> wal_entry) \<Rightarrow> unit option" where
  "test_async_flush_buffer_zero_capacity_immediate_flush entry = do {
     let (result, _) = flush_add (entry 1) (flush_new 0);
     assert (result \<noteq> None)
   }"

definition test_async_flush_buffer_partial_fill_then_flush :: "(u64 \<Rightarrow> wal_entry) \<Rightarrow> unit option" where
  "test_async_flush_buffer_partial_fill_then_flush entry = do {
     buf \<leftarrow> each (\<lambda>i buf. do { let (r, buf) = flush_add (entry i) buf; assert (r = None); Some buf }) [1, 2, 3, 4] (flush_new 5);
     let (batch, _) = flush_add (entry 5) buf;
     b \<leftarrow> batch;
     assert (length b = 5)
   }"

definition test_async_flush_buffer_flush_remaining :: "(u64 \<Rightarrow> wal_entry) \<Rightarrow> unit option" where
  "test_async_flush_buffer_flush_remaining entry = do {
     let (_, buf) = flush_add (entry 1) (flush_new 4);
     let (_, buf) = flush_add (entry 2) buf;
     let (partial, buf) = flush_remaining buf;
     assert (length partial = 2);
     assert (fst (flush_remaining buf) = [])
   }"

definition produce_to :: "(nat \<Rightarrow> timestamp) \<Rightarrow> (string \<times> string \<times> u64) list \<Rightarrow> event_bus \<Rightarrow> event_bus" where
  "produce_to clk msgs bus =
     fold (\<lambda>(i, key, producer, sq) bus. snd (bus_produce (clk i) key ''data'' producer sq bus)) (enumerate 0 msgs) bus"

definition test_event_bus_consume_all_partitions :: "(nat \<Rightarrow> timestamp) \<Rightarrow> unit option" where
  "test_event_bus_consume_all_partitions clk = do {
     let bus = produce_to clk (map (\<lambda>i. (''k-'' @ show_nat i, ''prod'', word_of_nat i)) [0..<10]) (bus_new 4);
     total \<leftarrow> each (\<lambda>p t. do { msgs \<leftarrow> bus_consume p 0 bus; Some (t + length msgs) }) [0..<4] 0;
     assert (total = 10)
   }"

definition partition_messages :: "nat \<Rightarrow> (string \<times> string \<times> u64) list" where
  "partition_messages p = map (\<lambda>i. (''p'' @ show_nat p, ''prod-'' @ show_nat p, word_of_nat i)) [0..<25]"

definition test_event_bus_multi_partition_produce :: "(nat \<Rightarrow> timestamp) \<Rightarrow> unit option" where
  "test_event_bus_multi_partition_produce clk = do {
     let bus = produce_to clk (concat (map partition_messages [0..<4])) (bus_new 4);
     each (\<lambda>p _. do { result \<leftarrow> bus_consume p 0 bus; assert (result \<noteq> []) }) [0..<4] ()
   }"

definition test_fencing_epoch_increment :: "unit option" where
  "test_fencing_epoch_increment = do {
     let (epoch1, token) = register_producer ''test-producer'' fencing_new;
     assert (epoch1 > 0);
     assert (fence_is_valid ''test-producer'' epoch1 token);
     let (epoch2, token) = fence ''test-producer'' token;
     assert (epoch2 > epoch1);
     assert (\<not> fence_is_valid ''test-producer'' epoch1 token);
     assert (fence_is_valid ''test-producer'' epoch2 token)
   }"

definition test_fencing_different_producers_no_cross_validation :: "unit option" where
  "test_fencing_different_producers_no_cross_validation = do {
     let (e1, token) = register_producer ''producer-A'' fencing_new;
     let (e2, token) = register_producer ''producer-B'' token;
     let (_, token) = fence ''producer-A'' token;
     assert (\<not> fence_is_valid ''producer-A'' e1 token);
     assert (fence_is_valid ''producer-B'' e2 token)
   }"

definition test_idempotency_dedup :: "string \<Rightarrow> (nat \<Rightarrow> timestamp) \<Rightarrow> unit option" where
  "test_idempotency_dedup tx_id clk = do {
     let (r, service) = check_and_mark (clk 0) tx_id idem_new;
     assert (\<not> r);
     let (r, service) = check_and_mark (clk 1) tx_id service;
     assert r
   }"

definition test_idempotency_different_transactions :: "(nat \<Rightarrow> timestamp) \<Rightarrow> unit option" where
  "test_idempotency_different_transactions clk = do {
     let (r, service) = check_and_mark (clk 0) ''tx-alpha'' idem_new;
     assert (\<not> r);
     let (r, service) = check_and_mark (clk 1) ''tx-beta'' service;
     assert (\<not> r);
     let (r, service) = check_and_mark (clk 2) ''tx-gamma'' service;
     assert (\<not> r);
     let (r, service) = check_and_mark (clk 3) ''tx-alpha'' service;
     assert r
   }"

definition test_wired_bus_basic_produce :: "timestamp \<Rightarrow> unit option" where
  "test_wired_bus_basic_produce now = do {
     let (result, _) = produce_idempotent now ''key-1'' ''payload-1'' (wired_new ''test-wired'' 4);
     assert (is_ok result);
     (sq, epoch) \<leftarrow> unwrap result;
     assert (sq > 0);
     assert (epoch > 0)
   }"

definition test_wired_bus_transaction_commit_and_abort :: "(nat \<Rightarrow> timestamp) \<Rightarrow> unit option" where
  "test_wired_bus_transaction_commit_and_abort clk = do {
     let bus = begin_produce (wired_new ''tx-bus'' 4);
     let bus = send_in_transaction ''t1'' ''v1'' bus;
     let bus = send_in_transaction ''t2'' ''v2'' bus;
     (offsets, bus) \<leftarrow> expect (commit_produce clk bus);
     assert (length offsets = 2);
     let bus = begin_produce bus;
     let bus = send_in_transaction ''a1'' ''should-discard'' bus;
     let _ = abort_produce bus;
     Some ()
   }"

text \<open>\<open>calls\<close> are the calls of all threads, in the order in which they happen.\<close>

definition test_concurrent_multi_producer :: "(timestamp \<times> string \<times> string) list \<Rightarrow> unit option" where
  "test_concurrent_multi_producer calls = do {
     _ \<leftarrow> each (\<lambda>(now, key, payload) bus. do {
            let (result, bus) = produce_idempotent now key payload bus;
            assert (case result of Ok (sq, _) \<Rightarrow> sq > 0 | Err _ \<Rightarrow> True);
            Some bus
          }) calls (wired_new ''multi'' 8);
     Some ()
   }"

lemma edge_tests_pass:
  "passes (test_async_flush_buffer_zero_capacity_immediate_flush entry)"
  "passes (test_async_flush_buffer_partial_fill_then_flush entry)"
  "passes (test_async_flush_buffer_flush_remaining entry)"
  "passes test_fencing_epoch_increment"
  "passes test_fencing_different_producers_no_cross_validation"
  "passes (test_idempotency_dedup tx_id clk)"
  "passes (test_idempotency_different_transactions clk)"
  "passes (test_wired_bus_basic_produce now)"
  "passes (test_wired_bus_transaction_commit_and_abort clk)"
  by (simp_all add: test_async_flush_buffer_zero_capacity_immediate_flush_def
      test_async_flush_buffer_partial_fill_then_flush_def test_async_flush_buffer_flush_remaining_def
      flush_add_def flush_new_def flush_remaining_def test_fencing_epoch_increment_def
      test_fencing_different_producers_no_cross_validation_def test_idempotency_dedup_def
      test_idempotency_different_transactions_def check_and_mark_def idem_new_def test_wired_bus_basic_produce_def
      test_wired_bus_transaction_commit_and_abort_def bus_defs test_simps Let_def)

text \<open>The number handed out by the wired bus is positive as long as the counter has not wrapped.\<close>

lemma produce_idempotent_counts:
  "\<exists>epoch bus'. produce_idempotent now key payload bus = (Ok (ip_last_seq (wb_idempotent bus) + 1, epoch), bus') \<and>
     ip_last_seq (wb_idempotent bus') = ip_last_seq (wb_idempotent bus) + 1"
  by (simp add: produce_idempotent_def register_producer_def fence_is_valid_def ip_next_sequence_def
      acknowledge_def Let_def case_prod_unfold)

lemma multi_producer_test_passes:
  assumes "length calls < 2 ^ 64"
  shows "passes (test_concurrent_multi_producer calls)"
proof -
  let ?call = "\<lambda>(now, key, payload) bus. do {
            let (result, bus) = produce_idempotent now key payload bus;
            assert (case result of Ok (sq, _) \<Rightarrow> sq > 0 | Err _ \<Rightarrow> True);
            Some bus
          }"
  have "\<exists>bus'. each ?call cs bus = Some bus'"
    if "unat (ip_last_seq (wb_idempotent bus)) + length cs < 2 ^ 64" for cs bus
    using that
  proof (induction cs arbitrary: bus)
    case (Cons c cs)
    obtain now key payload where c: "c = (now, key, payload)" by (cases c)
    obtain epoch bus1 where p: "produce_idempotent now key payload bus = (Ok (ip_last_seq (wb_idempotent bus) + 1, epoch), bus1)"
      and n: "ip_last_seq (wb_idempotent bus1) = ip_last_seq (wb_idempotent bus) + 1"
      using produce_idempotent_counts by blast
    have u: "unat (ip_last_seq (wb_idempotent bus) + 1) = unat (ip_last_seq (wb_idempotent bus)) + 1"
      using Cons.prems by (intro unat_succ_u64) simp
    then have "ip_last_seq (wb_idempotent bus) + 1 > 0" by (metis add_is_0 one_neq_zero unat_0 word_gt_0)
    then have "?call c bus = Some bus1" by (simp add: c p assert_def)
    with Cons.IH [of bus1] Cons.prems n u show ?case by simp
  qed simp
  from this [of "wired_new ''multi'' 8" calls] assms show ?thesis
    by (auto simp: test_concurrent_multi_producer_def passes_def wired_new_def ip_new_def)
qed

text \<open>Every message is appended to the partition of its key, and the partitions are all that is kept.\<close>

lemma bus_produce_partitions:
  assumes "partitions bus \<noteq> []" and "bus_produce now key payload producer sq bus = (off, bus')"
  shows "length (partitions bus') = length (partitions bus)"
    and "sum_list (map length (partitions bus')) = Suc (sum_list (map length (partitions bus)))"
    and "p < length (partitions bus) \<Longrightarrow>
      partitions bus' ! p \<noteq> [] \<longleftrightarrow> partitions bus ! p \<noteq> [] \<or> p = unat (hash31 (key_bytes key)) mod length (partitions bus)"
proof -
  have p: "partition_for key bus < length (partitions bus)" using assms(1) by (simp add: partition_for_def)
  obtain msg where b: "partitions bus' = (partitions bus)[partition_for key bus := partitions bus ! partition_for key bus @ [msg]]"
    using assms(2) by (auto simp: bus_produce_def Let_def)
  then show "length (partitions bus') = length (partitions bus)" by simp
  show "sum_list (map length (partitions bus')) = Suc (sum_list (map length (partitions bus)))"
    using sum_list_nat_update [OF p, of length "partitions bus ! partition_for key bus @ [msg]"] by (simp add: b)
  show "partitions bus' ! p \<noteq> [] \<longleftrightarrow> partitions bus ! p \<noteq> [] \<or> p = unat (hash31 (key_bytes key)) mod length (partitions bus)"
    if "p < length (partitions bus)"
    unfolding partition_for_def [symmetric] using that p by (cases "p = partition_for key bus") (simp_all add: b)
qed

lemma produce_to_partitions:
  assumes "partitions bus \<noteq> []" and bus': "bus' = produce_to clk msgs bus"
  shows "length (partitions bus') = length (partitions bus) \<and>
    sum_list (map length (partitions bus')) = sum_list (map length (partitions bus)) + length msgs \<and>
    (\<forall>p < length (partitions bus). (\<exists>m \<in> set msgs. p = unat (hash31 (key_bytes (fst m))) mod length (partitions bus)) \<longrightarrow>
       partitions bus' ! p \<noteq> [])"
proof -
  let ?f = "\<lambda>(i, key, producer, sq) bus. snd (bus_produce (clk i) key ''data'' producer sq bus)"
  have "length (partitions (fold ?f es bus)) = length (partitions bus) \<and>
    sum_list (map length (partitions (fold ?f es bus))) = sum_list (map length (partitions bus)) + length es \<and>
    (\<forall>p < length (partitions bus). partitions bus ! p \<noteq> [] \<or>
        (\<exists>m \<in> set es. p = unat (hash31 (key_bytes (fst (snd m)))) mod length (partitions bus)) \<longrightarrow>
       partitions (fold ?f es bus) ! p \<noteq> [])" if "partitions bus \<noteq> []" for es bus
    using that
  proof (induction es arbitrary: bus)
    case (Cons e es)
    obtain i key producer sq where e: "e = (i, key, producer, sq)" by (cases e)
    obtain off bus1 where b: "bus_produce (clk i) key ''data'' producer sq bus = (off, bus1)" by fastforce
    note step = bus_produce_partitions [OF Cons.prems b]
    have "partitions bus1 \<noteq> []" using step(1) Cons.prems by auto
    from Cons.IH [OF this] step show ?case by (simp add: e b)
  qed simp
  note all = this [OF assms(1), of "enumerate 0 msgs", folded produce_to_def bus']
  have "set msgs = snd ` set (enumerate 0 msgs)" by (metis list.set_map map_snd_enumerate)
  then show ?thesis using all by (simp add: produce_to_def [symmetric] bus' [symmetric])
qed

lemma bus_consume_from_start: "p < length (partitions bus) \<Longrightarrow> bus_consume p 0 bus = Some (partitions bus ! p)"
  by (simp add: bus_consume_def)

lemma four: "[0..<4] = [0, 1, 2, 3 :: nat]"
  by code_simp

lemma consume_all_test_passes: "passes (test_event_bus_consume_all_partitions clk)"
proof -
  let ?msgs = "map (\<lambda>i. (''k-'' @ show_nat i, ''prod'', word_of_nat i)) [0..<10]"
  let ?bus = "produce_to clk ?msgs (bus_new 4)"
  have "length (partitions ?bus) = 4" "sum_list (map length (partitions ?bus)) = 10"
    using produce_to_partitions [of "bus_new 4" ?bus clk ?msgs] by (simp_all add: bus_new_def)
  then obtain a b c d where "partitions ?bus = [a, b, c, d]" "length a + length b + length c + length d = 10"
    by (auto simp: length_Suc_conv numeral_eq_Suc)
  then show ?thesis
    by (simp add: test_event_bus_consume_all_partitions_def bus_consume_from_start four test_simps numeral_eq_Suc)
qed

lemma in_concat_map: "x \<in> set (f p) \<Longrightarrow> p \<in> set ps \<Longrightarrow> x \<in> set (concat (map f ps))"
  by auto

lemma multi_partition_test_passes: "passes (test_event_bus_multi_partition_produce clk)"
proof -
  define msgs where "msgs = concat (map partition_messages [0..<4])"
  define bus where "bus = produce_to clk msgs (bus_new 4)"
  have new: "partitions (bus_new 4) \<noteq> []" "length (partitions (bus_new 4)) = 4" by (simp_all add: bus_new_def)
  note all = produce_to_partitions [OF new(1) bus_def, unfolded new(2)]
  have hash: "unat (hash31 (key_bytes (''p'' @ show_nat p))) mod 4 = p" if "p \<in> {0, 1, 2, 3}" for p
  proof -
    have "show_nat 0 = ''0''" "show_nat 1 = ''1''" "show_nat 2 = ''2''" "show_nat 3 = ''3''" by code_simp+
    then have "unat (hash31 (key_bytes (''p'' @ show_nat 0))) mod 4 = 0" "unat (hash31 (key_bytes (''p'' @ show_nat 1))) mod 4 = 1"
      "unat (hash31 (key_bytes (''p'' @ show_nat 2))) mod 4 = 2" "unat (hash31 (key_bytes (''p'' @ show_nat 3))) mod 4 = 3"
      by (simp_all add: hash31_def key_bytes_def)
    with that show ?thesis by blast
  qed
  have "partitions bus ! p \<noteq> []" if p: "p \<in> {0, 1, 2, 3}" for p
  proof -
    have "(''p'' @ show_nat p, ''prod-'' @ show_nat p, 0) \<in> set (partition_messages p)"
      unfolding partition_messages_def set_map by (intro image_eqI [of _ _ 0]) simp_all
    then have "(''p'' @ show_nat p, ''prod-'' @ show_nat p, 0) \<in> set msgs"
      unfolding msgs_def by (rule in_concat_map) (use p in auto)
    then have "\<exists>m \<in> set msgs. p = unat (hash31 (key_bytes (fst m))) mod 4"
      by (rule bexI [rotated]) (simp only: fst_conv hash [OF p])
    moreover have "p < 4" using p by auto
    ultimately show ?thesis using all by blast
  qed
  then have ok: "bus_consume p 0 bus \<bind> (\<lambda>result. assert (result \<noteq> [])) = Some ()" if "p \<in> {0, 1, 2, 3}" for p
    using that all by (auto simp: bus_consume_from_start assert_def)
  have "each (\<lambda>p _. bus_consume p 0 bus \<bind> (\<lambda>result. assert (result \<noteq> []))) [0..<4] () = Some ()"
    unfolding four by (simp only: each.simps ok insert_iff refl simp_thms Option.bind.simps)
  then show ?thesis
    unfolding test_event_bus_multi_partition_produce_def msgs_def [symmetric] bus_def [symmetric] Let_def passes_def .
qed

end
