(* ===== verification/Service_Tests.thy ===== *)
theory Service_Tests
  imports Unit_Testing Saga Rbac Api_Views "HOL-Library.Sublist"
begin

section \<open>The unit tests of the services\<close>

text \<open>
  The tests of \<open>src/service/saga.rs\<close> and \<open>src/rbac.rs\<close>, assertion by assertion, on the
  definitions of the model. The identifiers that a test draws are its arguments, and where the test
  relies on their being different, that is a hypothesis of the lemma that it passes.
\<close>

subsection \<open>Sagas\<close>

definition make_transfer_saga :: "uuid \<Rightarrow> uuid \<Rightarrow> uuid \<Rightarrow> uuid \<Rightarrow> saga_definition" where
  "make_transfer_saga u1 u2 u3 u4 =
     \<lparr>def_name = ''BankTransfer'',
      def_steps =
        [\<lparr>step_name = ''DebitSource'', step_action = ActDebit u1 1000,
          step_compensation = ActCredit u2 1000, step_max_retries = 3, step_timeout_seconds = 30\<rparr>,
         \<lparr>step_name = ''CreditDestination'', step_action = ActCredit u3 1000,
          step_compensation = ActDebit u4 1000, step_max_retries = 3, step_timeout_seconds = 30\<rparr>]\<rparr>"

definition make_three_step_saga ::
  "uuid \<Rightarrow> uuid \<Rightarrow> uuid \<Rightarrow> uuid \<Rightarrow> uuid \<Rightarrow> uuid \<Rightarrow> saga_definition"
where
  "make_three_step_saga u1 u2 u3 u4 u5 u6 =
     \<lparr>def_name = ''ThreeStep'',
      def_steps =
        [\<lparr>step_name = ''Step1'', step_action = ActDebit u1 100, step_compensation = ActCredit u2 100,
          step_max_retries = 2, step_timeout_seconds = 30\<rparr>,
         \<lparr>step_name = ''Step2'', step_action = ActCredit u3 50, step_compensation = ActDebit u4 50,
          step_max_retries = 2, step_timeout_seconds = 30\<rparr>,
         \<lparr>step_name = ''Step3'', step_action = ActCredit u5 25, step_compensation = ActDebit u6 25,
          step_max_retries = 2, step_timeout_seconds = 30\<rparr>]\<rparr>"

text \<open>An operation of the orchestrator whose \<open>Ok\<close> value the test unwraps.\<close>

definition get_action :: "uuid \<Rightarrow> orchestrator \<Rightarrow> (nat \<times> saga_action) option" where
  "get_action i orch = Option.bind (next_action i orch) unwrap"

definition succeed :: "timestamp \<Rightarrow> uuid \<Rightarrow> orchestrator \<Rightarrow> (bool \<times> orchestrator) option" where
  "succeed now i orch = Option.bind (step_succeeded now i orch) expect"

definition fail_step ::
  "uuid \<Rightarrow> string \<Rightarrow> orchestrator \<Rightarrow> (saga_action list \<times> orchestrator) option"
where
  "fail_step i reason orch = Option.bind (step_failed i reason orch) expect"

definition is_debit :: "saga_action \<Rightarrow> bool" where
  "is_debit a = (case a of ActDebit _ _ \<Rightarrow> True | _ \<Rightarrow> False)"

definition is_credit :: "saga_action \<Rightarrow> bool" where
  "is_credit a = (case a of ActCredit _ _ \<Rightarrow> True | _ \<Rightarrow> False)"

definition test_saga_happy_path :: "saga_definition \<Rightarrow> uuid \<Rightarrow> timestamp \<Rightarrow> unit option" where
  "test_saga_happy_path d new_id now = do {
     let orch = saga_register d orchestrator_new;
     (i, orch) \<leftarrow> expect (saga_start new_id now ''BankTransfer'' orch);
     (idx, action) \<leftarrow> get_action i orch;
     assert (idx = 0);
     assert (is_debit action);
     (finished, orch) \<leftarrow> succeed now i orch;
     assert (\<not> finished);
     (idx, _) \<leftarrow> get_action i orch;
     assert (idx = 1);
     (finished, orch) \<leftarrow> succeed now i orch;
     assert finished;
     assert (get_status i orch = None)
   }"

definition test_saga_compensation :: "saga_definition \<Rightarrow> uuid \<Rightarrow> timestamp \<Rightarrow> unit option" where
  "test_saga_compensation d new_id now = do {
     let orch = saga_register d orchestrator_new;
     (i, orch) \<leftarrow> expect (saga_start new_id now ''BankTransfer'' orch);
     _ \<leftarrow> get_action i orch;
     (_, orch) \<leftarrow> succeed now i orch;
     (compensations, orch) \<leftarrow> fail_step i ''Destination account frozen'' orch;
     assert (length compensations = 1);
     assert (is_credit (compensations ! 0))
   }"

definition test_outbox_enqueue_and_publish :: "uuid \<Rightarrow> uuid \<Rightarrow> timestamp \<Rightarrow> string \<Rightarrow> unit option" where
  "test_outbox_enqueue_and_publish agg_id new_id now payload = do {
     let outbox = outbox_enqueue new_id now agg_id ''FundsTransferred'' payload [];
     let pending = pending_messages outbox;
     assert (length pending = 1);
     let outbox = mark_published (msg_id (pending ! 0)) outbox;
     assert (length (pending_messages outbox) = 0)
   }"

definition test_timeout_handler ::
  "(timestamp \<Rightarrow> int \<Rightarrow> timestamp option) \<Rightarrow> timestamp \<Rightarrow> timestamp \<Rightarrow> timestamp \<Rightarrow> uuid \<Rightarrow> unit option"
where
  "test_timeout_handler add_seconds t0 t1 t2 i = do {
     handler \<leftarrow> timeout_register add_seconds t0 i 0 TimeoutCompensate [];
     let expired = check_expired t1 handler;
     assert (length expired = 1);
     assert (fst (expired ! 0) = i);
     let handler = timeout_clear i handler;
     assert (check_expired t2 handler = [])
   }"

definition test_saga_not_found :: "uuid \<Rightarrow> unit option" where
  "test_saga_not_found i = do {
     r \<leftarrow> next_action i orchestrator_new;
     assert (\<not> is_ok r)
   }"

definition test_start_unknown_definition :: "uuid \<Rightarrow> timestamp \<Rightarrow> unit option" where
  "test_start_unknown_definition new_id now =
     assert (\<not> is_ok (fst (saga_start new_id now ''NonExistentSaga'' orchestrator_new)))"

definition test_multiple_saga_instances_independent ::
  "saga_definition \<Rightarrow> uuid \<Rightarrow> uuid \<Rightarrow> timestamp \<Rightarrow> unit option"
where
  "test_multiple_saga_instances_independent d new_id1 new_id2 now = do {
     let orch = saga_register d orchestrator_new;
     (id1, orch) \<leftarrow> expect (saga_start new_id1 now ''BankTransfer'' orch);
     (id2, orch) \<leftarrow> expect (saga_start new_id2 now ''BankTransfer'' orch);
     assert (id1 \<noteq> id2)
   }"

definition test_compensation_on_first_step_failure ::
  "saga_definition \<Rightarrow> uuid \<Rightarrow> timestamp \<Rightarrow> unit option"
where
  "test_compensation_on_first_step_failure d new_id now = do {
     let orch = saga_register d orchestrator_new;
     (i, orch) \<leftarrow> expect (saga_start new_id now ''BankTransfer'' orch);
     (compensations, orch) \<leftarrow> fail_step i ''Immediate failure'' orch;
     assert (compensations = [])
   }"

definition test_three_step_compensation_lifo ::
  "saga_definition \<Rightarrow> uuid \<Rightarrow> timestamp \<Rightarrow> unit option"
where
  "test_three_step_compensation_lifo d new_id now = do {
     let orch = saga_register d orchestrator_new;
     (i, orch) \<leftarrow> expect (saga_start new_id now ''ThreeStep'' orch);
     (idx, _) \<leftarrow> get_action i orch;
     assert (idx = 0);
     (_, orch) \<leftarrow> succeed now i orch;
     (idx, _) \<leftarrow> get_action i orch;
     assert (idx = 1);
     (_, orch) \<leftarrow> succeed now i orch;
     (compensations, orch) \<leftarrow> fail_step i ''Step 3 failed'' orch;
     assert (length compensations = 2);
     assert (is_debit (compensations ! 0))
   }"

definition test_saga_timeout_via_step_failure ::
  "saga_definition \<Rightarrow> uuid \<Rightarrow> timestamp \<Rightarrow> unit option"
where
  "test_saga_timeout_via_step_failure d new_id now = do {
     let orch = saga_register d orchestrator_new;
     (i, orch) \<leftarrow> expect (saga_start new_id now ''BankTransfer'' orch);
     _ \<leftarrow> get_action i orch;
     (compensations, orch) \<leftarrow> fail_step i ''Timeout expired'' orch;
     assert (length compensations = 0)
   }"

definition test_outbox_ordering_fifo ::
  "uuid \<Rightarrow> uuid \<Rightarrow> uuid \<Rightarrow> uuid \<Rightarrow> timestamp \<Rightarrow> unit option"
where
  "test_outbox_ordering_fifo agg_id m1 m2 m3 now = do {
     let outbox = outbox_enqueue m1 now agg_id ''First'' ''{}'' [];
     let outbox = outbox_enqueue m2 now agg_id ''Second'' ''{}'' outbox;
     let outbox = outbox_enqueue m3 now agg_id ''Third'' ''{}'' outbox;
     let pending = pending_messages outbox;
     assert (length pending = 3);
     assert (msg_event_type (pending ! 0) = ''First'');
     assert (msg_event_type (pending ! 1) = ''Second'');
     assert (msg_event_type (pending ! 2) = ''Third'')
   }"

definition test_outbox_partial_publish ::
  "uuid \<Rightarrow> uuid \<Rightarrow> uuid \<Rightarrow> uuid \<Rightarrow> timestamp \<Rightarrow> unit option"
where
  "test_outbox_partial_publish agg_id m1 m2 m3 now = do {
     let outbox = outbox_enqueue m1 now agg_id ''A'' ''{}'' [];
     let outbox = outbox_enqueue m2 now agg_id ''B'' ''{}'' outbox;
     let outbox = outbox_enqueue m3 now agg_id ''C'' ''{}'' outbox;
     let ids = map msg_id (pending_messages outbox);
     let outbox = mark_published (ids ! 0) outbox;
     let outbox = mark_published (ids ! 1) outbox;
     let remaining = pending_messages outbox;
     assert (length remaining = 1);
     assert (msg_event_type (remaining ! 0) = ''C'')
   }"

definition test_timeout_multiple_sagas ::
  "(timestamp \<Rightarrow> int \<Rightarrow> timestamp option) \<Rightarrow> timestamp \<Rightarrow> timestamp \<Rightarrow> timestamp \<Rightarrow> timestamp \<Rightarrow>
   uuid \<Rightarrow> uuid \<Rightarrow> uuid \<Rightarrow> unit option"
where
  "test_timeout_multiple_sagas add_seconds t1 t2 t3 t4 s1 s2 s3 = do {
     handler \<leftarrow> timeout_register add_seconds t1 s1 0 TimeoutCompensate [];
     handler \<leftarrow> timeout_register add_seconds t2 s2 3600 TimeoutRetry handler;
     handler \<leftarrow> timeout_register add_seconds t3 s3 0 TimeoutAlert handler;
     let expired = check_expired t4 handler;
     assert (length expired = 2)
   }"

lemmas saga_test_simps =
  test_simps Let_def get_action_def succeed_def fail_step_def is_debit_def is_credit_def
  make_transfer_saga_def make_three_step_saga_def saga_register_def orchestrator_new_def
  saga_start_def instance_new_def next_action_def step_succeeded_def step_completed_def
  saga_complete_def step_failed_def start_compensating_def get_status_def

lemmas outbox_test_simps = test_simps Let_def outbox_enqueue_def pending_messages_def mark_published_def

lemma saga_tests_pass:
  "passes (test_saga_happy_path (make_transfer_saga u1 u2 u3 u4) new_id now)"
  "passes (test_saga_compensation (make_transfer_saga u1 u2 u3 u4) new_id now)"
  "passes (test_saga_not_found i)"
  "passes (test_start_unknown_definition new_id now)"
  "new_id \<noteq> new_id2 \<Longrightarrow>
   passes (test_multiple_saga_instances_independent (make_transfer_saga u1 u2 u3 u4) new_id new_id2 now)"
  "passes (test_compensation_on_first_step_failure (make_transfer_saga u1 u2 u3 u4) new_id now)"
  "passes (test_three_step_compensation_lifo (make_three_step_saga u1 u2 u3 u4 u5 u6) new_id now)"
  "passes (test_saga_timeout_via_step_failure (make_transfer_saga u1 u2 u3 u4) new_id now)"
  by (simp_all add: test_saga_happy_path_def test_saga_compensation_def test_saga_not_found_def
      test_start_unknown_definition_def test_multiple_saga_instances_independent_def
      test_compensation_on_first_step_failure_def test_three_step_compensation_lifo_def
      test_saga_timeout_via_step_failure_def saga_test_simps)

text \<open>Messages of one outbox have different identifiers: the test publishes two of three.\<close>

lemma outbox_tests_pass:
  "passes (test_outbox_enqueue_and_publish agg_id new_id now payload)"
  "passes (test_outbox_ordering_fifo agg_id m1 m2 m3 now)"
  "distinct [m1, m2, m3] \<Longrightarrow> passes (test_outbox_partial_publish agg_id m1 m2 m3 now)"
  by (auto simp: test_outbox_enqueue_and_publish_def test_outbox_ordering_fifo_def
      test_outbox_partial_publish_def outbox_test_simps)

text \<open>
  The addition of seconds to an instant is that of \<open>chrono\<close>, with 1000 units in a second here; a
  test that runs within an hour by a clock that does not go back passes.
\<close>

lemma timeout_tests_pass:
  "t0 \<le> t1 \<Longrightarrow> passes (test_timeout_handler (\<lambda>t s. Some (t + 1000 * s)) t0 t1 t2 i)"
  "t1 \<le> t4 \<Longrightarrow> t3 \<le> t4 \<Longrightarrow> t4 < t2 + 3600000 \<Longrightarrow>
   passes (test_timeout_multiple_sagas (\<lambda>t s. Some (t + 1000 * s)) t1 t2 t3 t4 s1 s2 s3)"
  by (simp_all add: test_timeout_handler_def test_timeout_multiple_sagas_def timeout_register_def
      check_expired_def timeout_clear_def i64_max_def test_simps Let_def)


subsection \<open>Roles and permissions\<close>

definition test_engine :: "uuid \<Rightarrow> uuid \<Rightarrow> uuid \<Rightarrow> uuid \<Rightarrow> rbac_engine" where
  "test_engine admin auditor teller customer =
     rbac_bind customer Customer (rbac_bind teller Teller
       (rbac_bind auditor Auditor (rbac_bind admin Admin rbac_new)))"

text \<open>
  The first subject with a role, \<open>subjects_with_role(r)[0]\<close>: \<open>listed\<close> lists a set of identifiers in the
  order in which the hash map has them, and an empty list panics.
\<close>

definition first_with_role :: "(uuid set \<Rightarrow> uuid list) \<Rightarrow> role \<Rightarrow> rbac_engine \<Rightarrow> uuid option" where
  "first_with_role listed r e = (case listed (subjects_with_role r e) of [] \<Rightarrow> None | s # _ \<Rightarrow> Some s)"

definition test_admin_can_everything ::
  "(uuid set \<Rightarrow> uuid list) \<Rightarrow> uuid \<Rightarrow> uuid \<Rightarrow> uuid \<Rightarrow> uuid \<Rightarrow> unit option"
where
  "test_admin_can_everything listed a b c d = do {
     let e = test_engine a b c d;
     s \<leftarrow> first_with_role listed Admin e;
     assert (can s RedactPii e);
     assert (can s ManageUsers e);
     assert (can s InitiateTransfer e)
   }"

definition test_auditor_read_only ::
  "(uuid set \<Rightarrow> uuid list) \<Rightarrow> uuid \<Rightarrow> uuid \<Rightarrow> uuid \<Rightarrow> uuid \<Rightarrow> unit option"
where
  "test_auditor_read_only listed a b c d = do {
     let e = test_engine a b c d;
     s \<leftarrow> first_with_role listed Auditor e;
     assert (can s ViewAuditLog e);
     assert (can s VerifyChainIntegrity e);
     assert (\<not> can s InitiateTransfer e);
     assert (\<not> can s CreateAccount e)
   }"

definition test_customer_self_service_only ::
  "(uuid set \<Rightarrow> uuid list) \<Rightarrow> uuid \<Rightarrow> uuid \<Rightarrow> uuid \<Rightarrow> uuid \<Rightarrow> unit option"
where
  "test_customer_self_service_only listed a b c d = do {
     let e = test_engine a b c d;
     s \<leftarrow> first_with_role listed Customer e;
     assert (can s ReadOwnAccount e);
     assert (can s InitiateOwnTransfer e);
     assert (\<not> can s ReadAnyAccount e);
     assert (\<not> can s ViewAuditLog e)
   }"

definition test_segregation_of_duties ::
  "(uuid set \<Rightarrow> uuid list) \<Rightarrow> uuid \<Rightarrow> uuid \<Rightarrow> uuid \<Rightarrow> uuid \<Rightarrow> uuid \<Rightarrow> unit option"
where
  "test_segregation_of_duties listed a b c d other_teller = do {
     let e = test_engine a b c d;
     teller \<leftarrow> first_with_role listed Teller e;
     assert (\<not> is_ok (check_sod teller teller));
     assert (is_ok (check_sod teller other_teller))
   }"

definition test_can_all_and_any ::
  "(uuid set \<Rightarrow> uuid list) \<Rightarrow> uuid \<Rightarrow> uuid \<Rightarrow> uuid \<Rightarrow> uuid \<Rightarrow> unit option"
where
  "test_can_all_and_any listed a b c d = do {
     let e = test_engine a b c d;
     admin \<leftarrow> first_with_role listed Admin e;
     let audit_perms = [ViewAuditLog, VerifyChainIntegrity, ExportAuditReport];
     assert (can_all admin audit_perms e);
     let customer_perms = [ReadOwnAccount, InitiateOwnTransfer];
     assert (\<not> can_all admin customer_perms e);
     let admin_perms = [ReadAnyAccount, InitiateTransfer];
     assert (can_all admin admin_perms e)
   }"

text \<open>The headers of a request hold texts here; printing and parsing identifiers is of \<open>uuid\<close>.\<close>

definition test_subject_extraction ::
  "(uuid \<Rightarrow> string) \<Rightarrow> (string \<Rightarrow> uuid option) \<Rightarrow> uuid \<Rightarrow> unit option"
where
  "test_subject_extraction show_id parse_id i = do {
     let headers = Map.empty(''x-subject-id'' \<mapsto> show_id i);
     assert (extract_subject Some parse_id headers = Some i)
   }"

definition test_permission_matrix :: "unit option" where
  "test_permission_matrix = do {
     let matrix = permission_matrix rbac_new;
     assert (sublist ''Admin'' matrix);
     assert (sublist ''Customer'' matrix);
     assert (sublist (utf8 [226, 156, 147]) matrix)
   }"

definition test_teller_operational_access ::
  "(uuid set \<Rightarrow> uuid list) \<Rightarrow> uuid \<Rightarrow> uuid \<Rightarrow> uuid \<Rightarrow> uuid \<Rightarrow> unit option"
where
  "test_teller_operational_access listed a b c d = do {
     let e = test_engine a b c d;
     teller \<leftarrow> first_with_role listed Teller e;
     assert (can teller ReadAnyAccount e);
     assert (can teller CreateAccount e);
     assert (can teller InitiateTransfer e);
     assert (can teller ViewAnyTransaction e);
     assert (can teller ViewAuditLog e);
     assert (can teller VerifyChainIntegrity e);
     assert (can teller ViewTrialBalance e);
     assert (\<not> can teller ManageUsers e);
     assert (\<not> can teller ManageRoles e);
     assert (\<not> can teller RedactPii e);
     assert (\<not> can teller ExportUserData e);
     assert (\<not> can teller GenerateSarReport e)
   }"

definition test_system_internal_ops :: "uuid \<Rightarrow> unit option" where
  "test_system_internal_ops system = do {
     let e = rbac_bind system System rbac_new;
     assert (can system SagaOrchestrate e);
     assert (can system AutoReconcile e);
     assert (can system CronJob e);
     assert (can system ReadAnyAccount e);
     assert (can system InitiateTransfer e);
     assert (\<not> can system ManageUsers e);
     assert (\<not> can system RedactPii e)
   }"

definition test_compliance_gdpr_access :: "uuid \<Rightarrow> unit option" where
  "test_compliance_gdpr_access compliance = do {
     let e = rbac_bind compliance Compliance rbac_new;
     assert (can compliance RedactPii e);
     assert (can compliance ExportUserData e);
     assert (can compliance GenerateSarReport e);
     assert (can compliance ReadAnyAccount e);
     assert (can compliance ViewAuditLog e);
     assert (can compliance VerifyChainIntegrity e);
     assert (\<not> can compliance CreateAccount e);
     assert (\<not> can compliance InitiateTransfer e);
     assert (\<not> can compliance ManageUsers e)
   }"

definition test_unbound_subject_denied ::
  "uuid \<Rightarrow> uuid \<Rightarrow> uuid \<Rightarrow> uuid \<Rightarrow> uuid \<Rightarrow> unit option"
where
  "test_unbound_subject_denied a b c d stranger = do {
     let e = test_engine a b c d;
     assert (\<not> can stranger ReadAnyAccount e);
     assert (\<not> can stranger ReadOwnAccount e);
     assert (\<not> can stranger ViewAuditLog e);
     assert (roles_for stranger e = {});
     assert (permissions_for stranger e = {})
   }"

definition test_multiple_roles_union :: "uuid \<Rightarrow> unit option" where
  "test_multiple_roles_union hybrid = do {
     let e = rbac_bind hybrid Auditor (rbac_bind hybrid Teller rbac_new);
     assert (can hybrid CreateAccount e);
     assert (can hybrid InitiateTransfer e);
     assert (can hybrid ExportAuditReport e);
     assert (can hybrid VerifyChainIntegrity e);
     assert (\<not> can hybrid ManageUsers e);
     assert (\<not> can hybrid ManageRoles e)
   }"

definition test_role_unbind_removes_permissions :: "uuid \<Rightarrow> unit option" where
  "test_role_unbind_removes_permissions subject = do {
     let e = rbac_bind subject Admin rbac_new;
     assert (can subject ManageUsers e);
     let e = rbac_unbind subject Admin e;
     assert (\<not> can subject ManageUsers e);
     assert (roles_for subject e = {})
   }"

definition test_permission_coverage_all_roles :: "unit option" where
  "test_permission_coverage_all_roles = do {
     let e = rbac_new;
     let all_permissions =
       [ReadAnyAccount, ReadOwnAccount, CreateAccount, UpdateAccountStatus, CloseAccount,
        InitiateTransfer, InitiateOwnTransfer, ViewAnyTransaction, ViewOwnTransaction,
        ViewAuditLog, VerifyChainIntegrity, ExportAuditReport, ViewTrialBalance, ManageUsers,
        ManageRoles, ConfigureLimits, ViewSystemMetrics, RedactPii, ExportUserData,
        GenerateSarReport, SagaOrchestrate, AutoReconcile, CronJob];
     let all_roles = [Admin, Auditor, Teller, Customer, System, Compliance];
     each (\<lambda>perm _. assert (list_ex (\<lambda>r.
         case role_permissions e r of None \<Rightarrow> False | Some perms \<Rightarrow> perm \<in> perms) all_roles))
       all_permissions ()
   }"

definition test_subject_extraction_invalid_header :: "(string \<Rightarrow> uuid option) \<Rightarrow> unit option" where
  "test_subject_extraction_invalid_header parse_id = do {
     let headers = Map.empty(''x-subject-id'' \<mapsto> ''not-a-uuid'');
     assert (extract_subject Some parse_id headers = None)
   }"

definition test_subject_extraction_missing_header :: "(string \<Rightarrow> uuid option) \<Rightarrow> unit option" where
  "test_subject_extraction_missing_header parse_id =
     assert (extract_subject Some parse_id Map.empty = None)"

definition test_can_any_fallback ::
  "(uuid set \<Rightarrow> uuid list) \<Rightarrow> uuid \<Rightarrow> uuid \<Rightarrow> uuid \<Rightarrow> uuid \<Rightarrow> unit option"
where
  "test_can_any_fallback listed a b c d = do {
     let e = test_engine a b c d;
     customer \<leftarrow> first_with_role listed Customer e;
     assert (can_any customer [ReadOwnAccount, ManageUsers] e);
     assert (\<not> can_any customer [ManageUsers, RedactPii] e)
   }"

lemmas rbac_test_simps =
  test_simps Let_def can_def can_all_def can_any_def roles_for_def permissions_for_def rbac_bind_def
  rbac_unbind_def rbac_new_def banking_permissions_def

lemma roles_for_test_engine:
  assumes "distinct [a, b, c, d]"
  shows "roles_for s (test_engine a b c d) =
         (if s = a then {Admin} else if s = b then {Auditor} else if s = c then {Teller}
          else if s = d then {Customer} else {})"
  using assms by (auto simp: test_engine_def roles_for_def rbac_bind_def rbac_new_def)

lemma role_permissions_test_engine: "role_permissions (test_engine a b c d) = banking_permissions"
  by (simp add: test_engine_def rbac_bind_def rbac_new_def)

lemma subjects_with_role_iff: "s \<in> subjects_with_role r e \<longleftrightarrow> r \<in> roles_for s e"
  by (simp add: subjects_with_role_def roles_for_def split: option.split)

lemma first_with_role_test_engine:
  assumes "distinct [a, b, c, d]" "\<And>x. listed {x} = [x]"
  shows "first_with_role listed Admin (test_engine a b c d) = Some a"
    and "first_with_role listed Auditor (test_engine a b c d) = Some b"
    and "first_with_role listed Teller (test_engine a b c d) = Some c"
    and "first_with_role listed Customer (test_engine a b c d) = Some d"
proof -
  have "subjects_with_role Admin (test_engine a b c d) = {a}"
    "subjects_with_role Auditor (test_engine a b c d) = {b}"
    "subjects_with_role Teller (test_engine a b c d) = {c}"
    "subjects_with_role Customer (test_engine a b c d) = {d}"
    using assms(1)
    by (auto simp: subjects_with_role_iff roles_for_test_engine [OF assms(1)] split: if_splits)
  then show "first_with_role listed Admin (test_engine a b c d) = Some a"
    "first_with_role listed Auditor (test_engine a b c d) = Some b"
    "first_with_role listed Teller (test_engine a b c d) = Some c"
    "first_with_role listed Customer (test_engine a b c d) = Some d"
    by (simp_all add: first_with_role_def assms(2))
qed

text \<open>The four subjects of the engine are different, and a set of one identifier lists it.\<close>

lemma rbac_engine_tests_pass:
  assumes "distinct [a, b, c, d]" "\<And>x. listed {x} = [x]"
  shows "passes (test_admin_can_everything listed a b c d)"
    and "passes (test_auditor_read_only listed a b c d)"
    and "passes (test_customer_self_service_only listed a b c d)"
    and "other_teller \<noteq> c \<Longrightarrow> passes (test_segregation_of_duties listed a b c d other_teller)"
    and "passes (test_can_all_and_any listed a b c d)"
    and "passes (test_teller_operational_access listed a b c d)"
    and "stranger \<notin> {a, b, c, d} \<Longrightarrow> passes (test_unbound_subject_denied a b c d stranger)"
    and "passes (test_can_any_fallback listed a b c d)"
  using assms(1)
  by (auto simp: test_admin_can_everything_def test_auditor_read_only_def check_sod_def
      test_customer_self_service_only_def test_segregation_of_duties_def test_can_all_and_any_def
      test_teller_operational_access_def test_unbound_subject_denied_def test_can_any_fallback_def
      first_with_role_test_engine [OF assms] roles_for_test_engine [OF assms(1)]
      role_permissions_test_engine test_simps Let_def
      can_def can_all_def can_any_def permissions_for_def banking_permissions_def)

lemma rbac_subject_tests_pass:
  "passes (test_system_internal_ops s)"
  "passes (test_compliance_gdpr_access s)"
  "passes (test_multiple_roles_union s)"
  "passes (test_role_unbind_removes_permissions s)"
  by (simp_all add: test_system_internal_ops_def test_compliance_gdpr_access_def
      test_multiple_roles_union_def test_role_unbind_removes_permissions_def rbac_test_simps)

lemma rbac_table_tests_pass:
  "passes test_permission_coverage_all_roles"
  by (simp add: test_permission_coverage_all_roles_def rbac_test_simps)

lemma rbac_header_tests_pass:
  "parse_id (show_id i) = Some i \<Longrightarrow> passes (test_subject_extraction show_id parse_id i)"
  "parse_id ''not-a-uuid'' = None \<Longrightarrow> passes (test_subject_extraction_invalid_header parse_id)"
  "passes (test_subject_extraction_missing_header parse_id)"
  by (simp_all add: test_subject_extraction_def test_subject_extraction_invalid_header_def
      test_subject_extraction_missing_header_def extract_subject_def test_simps Let_def)

lemma rbac_matrix_test_passes: "passes test_permission_matrix"
  by code_simp

end
