(* ===== verification/Concurrency_Tests.thy ===== *)
theory Concurrency_Tests
  imports Unit_Testing Rate_Limiter Concurrency Monitors Idempotency
begin

section \<open>The unit tests of resilience, concurrency and idempotency\<close>

text \<open>
  The tests of \<open>src/service/resilience.rs\<close>, \<open>src/service/concurrency.rs\<close>,
  \<open>src/service/idempotency.rs\<close> and \<open>src/service/distributed_state.rs\<close> on the definitions of the
  model. The instants that a test reads are its arguments, and a lemma that it passes says what it
  needs of them; a test that starts threads passes in every final state of every interleaving.
\<close>

subsection \<open>Resilience\<close>

text \<open>Instants and durations of the circuit breaker in milliseconds.\<close>

definition test_circuit_breaker_trips ::
  "timestamp \<Rightarrow> timestamp \<Rightarrow> timestamp \<Rightarrow> timestamp \<Rightarrow> timestamp \<Rightarrow> timestamp \<Rightarrow> unit option"
where
  "test_circuit_breaker_trips t0 t1 t2 t3 t4 t5 = do {
     let cb = breaker_new 3 60000;
     let (allowed, cb) = allow_request t0 cb;
     assert allowed;
     let cb = record_failure t1 cb;
     let cb = record_failure t2 cb;
     let (allowed, cb) = allow_request t3 cb;
     assert allowed;
     let cb = record_failure t4 cb;
     let (allowed, cb) = allow_request t5 cb;
     assert (\<not> allowed)
   }"

definition test_circuit_breaker_half_open ::
  "timestamp \<Rightarrow> timestamp \<Rightarrow> timestamp \<Rightarrow> timestamp \<Rightarrow> unit option"
where
  "test_circuit_breaker_half_open t1 t2 t3 t4 = do {
     let cb = record_failure t2 (record_failure t1 (breaker_new 2 10));
     let (allowed, cb) = allow_request t3 cb;
     assert (\<not> allowed);
     let (allowed, cb) = allow_request t4 cb;
     assert allowed;
     let cb = record_success (record_success cb);
     assert (cb_state cb = CircuitClosed)
   }"

definition test_exponential_backoff ::
  "(u64 \<Rightarrow> i64) \<Rightarrow> (u64 \<Rightarrow> i64) \<Rightarrow> (u64 \<Rightarrow> i64) \<Rightarrow> unit option"
where
  "test_exponential_backoff jit0 jit3 jit10 = do {
     let d0 = unat (exponential_backoff jit0 0 10 1000);
     assert (d0 \<ge> 7 \<and> d0 \<le> 12);
     let d3 = unat (exponential_backoff jit3 3 10 1000);
     assert (d3 \<ge> 60 \<and> d3 \<le> 100);
     let d10 = unat (exponential_backoff jit10 10 10 1000);
     assert (d10 \<le> 1250)
   }"

text \<open>The guards are values: dropping the first one is the release.\<close>

definition test_bulkhead_limits_concurrency :: "unit option" where
  "test_bulkhead_limits_concurrency = do {
     let bh = bulkhead_new 2;
     (_, bh) \<leftarrow> expect (try_acquire bh);
     (_, bh) \<leftarrow> expect (try_acquire bh);
     let (r, bh) = try_acquire bh;
     assert (\<not> is_ok r);
     let bh = bulkhead_release bh;
     assert (is_ok (fst (try_acquire bh)))
   }"

text \<open>\<open>clk\<close> lists the instants that the bucket reads, two per attempt, after the one of its creation.\<close>

definition test_token_bucket :: "rat floats \<Rightarrow> timestamp \<Rightarrow> (nat \<Rightarrow> timestamp) \<Rightarrow> unit option" where
  "test_token_bucket fl t0 clk = do {
     let bucket = bucket_new fl t0 10 100;
     let (r, bucket) = try_consume fl (clk 0) (clk 1) bucket;
     assert r;
     let (r, bucket) = try_consume_n fl (\<lambda>k. clk (k + 2)) 9 bucket;
     assert r;
     let (r, bucket) = try_consume fl (clk 20) (clk 21) bucket;
     assert (\<not> r)
   }"

text \<open>Durations of the golden signals in nanoseconds; the median of three samples has index 1.\<close>

definition test_golden_signals :: "rat floats \<Rightarrow> unit option" where
  "test_golden_signals fl = do {
     let g = record_request 1000000 False (signals_new 100);
     let g = record_request 5000000 False g;
     let g = record_request 10000000 True g;
     assert (total_requests g = 3);
     let err_rate = signals_error_rate fl g;
     assert (\<bar>err_rate - 333 / 1000\<bar> < 1 / 100);
     p50 \<leftarrow> latency_percentile 1 g;
     assert (p50 div 1000000 = 5)
   }"

text \<open>\<open>zero\<close> and \<open>one\<close> are the literals 0.0 and 1.0; each call draws its own random numbers.\<close>

definition test_chaos_agent_intercept ::
  "'f floats \<Rightarrow> 'f \<Rightarrow> 'f \<Rightarrow> (nat \<Rightarrow> 'f) \<Rightarrow> (nat \<Rightarrow> 'f) \<Rightarrow> unit option"
where
  "test_chaos_agent_intercept fl zero one random1 random2 = do {
     let agent = chaos_enable zero 0 one zero (chaos_new fl);
     r \<leftarrow> chaos_intercept fl random1 (Ok (42 :: i64)) agent;
     assert (\<not> is_ok r);
     let agent = chaos_disable agent;
     r \<leftarrow> chaos_intercept fl random2 (Ok (42 :: i64)) agent;
     assert (r = Ok 42)
   }"

text \<open>The three failures, and the question whether the circuit is open, take less than a minute.\<close>

lemma circuit_breaker_tests_pass:
  "t5 < t4 + 60000 \<Longrightarrow> passes (test_circuit_breaker_trips t0 t1 t2 t3 t4 t5)"
  "t2 \<le> t3 \<Longrightarrow> t3 < t2 + 10 \<Longrightarrow> t3 + 20 \<le> t4 \<Longrightarrow> passes (test_circuit_breaker_half_open t1 t2 t3 t4)"
  by (simp_all add: test_circuit_breaker_trips_def test_circuit_breaker_half_open_def breaker_new_def
      allow_request_def record_failure_def record_success_def test_simps Let_def word_le_nat_alt)

lemma backoff_test_passes:
  assumes "\<And>c. 4 * \<bar>sint (jit0 c)\<bar> \<le> int (unat c)" "\<And>c. 4 * \<bar>sint (jit3 c)\<bar> \<le> int (unat c)"
    and "\<And>c. 4 * \<bar>sint (jit10 c)\<bar> \<le> int (unat c)"
  shows "passes (test_exponential_backoff jit0 jit3 jit10)"
  using backoff_within_quarter [OF assms(1), of 10 0 1000]
    backoff_within_quarter [OF assms(2), of 10 3 1000]
    backoff_within_quarter [OF assms(3), of 10 10 1000]
  by (simp add: test_exponential_backoff_def test_simps Let_def)

lemma bulkhead_test_passes: "passes test_bulkhead_limits_concurrency"
  by code_simp

lemma golden_signals_test_passes: "passes (test_golden_signals rat_floats)"
  by (simp add: test_golden_signals_def signals_new_def record_request_def total_requests_def
      latency_bucket_def push_sample_def signals_error_rate_def rat_floats_def latency_percentile_def
      test_simps Let_def)

text \<open>A random number below one is what \<open>rand::random\<close> documents.\<close>

lemma chaos_test_passes:
  "fl_lt fl (random1 1) one \<Longrightarrow> passes (test_chaos_agent_intercept fl zero one random1 random2)"
  by (simp add: test_chaos_agent_intercept_def chaos_enable_def chaos_disable_def chaos_intercept_def
      test_simps Let_def)

text \<open>
  The token bucket on exact rationals: when it has granted \<open>k\<close> of its ten tokens, it has at least
  \<open>10 - k\<close> left, and at most one more per ten milliseconds since its creation.
\<close>

definition granted_tokens :: "timestamp \<Rightarrow> nat \<Rightarrow> rat token_bucket \<Rightarrow> bool" where
  "granted_tokens t0 k b \<longleftrightarrow> tb_capacity b = 10 \<and> tb_rate b = 100 \<and> 10 - of_nat k \<le> tb_tokens b \<and>
     tb_tokens b \<le> 10 - of_nat k + of_int (tb_last_refill b - t0) / 10000000"

lemma granted_tokens_refill:
  assumes "granted_tokens t0 k b" "k \<le> 10" "tb_last_refill b \<le> now1" "now1 \<le> now2"
  shows "granted_tokens t0 k (refill rat_floats now1 now2 b)" "tb_last_refill (refill rat_floats now1 now2 b) = now2"
proof -
  have "cap_rat 10 = 10" by (simp add: cap_rat_def)
  moreover have "(of_int (now1 - tb_last_refill b) :: rat) \<le> of_int (now2 - tb_last_refill b)"
    using assms(4) by simp
  ultimately show "granted_tokens t0 k (refill rat_floats now1 now2 b)"
    using assms(1-3)
    by (auto simp: granted_tokens_def refill_def elapsed_def rat_floats_def Let_def min_def max_def field_simps)
  show "tb_last_refill (refill rat_floats now1 now2 b) = now2" by (simp add: refill_def Let_def)
qed

lemma granted_tokens_consume:
  assumes "granted_tokens t0 k b" "k < 10" "tb_last_refill b \<le> now1" "now1 \<le> now2"
  obtains b' where "try_consume rat_floats now1 now2 b = (True, b')" "granted_tokens t0 (Suc k) b'"
    "tb_last_refill b' = now2"
proof -
  define b1 where "b1 = refill rat_floats now1 now2 b"
  have b1: "granted_tokens t0 k b1" "tb_last_refill b1 = now2"
    using granted_tokens_refill [OF assms(1) _ assms(3,4)] assms(2) by (simp_all add: b1_def)
  have "(of_nat k :: rat) \<le> 9" using assms(2) by (subst of_nat_le_numeral_iff) simp
  then have "1 \<le> tb_tokens b1" using b1(1) by (simp add: granted_tokens_def)
  then have "try_consume rat_floats now1 now2 b = (True, b1\<lparr>tb_tokens := tb_tokens b1 - 1\<rparr>)"
    by (simp add: try_consume_def b1_def [symmetric] Let_def) (simp add: rat_floats_def)
  then show thesis
    by (rule that) (use b1 in \<open>simp_all add: granted_tokens_def\<close>)
qed

lemma granted_tokens_loop:
  assumes "granted_tokens t0 k b" "k + n \<le> 10" "\<And>i j. i \<le> j \<Longrightarrow> clk i \<le> clk j" "tb_last_refill b \<le> clk (2 * i)"
  obtains b' where "consume_loop rat_floats clk i n b = (True, b')" "granted_tokens t0 (k + n) b'"
    "n = 0 \<Longrightarrow> b' = b" "0 < n \<Longrightarrow> tb_last_refill b' = clk (2 * (i + n) - 1)"
proof -
  have "\<exists>b'. consume_loop rat_floats clk i n b = (True, b') \<and> granted_tokens t0 (k + n) b' \<and>
      (n = 0 \<longrightarrow> b' = b) \<and> (0 < n \<longrightarrow> tb_last_refill b' = clk (2 * (i + n) - 1))"
    using assms
  proof (induction n arbitrary: i k b)
    case (Suc n)
    obtain b1 where b1: "try_consume rat_floats (clk (2 * i)) (clk (2 * i + 1)) b = (True, b1)"
      "granted_tokens t0 (Suc k) b1" "tb_last_refill b1 = clk (2 * i + 1)"
      using granted_tokens_consume [OF Suc.prems(1) _ Suc.prems(4), of "clk (2 * i + 1)"] Suc.prems(2,3) by auto
    then show ?case
      using Suc.IH [of "Suc k" b1 "Suc i"] Suc.prems(2,3) by (cases n) auto
  qed simp
  then show thesis using that by blast
qed

text \<open>The test passes when it takes less than ten milliseconds.\<close>

lemma token_bucket_test_passes:
  assumes "\<And>i j. i \<le> j \<Longrightarrow> clk i \<le> clk j" "t0 \<le> clk 0" "clk 21 < t0 + 10000000"
  shows "passes (test_token_bucket rat_floats t0 clk)"
proof -
  let ?b0 = "bucket_new rat_floats t0 10 100"
  have b0: "granted_tokens t0 0 ?b0" "tb_last_refill ?b0 = t0"
    by (simp_all add: granted_tokens_def bucket_new_def rat_floats_def cap_rat_def)
  obtain b1 where b1: "try_consume rat_floats (clk 0) (clk 1) ?b0 = (True, b1)"
    "granted_tokens t0 1 b1" "tb_last_refill b1 = clk 1"
    using granted_tokens_consume [OF b0(1), of "clk 0" "clk 1"] assms(1) [of 0 1] assms(2) b0(2) by auto
  obtain b2 where b2: "consume_loop rat_floats (\<lambda>k. clk (k + 2)) 0 9 b1 = (True, b2)"
    "granted_tokens t0 10 b2" "tb_last_refill b2 = clk 19"
    using granted_tokens_loop [OF b1(2), of 9 "\<lambda>k. clk (k + 2)" 0] assms(1) b1(3) by auto
  define b3 where "b3 = refill rat_floats (clk 20) (clk 21) b2"
  have b3: "granted_tokens t0 10 b3" "tb_last_refill b3 = clk 21"
    using granted_tokens_refill [OF b2(2), of "clk 20" "clk 21"] assms(1) b2(3) by (simp_all add: b3_def)
  have "(of_int (clk 21 - t0) :: rat) < 10000000" using assms(3) by (subst of_int_less_numeral_iff) simp
  then have "tb_tokens b3 < 1" using b3 by (simp add: granted_tokens_def)
  then have "try_consume rat_floats (clk 20) (clk 21) b2 = (False, b3)"
    by (simp add: try_consume_def b3_def [symmetric] Let_def) (simp add: rat_floats_def)
  then show ?thesis using b1(1) b2(1) by (simp add: test_token_bucket_def try_consume_n_def test_simps Let_def)
qed

subsection \<open>Concurrency\<close>

definition AlwaysPass :: validator where
  "AlwaysPass ctx = vr_valid"

definition InsufficientFundsRule :: validator where
  "InsufficientFundsRule ctx =
     (if sint (vc_amount_cents ctx) > sint (vc_available_balance_cents ctx)
      then vr_invalid [''Insufficient funds''] else vr_valid)"

definition test_validation_pipeline_all_pass :: "uuid \<Rightarrow> unit option" where
  "test_validation_pipeline_all_pass account = do {
     let pipeline = pipeline_add AlwaysPass pipeline_new;
     let ctx = \<lparr>vc_account_id = account, vc_amount_cents = 1000, vc_available_balance_cents = 5000,
       vc_daily_debit_total_cents = 0, vc_daily_debit_limit_cents = 10000, vc_account_status = ''OPEN''\<rparr>;
     assert (vr_is_valid (pipeline_validate pipeline ctx))
   }"

definition test_validation_pipeline_catches_failure :: "uuid \<Rightarrow> unit option" where
  "test_validation_pipeline_catches_failure account = do {
     let pipeline = pipeline_add InsufficientFundsRule pipeline_new;
     let ctx = \<lparr>vc_account_id = account, vc_amount_cents = 0, vc_available_balance_cents = 0,
       vc_daily_debit_total_cents = 0, vc_daily_debit_limit_cents = 0, vc_account_status = ''OPEN''\<rparr>;
     let ctx = ctx\<lparr>vc_available_balance_cents := 100, vc_amount_cents := 1000\<rparr>;
     assert (\<not> vr_is_valid (pipeline_validate pipeline ctx))
   }"

text \<open>
  Ten threads make ten calls each. \<open>S\<close> is the state after they have joined: every interleaving of
  the threads is one of a hundred calls that run side by side.
\<close>

definition test_atomic_debit_concurrent_safety :: "ad_system \<Rightarrow> unit option" where
  "test_atomic_debit_concurrent_safety S = assert (ad_balance S = 9000)"

definition atomic_debit_test_start :: ad_system where
  "atomic_debit_test_start = ad_start 10000 (concat (replicate 10 (replicate 10 10)))"

definition test_condition_variable_transfer :: "(i64, tc_call, i64) monitor \<Rightarrow> unit option" where
  "test_condition_variable_transfer M = do {
     new_balance \<leftarrow> (case snd (mn_threads M ! 0) of Returned b \<Rightarrow> Some b | _ \<Rightarrow> None);
     assert (new_balance = 500)
   }"

definition condition_variable_test_start :: "(i64, tc_call, i64) monitor" where
  "condition_variable_test_start = monitor_new 0 [WaitAndDebit 500, CreditAndNotify 1000]"

definition test_analytics_read_write :: "unit option" where
  "test_analytics_read_write = do {
     let analytics = record_transaction 1000 5000 analytics_default;
     let snap = record_transaction (- 500) 4500 analytics;
     assert (an_total_transactions snap = 2);
     assert (an_total_volume_cents snap = 1500);
     assert (an_peak_balance_cents snap = 5000);
     assert (an_min_balance_cents snap = 4500)
   }"

definition test_fair_transfer_queue ::
  "(queued_request list, fq_call, queued_request option) monitor \<Rightarrow> unit option"
where
  "test_fair_transfer_queue M = do {
     req \<leftarrow> (case snd (mn_threads M ! 0) of Returned (Some req) \<Rightarrow> Some req | _ \<Rightarrow> None);
     assert (qr_amount_cents req = 1000)
   }"

definition fair_queue_test_start ::
  "uuid \<Rightarrow> uuid \<Rightarrow> (queued_request list, fq_call, queued_request option) monitor"
where
  "fair_queue_test_start i j = monitor_new []
     [DequeueWait, Enqueue \<lparr>qr_from_account = i, qr_to_account = j, qr_amount_cents = 1000\<rparr>]"

lemma validation_tests_pass:
  "passes (test_validation_pipeline_all_pass account)"
  "passes (test_validation_pipeline_catches_failure account)"
  by (simp_all add: test_validation_pipeline_all_pass_def test_validation_pipeline_catches_failure_def
      pipeline_add_def pipeline_new_def pipeline_collects AlwaysPass_def InsufficientFundsRule_def
      vr_valid_def vr_invalid_def test_simps Let_def)

lemma analytics_test_passes: "passes test_analytics_read_write"
  by code_simp

text \<open>The calls that have returned are the threads that are done.\<close>

definition ad_done :: "i64 \<times> ad_pc \<Rightarrow> bool" where
  "ad_done t = (case snd t of AdDone _ \<Rightarrow> True | _ \<Rightarrow> False)"

lemma ad_done_simps: "\<not> ad_done (n, AdLoop)" "\<not> ad_done (n, AdLoaded c)" "ad_done (n, AdDone r)"
  by (simp_all add: ad_done_def)

lemma ad_finished_count:
  "ad_step\<^sup>*\<^sup>* (ad_start b ns) S \<Longrightarrow> length (ad_finished S) = length (filter ad_done (ad_threads S))"
proof (induction rule: rtranclp_induct)
  case base
  show ?case by (simp add: ad_start_def ad_done_def filter_empty_conv)
next
  case (step S S')
  from step.hyps(2) show ?case
  proof cases
    case (1 i n p p' b')
    have "\<not> ad_done (ad_threads S ! i)" using 1(3,4) by (auto simp: ad_done_def split: ad_pc.split)
    then have "length (filter ad_done ((ad_threads S)[i := (n, p')])) =
        length (filter ad_done (ad_threads S)) + (if ad_done (n, p') then 1 else 0)"
      using length_filter_update [OF 1(2), of ad_done "(n, p')"] by (simp split: if_splits)
    then show ?thesis using 1(1) step.IH by (cases p') (simp_all add: ad_done_simps)
  qed
qed

lemma sequential_tens:
  "sequential b l b' \<Longrightarrow> fst ` set l \<subseteq> {10} \<Longrightarrow> 10 * int (length l) \<le> sint b \<Longrightarrow>
   sint b' = sint b - 10 * int (length l)"
proof (induction b l b' rule: sequential.induct)
  case (2 b n r l b')
  have "sint (b - 10) = sint b - 10"
    using sint_sub_i64 [of b 10] sint_i64_upper [of b] 2(4) by (simp add: i64_simps)
  then show ?case using 2 by (simp add: atomic_debit_def)
qed simp

lemma atomic_debit_test_passes:
  assumes "ad_step\<^sup>*\<^sup>* atomic_debit_test_start S" "\<forall>t \<in> set (ad_threads S). ad_done t"
  shows "passes (test_atomic_debit_concurrent_safety S)"
proof -
  let ?ns = "concat (replicate 10 (replicate 10 10)) :: i64 list"
  have reach: "ad_step\<^sup>*\<^sup>* (ad_start 10000 ?ns) S" using assms(1) by (simp add: atomic_debit_test_start_def)
  have ok: "ad_ok 10000 ?ns S" by (rule ad_reach_ok [OF reach])
  have "length (ad_threads S) = length ?ns" using ok unfolding ad_ok_def by (metis length_map)
  then have "length (ad_finished S) = 100"
    using ad_finished_count [OF reach] assms(2) by (simp add: filter_id_conv [THEN iffD2] length_concat sum_list_replicate)
  moreover have "sequential 10000 (ad_finished S) (ad_balance S)" "fst ` set (ad_finished S) \<subseteq> {10}"
    using ok by (auto simp: ad_ok_def)
  ultimately have "sint (ad_balance S) = 9000" using sequential_tens by fastforce
  then have "ad_balance S = 9000" by (intro signed_word_eqI) simp
  then show ?thesis by (simp add: test_atomic_debit_concurrent_safety_def test_simps)
qed

text \<open>
  The two threads of the other tests: \<open>transfer_phase\<close> lists the states that their monitor goes
  through, and in a state where nothing can run both calls have returned.
\<close>

definition transfer_phase :: "(i64, tc_call, i64) monitor \<Rightarrow> bool" where
  "transfer_phase M \<longleftrightarrow> \<not> mn_poisoned M \<and>
     (\<exists>p q. mn_threads M = [(WaitAndDebit 500, p), (CreditAndNotify 1000, q)] \<and>
        (mn_data M = 0 \<and> q = Entering \<and> p \<in> {Entering, Waiting, Woken} \<or>
         mn_data M = 1000 \<and> q = Returned 1000 \<and> p \<in> {Entering, Woken} \<or>
         mn_data M = 500 \<and> q = Returned 1000 \<and> p = Returned 500))"

definition queue_phase ::
  "queued_request \<Rightarrow> (queued_request list, fq_call, queued_request option) monitor \<Rightarrow> bool"
where
  "queue_phase r M \<longleftrightarrow> \<not> mn_poisoned M \<and>
     (\<exists>p q. mn_threads M = [(DequeueWait, p), (Enqueue r, q)] \<and>
        (mn_data M = [] \<and> q = Entering \<and> p \<in> {Entering, Waiting, Woken} \<or>
         mn_data M = [r] \<and> q = Returned None \<and> p \<in> {Entering, Woken} \<or>
         mn_data M = [] \<and> q = Returned None \<and> p = Returned (Some r)))"

inductive_simps notifies_simps:
  "notifies NotifyNobody ts ts'"
  "notifies NotifyAll ts ts'"
  "notifies NotifyOne ts ts'"

lemma notify_other:
  "notifies NotifyOne [(a, p), (b, Returned r)] ts \<longleftrightarrow> ts = [wake (a, p), (b, Returned r)]"
proof -
  have "(j < length [(a, p), (b, Returned r)] \<and> snd ([(a, p), (b, Returned r)] ! j) = Waiting) \<longleftrightarrow>
      j = 0 \<and> p = Waiting" for j
    by (cases j) (auto simp: less_Suc_eq)
  then show ?thesis
    unfolding notifies_simps(3) conj_assoc [symmetric] by (auto simp: wake_def)
qed

text \<open>A step of a monitor that is not poisoned and whose sections do not panic.\<close>

lemma mon_step_cases:
  assumes "mon_step body M M'" "\<not> mn_poisoned M"
  obtains (block) i c p where "i < length (mn_threads M)" "mn_threads M ! i = (c, p)" "p = Entering \<or> p = Woken"
      "body c (mn_data M) = Block" "M' = M\<lparr>mn_threads := (mn_threads M)[i := (c, Waiting)]\<rparr>"
  | (panic) i c p where "i < length (mn_threads M)" "mn_threads M ! i = (c, p)" "p = Entering \<or> p = Woken"
      "body c (mn_data M) = Panic"
  | (return) i c p s r n ts where "i < length (mn_threads M)" "mn_threads M ! i = (c, p)" "p = Entering \<or> p = Woken"
      "body c (mn_data M) = Return s r n" "notifies n ((mn_threads M)[i := (c, Returned r)]) ts"
      "M' = M\<lparr>mn_data := s, mn_threads := ts, mn_log := mn_log M @ [(c, r)]\<rparr>"
  | (spurious) i c where "i < length (mn_threads M)" "mn_threads M ! i = (c, Waiting)"
      "M' = M\<lparr>mn_threads := (mn_threads M)[i := (c, Woken)]\<rparr>"
proof -
  consider "run_step body M M'" | "spurious_step M M'" using assms(1) by (auto simp: mon_step_def)
  then show thesis
  proof cases
    case 1
    then show thesis using assms(2) by cases (auto intro: that)
  next
    case 2
    then show thesis
    proof cases
      case (1 i)
      then show thesis using spurious [of i "fst (mn_threads M ! i)"] by (cases "mn_threads M ! i") (simp add: wake_def)
    qed
  qed
qed

lemma two_threads:
  assumes "i < length ts" "ts ! i = (c, p)" "ts = [(a, q), (b, r)]"
  obtains "i = 0" "c = a" "p = q" | "i = 1" "c = b" "p = r"
  using assms by (auto simp: less_Suc_eq)

lemma transfer_phase_step:
  assumes "mon_step tc_body M M'" "transfer_phase M"
  shows "transfer_phase M'"
proof -
  obtain p q where ts: "mn_threads M = [(WaitAndDebit 500, p), (CreditAndNotify 1000, q)]"
    and ok: "\<not> mn_poisoned M"
    and phase: "mn_data M = 0 \<and> q = Entering \<and> p \<in> {Entering, Waiting, Woken} \<or>
         mn_data M = 1000 \<and> q = Returned 1000 \<and> p \<in> {Entering, Woken} \<or>
         mn_data M = 500 \<and> q = Returned 1000 \<and> p = Returned 500"
    using assms(2) unfolding transfer_phase_def by blast
  have credit: "checked_add_i64 0 1000 = Some (1000 :: i64)" by (simp add: checked_add_i64_def i64_simps)
  from assms(1) ok show ?thesis
  proof (cases rule: mon_step_cases)
    case (block i c p')
    show ?thesis
      by (cases rule: two_threads [OF block(1,2) ts]) (use block phase ts ok in \<open>auto simp: transfer_phase_def credit\<close>)
  next
    case (panic i c p')
    show ?thesis
      by (cases rule: two_threads [OF panic(1,2) ts]) (use panic phase in \<open>auto simp: credit split: if_splits\<close>)
  next
    case (return i c p' s r n ts')
    show ?thesis
      by (cases rule: two_threads [OF return(1,2) ts]) (use return phase ts ok in \<open>auto simp: transfer_phase_def credit notifies_simps wake_def split: if_splits\<close>)
  next
    case (spurious i c)
    show ?thesis
      by (cases rule: two_threads [OF spurious(1,2) ts]) (use spurious phase ts ok in \<open>auto simp: transfer_phase_def\<close>)
  qed
qed

lemma queue_phase_step:
  assumes "mon_step fq_body M M'" "queue_phase req M"
  shows "queue_phase req M'"
proof -
  obtain p q where ts: "mn_threads M = [(DequeueWait, p), (Enqueue req, q)]"
    and ok: "\<not> mn_poisoned M"
    and phase: "mn_data M = [] \<and> q = Entering \<and> p \<in> {Entering, Waiting, Woken} \<or>
         mn_data M = [req] \<and> q = Returned None \<and> p \<in> {Entering, Woken} \<or>
         mn_data M = [] \<and> q = Returned None \<and> p = Returned (Some req)"
    using assms(2) unfolding queue_phase_def by blast
  from assms(1) ok show ?thesis
  proof (cases rule: mon_step_cases)
    case (block i c p')
    show ?thesis
      by (cases rule: two_threads [OF block(1,2) ts]) (use block phase ts ok in \<open>auto simp: queue_phase_def \<close>)
  next
    case (panic i c p')
    show ?thesis
      by (cases rule: two_threads [OF panic(1,2) ts]) (use panic phase in \<open>auto simp:  split: if_splits\<close>)
  next
    case (return i c p' s r n ts')
    show ?thesis
      by (cases rule: two_threads [OF return(1,2) ts]) (use return phase ts ok in \<open>auto simp: queue_phase_def  notifies_simps(1) notify_other wake_def split: if_splits\<close>)
  next
    case (spurious i c)
    show ?thesis
      by (cases rule: two_threads [OF spurious(1,2) ts]) (use spurious phase ts ok in \<open>auto simp: queue_phase_def\<close>)
  qed
qed

lemma quiescent_two:
  assumes "\<not> (\<exists>N'. run_step body M N')" "mn_threads M = [(a, p), (b, q)]"
  shows "p \<noteq> Entering \<and> p \<noteq> Woken \<and> q \<noteq> Entering \<and> q \<noteq> Woken"
  using quiescent_threads [OF assms(1), of a p] quiescent_threads [OF assms(1), of b q] assms(2) by auto

text \<open>
  Whatever the order in which the two threads run, when neither can run on the test passes; and
  such a state is always reached (lemma \<open>quiescence_reached\<close>).
\<close>

lemma condition_variable_test_passes:
  assumes "(mon_step tc_body)\<^sup>*\<^sup>* condition_variable_test_start M" "\<not> (\<exists>N. run_step tc_body M N)"
  shows "passes (test_condition_variable_transfer M)"
proof -
  have "transfer_phase M"
    using assms(1)
  proof (induction rule: rtranclp_induct)
    case base
    show ?case by (simp add: transfer_phase_def condition_variable_test_start_def monitor_new_def)
  qed (rule transfer_phase_step)
  then show ?thesis
    using quiescent_two [OF assms(2)]
    by (auto simp: transfer_phase_def test_condition_variable_transfer_def test_simps)
qed

lemma fair_queue_test_passes:
  assumes "(mon_step fq_body)\<^sup>*\<^sup>* (fair_queue_test_start i j) M" "\<not> (\<exists>N. run_step fq_body M N)"
  shows "passes (test_fair_transfer_queue M)"
proof -
  have "queue_phase \<lparr>qr_from_account = i, qr_to_account = j, qr_amount_cents = 1000\<rparr> M"
    using assms(1)
  proof (induction rule: rtranclp_induct)
    case base
    show ?case by (simp add: queue_phase_def fair_queue_test_start_def monitor_new_def)
  qed (rule queue_phase_step)
  then show ?thesis
    using quiescent_two [OF assms(2)]
    by (auto simp: queue_phase_def test_fair_transfer_queue_def test_simps)
qed

subsection \<open>Idempotency and the projection of transaction states\<close>

text \<open>\<open>order\<close> lists a map in the order of its iteration; it matters only when the map is full.\<close>

definition test_idempotency_service_check_and_mark :: "timestamp \<Rightarrow> timestamp \<Rightarrow> unit option" where
  "test_idempotency_service_check_and_mark t1 t2 = do {
     let (dup, svc) = check_and_mark t1 ''tx-1'' idem_new;
     assert (\<not> dup);
     let (dup, svc) = check_and_mark t2 ''tx-1'' svc;
     assert dup;
     assert (is_processed ''tx-1'' svc)
   }"

definition test_idempotency_service_eviction ::
  "((string \<rightharpoonup> timestamp) \<Rightarrow> (string \<times> timestamp) list) \<Rightarrow> (timestamp \<Rightarrow> int \<Rightarrow> timestamp) \<Rightarrow>
   timestamp \<Rightarrow> timestamp \<Rightarrow> timestamp \<Rightarrow> unit option"
where
  "test_idempotency_service_eviction order seconds_before t1 t2 t3 = do {
     let svc = mark_processed order t1 ''old-tx'' idem_new;
     let old_time = seconds_before t2 3600;
     let svc = svc\<lparr>idem_processed := (idem_processed svc)(''old-tx'' \<mapsto> old_time)\<rparr>;
     let (evicted, svc) = evict_older_than seconds_before t3 1800 svc;
     assert (evicted = 1);
     assert (\<not> is_processed ''old-tx'' svc)
   }"

text \<open>The state of the handler is the number of its calls.\<close>

definition test_idempotent_handler_skip_duplicate ::
  "((string \<rightharpoonup> timestamp) \<Rightarrow> (string \<times> timestamp) list) \<Rightarrow> timestamp \<Rightarrow> unit option"
where
  "test_idempotent_handler_skip_duplicate order now = do {
     let handler = (\<lambda>(_ :: string) (call_count :: nat). (Ok (), call_count + 1));
     (_, st) \<leftarrow> expect (handler_process order handler now ''evt-1'' (idem_new, 0));
     (_, st) \<leftarrow> expect (handler_process order handler now ''evt-1'' st);
     (_, st) \<leftarrow> expect (handler_process order handler now ''evt-1'' st);
     (_, st) \<leftarrow> expect (handler_process order handler now ''evt-2'' st);
     assert (snd st = 2);
     assert (idem_len (fst st) = 2)
   }"

definition test_idempotent_handler_does_not_mark_on_failure ::
  "((string \<rightharpoonup> timestamp) \<Rightarrow> (string \<times> timestamp) list) \<Rightarrow> timestamp \<Rightarrow> unit option"
where
  "test_idempotent_handler_does_not_mark_on_failure order now = do {
     let handler = (\<lambda>tid (s :: unit). (if tid = ''fail'' then Err ''simulated failure'' else Ok (), s));
     let (r, st) = handler_process order handler now ''fail'' (idem_new, ());
     assert (\<not> is_ok r);
     assert (idem_len (fst st) = 0);
     let (r, st) = handler_process order handler now ''fail'' st;
     assert (\<not> is_ok r);
     assert (idem_len (fst st) = 0)
   }"

text \<open>Instants in milliseconds; every event reads the clock once more.\<close>

definition make_event :: "decimal \<Rightarrow> uuid \<Rightarrow> tx_status \<Rightarrow> timestamp \<Rightarrow> int \<Rightarrow> tx_event" where
  "make_event hundred tx_id status now offset_secs =
     \<lparr>te_transaction_id = tx_id, te_type = status, te_from = ''alice'', te_to = ''bob'',
      te_amount = hundred, te_timestamp = now + 1000 * offset_secs\<rparr>"

definition test_projector_lifecycle ::
  "decimal \<Rightarrow> uuid \<Rightarrow> timestamp \<Rightarrow> timestamp \<Rightarrow> timestamp \<Rightarrow> unit option"
where
  "test_projector_lifecycle hundred tx_id t1 t2 t3 = do {
     let m = projector_apply (make_event hundred tx_id TxInitiated t1 0) Map.empty;
     let m = projector_apply (make_event hundred tx_id TxFundsReserved t2 1) m;
     let m = projector_apply (make_event hundred tx_id TxCompleted t3 2) m;
     state \<leftarrow> projector_get tx_id m;
     assert (ts_status state = TxCompleted);
     assert (ts_event_count state = 3)
   }"

definition test_projector_idempotent ::
  "decimal \<Rightarrow> uuid \<Rightarrow> timestamp \<Rightarrow> timestamp \<Rightarrow> timestamp \<Rightarrow> unit option"
where
  "test_projector_idempotent hundred tx_id t1 t2 t3 = do {
     let m = projector_apply (make_event hundred tx_id TxInitiated t1 0) Map.empty;
     let m = projector_apply (make_event hundred tx_id TxCompleted t2 2) m;
     let m = projector_apply (make_event hundred tx_id TxInitiated t3 0) m;
     state \<leftarrow> projector_get tx_id m;
     assert (ts_status state = TxCompleted);
     assert (ts_event_count state = 2)
   }"

definition test_projector_by_status ::
  "decimal \<Rightarrow> uuid \<Rightarrow> uuid \<Rightarrow> timestamp \<Rightarrow> timestamp \<Rightarrow> timestamp \<Rightarrow> unit option"
where
  "test_projector_by_status hundred tx1 tx2 t1 t2 t3 = do {
     let m = projector_apply (make_event hundred tx1 TxInitiated t1 0) Map.empty;
     let m = projector_apply (make_event hundred tx2 TxInitiated t2 0) m;
     let m = projector_apply (make_event hundred tx1 TxCompleted t3 1) m;
     let initiated = projector_by_status TxInitiated m;
     let completed = projector_by_status TxCompleted m;
     assert (card initiated = 1);
     assert (card completed = 1)
   }"

lemmas idempotency_test_simps =
  test_simps Let_def idem_new_def check_and_mark_def is_processed_def mark_processed_def
  handler_process_def idem_len_def

lemma idempotency_tests_pass:
  "passes (test_idempotency_service_check_and_mark t1 t2)"
  "passes (test_idempotent_handler_skip_duplicate order now)"
  "passes (test_idempotent_handler_does_not_mark_on_failure order now)"
  by (simp_all add: test_idempotency_service_check_and_mark_def test_idempotent_handler_skip_duplicate_def
      test_idempotent_handler_does_not_mark_on_failure_def idempotency_test_simps)

text \<open>The entry is an hour old, give or take the duration of the test.\<close>

lemma eviction_test_passes:
  "t2 \<le> t3 \<Longrightarrow> passes (test_idempotency_service_eviction order (\<lambda>t s. t - 1000 * s) t1 t2 t3)"
  by (simp add: test_idempotency_service_eviction_def evict_older_than_def idempotency_test_simps dom_def)

lemma projector_tests_pass:
  "t1 \<le> t2 \<Longrightarrow> t2 \<le> t3 \<Longrightarrow> passes (test_projector_lifecycle hundred tx_id t1 t2 t3)"
  "t1 \<le> t2 \<Longrightarrow> t3 \<le> t2 + 2000 \<Longrightarrow> passes (test_projector_idempotent hundred tx_id t1 t2 t3)"
  by (simp_all add: test_projector_lifecycle_def test_projector_idempotent_def make_event_def
      projector_apply_def projector_get_def test_simps Let_def)

lemma projector_by_status_test_passes:
  assumes "tx1 \<noteq> tx2" "t1 \<le> t3"
  shows "passes (test_projector_by_status hundred tx1 tx2 t1 t2 t3)"
proof -
  have "{st. (st = a \<or> st = b) \<and> ts_status st = s} =
      (if ts_status a = s then {a} else {}) \<union> (if ts_status b = s then {b} else {})" for a b :: tx_state and s
    by auto
  then show ?thesis using assms
    by (simp add: test_projector_by_status_def make_event_def projector_apply_def projector_by_status_def
        test_simps Let_def)
qed

end
