(* ===== verification/Ledger_Tests.thy ===== *)
theory Ledger_Tests
  imports Unit_Testing Signing Api_Contract "HOL-Library.Sublist"
begin

section \<open>The unit tests of the audit chain, and the regression tests\<close>

text \<open>
  The tests of \<open>src/log/hash_chain.rs\<close>, \<open>src/log/signing.rs\<close>, \<open>src/extensions.rs\<close> and
  \<open>src/audit_bug_regression.rs\<close> on the definitions of the model. The digest and the signature
  scheme are the parameters \<open>cr\<close> and \<open>sg\<close>; where a test expects two digests to differ, or a
  signature to fail under another key, the lemma that it passes asks for it.
\<close>

subsection \<open>The hash chain\<close>

definition append_each ::
  "crypto \<Rightarrow> (timestamp \<times> string) list \<Rightarrow> hash_chain \<Rightarrow> hash_chain option"
where
  "append_each cr = each (\<lambda>(now, data) c. map_option snd (chain_append cr now data c))"

definition test_hash_chain_integrity ::
  "crypto \<Rightarrow> timestamp \<Rightarrow> timestamp \<Rightarrow> timestamp \<Rightarrow> timestamp \<Rightarrow> string \<Rightarrow> string \<Rightarrow> string \<Rightarrow> unit option"
where
  "test_hash_chain_integrity cr t0 t1 t2 t3 deposit withdraw transfer = do {
     let key = as_bytes ''banking-ledger-secret-key-32b!!'';
     chain \<leftarrow> append_each cr [(t1, deposit), (t2, withdraw), (t3, transfer)] (chain_new cr t0 key);
     assert (chain_len chain = 4);
     (valid, tampered) \<leftarrow> verify_chain cr chain;
     assert valid;
     assert (tampered = [])
   }"

definition test_tamper_detection ::
  "crypto \<Rightarrow> timestamp \<Rightarrow> timestamp \<Rightarrow> timestamp \<Rightarrow> unit option"
where
  "test_tamper_detection cr t0 t1 t2 = do {
     let key = as_bytes ''test-key-32-bytes-long!!!!!!'';
     chain \<leftarrow> append_each cr [(t1, ''block1''), (t2, ''block2'')] (chain_new cr t0 key);
     let chain = chain\<lparr>blocks := (blocks chain)[1 := (blocks chain ! 1)\<lparr>link_data := ''TAMPERED_DATA''\<rparr>]\<rparr>;
     (valid, tampered) \<leftarrow> verify_chain cr chain;
     assert (\<not> valid);
     assert (1 \<in> set tampered)
   }"

definition test_hmac_sign_and_verify :: "crypto \<Rightarrow> timestamp \<Rightarrow> uuid \<Rightarrow> string \<Rightarrow> unit option" where
  "test_hmac_sign_and_verify cr now tx_id payload = do {
     let key = as_bytes ''super-secret-key'';
     let signed = sign_transaction cr now tx_id payload key;
     assert (verify_signed cr signed key);
     assert (\<not> verify_signed cr signed (as_bytes ''wrong-key''))
   }"

text \<open>\<open>t1\<close> and \<open>t2\<close> are read between the blocks, which are stamped \<open>s1\<close>, \<open>s2\<close> and \<open>s3\<close>.\<close>

definition test_audit_trail_query ::
  "crypto \<Rightarrow> timestamp \<Rightarrow> timestamp \<Rightarrow> timestamp \<Rightarrow> timestamp \<Rightarrow> timestamp \<Rightarrow> timestamp \<Rightarrow> unit option"
where
  "test_audit_trail_query cr t0 t1 s1 t2 s2 s3 = do {
     let key = as_bytes ''audit-key-32-bytes-long!!!!!'';
     chain \<leftarrow> append_each cr [(s1, ''event1''), (s2, ''event2''), (s3, ''event3'')] (chain_new cr t0 key);
     let results = query_by_time t1 t2 chain;
     assert (results \<noteq> [])
   }"

definition test_chain_proof :: "crypto \<Rightarrow> timestamp \<Rightarrow> timestamp \<Rightarrow> timestamp \<Rightarrow> unit option" where
  "test_chain_proof cr t0 t1 t2 = do {
     let key = as_bytes ''proof-key-32-bytes-long!!!!!!'';
     chain \<leftarrow> append_each cr [(t1, ''data1''), (t2, ''data2'')] (chain_new cr t0 key);
     p \<leftarrow> proof_for_block 1 chain;
     assert (verify_position cr p)
   }"

lemma append_each_chain:
  "\<exists>c. append_each cr ds (chain_new cr t0 key) = Some c \<and> chain_ok cr c \<and>
     length (blocks c) = Suc (length ds)"
proof -
  have "append_each cr ds c = chain_run cr (map (\<lambda>(now, data). OpAppend now data) ds) c" for c
  proof (induction ds arbitrary: c)
    case (Cons d ds)
    then show ?case
      by (cases d; cases "chain_append cr (fst d) (snd d) c") (simp_all add: append_each_def chain_apply_def)
  qed (simp add: append_each_def)
  moreover have "filter is_append (map (\<lambda>(now, data). OpAppend now data) ds) = map (\<lambda>(now, data). OpAppend now data) ds"
    by (auto simp: is_append_def filter_id_conv)
  ultimately show ?thesis
    using chain_run_keeps [OF chain_new_ok chain_new_numbered, of cr "map (\<lambda>(now, data). OpAppend now data) ds" t0 key]
    by (auto simp: length_chain_new)
qed

lemmas chain_test_simps =
  test_simps Let_def append_each_def chain_append_def chain_new_def link_next_def

lemma chain_integrity_test_passes:
  "passes (test_hash_chain_integrity cr t0 t1 t2 t3 deposit withdraw transfer)"
  using append_each_chain [of cr "[(t1, deposit), (t2, withdraw), (t3, transfer)]" t0
      "as_bytes ''banking-ledger-secret-key-32b!!''"]
  by (auto simp: test_hash_chain_integrity_def chain_len_def test_simps verify_chain_decides [symmetric] Let_def)

text \<open>The digest of the tampered block is not the one that is stored.\<close>

lemma tamper_test_passes:
  assumes "h = link_hash (genesis cr t0 ''GENESIS_BLOCK'')"
    and "compute_hash cr 1 h ''TAMPERED_DATA'' t1 0 \<noteq> compute_hash cr 1 h ''block1'' t1 0"
  shows "passes (test_tamper_detection cr t0 t1 t2)"
  using assms
  by (simp add: test_tamper_detection_def verify_chain_def self_failures_def verify_self_def genesis_def
      link_check_def upt_conv_Cons chain_test_simps)

lemma hmac_test_passes:
  assumes "m = uuid_bytes cr tx_id @ as_bytes payload"
    and "hmac_sign cr (as_bytes ''wrong-key'') m \<noteq> hmac_sign cr (as_bytes ''super-secret-key'') m"
  shows "passes (test_hmac_sign_and_verify cr now tx_id payload)"
  using assms
  by (simp add: test_hmac_sign_and_verify_def sign_transaction_def verify_signed_def hmac_verify_def
      test_simps Let_def)

lemma audit_query_test_passes:
  "t1 \<le> s1 \<Longrightarrow> s1 \<le> t2 \<Longrightarrow> passes (test_audit_trail_query cr t0 t1 s1 t2 s2 s3)"
  by (simp add: test_audit_trail_query_def query_by_time_def chain_test_simps)

lemma chain_proof_test_passes: "passes (test_chain_proof cr t0 t1 t2)"
  by (simp add: test_chain_proof_def proof_for_block_def verify_position_def verify_self_def chain_test_simps)

subsection \<open>Transaction signing\<close>

definition test_sign_and_verify ::
  "('d, 'sk, 'vk) signer \<Rightarrow> timestamp \<Rightarrow> uuid \<Rightarrow> 'd \<Rightarrow> 'sk \<Rightarrow> 'vk \<Rightarrow> unit option"
where
  "test_sign_and_verify sg now cid hundred sk vk = do {
     let tx = signing_tx_new sg now cid ''alice'' ''bob'' hundred;
     signature \<leftarrow> unwrap (sign_tx sg tx sk);
     r \<leftarrow> unwrap (verify_tx sg tx (sg_as_bytes sg vk) signature);
     assert r
   }"

definition test_signing_tamper_detection ::
  "('d, 'sk, 'vk) signer \<Rightarrow> timestamp \<Rightarrow> uuid \<Rightarrow> 'd \<Rightarrow> 'd \<Rightarrow> 'sk \<Rightarrow> 'vk \<Rightarrow> unit option"
where
  "test_signing_tamper_detection sg now cid hundred million sk vk = do {
     let tx = signing_tx_new sg now cid ''alice'' ''bob'' hundred;
     signature \<leftarrow> unwrap (sign_tx sg tx sk);
     let tampered = tx\<lparr>sx_amount := million\<rparr>;
     assert (\<not> verify_tamper_detection sg tampered (sg_as_bytes sg vk) signature)
   }"

definition test_canonical_bytes_deterministic ::
  "('d, 'sk, 'vk) signer \<Rightarrow> timestamp \<Rightarrow> uuid \<Rightarrow> 'd \<Rightarrow> unit option"
where
  "test_canonical_bytes_deterministic sg now cid amount = do {
     let tx1 = signing_tx_new sg now cid ''alice'' ''bob'' amount;
     let tx2 = \<lparr>sx_sender = ''alice'', sx_recipient = ''bob'', sx_amount = amount,
       sx_timestamp = sx_timestamp tx1, sx_correlation_id = sx_correlation_id tx1, sx_hash = [],
       sx_signature = None\<rparr>;
     assert (canonical_bytes sg tx1 = canonical_bytes sg tx2);
     assert (tx_hash sg tx1 = tx_hash sg tx2)
   }"

definition test_wrong_key_fails ::
  "('d, 'sk, 'vk) signer \<Rightarrow> timestamp \<Rightarrow> uuid \<Rightarrow> 'd \<Rightarrow> 'sk \<Rightarrow> 'vk \<Rightarrow> unit option"
where
  "test_wrong_key_fails sg now cid hundred sk other_vk = do {
     let tx = signing_tx_new sg now cid ''alice'' ''bob'' hundred;
     signature \<leftarrow> unwrap (sign_tx sg tx sk);
     r \<leftarrow> unwrap (verify_tx sg tx (sg_as_bytes sg other_vk) signature);
     assert (\<not> r)
   }"

text \<open>What \<open>ed25519_dalek\<close> and \<open>sha2\<close> document of sizes and encodings.\<close>

definition signer_sizes :: "('d, 'sk, 'vk) signer \<Rightarrow> bool" where
  "signer_sizes sg \<longleftrightarrow> (\<forall>m. sg_sha256 sg m \<noteq> []) \<and>
     (\<forall>vk. length (sg_as_bytes sg vk) = 32 \<and> sg_from_bytes sg (sg_as_bytes sg vk) = Some vk) \<and>
     (\<forall>sk m. length (sg_sign sg sk m) = 64)"

lemmas signing_test_simps =
  test_simps Let_def signer_sizes_def signing_tx_new_def sign_tx_def verify_tx_def tx_hash_def

lemma signing_tests_pass:
  assumes "signer_sizes sg"
  shows "(\<And>m. sg_verify sg vk m (sg_sign sg sk m)) \<Longrightarrow> passes (test_sign_and_verify sg now cid hundred sk vk)"
    and "(\<And>m. \<not> sg_verify sg vk m (sg_sign sg sk m)) \<Longrightarrow> passes (test_wrong_key_fails sg now cid hundred sk vk)"
    and "passes (test_canonical_bytes_deterministic sg now cid hundred)"
  using assms
  by (simp_all add: test_sign_and_verify_def test_wrong_key_fails_def
      test_canonical_bytes_deterministic_def canonical_bytes_def signing_test_simps)

text \<open>The amounts print differently, and the digests of the two texts differ.\<close>

lemma signing_tamper_test_passes:
  assumes "signer_sizes sg" "tx = signing_tx_new sg now cid ''alice'' ''bob'' hundred"
    and "tx_hash sg (tx\<lparr>sx_amount := million\<rparr>) \<noteq> sx_hash tx"
  shows "passes (test_signing_tamper_detection sg now cid hundred million sk vk)"
  using assms by (simp add: test_signing_tamper_detection_def verify_tamper_detection_def signing_test_simps)

subsection \<open>Extensions\<close>

definition test_hashchain_ext_sign_and_append ::
  "crypto \<Rightarrow> uuid \<Rightarrow> timestamp \<Rightarrow> timestamp \<Rightarrow> timestamp \<Rightarrow> string \<Rightarrow> unit option"
where
  "test_hashchain_ext_sign_and_append cr tx_id t0 t1 t2 data = do {
     let chain = chain_new cr t0 (as_bytes ''test-key-32-bytes-long!!!!!!'');
     (signed, chain) \<leftarrow> sign_and_append cr tx_id t1 t2 data chain;
     assert (verify_signed cr signed (as_bytes ''test-key-32-bytes-long!!!!!!''));
     assert (chain_len chain = 2)
   }"

text \<open>Instants in nanoseconds.\<close>

definition test_hashchain_ext_audit_report ::
  "crypto \<Rightarrow> timestamp \<Rightarrow> timestamp \<Rightarrow> timestamp \<Rightarrow> timestamp \<Rightarrow> timestamp \<Rightarrow> unit option"
where
  "test_hashchain_ext_audit_report cr t0 t1 t2 now1 now2 = do {
     let chain = chain_new cr t0 (as_bytes ''test-key-32-bytes-long!!!!!!'');
     chain \<leftarrow> append_each cr [(t1, ''event1''), (t2, ''event2'')] chain;
     report \<leftarrow> audit_report cr (now1 - 3600 * 1000000000) (now2 + 3600 * 1000000000) chain;
     assert (sublist ''AUDIT REPORT'' report);
     assert (sublist ''VERIFIED'' report)
   }"

definition json_member :: "string \<Rightarrow> 'f json \<Rightarrow> 'f json option" where
  "json_member k j = (case j of JObj kvs \<Rightarrow> map_of kvs k | _ \<Rightarrow> None)"

definition test_hashchain_ext_export ::
  "('f, 'd) view_env \<Rightarrow> crypto \<Rightarrow> timestamp \<Rightarrow> timestamp \<Rightarrow> unit option"
where
  "test_hashchain_ext_export ve cr t0 t1 = do {
     let chain = chain_new cr t0 (as_bytes ''test-key-32-bytes-long!!!!!!'');
     chain \<leftarrow> append_each cr [(t1, ''test-data'')] chain;
     let log = export_audit_log ve chain;
     assert (length log = 2);
     assert (json_member ''index'' (log ! 0) = Some (j_u64 0));
     assert (json_member ''index'' (log ! 1) = Some (j_u64 1))
   }"

definition test_journal_ext_net_position ::
  "uuid \<Rightarrow> uuid \<Rightarrow> uuid \<Rightarrow> uuid \<Rightarrow> timestamp \<Rightarrow> unit option"
where
  "test_journal_ext_net_position eid txn acc_a acc_b now = do {
     let ls = [leg_debit acc_a 1000, leg_credit acc_b 1000];
     entry \<leftarrow> unwrap (entry_new eid now txn 1 ls ''test'');
     let pos_a = ext_net_position [entry] acc_a;
     let pos_b = ext_net_position [entry] acc_b;
     assert (pos_a = 1000);
     assert (pos_b = - 1000)
   }"

definition test_account_ext_can_close :: "uuid \<Rightarrow> uuid \<Rightarrow> timestamp \<Rightarrow> unit option" where
  "test_account_ext_can_close i j now = do {
     let acc = account_new i now now account_type.Asset ''USD'' 0 None;
     assert (can_close acc);
     let acc2 = account_new j now now account_type.Asset ''USD'' 100 None;
     assert (\<not> can_close acc2)
   }"

lemma extension_tests_pass:
  "passes (test_hashchain_ext_sign_and_append cr tx_id t0 t1 t2 data)"
  "passes (test_hashchain_ext_export ve cr t0 t1)"
  "acc_a \<noteq> acc_b \<Longrightarrow> passes (test_journal_ext_net_position eid txn acc_a acc_b now)"
  "passes (test_account_ext_can_close i j now)"
  by (simp_all add: test_hashchain_ext_sign_and_append_def sign_and_append_def sign_transaction_def
      verify_signed_def hmac_verify_def chain_len_def test_hashchain_ext_export_def export_audit_log_def
      block_json_def json_member_def genesis_def test_journal_ext_net_position_def entry_new_def
      side_total_def leg_debit_def leg_credit_def ext_net_position_def test_account_ext_can_close_def
      account_new_def can_close_def balance_cents_def available_balance_cents_def chain_test_simps)

lemma audit_report_verified:
  assumes "report_lines (query_by_time t_from t_to c) = Some body" "verify_chain cr c = Some (True, [])"
  shows "audit_report cr t_from t_to c =
    Some (''=== AUDIT REPORT ==='' @
      (line_break @ ''Period: '' @ to_rfc3339 cr t_from @ '' '' @ utf8 [226, 134, 146] @ '' '' @
       to_rfc3339 cr t_to @ line_break @ ''Blocks: '' @ show_nat (length (query_by_time t_from t_to c)) @
       line_break @ line_break @ body @ line_break @ ''Integrity: '' @ utf8 [226, 156, 133]) @
      '' VERIFIED'' @ '' | Tampered: '' @ debug_u64s [] @ line_break)"
  using assms by (simp add: audit_report_def)

text \<open>Hexadecimal digests are ASCII texts of 64 characters.\<close>

lemma audit_report_test_passes:
  assumes "\<And>m. ascii (hex_encode cr (sha256 cr m)) \<and> length (hex_encode cr (sha256 cr m)) = 64"
  shows "passes (test_hashchain_ext_audit_report cr t0 t1 t2 now1 now2)"
proof -
  define t_from t_to where "t_from = now1 - 3600 * 1000000000" and "t_to = now2 + 3600 * 1000000000"
  let ?key = "as_bytes ''test-key-32-bytes-long!!!!!!''"
  obtain c where c: "append_each cr [(t1, ''event1''), (t2, ''event2'')] (chain_new cr t0 ?key) = Some c"
    "chain_ok cr c"
    using append_each_chain by blast
  have "\<forall>b \<in> set (blocks c). printable_block b"
    using c(1) assms
    by (auto simp: chain_test_simps genesis_def compute_hash_def printable_block_def zero_hash_def ascii_def)
  then obtain body where body: "report_lines (query_by_time t_from t_to c) = Some body"
    using report_lines_some [of "query_by_time t_from t_to c"] by (auto simp: query_by_time_def)
  have valid: "verify_chain cr c = Some (True, [])" using c(2) by (simp add: verify_chain_decides)
  obtain r1 r2 where report: "audit_report cr t_from t_to c = Some (''=== AUDIT REPORT ==='' @ r1 @ '' VERIFIED'' @ r2)"
    using audit_report_verified [OF body valid] by (rule that)
  have "sublist ''AUDIT REPORT'' (''=== AUDIT REPORT ==='' @ xs)" "sublist ''VERIFIED'' (xs @ ys @ '' VERIFIED'' @ zs)"
    for xs ys zs
    using sublist_appendI [of "''AUDIT REPORT''" "''=== ''" "'' ==='' @ xs"]
      sublist_appendI [of "''VERIFIED''" "xs @ ys @ '' ''" zs] by simp_all
  then show ?thesis
    unfolding test_hashchain_ext_audit_report_def Let_def c(1) Option.bind_lunit t_from_def [symmetric] t_to_def [symmetric] report
    by (simp only: test_simps if_True Option.bind_lunit)
qed

subsection \<open>Regression tests\<close>

definition usd_account :: "uuid \<Rightarrow> timestamp \<Rightarrow> account" where
  "usd_account i now = account_new i now now account_type.Asset ''USD'' 1000000 None"

text \<open>One thread credits, the other only reads.\<close>

definition repro_credit_documented_window :: "uuid \<Rightarrow> timestamp \<Rightarrow> (nat \<Rightarrow> timestamp) \<Rightarrow> unit option" where
  "repro_credit_documented_window i now clk = do {
     acc \<leftarrow> each (\<lambda>k acc. map_option snd (expect (credit acc 1 (clk k)))) [0..<1000] (usd_account i now);
     let final_bal = balance_cents acc;
     let final_avail = available_balance_cents acc;
     assert (final_bal = final_avail)
   }"

definition repro_release_hold_overflow :: "uuid \<Rightarrow> timestamp \<Rightarrow> unit option" where
  "repro_release_hold_overflow i now = do {
     (_, acc) \<leftarrow> expect (place_hold (usd_account i now) 500000);
     assert (available_balance_cents acc = 500000);
     (_, acc) \<leftarrow> expect (release_hold acc 500000);
     assert (available_balance_cents acc = 1000000);
     let (r, acc) = release_hold acc (word_of_int i64_max);
     assert (\<not> is_ok r)
   }"

definition repro_hold_ordering_weaker :: "uuid \<Rightarrow> timestamp \<Rightarrow> timestamp \<Rightarrow> unit option" where
  "repro_hold_ordering_weaker i now now2 = do {
     (_, acc) \<leftarrow> expect (place_hold (usd_account i now) 100);
     _ \<leftarrow> expect (debit acc 100 now2);
     Some ()
   }"

definition repro_hmac_not_rfc2104 :: "crypto \<Rightarrow> unit option" where
  "repro_hmac_not_rfc2104 cr = do {
     let key = as_bytes ''secret'';
     let sig1 = hmac_sign cr key (as_bytes ''transfer:100'');
     let sig2 = hmac_sign cr key (as_bytes ''transfer:1000'');
     assert (sig1 \<noteq> sig2)
   }"

definition repro_parallel_verify_is_stub :: "crypto \<Rightarrow> timestamp \<Rightarrow> unit option" where
  "repro_parallel_verify_is_stub cr now = do {
     let chain = chain_new cr now (as_bytes ''test-key-32-bytes-long!!!!!!'');
     (valid, tampered) \<leftarrow> parallel_verify_chain cr chain;
     assert valid;
     assert (tampered = [])
   }"

text \<open>The cast of a \<open>u64\<close> to \<open>i64\<close> keeps the bits.\<close>

definition repro_saga_timeout_truncation :: "unit option" where
  "repro_saga_timeout_truncation = do {
     let timeout = (- 1 :: u64);
     let duration = sint timeout;
     assert (duration < 0)
   }"

definition repro_hashchain_latest_returns_none_empty :: "crypto \<Rightarrow> timestamp \<Rightarrow> unit option" where
  "repro_hashchain_latest_returns_none_empty cr now = do {
     let chain = chain_new cr now (as_bytes ''key-32-bytes-long!!!!!!!!!!'');
     let chain = chain\<lparr>blocks := []\<rparr>;
     assert (latest chain = None)
   }"

definition repro_redact_mutates_chain :: "crypto \<Rightarrow> timestamp \<Rightarrow> timestamp \<Rightarrow> unit option" where
  "repro_redact_mutates_chain cr t0 t1 = do {
     let chain = chain_new cr t0 (as_bytes ''key-32-bytes-long!!!!!!!!!!'');
     (_, chain) \<leftarrow> chain_append cr t1 ''sensitive_data_PII'' chain;
     let hash_before = link_hash (blocks chain ! 1);
     (_, chain) \<leftarrow> expect (redact cr 1 chain);
     let hash_after = link_hash (blocks chain ! 1);
     assert (hash_before \<noteq> hash_after);
     assert (link_data (blocks chain ! 1) = ''[REDACTED]'')
   }"

lemma credits_keep_balances_equal:
  assumes "balance a = available_balance a" "acc_status a = Open" "0 \<le> sint (balance a)"
    and "sint (balance a) + int (length ks) \<le> i64_max"
  shows "\<exists>b. each (\<lambda>k acc. map_option snd (expect (credit acc 1 (clk k)))) ks a = Some b \<and>
    balance b = available_balance b"
  using assms
proof (induction ks arbitrary: a)
  case (Cons k ks)
  have sum: "sint (available_balance a + 1) = sint (available_balance a) + 1"
    using sint_add_i64 [of "available_balance a" 1] Cons.prems by (simp add: i64_simps)
  then have add: "checked_add_i64 (available_balance a) 1 = Some (available_balance a + 1)"
    using Cons.prems by (simp add: checked_add_i64_Some i64_simps)
  let ?b = "a\<lparr>balance := available_balance a + 1, available_balance := available_balance a + 1, last_updated := clk k\<rparr>"
  have "credit a 1 (clk k) = (Ok (available_balance a + 1), ?b)"
    using Cons.prems add by (simp add: credit_def Let_def)
  moreover have "\<exists>b. each (\<lambda>k acc. map_option snd (expect (credit acc 1 (clk k)))) ks ?b = Some b \<and>
      balance b = available_balance b"
    by (rule Cons.IH) (use Cons.prems sum in simp_all)
  ultimately show ?case by (simp add: expect_def)
qed simp

lemma account_regression_tests_pass:
  "passes (repro_credit_documented_window i now clk)"
  "passes (repro_release_hold_overflow i now)"
  "passes (repro_hold_ordering_weaker i now now2)"
proof -
  show "passes (repro_credit_documented_window i now clk)"
    using credits_keep_balances_equal [of "usd_account i now" "[0..<1000]" clk]
    by (auto simp: repro_credit_documented_window_def usd_account_def account_new_def balance_cents_def
        available_balance_cents_def i64_simps test_simps Let_def simp del: upt_Suc)
  show "passes (repro_release_hold_overflow i now)" "passes (repro_hold_ordering_weaker i now now2)"
    by (simp_all add: repro_release_hold_overflow_def repro_hold_ordering_weaker_def usd_account_def
        account_new_def place_hold_def release_hold_def debit_def checked_add_i64_def
        available_balance_cents_def i64_simps test_simps Let_def)
qed

lemma hmac_regression_test_passes:
  assumes "inj (hex_encode cr)"
    and "\<not> hmac_collision cr (as_bytes ''secret'') (as_bytes ''transfer:100'') (as_bytes ''transfer:1000'')"
  shows "passes (repro_hmac_not_rfc2104 cr)"
  using hmac_sign_collision [of cr "as_bytes ''secret''" "as_bytes ''transfer:100''" "as_bytes ''transfer:1000''"] assms
  by (auto simp: repro_hmac_not_rfc2104_def test_simps Let_def)

lemma chain_regression_tests_pass:
  "passes (repro_parallel_verify_is_stub cr now)"
  "passes (repro_hashchain_latest_returns_none_empty cr now)"
  "passes repro_saga_timeout_truncation"
  using verify_chain_decides [of cr "chain_new cr now (as_bytes ''test-key-32-bytes-long!!!!!!'')"]
    chain_new_ok [of cr now "as_bytes ''test-key-32-bytes-long!!!!!!''"]
  by (simp_all add: repro_parallel_verify_is_stub_def repro_hashchain_latest_returns_none_empty_def
      repro_saga_timeout_truncation_def parallel_verify_chain_def batch_verify_parallel_def length_chain_new
      latest_def test_simps Let_def)

text \<open>The digest of the redacted block is not the one before.\<close>

lemma redact_regression_test_passes:
  assumes "h = link_hash (genesis cr t0 ''GENESIS_BLOCK'')"
    and "compute_hash cr 1 h ''[REDACTED]'' t1 0 \<noteq> compute_hash cr 1 h ''sensitive_data_PII'' t1 0"
  shows "passes (repro_redact_mutates_chain cr t0 t1)"
  using assms
  by (simp add: repro_redact_mutates_chain_def redact_def rehash_at_def redacted_def genesis_def
      upt_conv_Cons chain_test_simps)

end
