(* ===== verification/Flow_Tests.thy ===== *)
theory Flow_Tests
  imports Unit_Testing Choreography Deadlock Handler_Bus Production
begin

section \<open>The unit tests of choreography, deadlock detection and the registry\<close>

text \<open>
  The tests of \<open>src/service/choreography.rs\<close>, \<open>src/service/advanced.rs\<close>,
  \<open>src/service/account_service.rs\<close> and the input validation of \<open>src/service/production.rs\<close> on the
  definitions of the model, with the rationals as the decimals of the transfers.
\<close>

subsection \<open>Choreographed transfers\<close>

text \<open>The answer and the new state of a handler that does not panic.\<close>

definition answered :: "'a option \<times> 's \<Rightarrow> ('a \<times> 's) option" where
  "answered p = map_option (\<lambda>x. (x, snd p)) (fst p)"

definition test_choreography_happy_path ::
  "rat decimal_pkg \<Rightarrow> uuid \<Rightarrow> string \<Rightarrow> timestamp \<Rightarrow> timestamp \<Rightarrow> timestamp \<Rightarrow> timestamp \<Rightarrow> unit option"
where
  "test_choreography_happy_path dp cid tid t1 t2 t3 t4 = do {
     let acct = choreo_seed ''bob'' 500 (choreo_seed ''alice'' 1000 choreo_new);
     let (initiated, st) = initiate_transfer cid tid t1 ''alice'' ''bob'' 200 Map.empty;
     r \<leftarrow> answered (handle_transfer_initiated dp t2 initiated acct);
     (debited, acct) \<leftarrow> expect r;
     let st = tx_account_debited debited st;
     r \<leftarrow> answered (handle_account_debited dp t3 debited (ti_to initiated) acct);
     (credited, acct) \<leftarrow> expect r;
     let (completed, st) = tx_account_credited t4 credited st;
     assert (ch_balances acct ''alice'' = Some 800);
     assert (ch_balances acct ''bob'' = Some 700);
     assert (st (ti_transaction_id initiated) = Some ChoreoCompleted)
   }"

definition test_choreography_insufficient_funds ::
  "rat decimal_pkg \<Rightarrow> uuid \<Rightarrow> string \<Rightarrow> timestamp \<Rightarrow> timestamp \<Rightarrow> timestamp \<Rightarrow> unit option"
where
  "test_choreography_insufficient_funds dp cid tid t1 t2 t3 = do {
     let acct = choreo_seed ''alice'' 10 choreo_new;
     let (initiated, st) = initiate_transfer cid tid t1 ''alice'' ''bob'' 200 Map.empty;
     (result, acct) \<leftarrow> answered (handle_transfer_initiated dp t2 initiated acct);
     failed \<leftarrow> (case result of Err f \<Rightarrow> Some f | Ok _ \<Rightarrow> None);
     assert (df_reason failed = ''INSUFFICIENT_FUNDS'');
     let (_, st) = tx_debit_failed t3 failed st;
     assert (st (ti_transaction_id initiated) = Some ChoreoFailed)
   }"

definition test_choreography_credit_failure_compensation ::
  "rat decimal_pkg \<Rightarrow> uuid \<Rightarrow> string \<Rightarrow> timestamp \<Rightarrow> timestamp \<Rightarrow> timestamp \<Rightarrow> timestamp \<Rightarrow> unit option"
where
  "test_choreography_credit_failure_compensation dp cid tid t1 t2 t3 t4 = do {
     let acct = choreo_seed ''alice'' 1000 choreo_new;
     let (initiated, st) = initiate_transfer cid tid t1 ''alice'' ''bob'' 200 Map.empty;
     r \<leftarrow> answered (handle_transfer_initiated dp t2 initiated acct);
     (debited, acct) \<leftarrow> expect r;
     let st = tx_account_debited debited st;
     (credit_result, acct) \<leftarrow> answered (handle_account_debited dp t3 debited ''bob'' acct);
     failed \<leftarrow> (case credit_result of Err f \<Rightarrow> Some f | Ok _ \<Rightarrow> None);
     assert (cf_reason failed = ''DESTINATION_NOT_FOUND'');
     let ((_, refund), st) = tx_credit_failed t4 t4 failed st;
     assert (rf_account_id refund = ''bob'');
     assert (rf_amount refund = 200);
     assert (ch_balances acct ''alice'' = Some 1000)
   }"

definition test_choreography_idempotent_debit ::
  "rat decimal_pkg \<Rightarrow> uuid \<Rightarrow> timestamp \<Rightarrow> timestamp \<Rightarrow> timestamp \<Rightarrow> unit option"
where
  "test_choreography_idempotent_debit dp cid t1 t2 t3 = do {
     let acct = choreo_seed ''alice'' 500 choreo_new;
     let event = \<lparr>ti_correlation_id = cid, ti_transaction_id = ''tx-123'', ti_from = ''alice'',
       ti_to = ''bob'', ti_amount = 100, ti_timestamp = t1\<rparr>;
     (r1, acct) \<leftarrow> answered (handle_transfer_initiated dp t2 event acct);
     assert (is_ok r1);
     (r2, acct) \<leftarrow> answered (handle_transfer_initiated dp t3 event acct);
     assert (is_ok r2);
     assert (ch_balances acct ''alice'' = Some 400)
   }"

lemma choreography_tests_pass:
  "passes (test_choreography_happy_path rat_pkg cid tid t1 t2 t3 t4)"
  "passes (test_choreography_insufficient_funds rat_pkg cid tid t1 t2 t3)"
  "passes (test_choreography_credit_failure_compensation rat_pkg cid tid t1 t2 t3 t4)"
  "passes (test_choreography_idempotent_debit rat_pkg cid t1 t2 t3)"
  by (simp_all add: test_choreography_happy_path_def test_choreography_insufficient_funds_def
      test_choreography_credit_failure_compensation_def test_choreography_idempotent_debit_def
      choreo_seed_def choreo_new_def initiate_transfer_def handle_transfer_initiated_def
      handle_account_debited_def debited_event_def debit_failed_event_def credited_event_def
      tx_account_debited_def tx_account_credited_def tx_debit_failed_def tx_credit_failed_def
      answered_def rat_pkg_def test_simps Let_def)

subsection \<open>Deadlock detection, latencies and the event bus\<close>

definition crossed_locks :: detector where
  "crossed_locks =
     (let dd = wait_for 1 ''B'' (acquire 1 ''A'' detector_new);
          dd = dd\<lparr>owners := (owners dd)(''A'' \<mapsto> 1)\<rparr>;
          dd = wait_for 2 ''A'' (acquire 2 ''B'' dd)
      in dd\<lparr>owners := (owners dd)(''B'' \<mapsto> 2)\<rparr>)"

definition test_deadlock_cycle_detection ::
  "(wait_graph \<Rightarrow> u64 list) \<Rightarrow> (u64 set \<Rightarrow> u64 list) \<Rightarrow> unit option"
where
  "test_deadlock_cycle_detection node_order set_order = do {
     c \<leftarrow> (case detect_cycle node_order set_order crossed_locks of Cycle c \<Rightarrow> Some c | _ \<Rightarrow> None);
     assert (1 \<in> set c \<and> 2 \<in> set c)
   }"

definition test_no_deadlock :: "(wait_graph \<Rightarrow> u64 list) \<Rightarrow> (u64 set \<Rightarrow> u64 list) \<Rightarrow> unit option" where
  "test_no_deadlock node_order set_order = do {
     let dd = acquire 2 ''B'' (acquire 1 ''A'' detector_new);
     let dd = dd\<lparr>owners := (owners dd)(''A'' \<mapsto> 1)\<rparr>;
     let dd = dd\<lparr>owners := (owners dd)(''B'' \<mapsto> 2)\<rparr>;
     assert (detect_cycle node_order set_order dd = NoCycle)
   }"

text \<open>The answer of the payment service; the test passes its name where the event type goes.\<close>

definition paid :: bus_handler where
  "paid payload = Ok (''{'' @ [CHR 0x22] @ ''paid'' @ [CHR 0x22] @ '':true,'' @ [CHR 0x22] @ ''order'' @
     [CHR 0x22] @ '':'' @ payload @ ''}'')"

definition test_choreography_event_bus :: "(nat \<Rightarrow> timestamp) \<Rightarrow> string \<Rightarrow> unit option" where
  "test_choreography_event_bus clk payload = do {
     let bus = subscribe ''OrderPlaced'' ''PaymentService'' paid hbus_new;
     let (_, bus) = publish clk ''OrderPlaced'' payload ''OrderService'' bus;
     assert (length (history bus) = 1);
     assert (be_type (history bus ! 0) = ''OrderPlaced'')
   }"

lemma crossed_locks_graph: "build_graph crossed_locks = [1 \<mapsto> {2}, 2 \<mapsto> {1}]"
  by (auto simp: build_graph_def crossed_locks_def detector_new_def acquire_def wait_for_def entry_push_def
      Let_def fun_eq_iff)

text \<open>The map has two keys, in one order or the other.\<close>

lemma deadlock_tests_pass:
  assumes "\<And>t. set_order {t} = [t]" "node_order Map.empty = []"
    and "node_order [1 \<mapsto> {2}, 2 \<mapsto> {1}] = [1, 2] \<or> node_order [1 \<mapsto> {2}, 2 \<mapsto> {1}] = [2, 1]"
  shows "passes (test_deadlock_cycle_detection node_order set_order)"
    and "passes (test_no_deadlock node_order set_order)"
proof -
  show "passes (test_deadlock_cycle_detection node_order set_order)"
    using assms
    by (auto simp: test_deadlock_cycle_detection_def detect_cycle_def crossed_locks_graph dfs_cycle_def
        neighbors_def test_simps Let_def)
  have "waiting d = Map.empty \<Longrightarrow> build_graph d = Map.empty" for d by (simp add: build_graph_def fun_eq_iff)
  then show "passes (test_no_deadlock node_order set_order)"
    using assms(2)
    by (simp add: test_no_deadlock_def detect_cycle_def detector_new_def acquire_def
        test_simps Let_def)
qed

text \<open>
  The test passes because its handler never runs: subscribed under the event type, the service
  answers, and the answer is a second event of the history.
\<close>

lemma event_bus_test_passes: "passes (test_choreography_event_bus clk payload)"
  by (simp add: test_choreography_event_bus_def publish_def record_event_def subscribe_def hbus_new_def
      handlers_of_def publish_loop.simps test_simps Let_def)

lemma event_bus_test_handler_idle:
  "length (history (snd (publish clk ''OrderPlaced'' payload ''OrderService''
     (subscribe ''PaymentService'' ''OrderPlaced'' paid hbus_new)))) = 2"
  by (simp add: publish_def record_event_def subscribe_def hbus_new_def handlers_of_def take_handler_def
      reply_of_def paid_def publish_loop.simps Let_def numeral_2_eq_2)

subsection \<open>The registry and input validation\<close>

definition dashmap_mutation_works :: "uuid \<Rightarrow> timestamp \<Rightarrow> timestamp \<Rightarrow> timestamp \<Rightarrow> unit option" where
  "dashmap_mutation_works uid t1 t2 t3 = do {
     let (acc, svc) = create_account uid t1 t1 account_type.Asset ''USD'' 1000000 None service_new;
     let k = acc_id acc;
     assert (balance_cents acc = 1000000);
     (new_bal, svc) \<leftarrow> expect (perform_credit k 500000 t2 svc);
     assert (new_bal = 1500000);
     a \<leftarrow> get_account k svc;
     assert (balance_cents a = 1500000);
     (new_bal, svc) \<leftarrow> expect (perform_debit k 300000 t3 svc);
     assert (new_bal = 1200000);
     a \<leftarrow> get_account k svc;
     assert (balance_cents a = 1200000)
   }"

definition test_security_input_validation :: "(string \<Rightarrow> bool) \<Rightarrow> unit option" where
  "test_security_input_validation parses = do {
     let valid_id = ''67e55044-10b1-426f-9247-bb680e5fe0c8'';
     assert (\<not> is_ok (validate_input parses 1000 ''not-a-uuid''));
     assert (\<not> is_ok (validate_input parses 1000 ''bad''));
     assert (\<not> is_ok (validate_input parses (- 100) valid_id));
     assert (is_ok (validate_input parses 100 valid_id));
     assert (\<not> is_ok (validate_input parses 2000000000000 valid_id))
   }"

lemma registry_test_passes: "passes (dashmap_mutation_works uid t1 t2 t3)"
  by (simp add: dashmap_mutation_works_def create_account_def service_new_def account_new_def
      account_clone_def perform_credit_def perform_debit_def credit_def debit_def checked_add_i64_def
      get_account_def balance_cents_def i64_simps test_simps Let_def)

text \<open>Of the package \<open>uuid\<close>: what it parses.\<close>

lemma input_validation_test_passes:
  "parses ''67e55044-10b1-426f-9247-bb680e5fe0c8'' \<Longrightarrow> \<not> parses ''not-a-uuid'' \<Longrightarrow> \<not> parses ''bad'' \<Longrightarrow>
   passes (test_security_input_validation parses)"
  by (simp add: test_security_input_validation_def validate_input_def test_simps Let_def)

end
