(* ===== verification/Spec2Isabelle.thy ===== *)
theory Spec2Isabelle
  imports Account_CAS Ledger_Service Hash_Chain Saga Ring_Buffer Resilience Event_Bus Event_Log
    Choreography Chart_Of_Accounts Idempotency Api Deadlock Handler_Bus Signing Monitors Concurrency Store Money
    Rate_Limiter Production Api_Contract Locking Stress Benchmark Startup Error_Texts
    Log_Tests Service_Tests Concurrency_Tests Ledger_Tests Flow_Tests
begin

text \<open>
  \<^bold>\<open>A verification of the banking ledger\<close> (the Rust crate under \<open>src/\<close>). All paths below are
  relative to \<open>src/src/\<close>.

  \<^bold>\<open>The program.\<close> A ledger in layers. \<open>domain/\<close> holds the data: accounts with atomic balances,
  journal entries of balanced legs, money, the chart of accounts, parties and identifiers.
  \<open>service/\<close> holds what acts on them: the account registry, the ledger service that posts
  entries to it, sagas, choreographed transfers, idempotent consumers, resilience patterns,
  condition variables, a deadlock detector. \<open>log/\<close> holds append-only records: the hash chain,
  the write-ahead log, the event bus, the ring buffer, signatures. \<open>api/mod.rs\<close> ties registry,
  journal, hash chain, roles, identities and breaker together behind REST handlers, and
  \<open>store/mod.rs\<close> writes them to a database and reads them back.

  \<^bold>\<open>Theories and sources.\<close>
  \<^item> \<open>Ledger_Prelude\<close>: machine integers (\<open>i64\<close>, \<open>u64\<close> as words), results, shared lemmas on
    lists and maps, the collections \<open>i64_simps\<close> and \<open>map_total_simps\<close>.
  \<^item> \<open>Account\<close>, \<open>Account_CAS\<close> (\<open>domain/account.rs\<close>): an account run by one thread, refining an
    unbounded purse; and its compare-and-swap loops interleaved, one access per step: no lost
    update, availability never negative, lock freedom, and the race of \<open>release_hold\<close>.
  \<^item> \<open>Journal\<close> (\<open>domain/journal.rs\<close>, \<open>JournalExt\<close> of \<open>extensions.rs\<close>): entries, totals in 128
    bits, reversal and its round trip, trial balances.
  \<^item> \<open>Account_Service\<close>, \<open>Ledger_Service\<close> (\<open>service/account_service.rs\<close>,
    \<open>service/ledger_service.rs\<close>): the registry; recording and reversing entries, with the
    invariant of the journal, conservation of funds, and what a failure leaves behind.
  \<^item> \<open>Hash_Chain\<close> (\<open>log/hash_chain.rs\<close>, \<open>HashChainExt\<close>): append, verify, redact, chunked
    verification, proofs, keyed signatures; every history verifies and the head commits to it.
  \<^item> \<open>Signing\<close> (\<open>log/signing.rs\<close>): canonical bytes, signing, the tamper check.
  \<^item> \<open>Saga\<close> (\<open>service/saga.rs\<close>): orchestrator, outbox, timeouts.
  \<^item> \<open>Choreography\<close> (\<open>service/choreography.rs\<close>), \<open>Handler_Bus\<close> and \<open>Deadlock\<close>
    (\<open>service/advanced.rs\<close>): event-driven transfers over the decimals of \<open>Money\<close>, whose sums may
    panic, the handler bus, the latency window, the wait-for graph and its depth-first search.
  \<^item> \<open>Monitors\<close>, \<open>Concurrency\<close> (\<open>service/concurrency.rs\<close>): condition variables as monitors with
    wait sets and spurious wake-ups; validation, the linearizable reference debit, analytics.
  \<^item> \<open>Ring_Buffer\<close> (\<open>log/ring_buffer.rs\<close>): the single-producer queue, the claim race, the
    histogram.
  \<^item> \<open>Event_Bus\<close> (\<open>log/event_bus.rs\<close>, \<open>service/event_bus_wiring.rs\<close>), \<open>Event_Log\<close>
    (\<open>log/event_log.rs\<close>): partitions, offsets, idempotent and transactional producers; the
    write-ahead log, commands, the read model.
  \<^item> \<open>Resilience\<close>, \<open>Rate_Limiter\<close> (\<open>service/resilience.rs\<close>): breaker, backoff, bulkhead,
    signals; token bucket over floats with infinities and NaN, incident detector, fault
    injection.
  \<^item> \<open>Idempotency\<close> (\<open>service/idempotency.rs\<close>, \<open>service/distributed_state.rs\<close>), \<open>Rbac\<close>
    (\<open>rbac.rs\<close>), \<open>Chart_Of_Accounts\<close> (\<open>domain/coa.rs\<close>), \<open>Identity\<close> (\<open>domain/party.rs\<close>,
    \<open>domain/identifier.rs\<close>, \<open>service/identity_service.rs\<close>).
  \<^item> \<open>Money\<close> (\<open>domain/money.rs\<close>, \<open>AccountExt\<close>): minor units, rounding, currencies.
  \<^item> \<open>Api\<close> (\<open>api/mod.rs\<close>): the application state and every handler that changes it.
  \<^item> \<open>Store\<close> (\<open>store/mod.rs\<close>, persistence of \<open>api/mod.rs\<close>): what a restart restores from a
    database whose schema may refuse documents, as \<open>.surreal/schema.surql\<close> does.
  \<^item> \<open>Production\<close> (\<open>service/production.rs\<close>): input validation and the texts it produces.
  \<^item> \<open>Json\<close>, \<open>Api_Views\<close>, \<open>Api_Contract\<close> (\<open>api/mod.rs\<close>, the reports of \<open>extensions.rs\<close>): JSON values
    and schemas; the bodies every handler answers with, the read-only handlers, the audit report
    and the route table; that each answer has the schema of its route, that a request finds one
    handler, that an overloaded server refuses.
  \<^item> \<open>Lock_Order\<close>, \<open>Locking\<close> (\<open>api/mod.rs\<close>): the read and write locks each handler takes, in
    order, run interleaved: without a store no reachable state is stuck, with one the
    redaction handler waits for itself.
  \<^item> \<open>Stress\<close> (\<open>service/stress_test.rs\<close>, \<open>service/thundering_herd.rs\<close>, \<open>service/affinity.rs\<close>,
    drop and percentiles of \<open>log/ring_buffer.rs\<close>): the load runs under every interleaving,
    what their reports count, the core mask.
  \<^item> \<open>Benchmark\<close> (\<open>service/production.rs\<close>, \<open>race_test\<close> of \<open>service/concurrency.rs\<close>, jitter and report of
    \<open>service/advanced.rs\<close>): counting threads under every interleaving, the simulations and their
    averages, socket calls, reports.
  \<^item> \<open>Startup\<close> (\<open>main.rs\<close>, \<open>serve\<close>, \<open>connect\<close> of \<open>store/mod.rs\<close>): what the environment configures, the
    fallback to memory, the state a server starts with.
  \<^item> \<open>Error_Texts\<close>: the texts of the errors of accounts, ledger, sagas, chart and authorization, which
    tell the errors apart.
  \<^item> \<open>Unit_Testing\<close>, \<open>Log_Tests\<close>, \<open>Service_Tests\<close>, \<open>Concurrency_Tests\<close>, \<open>Ledger_Tests\<close>, \<open>Flow_Tests\<close>: the
    unit tests of the source files and the two test files \<open>event_bus_edge_cases.rs\<close> and
    \<open>audit_bug_regression.rs\<close>, run on the definitions above. A test is a computation whose failed
    assertion is \<open>None\<close>, stated for all identifiers and instants it may draw and, where it starts
    threads, for every interleaving; the lemmas show that each passes.

  \<^bold>\<open>How the code is rendered.\<close> A struct is a record, an enum a datatype, \<open>Result\<close> a sum with
  \<open>Ok\<close> and \<open>Err\<close>, a panic \<open>None\<close> (or a constructor of its own), a hash map a partial map, and
  an association list where iteration order matters. Integers keep their width and wrap as the
  release profile does. Handlers and methods are functions of their state, each with all its
  early returns. Threads are steps: one shared access per step for atomics, one critical section
  per step for locks. What the code takes from elsewhere is an argument: instants, fresh
  identifiers, iteration orders; packages (digests, signatures, decimals, JSON, the database)
  are parameter records, with what is asked of them as named hypotheses that each have an
  instance.

  \<^bold>\<open>Interfaces.\<close> \<open>funds_cell\<close> (what a posting needs of an account, interpreted by the account's
  operations), \<open>leg_store\<close> (what posting legs needs of a registry, interpreted by the account
  service and by the ledger's own posting), \<open>bounded_fifo\<close> (the queue contract, interpreted by
  the ring buffer), \<open>broadcast_monitor\<close> (a monitor that loses no wake-up, interpreted by the
  blocking account), \<open>lock_discipline\<close> (threads whose scripts take locks in the order of a
  rank are never all stuck, interpreted by the scripts of the handlers), \<open>two_phase\<close> (threads whose
  iterations make two commuting accesses, interpreted by \<open>race_test\<close> and \<open>run_benchmark\<close>).

  \<^bold>\<open>Termination and fuel.\<close> Loops are structural recursion or have a measure: the number of
  unvisited nodes (deadlock search), of handlers (publication), of remaining steps. Interleaved
  loops are relations whose steps decrease a measure. Where the code waits for others
  (\<open>wait_for\<close> and \<open>pop_wait\<close> of the ring buffer) the loop is partial: it has no result when it does not
  end, and a theorem gives the conditions under which it does.

  \<^bold>\<open>What is not modelled.\<close> Messages on the console and in the log, the generation of keys, the
  health query of the database, the headers of HTTP answers, the tables printed by \<open>benchmarks.rs\<close>, the separate files of tests
  of single modules, and the unit tests that only measure times or print reports.
  Time passes only as the instants that are read: how long a sleep takes has no counterpart.
\<close>

end
